(* ===== verification/Lld_Prelude.thy ===== *)
theory Lld_Prelude
  imports Main "HOL-Library.Word" "HOL-Library.AList" "HOL-Library.Multiset"
begin

text \<open>
  Shared vocabulary of the development: names for the machine integer types of the C++ sources,
  results that carry an error, loops that stop at the first error, the byte image an output file
  is written into (with the little-endian accessors the sources call on it), the range predicates
  and sign extensions used by the relocation code, and the generic lemmas about all of these that
  several components need.
\<close>

unbundle bit_operations_syntax

section \<open>Machine integers\<close>

type_synonym u8 = "8 word"
type_synonym u16 = "16 word"
type_synonym u32 = "32 word"
type_synonym u64 = "64 word"

text \<open>A signed C++ integer has the type of the unsigned one of its width; where its sign matters
  it is read with \<open>sint\<close>, and an arithmetic right shift is \<open>signed_drop_bit\<close>.\<close>

type_synonym i32 = "32 word"
type_synonym i64 = "64 word"

text \<open>\<open>isInt n x\<close>, \<open>isUInt n x\<close>: the value fits a signed (unsigned) integer of \<open>n\<close> bits.\<close>

definition isInt :: "nat \<Rightarrow> i64 \<Rightarrow> bool" where
  "isInt n x \<longleftrightarrow> - (2 ^ (n - 1)) \<le> sint x \<and> sint x < 2 ^ (n - 1)"

definition isUInt :: "nat \<Rightarrow> u64 \<Rightarrow> bool" where
  "isUInt n x \<longleftrightarrow> uint x < 2 ^ n"

text \<open>\<open>signExtend n x\<close>: the low \<open>n\<close> bits of \<open>x\<close> read as a two's complement number.\<close>

definition signExtend :: "nat \<Rightarrow> i64 \<Rightarrow> i64" where
  "signExtend n x = signed_take_bit (n - 1) x"

text \<open>A value in range survives being cut to the width and extended again.\<close>

lemma isInt_signExtend:
  assumes "isInt n x" and "0 < n" and "n \<le> 64"
  shows "signExtend n x = x"
proof (rule bit_word_eqI)
  obtain k where k: "n = Suc k" "k < 64" using assms(2,3) by (cases n) auto
  have s: "signed_take_bit k (sint x) = sint x"
    using assms(1) k(1) by (simp add: isInt_def signed_take_bit_int_eq_self)
  fix j
  assume "j < LENGTH(64)"
  then show "bit (signExtend n x) j = bit x j"
    using k arg_cong [OF s, of "\<lambda>i. bit i j"]
    by (cases "j = 63"; cases "k = 63") (auto simp: signExtend_def bit_simps min_def split: if_splits)
qed

lemma scast_ucast_signExtend:
  "scast (ucast (x :: 64 word) :: 'a::len word) = signExtend LENGTH('a) x" if "LENGTH('a) \<le> 64"
  using that by (intro bit_word_eqI) (auto simp: signExtend_def bit_simps min_def)

lemma scast_ucast_isInt:
  "isInt LENGTH('a) x \<Longrightarrow> LENGTH('a) \<le> 64 \<Longrightarrow> scast (ucast (x :: 64 word) :: 'a::len word) = x"
  by (simp add: scast_ucast_signExtend isInt_signExtend)

lemma ucast_ucast_isUInt:
  assumes "isUInt LENGTH('a) x" and "LENGTH('a) \<le> 64"
  shows "ucast (ucast (x :: 64 word) :: 'a::len word) = x"
proof (rule bit_word_eqI)
  have t: "take_bit LENGTH('a) (uint x) = uint x"
    using assms(1) by (simp add: isUInt_def take_bit_int_eq_self)
  fix j
  assume "j < LENGTH(64)"
  then show "bit (ucast (ucast x :: 'a word) :: 64 word) j = bit x j"
    using arg_cong [OF t, of "\<lambda>i. bit i j"] by (auto simp: bit_simps)
qed

text \<open>Masks as the bits they hold, and what a zero conjunction says of single bits.\<close>

lemma mask_bits:
  "(0x3 :: 'a::len word) = mask 2" "(0x7 :: 'a word) = mask 3" "(0xFFF :: 'a word) = mask 12"
  "(0x3FFFF :: 'a word) = mask 18" "(0x7FFFF :: 'a word) = mask 19" "(0x3FFFFFF :: 'a word) = mask 26"
  "(0x1FFFFC :: 'a word) = push_bit 2 (mask 19)" "(0x01FFFFC :: 'a word) = push_bit 2 (mask 19)"
  "(0x0FFFFFFC :: 'a word) = push_bit 2 (mask 26)"
  "(0xFFC :: 'a word) = push_bit 2 (mask 10)" "(0xFF8 :: 'a word) = push_bit 3 (mask 9)"
  "(0xFFF000 :: 'a word) = push_bit 12 (mask 12)"
  by (simp_all add: mask_eq_exp_minus_1 push_bit_eq_mult)

lemma no_bit: "w AND mk = 0 \<Longrightarrow> bit mk j \<Longrightarrow> \<not> bit (w :: 'a::len word) j"
  by (metis bit_0_eq bit_and_iff bot_apply bot_bool_def)

lemma unat_of_nat_id: "n < 2 ^ LENGTH('a) \<Longrightarrow> unat (of_nat n :: 'a::len word) = n"
  by (simp add: unsigned_of_nat take_bit_nat_eq_self)

lemma of_nat_Suc': "of_nat (n + 1) = of_nat n + (1 :: 'a::len word)"
  by simp

lemma Suc_diff_2: "2 \<le> n \<Longrightarrow> Suc (Suc (n - 2)) = n" "\<not> n < 2 \<Longrightarrow> Suc (Suc (n - 2)) = n"
  by arith+

section \<open>Results and loops that may fail\<close>

named_theorems res_simps \<open>equations and splits for results\<close>

definition bind_res :: "'e + 'a \<Rightarrow> ('a \<Rightarrow> 'e + 'b) \<Rightarrow> 'e + 'b" where
  "bind_res r f = (case r of Inl e \<Rightarrow> Inl e | Inr x \<Rightarrow> f x)"

lemma bind_res_simps [simp]:
  "bind_res (Inl e) f = Inl e"
  "bind_res (Inr x) f = f x"
  by (simp_all add: bind_res_def)

lemma bind_res_Inr [res_simps]:
  "bind_res r f = Inr y \<longleftrightarrow> (\<exists>x. r = Inr x \<and> f x = Inr y)"
  by (cases r) auto

lemma bind_res_Inl [res_simps]:
  "bind_res r f = Inl e \<longleftrightarrow> r = Inl e \<or> (\<exists>x. r = Inr x \<and> f x = Inl e)"
  by (cases r) auto

text \<open>A range-based \<open>for\<close> loop whose body updates a state and may fail.\<close>

fun fold_res :: "('a \<Rightarrow> 's \<Rightarrow> 'e + 's) \<Rightarrow> 'a list \<Rightarrow> 's \<Rightarrow> 'e + 's" where
  "fold_res f [] s = Inr s"
| "fold_res f (x # xs) s = bind_res (f x s) (fold_res f xs)"

lemma fold_res_append:
  "fold_res f (xs @ ys) s = bind_res (fold_res f xs s) (fold_res f ys)"
proof (induction xs arbitrary: s)
  case Nil
  then show ?case by simp
next
  case (Cons x xs)
  then show ?case by (cases "f x s") simp_all
qed

text \<open>Loop rule: an invariant that the body keeps holds after the loop.\<close>

lemma fold_res_invariant:
  assumes "fold_res f xs s = Inr t" and "P s"
    and "\<And>x s t. x \<in> set xs \<Longrightarrow> P s \<Longrightarrow> f x s = Inr t \<Longrightarrow> P t"
  shows "P t"
  using assms
proof (induction xs arbitrary: s)
  case Nil
  then show ?case by simp
next
  case (Cons x xs)
  from Cons.prems(1) obtain u where "f x s = Inr u" and "fold_res f xs u = Inr t"
    by (auto simp: res_simps)
  then show ?case using Cons.IH Cons.prems(2,3) by (metis list.set_intros)
qed

lemma map_of_AList_update [simp]: "map_of (AList.update k v xs) = (map_of xs)(k \<mapsto> v)"
  by (rule update_conv')

lemma those_total: "\<forall>x \<in> set xs. f x \<noteq> None \<Longrightarrow> \<exists>ys. those (map f xs) = Some ys"
  by (induction xs) auto

lemma those_SomeD:
  "those (map f xs) = Some ys \<Longrightarrow> set ys = {y. \<exists>x \<in> set xs. f x = Some y}"
  by (induction xs arbitrary: ys) (auto split: option.splits)

section \<open>The byte image\<close>

text \<open>The output buffer is a function from offsets to bytes. The accessors are the little-endian
  loads and stores of the width in their name.\<close>

type_synonym mem = "nat \<Rightarrow> u8"

definition read16le :: "mem \<Rightarrow> nat \<Rightarrow> u16" where
  "read16le m a = ucast (m a) OR push_bit 8 (ucast (m (a + 1)))"

definition read32le :: "mem \<Rightarrow> nat \<Rightarrow> u32" where
  "read32le m a = ucast (read16le m a) OR push_bit 16 (ucast (read16le m (a + 2)))"

definition read64le :: "mem \<Rightarrow> nat \<Rightarrow> u64" where
  "read64le m a = ucast (read32le m a) OR push_bit 32 (ucast (read32le m (a + 4)))"

definition write16le :: "mem \<Rightarrow> nat \<Rightarrow> u16 \<Rightarrow> mem" where
  "write16le m a v = m(a := ucast v, a + 1 := ucast (drop_bit 8 v))"

definition write32le :: "mem \<Rightarrow> nat \<Rightarrow> u32 \<Rightarrow> mem" where
  "write32le m a v = write16le (write16le m a (ucast v)) (a + 2) (ucast (drop_bit 16 v))"

definition write64le :: "mem \<Rightarrow> nat \<Rightarrow> u64 \<Rightarrow> mem" where
  "write64le m a v = write32le (write32le m a (ucast v)) (a + 4) (ucast (drop_bit 32 v))"

lemma read_zero: "read32le (\<lambda>_. 0) a = 0"
  by (simp add: read32le_def read16le_def)

lemma read16le_write16le [simp]: "read16le (write16le m a v) a = v"
  by (rule bit_word_eqI) (auto simp: read16le_def write16le_def bit_simps)

lemma read16le_cong: "m a = m' a \<Longrightarrow> m (a + 1) = m' (a + 1) \<Longrightarrow> read16le m a = read16le m' a"
  by (simp add: read16le_def)

lemma write16le_other: "b \<notin> {a..<a + 2} \<Longrightarrow> write16le m a v b = m b"
  by (auto simp: write16le_def)

lemma read16le_write16le_other:
  "a + 2 \<le> b \<or> b + 2 \<le> a \<Longrightarrow> read16le (write16le m a v) b = read16le m b"
  by (rule read16le_cong) (auto simp: write16le_def)

lemma read32le_write32le [simp]: "read32le (write32le m a v) a = v"
  by (rule bit_word_eqI) (auto simp: read32le_def write32le_def read16le_write16le_other bit_simps)

lemma write32le_other: "b \<notin> {a..<a + 4} \<Longrightarrow> write32le m a v b = m b"
  by (auto simp: write32le_def write16le_def)

lemma read32le_write32le_other:
  "a + 4 \<le> b \<or> b + 4 \<le> a \<Longrightarrow> read32le (write32le m a v) b = read32le m b"
  by (auto simp: write32le_def read32le_def read16le_write16le_other)

lemma read64le_write64le [simp]: "read64le (write64le m a v) a = v"
  by (rule bit_word_eqI) (auto simp: read64le_def write64le_def read32le_write32le_other bit_simps)

lemma write64le_other: "b \<notin> {a..<a + 8} \<Longrightarrow> write64le m a v b = m b"
  by (auto simp: write64le_def write32le_def write16le_def)

text \<open>What the relocation code relies on when it patches a location: a store is read back, it leaves
  every byte outside the location alone, and a load depends on the bytes of the location only.\<close>

locale le_cell =
  fixes rd :: "mem \<Rightarrow> nat \<Rightarrow> 'w::len word" and wr :: "mem \<Rightarrow> nat \<Rightarrow> 'w word \<Rightarrow> mem" and width :: nat
  assumes rd_wr: "rd (wr m a v) a = v"
    and wr_frame: "b \<notin> {a..<a + width} \<Longrightarrow> wr m a v b = m b"
    and rd_local: "(\<And>b. b \<in> {a..<a + width} \<Longrightarrow> m b = m' b) \<Longrightarrow> rd m a = rd m' a"
begin

lemma rd_wr_disjoint:
  assumes "a + width \<le> b \<or> b + width \<le> a"
  shows "rd (wr m a v) b = rd m b"
  by (rule rd_local) (use assms in \<open>auto intro!: wr_frame\<close>)

text \<open>A masked read-modify-write: the bits under the mask become those of \<open>r\<close>, the others stay.\<close>

lemma patch_field:
  assumes "\<And>x. (x AND NOT mk) OR (r AND mk) = f x"
  shows "rd (wr m a (f (rd m a))) a AND NOT mk = rd m a AND NOT mk"
    and "rd (wr m a (f (rd m a))) a AND mk = r AND mk"
  unfolding assms [symmetric] rd_wr
  by (rule bit_word_eqI, simp add: bit_simps, blast)+

end

lemma read16le_local: "(\<And>b. b \<in> {a..<a + 2} \<Longrightarrow> m b = m' b) \<Longrightarrow> read16le m a = read16le m' a"
  by (simp add: read16le_def)

lemma read32le_local: "(\<And>b. b \<in> {a..<a + 4} \<Longrightarrow> m b = m' b) \<Longrightarrow> read32le m a = read32le m' a"
  by (simp add: read32le_def read16le_def)

lemma read64le_local: "(\<And>b. b \<in> {a..<a + 8} \<Longrightarrow> m b = m' b) \<Longrightarrow> read64le m a = read64le m' a"
  by (simp add: read64le_def read32le_def read16le_def)

interpretation c16: le_cell read16le write16le 2
  by unfold_locales (rule read16le_write16le, erule write16le_other, rule read16le_local)

interpretation c32: le_cell read32le write32le 4
  by unfold_locales (rule read32le_write32le, erule write32le_other, rule read32le_local)

interpretation c64: le_cell read64le write64le 8
  by unfold_locales (rule read64le_write64le, erule write64le_other, rule read64le_local)

end
