(* ===== verification/Atoms.thy ===== *)
theory Atoms
  imports Lld_Prelude
begin

text \<open>
  The data model of the core linker (include/lld/Core): atoms are the nodes of the link graph,
  references its edges, files own atoms. An atom is named by its address, a natural number, and
  the objects live in a \<open>store\<close>; what a C++ virtual function returns for an object is a field.
\<close>

section \<open>Atom.h\<close>

datatype definition_t =
  definitionRegular | definitionAbsolute | definitionUndefined | definitionSharedLibrary

datatype scope_t = scopeTranslationUnit | scopeLinkageUnit | scopeGlobal

section \<open>Reference.h\<close>

datatype kind_namespace = ns_all | ns_testing | ns_ELF | ns_COFF | ns_mach_o

datatype kind_arch =
  arch_all | arch_AArch64 | arch_ARM | arch_Hexagon | arch_Mips | arch_x86 | arch_x86_64

type_synonym atom_id = nat
type_synonym file_id = nat

record reference =
  kindNamespace :: kind_namespace
  kindArch :: kind_arch
  kindValue :: u16
  offsetInAtom :: u64
  target :: atom_id
  addend :: i64
  tag :: u32

definition kindLayoutAfter :: u16 where "kindLayoutAfter = 1"
definition kindGroupChild :: u16 where "kindGroupChild = 2"
definition kindAssociate :: u16 where "kindAssociate = 3"

section \<open>DefinedAtom.h\<close>

datatype interposable = interposeNo | interposeYes | interposeYesAndRuntimeWeak

datatype merge =
    mergeNo
  | mergeAsTentative
  | mergeAsWeak
  | mergeAsWeakAndAddressUsed
  | mergeSameNameAndSize
  | mergeByLargestSection
  | mergeByContent

datatype content_type =
    typeUnknown | typeCode | typeResolver | typeBranchIsland | typeBranchShim | typeStub
  | typeStubHelper | typeConstant | typeCString | typeUTF16String | typeCFI | typeLSDA
  | typeLiteral4 | typeLiteral8 | typeLiteral16 | typeData | typeDataFast | typeZeroFill
  | typeZeroFillFast | typeConstData | typeObjC1Class | typeLazyPointer | typeLazyDylibPointer
  | typeCFString | typeGOT | typeInitializerPtr | typeTerminatorPtr | typeCStringPtr
  | typeObjCClassPtr | typeObjC2CategoryList | typeDTraceDOF | typeInterposingTuples
  | typeTempLTO | typeCompactUnwindInfo | typeProcessedUnwindInfo | typeThunkTLV
  | typeTLVInitialData | typeTLVInitialZeroFill | typeTLVInitializerPtr | typeMachHeader
  | typeThreadZeroFill | typeThreadData | typeRONote | typeRWNote | typeNoAlloc
  | typeGroupComdat | typeGnuLinkOnce

datatype content_permissions = perm_None | permR | permRW | permRW_L | permR_X | permRWX | permUnknown

text \<open>The enumerators' values: bit 3 is read, bit 1 write, bit 2 execute.\<close>

fun perm_value :: "content_permissions \<Rightarrow> nat" where
  "perm_value perm_None = 0"
| "perm_value permR = 8"
| "perm_value permRW = 8 + 2"
| "perm_value permRW_L = 8 + 2 + 1"
| "perm_value permR_X = 8 + 4"
| "perm_value permRWX = 8 + 2 + 4"
| "perm_value permUnknown = 16"

datatype section_choice = sectionBasedOnContent | sectionCustomPreferred | sectionCustomRequired

datatype dead_strip_kind = deadStripNormal | deadStripNever | deadStripAlways

datatype dynamic_export = dynamicExportNormal | dynamicExportAlways

datatype code_model =
    codeNA | codeMipsPIC | codeMipsMicro | codeMipsMicroPIC | codeMips16
  | codeARMThumb | codeARM_a | codeARM_d | codeARM_t

record defined_atom =
  ordinal :: u64
  da_size :: u64
  sectionSize :: u64
  scope :: scope_t
  interpose :: interposable
  merge_of :: merge
  contentType :: content_type
  alignment :: "u16 \<times> u16"
  sectionChoice :: section_choice
  customSectionName :: string
  deadStrip_of :: dead_strip_kind
  dynamicExport :: dynamic_export
  codeModel :: code_model
  permissions_of :: content_permissions
  rawContent :: "u8 list"
  refs :: "reference list"

text \<open>\<open>permissions_of\<close> is the virtual \<open>permissions()\<close>; its default is this function of the type.\<close>

fun permissions :: "content_type \<Rightarrow> content_permissions" where
  "permissions typeCode = permR_X"
| "permissions typeResolver = permR_X"
| "permissions typeBranchIsland = permR_X"
| "permissions typeBranchShim = permR_X"
| "permissions typeStub = permR_X"
| "permissions typeStubHelper = permR_X"
| "permissions typeMachHeader = permR_X"
| "permissions typeConstant = permR"
| "permissions typeCString = permR"
| "permissions typeUTF16String = permR"
| "permissions typeCFI = permR"
| "permissions typeLSDA = permR"
| "permissions typeLiteral4 = permR"
| "permissions typeLiteral8 = permR"
| "permissions typeLiteral16 = permR"
| "permissions typeDTraceDOF = permR"
| "permissions typeCompactUnwindInfo = permR"
| "permissions typeProcessedUnwindInfo = permR"
| "permissions typeRONote = permR"
| "permissions typeNoAlloc = permR"
| "permissions typeData = permRW"
| "permissions typeDataFast = permRW"
| "permissions typeZeroFill = permRW"
| "permissions typeZeroFillFast = permRW"
| "permissions typeObjC1Class = permRW"
| "permissions typeLazyPointer = permRW"
| "permissions typeLazyDylibPointer = permRW"
| "permissions typeThunkTLV = permRW"
| "permissions typeRWNote = permRW"
| "permissions typeGOT = permRW_L"
| "permissions typeConstData = permRW_L"
| "permissions typeCFString = permRW_L"
| "permissions typeInitializerPtr = permRW_L"
| "permissions typeTerminatorPtr = permRW_L"
| "permissions typeCStringPtr = permRW_L"
| "permissions typeObjCClassPtr = permRW_L"
| "permissions typeObjC2CategoryList = permRW_L"
| "permissions typeInterposingTuples = permRW_L"
| "permissions typeTLVInitialData = permRW_L"
| "permissions typeTLVInitialZeroFill = permRW_L"
| "permissions typeTLVInitializerPtr = permRW_L"
| "permissions typeThreadData = permRW_L"
| "permissions typeThreadZeroFill = permRW_L"
| "permissions typeGroupComdat = permUnknown"
| "permissions typeGnuLinkOnce = permUnknown"
| "permissions typeUnknown = permUnknown"
| "permissions typeTempLTO = permUnknown"

definition occupiesDiskSpace :: "defined_atom \<Rightarrow> bool" where
  "occupiesDiskSpace a \<longleftrightarrow>
     \<not> (contentType a = typeZeroFill \<or> contentType a = typeZeroFillFast \<or>
        contentType a = typeTLVInitialZeroFill \<or> contentType a = typeThreadZeroFill)"

definition isGroupParent :: "defined_atom \<Rightarrow> bool" where
  "isGroupParent a \<longleftrightarrow> contentType a = typeGroupComdat \<or> contentType a = typeGnuLinkOnce"

section \<open>UndefinedAtom.h, SharedLibraryAtom.h, AbsoluteAtom.h\<close>

datatype can_be_null = canBeNullNever | canBeNullAtRuntime | canBeNullAtBuildtime

text \<open>The sources compare the enumerators with \<open><\<close>.\<close>

fun can_be_null_value :: "can_be_null \<Rightarrow> nat" where
  "can_be_null_value canBeNullNever = 0"
| "can_be_null_value canBeNullAtRuntime = 1"
| "can_be_null_value canBeNullAtBuildtime = 2"

instantiation can_be_null :: linorder
begin

definition less_eq_can_be_null :: "can_be_null \<Rightarrow> can_be_null \<Rightarrow> bool" where
  "less_eq_can_be_null a b \<longleftrightarrow> can_be_null_value a \<le> can_be_null_value b"

definition less_can_be_null :: "can_be_null \<Rightarrow> can_be_null \<Rightarrow> bool" where
  "less_can_be_null a b \<longleftrightarrow> can_be_null_value a < can_be_null_value b"

instance
proof
  fix a b :: can_be_null
  show "a \<le> b \<Longrightarrow> b \<le> a \<Longrightarrow> a = b"
    by (cases a; cases b) (simp_all add: less_eq_can_be_null_def)
qed (auto simp: less_eq_can_be_null_def less_can_be_null_def)

end

datatype atom =
    DefinedAtom (atom_name: string) (atom_file: file_id) (the_defined: defined_atom)
  | AbsoluteAtom (atom_name: string) (atom_file: file_id) (absValue: u64) (absScope: scope_t)
  | UndefinedAtom (atom_name: string) (atom_file: file_id) (canBeNull: can_be_null)
      (fallback: "atom_id option")
  | SharedLibraryAtom (atom_name: string) (atom_file: file_id) (loadName: string) (nullAtRuntime: bool)

fun definition_of :: "atom \<Rightarrow> definition_t" where
  "definition_of (DefinedAtom _ _ _) = definitionRegular"
| "definition_of (AbsoluteAtom _ _ _ _) = definitionAbsolute"
| "definition_of (UndefinedAtom _ _ _ _) = definitionUndefined"
| "definition_of (SharedLibraryAtom _ _ _ _) = definitionSharedLibrary"

section \<open>File.h\<close>

datatype file_kind = kindObject | kindSharedLibrary | kindArchiveLibrary

text \<open>The objects of a link: what each atom address holds and the kind of each file.\<close>

record store =
  atom_at :: "atom_id \<Rightarrow> atom"
  file_kind_of :: "file_id \<Rightarrow> file_kind"

abbreviation name_of :: "store \<Rightarrow> atom_id \<Rightarrow> string" where
  "name_of h a \<equiv> atom_name (atom_at h a)"

abbreviation is_defined_at :: "store \<Rightarrow> atom_id \<Rightarrow> bool" where
  "is_defined_at h a \<equiv> is_DefinedAtom (atom_at h a)"

abbreviation is_undefined_at :: "store \<Rightarrow> atom_id \<Rightarrow> bool" where
  "is_undefined_at h a \<equiv> is_UndefinedAtom (atom_at h a)"

text \<open>\<open>DefinedAtom::compareByPosition\<close>, with the ordinal of each file given by \<open>ford\<close>; the
  assertion that atoms of one file have different ordinals is the error case.\<close>

definition compareByPosition :: "(file_id \<Rightarrow> u64) \<Rightarrow> store \<Rightarrow> atom_id \<Rightarrow> atom_id \<Rightarrow> bool option" where
  "compareByPosition ford h l r =
     (if l = r then Some False
      else let lf = ford (atom_file (atom_at h l)); rf = ford (atom_file (atom_at h r));
               lo = ordinal (the_defined (atom_at h l)); ro = ordinal (the_defined (atom_at h r))
           in if lf \<noteq> rf then Some (lf < rf)
              else if lo = ro then None
              else Some (lo < ro))"

section \<open>LinkingContext.h\<close>

text \<open>The options the core linker reads, and whether the context is an \<open>ELFLinkingContext\<close>, whose
  \<open>notifySymbolTableCoalesce\<close> differs from the default.\<close>

record linking_context =
  deadStrip :: bool
  globalsAreDeadStripRoots :: bool
  deadStripRoots :: "string list"
  searchArchivesToOverrideTentativeDefinitions :: bool
  searchSharedLibrariesToOverrideTentativeDefinitions :: bool
  allowDuplicates :: bool
  warnIfCoalesableAtomsHaveDifferentCanBeNull :: bool
  warnIfCoalesableAtomsHaveDifferentLoadName :: bool
  printRemainingUndefines :: bool
  allowRemainingUndefines :: bool
  allowShlibUndefines :: bool
  isELF :: bool

text \<open>The constructor's initial values.\<close>

definition LinkingContext :: linking_context where
  "LinkingContext = \<lparr>deadStrip = False, globalsAreDeadStripRoots = False, deadStripRoots = [],
     searchArchivesToOverrideTentativeDefinitions = False,
     searchSharedLibrariesToOverrideTentativeDefinitions = False,
     allowDuplicates = False, warnIfCoalesableAtomsHaveDifferentCanBeNull = False,
     warnIfCoalesableAtomsHaveDifferentLoadName = False, printRemainingUndefines = True,
     allowRemainingUndefines = False,
     allowShlibUndefines = True, isELF = False\<rparr>"

end
