(* ===== verification/Symbol_Table.thy ===== *)
theory Symbol_Table
  imports Atoms
begin

text \<open>
  The symbol table of the core linker (lib/Core/SymbolTable.cpp): it coalesces atoms by name or by
  content and remembers, for every atom that lost, which atom replaces it. First the state and the
  operations in the order of the source, then the invariant they keep, then what the table
  promises its client.
\<close>

section \<open>State\<close>

text \<open>Diagnostics the table prints, and the ways it aborts: \<open>report_fatal_error\<close> or an assertion.\<close>

datatype diag =
    DifferentWeakness string file_id file_id
  | DifferentFallback string atom_id atom_id
  | DifferentLoadPath string file_id file_id
  | SizeMismatch string u64 u64
  | DuplicateSymbols string file_id file_id
  | UndefinedSymbol string file_id
  | SymbolsNotFound

datatype link_error = DuplicateSymbolError string | AssertionFailed string

text \<open>Hash tables are association lists in insertion order; the set of atoms unique by content is a
  list. \<open>dynamicallyExported\<close> is \<open>ELFLinkingContext::_dynamicallyExportedSymbols\<close>, which the table
  extends through \<open>notifySymbolTableCoalesce\<close>.\<close>

record symtab =
  replacedAtoms :: "atom_id \<rightharpoonup> atom_id"
  nameTable :: "(string \<times> atom_id) list"
  groupTable :: "(string \<times> atom_id) list"
  contentTable :: "atom_id list"
  dynamicallyExported :: "string list"
  errs :: "diag list"

definition empty_symtab :: symtab where
  "empty_symtab = \<lparr>replacedAtoms = Map.empty, nameTable = [], groupTable = [], contentTable = [],
     dynamicallyExported = [], errs = []\<rparr>"

section \<open>Lookup\<close>

definition findByName :: "symtab \<Rightarrow> string \<Rightarrow> atom_id option" where
  "findByName st nm = map_of (nameTable st) nm"

definition findGroup :: "symtab \<Rightarrow> string \<Rightarrow> atom_id option" where
  "findGroup st nm = map_of (groupTable st) nm"

definition isDefined :: "store \<Rightarrow> symtab \<Rightarrow> string \<Rightarrow> bool" where
  "isDefined h st nm =
     (case findByName st nm of Some a \<Rightarrow> \<not> is_undefined_at h a | None \<Rightarrow> False)"

definition addReplacement :: "atom_id \<Rightarrow> atom_id \<Rightarrow> symtab \<Rightarrow> symtab" where
  "addReplacement replaced repl st = st\<lparr>replacedAtoms := (replacedAtoms st)(replaced \<mapsto> repl)\<rparr>"

text \<open>The loop of \<open>replacement\<close> follows the chain to its end; \<open>None\<close> is the loop that never ends.\<close>

partial_function (option) replacement_of :: "(atom_id \<rightharpoonup> atom_id) \<Rightarrow> atom_id \<Rightarrow> atom_id option" where
  "replacement_of m a = (case m a of None \<Rightarrow> Some a | Some b \<Rightarrow> replacement_of m b)"

definition replacement :: "symtab \<Rightarrow> atom_id \<Rightarrow> atom_id option" where
  "replacement st a = replacement_of (replacedAtoms st) a"

definition isCoalescedAway :: "symtab \<Rightarrow> atom_id \<Rightarrow> bool" where
  "isCoalescedAway st a \<longleftrightarrow> replacedAtoms st a \<noteq> None"

definition undefines :: "store \<Rightarrow> symtab \<Rightarrow> atom_id list" where
  "undefines h st =
     filter (\<lambda>a. is_undefined_at h a \<and> replacedAtoms st a = None) (map snd (nameTable st))"

definition tentativeDefinitions :: "store \<Rightarrow> symtab \<Rightarrow> string list" where
  "tentativeDefinitions h st =
     map fst (filter (\<lambda>(n, a). is_defined_at h a \<and>
                        merge_of (the_defined (atom_at h a)) = mergeAsTentative) (nameTable st))"

section \<open>Collision tables\<close>

datatype name_collision = NCR_First | NCR_Second | NCR_DupDef | NCR_DupUndef | NCR_DupShLib | NCR_Error

definition cases_table :: "name_collision list list" where
  "cases_table =
    [[NCR_DupDef, NCR_Error,  NCR_First,    NCR_First],
     [NCR_Error,  NCR_Error,  NCR_First,    NCR_First],
     [NCR_Second, NCR_Second, NCR_DupUndef, NCR_Second],
     [NCR_Second, NCR_Second, NCR_First,    NCR_DupShLib]]"

fun definition_index :: "definition_t \<Rightarrow> nat" where
  "definition_index definitionRegular = 0"
| "definition_index definitionAbsolute = 1"
| "definition_index definitionUndefined = 2"
| "definition_index definitionSharedLibrary = 3"

definition collide :: "definition_t \<Rightarrow> definition_t \<Rightarrow> name_collision" where
  "collide first second = cases_table ! definition_index first ! definition_index second"

datatype merge_resolution = MCR_First | MCR_Second | MCR_Largest | MCR_SameSize | MCR_Error

definition mergeCases :: "merge_resolution list list" where
  "mergeCases =
    [[MCR_Error,    MCR_First,    MCR_First,    MCR_First,    MCR_SameSize, MCR_Largest],
     [MCR_Second,   MCR_Largest,  MCR_Second,   MCR_Second,   MCR_SameSize, MCR_Largest],
     [MCR_Second,   MCR_First,    MCR_First,    MCR_Second,   MCR_SameSize, MCR_Largest],
     [MCR_Second,   MCR_First,    MCR_First,    MCR_First,    MCR_SameSize, MCR_Largest],
     [MCR_SameSize, MCR_SameSize, MCR_SameSize, MCR_SameSize, MCR_SameSize, MCR_SameSize],
     [MCR_Largest,  MCR_Largest,  MCR_Largest,  MCR_Largest,  MCR_SameSize, MCR_Largest]]"

fun merge_index :: "merge \<Rightarrow> nat" where
  "merge_index mergeNo = 0"
| "merge_index mergeAsTentative = 1"
| "merge_index mergeAsWeak = 2"
| "merge_index mergeAsWeakAndAddressUsed = 3"
| "merge_index mergeSameNameAndSize = 4"
| "merge_index mergeByLargestSection = 5"
| "merge_index mergeByContent = 6"

definition mergeSelect :: "merge \<Rightarrow> merge \<Rightarrow> link_error + merge_resolution" where
  "mergeSelect first second =
     (if first = mergeByContent \<or> second = mergeByContent
      then Inl (AssertionFailed ''mergeSelect'')
      else Inr (mergeCases ! merge_index first ! merge_index second))"

section \<open>Adding by name\<close>

text \<open>What the \<open>switch\<close> decides: whether the new atom is kept, and what is printed on the way.\<close>

type_synonym decision = "link_error + bool \<times> diag list"

definition dup_error :: "linking_context \<Rightarrow> store \<Rightarrow> atom_id \<Rightarrow> atom_id \<Rightarrow> diag list \<Rightarrow> decision" where
  "dup_error ctx h existing new ds =
     (if \<not> allowDuplicates ctx then Inl (DuplicateSymbolError (name_of h new)) else Inr (False, ds))"

definition decide_defined :: "linking_context \<Rightarrow> store \<Rightarrow> atom_id \<Rightarrow> atom_id \<Rightarrow> decision" where
  "decide_defined ctx h existing new =
     (let ed = the_defined (atom_at h existing); nd = the_defined (atom_at h new);
          existingSize = sectionSize ed; newSize = sectionSize nd
      in bind_res (mergeSelect (merge_of ed) (merge_of nd)) (\<lambda>mr.
         case mr of
           MCR_First \<Rightarrow> Inr (False, [])
         | MCR_Second \<Rightarrow> Inr (True, [])
         | MCR_Largest \<Rightarrow> Inr (existingSize \<le> newSize, [])
         | MCR_SameSize \<Rightarrow>
             (if existingSize = newSize then Inr (True, [])
              else dup_error ctx h existing new
                     [SizeMismatch (name_of h existing) existingSize newSize])
         | MCR_Error \<Rightarrow> dup_error ctx h existing new []))"

definition decide_undefined :: "linking_context \<Rightarrow> store \<Rightarrow> atom_id \<Rightarrow> atom_id \<Rightarrow> decision" where
  "decide_undefined ctx h existing new =
     (let eu = atom_at h existing; nu = atom_at h new;
          sameCanBeNull = (canBeNull eu = canBeNull nu);
          d1 = (if \<not> sameCanBeNull \<and> warnIfCoalesableAtomsHaveDifferentCanBeNull ctx
                then [DifferentWeakness (atom_name eu) (atom_file eu) (atom_file nu)] else []);
          d2 = (case (fallback eu, fallback nu) of
                  (Some f, Some g) \<Rightarrow>
                    (if name_of h f \<noteq> name_of h g then [DifferentFallback (atom_name eu) f g] else [])
                | _ \<Rightarrow> []);
          useNew = (if sameCanBeNull then fallback nu \<noteq> None else canBeNull nu < canBeNull eu)
      in Inr (useNew, d1 @ d2))"

definition decide_shlib :: "linking_context \<Rightarrow> store \<Rightarrow> atom_id \<Rightarrow> atom_id \<Rightarrow> decision" where
  "decide_shlib ctx h existing new =
     (let cur = atom_at h existing; nw = atom_at h new;
          sameNullness = (nullAtRuntime cur = nullAtRuntime nw);
          sameName = (loadName cur = loadName nw);
          d1 = (if sameName \<and> \<not> sameNullness \<and> warnIfCoalesableAtomsHaveDifferentCanBeNull ctx
                then [DifferentWeakness (atom_name cur) (atom_file cur) (atom_file nw)] else []);
          d2 = (if \<not> sameName \<and> warnIfCoalesableAtomsHaveDifferentLoadName ctx
                then [DifferentLoadPath (atom_name cur) (atom_file cur) (atom_file nw)] else [])
      in Inr (False, d1 @ d2))"

definition decide :: "linking_context \<Rightarrow> store \<Rightarrow> atom_id \<Rightarrow> atom_id \<Rightarrow> decision" where
  "decide ctx h existing new =
     (case collide (definition_of (atom_at h existing)) (definition_of (atom_at h new)) of
        NCR_First \<Rightarrow> Inr (False, [])
      | NCR_Second \<Rightarrow> Inr (True, [])
      | NCR_DupDef \<Rightarrow> decide_defined ctx h existing new
      | NCR_DupUndef \<Rightarrow> decide_undefined ctx h existing new
      | NCR_DupShLib \<Rightarrow> decide_shlib ctx h existing new
      | NCR_Error \<Rightarrow> Inl (DuplicateSymbolError (name_of h new)))"

text \<open>\<open>ELFLinkingContext::notifySymbolTableCoalesce\<close>; every other context does nothing, and none
  changes \<open>useNew\<close>.\<close>

definition notifySymbolTableCoalesce ::
  "linking_context \<Rightarrow> store \<Rightarrow> atom_id \<Rightarrow> atom_id \<Rightarrow> symtab \<Rightarrow> symtab" where
  "notifySymbolTableCoalesce ctx h existing new st =
     (let da0 = is_defined_at h existing; ua0 = is_undefined_at h new;
          swap = (\<not> da0 \<and> \<not> ua0);
          d = (if swap then new else existing);
          u = (if swap then existing else new)
      in if isELF ctx \<and> is_defined_at h d \<and> is_undefined_at h u \<and>
            scope (the_defined (atom_at h d)) = scopeGlobal \<and>
            file_kind_of h (atom_file (atom_at h u)) = kindSharedLibrary
         then st\<lparr>dynamicallyExported := List.insert (name_of h u) (dynamicallyExported st)\<rparr>
         else st)"

definition addByName :: "linking_context \<Rightarrow> store \<Rightarrow> atom_id \<Rightarrow> symtab \<Rightarrow> link_error + symtab \<times> bool" where
  "addByName ctx h new st =
     (let name = name_of h new
      in if name = [] then Inl (AssertionFailed ''addByName'')
         else case findByName st name of
           None \<Rightarrow> Inr (st\<lparr>nameTable := AList.update name new (nameTable st)\<rparr>, True)
         | Some existing \<Rightarrow>
             if existing = new then Inr (st, False)
             else bind_res (decide ctx h existing new) (\<lambda>(useNew, ds).
               let st1 = notifySymbolTableCoalesce ctx h existing new (st\<lparr>errs := errs st @ ds\<rparr>)
               in if useNew
                  then Inr (st1\<lparr>nameTable := AList.update name new (nameTable st1),
                               replacedAtoms := (replacedAtoms st1)(existing \<mapsto> new)\<rparr>, False)
                  else Inr (st1\<lparr>replacedAtoms := (replacedAtoms st1)(new \<mapsto> existing)\<rparr>, False)))"

section \<open>Adding by content, groups\<close>

text \<open>\<open>AtomMappingInfo::isEqual\<close> on two live atoms; \<open>memcmp\<close> over the length of the left content.\<close>

definition isEqual :: "defined_atom \<Rightarrow> defined_atom \<Rightarrow> bool" where
  "isEqual l r =
     (if contentType l \<noteq> contentType r then False
      else if da_size l \<noteq> da_size r then False
      else if sectionChoice l \<noteq> sectionChoice r then False
      else if sectionChoice l = sectionCustomRequired \<and> customSectionName l \<noteq> customSectionName r
           then False
      else take (length (rawContent l)) (rawContent r) = rawContent l)"

definition addByContent :: "store \<Rightarrow> atom_id \<Rightarrow> symtab \<Rightarrow> symtab \<times> bool" where
  "addByContent h new st =
     (case find (\<lambda>e. e = new \<or> isEqual (the_defined (atom_at h new)) (the_defined (atom_at h e)))
             (contentTable st) of
        None \<Rightarrow> (st\<lparr>contentTable := contentTable st @ [new]\<rparr>, True)
      | Some existing \<Rightarrow> (st\<lparr>replacedAtoms := (replacedAtoms st)(new \<mapsto> existing)\<rparr>, False))"

definition addGroup :: "store \<Rightarrow> atom_id \<Rightarrow> symtab \<Rightarrow> link_error + symtab \<times> bool" where
  "addGroup h da st =
     (let name = name_of h da
      in if name = [] then Inl (AssertionFailed ''addGroup'')
         else case findGroup st name of
           None \<Rightarrow> Inr (st\<lparr>groupTable := AList.update name da (groupTable st)\<rparr>, True)
         | Some existing \<Rightarrow> Inr (st\<lparr>replacedAtoms := (replacedAtoms st)(da \<mapsto> existing)\<rparr>, False))"

text \<open>The four overloads of \<open>add\<close>.\<close>

definition add_defined :: "linking_context \<Rightarrow> store \<Rightarrow> atom_id \<Rightarrow> symtab \<Rightarrow> link_error + symtab \<times> bool" where
  "add_defined ctx h a st =
     (let d = the_defined (atom_at h a)
      in if name_of h a \<noteq> [] \<and> scope d \<noteq> scopeTranslationUnit
         then if merge_of d = mergeByContent then Inl (AssertionFailed ''add'') else addByName ctx h a st
         else if merge_of d = mergeByContent
         then if name_of h a \<noteq> [] then Inl (AssertionFailed ''add'')
              else if permissions_of d = permR then Inr (addByContent h a st)
              else Inr (st, False)
         else Inr (st, False))"

definition add_atom :: "linking_context \<Rightarrow> store \<Rightarrow> atom_id \<Rightarrow> symtab \<Rightarrow> link_error + symtab \<times> bool" where
  "add_atom ctx h a st =
     (if is_defined_at h a then add_defined ctx h a st else addByName ctx h a st)"

section \<open>Chains of replacements\<close>

lemma replacement_of_end: "m a = None \<Longrightarrow> replacement_of m a = Some a"
  by (subst replacement_of.simps) simp

lemma replacement_of_step: "m a = Some b \<Longrightarrow> replacement_of m a = replacement_of m b"
  by (subst replacement_of.simps) simp

lemma replacement_of_terminal: "replacement_of m a = Some t \<Longrightarrow> m t = None"
proof -
  assume ret: "replacement_of m a = Some t"
  show "m t = None"
    by (rule replacement_of.raw_induct [where P = "\<lambda>m a t. m t = None", OF _ ret])
      (auto split: option.splits)
qed

lemma replacement_of_induct [consumes 1, case_names stop step]:
  assumes ret: "replacement_of m a = Some t"
    and "\<And>a. m a = None \<Longrightarrow> P a a"
    and "\<And>a b t. m a = Some b \<Longrightarrow> replacement_of m b = Some t \<Longrightarrow> P b t \<Longrightarrow> P a t"
  shows "P a t"
proof -
  have "m = m \<longrightarrow> replacement_of m a = Some t \<and> P a t"
    apply (rule replacement_of.raw_induct
      [where P = "\<lambda>m' a t. m' = m \<longrightarrow> replacement_of m a = Some t \<and> P a t", OF _ ret])
    using assms(2,3) by (auto split: option.splits simp: replacement_of_end replacement_of_step)
  then show ?thesis by simp
qed

text \<open>Linking one end of a chain to another: every chain that ended at \<open>x\<close> now ends at \<open>y\<close>.\<close>

lemma replacement_of_link:
  assumes "replacement_of m a = Some t" and "m x = None" and "m y = None" and "x \<noteq> y"
  shows "replacement_of (m(x \<mapsto> y)) a = Some (if t = x then y else t)"
  using assms(1)
proof (induction rule: replacement_of_induct)
  case (stop a)
  have "replacement_of (m(x \<mapsto> y)) x = replacement_of (m(x \<mapsto> y)) y"
    by (rule replacement_of_step) simp
  also have "\<dots> = Some y"
    by (rule replacement_of_end) (use assms(3,4) in simp)
  finally have x: "replacement_of (m(x \<mapsto> y)) x = Some y" .
  show ?case
  proof (cases "a = x")
    case True
    show ?thesis unfolding True if_P [OF refl] by (rule x)
  next
    case False
    then show ?thesis unfolding if_not_P [OF False]
      by (intro replacement_of_end) (simp add: stop)
  qed
next
  case (step a b t)
  have "(m(x \<mapsto> y)) a = Some b"
    using step(1) assms(2) by (cases "a = x") simp_all
  then show ?case using step(3) by (simp only: replacement_of_step)
qed


definition is_group_at :: "store \<Rightarrow> atom_id \<Rightarrow> bool" where
  "is_group_at h a \<longleftrightarrow> is_defined_at h a \<and> isGroupParent (the_defined (atom_at h a))"

text \<open>The surviving atoms: those some table holds.\<close>

definition winners :: "symtab \<Rightarrow> atom_id set" where
  "winners st = ran (map_of (nameTable st)) \<union> ran (map_of (groupTable st)) \<union> set (contentTable st)"

text \<open>The invariant: a table holds an atom under its own name, a survivor is not replaced, and a
  replaced atom's chain ends at a survivor of the same name and kind.\<close>

definition tables_ok :: "store \<Rightarrow> symtab \<Rightarrow> bool" where
  "tables_ok h st \<longleftrightarrow> distinct (map fst (nameTable st)) \<and>
     (\<forall>n a. findByName st n = Some a \<longrightarrow> name_of h a = n \<and> n \<noteq> [] \<and> \<not> is_group_at h a) \<and>
     (\<forall>n a. findGroup st n = Some a \<longrightarrow> name_of h a = n \<and> n \<noteq> [] \<and> is_group_at h a) \<and>
     (\<forall>a \<in> set (contentTable st). name_of h a = [] \<and> \<not> is_group_at h a)"

definition replaced_ok :: "store \<Rightarrow> symtab \<Rightarrow> bool" where
  "replaced_ok h st \<longleftrightarrow>
     (\<forall>a \<in> winners st. replacedAtoms st a = None) \<and>
     (\<forall>a. replacedAtoms st a \<noteq> None \<longrightarrow>
        (\<exists>t \<in> winners st. replacement st a = Some t \<and> name_of h t = name_of h a \<and>
                         is_group_at h t = is_group_at h a))"

definition symtab_inv :: "store \<Rightarrow> symtab \<Rightarrow> bool" where
  "symtab_inv h st \<longleftrightarrow> tables_ok h st \<and> replaced_ok h st"

text \<open>An atom object the table has not seen.\<close>

definition fresh_atom :: "symtab \<Rightarrow> atom_id \<Rightarrow> bool" where
  "fresh_atom st a \<longleftrightarrow> a \<notin> winners st \<and> replacedAtoms st a = None"

lemma symtab_inv_empty: "symtab_inv h empty_symtab"
  by (simp add: symtab_inv_def tables_ok_def replaced_ok_def winners_def empty_symtab_def
      findByName_def findGroup_def)

lemma replacement_idle: "replacedAtoms st a = None \<Longrightarrow> replacement st a = Some a"
  by (simp add: replacement_def replacement_of_end)

lemma winners_cases:
  assumes "a \<in> winners st"
  obtains n where "findByName st n = Some a" | n where "findGroup st n = Some a"
    | "a \<in> set (contentTable st)"
  using assms by (auto simp: winners_def ran_def findByName_def findGroup_def)

lemma findByName_winner: "findByName st n = Some a \<Longrightarrow> a \<in> winners st"
  by (auto simp: winners_def findByName_def ran_def)

lemma findGroup_winner: "findGroup st n = Some a \<Longrightarrow> a \<in> winners st"
  by (auto simp: winners_def findGroup_def ran_def)

lemma content_winner: "a \<in> set (contentTable st) \<Longrightarrow> a \<in> winners st"
  by (auto simp: winners_def)

text \<open>Replacing one atom by another keeps the invariant when the chain of \<open>x\<close> has not started and
  \<open>y\<close> survives.\<close>

lemma replaced_ok_link:
  assumes ok: "replaced_ok h st" and x: "replacedAtoms st x = None" and y: "replacedAtoms st y = None"
    and xy: "x \<noteq> y" "name_of h x = name_of h y" "is_group_at h x = is_group_at h y"
    and m: "replacedAtoms st' = (replacedAtoms st)(x \<mapsto> y)"
    and w: "winners st - {x} \<subseteq> winners st'" "x \<notin> winners st'" "y \<in> winners st'"
      "winners st' \<subseteq> insert y (winners st)"
  shows "replaced_ok h st'"
  unfolding replaced_ok_def
proof (intro conjI ballI allI impI)
  fix a
  assume "a \<in> winners st'"
  then show "replacedAtoms st' a = None"
    using ok w m y by (auto simp: replaced_ok_def)
next
  fix a
  assume "replacedAtoms st' a \<noteq> None"
  then consider "a = x" | "a \<noteq> x" "replacedAtoms st a \<noteq> None"
    by (auto simp: m split: if_splits)
  then show "\<exists>t \<in> winners st'. replacement st' a = Some t \<and> name_of h t = name_of h a \<and>
               is_group_at h t = is_group_at h a"
  proof cases
    case 1
    have "replacement st' x = Some y"
      using replacement_of_link [OF replacement_of_end [of "replacedAtoms st", OF x] x y xy(1)]
      by (simp add: replacement_def m)
    with 1 xy w(3) show ?thesis by auto
  next
    case 2
    then obtain t where t: "t \<in> winners st" "replacement st a = Some t" "name_of h t = name_of h a"
      "is_group_at h t = is_group_at h a"
      using ok by (auto simp: replaced_ok_def)
    have "replacement st' a = Some (if t = x then y else t)"
      using replacement_of_link [OF t(2) [unfolded replacement_def] x y xy(1)]
      by (simp add: replacement_def m)
    with t xy w show ?thesis by (cases "t = x") auto
  qed
qed

section \<open>The invariant is kept\<close>

lemma notify_fields [simp]:
  "replacedAtoms (notifySymbolTableCoalesce ctx h e n st) = replacedAtoms st"
  "nameTable (notifySymbolTableCoalesce ctx h e n st) = nameTable st"
  "groupTable (notifySymbolTableCoalesce ctx h e n st) = groupTable st"
  "contentTable (notifySymbolTableCoalesce ctx h e n st) = contentTable st"
  by (simp_all add: notifySymbolTableCoalesce_def Let_def)

lemma addByName_cases:
  assumes "addByName ctx h new st = Inr (st', b)"
  obtains
    (new_name) "findByName st (name_of h new) = None" "b"
      "nameTable st' = AList.update (name_of h new) new (nameTable st)"
      "replacedAtoms st' = replacedAtoms st" "groupTable st' = groupTable st"
      "contentTable st' = contentTable st"
  | (same) "findByName st (name_of h new) = Some new" "\<not> b" "st' = st"
  | (use_new) existing ds where "findByName st (name_of h new) = Some existing" "existing \<noteq> new" "\<not> b"
      "decide ctx h existing new = Inr (True, ds)"
      "nameTable st' = AList.update (name_of h new) new (nameTable st)"
      "replacedAtoms st' = (replacedAtoms st)(existing \<mapsto> new)" "groupTable st' = groupTable st"
      "contentTable st' = contentTable st"
  | (use_old) existing ds where "findByName st (name_of h new) = Some existing" "existing \<noteq> new" "\<not> b"
      "decide ctx h existing new = Inr (False, ds)"
      "nameTable st' = nameTable st"
      "replacedAtoms st' = (replacedAtoms st)(new \<mapsto> existing)" "groupTable st' = groupTable st"
      "contentTable st' = contentTable st"
proof (cases "findByName st (name_of h new)")
  case None
  with assms show ?thesis
    by (intro new_name) (auto simp: addByName_def Let_def split: if_splits)
next
  case (Some existing)
  show ?thesis
  proof (cases "existing = new")
    case True
    with assms Some show ?thesis
      by (intro same) (auto simp: addByName_def Let_def split: if_splits)
  next
    case False
    with assms Some obtain useNew ds where d: "decide ctx h existing new = Inr (useNew, ds)"
      by (auto simp: addByName_def Let_def res_simps split: if_splits)
    show ?thesis
    proof (cases useNew)
      case True
      with assms Some False d show ?thesis
        by (intro use_new [of existing ds]) (auto simp: addByName_def Let_def split: if_splits)
    next
      case useOld: False
      with assms Some False d show ?thesis
        by (intro use_old [of existing ds]) (auto simp: addByName_def Let_def split: if_splits)
    qed
  qed
qed

lemma addByName_name_nonempty: "addByName ctx h new st = Inr r \<Longrightarrow> name_of h new \<noteq> []"
  by (auto simp: addByName_def)

lemma winners_update_new:
  assumes "findByName st n = None" "nameTable st' = AList.update n a (nameTable st)"
    "groupTable st' = groupTable st" "contentTable st' = contentTable st"
  shows "winners st' = insert a (winners st)"
  using assms by (auto simp: winners_def findByName_def ran_map_upd)

lemma winners_update_old:
  assumes "findByName st n = Some e" "nameTable st' = AList.update n a (nameTable st)"
    "groupTable st' = groupTable st" "contentTable st' = contentTable st"
    and "tables_ok h st"
  shows "winners st - {e} \<subseteq> winners st'" "a \<in> winners st'" "winners st' \<subseteq> insert a (winners st)"
    "e \<noteq> a \<Longrightarrow> e \<notin> winners st'"
proof -
  have map: "map_of (nameTable st') = (map_of (nameTable st))(n \<mapsto> a)"
    using assms(2) by simp
  show "a \<in> winners st'" "winners st' \<subseteq> insert a (winners st)"
    using assms(1,3,4) by (auto simp: winners_def map ran_def findByName_def split: if_splits)
  show "winners st - {e} \<subseteq> winners st'"
  proof
    fix x
    assume x: "x \<in> winners st - {e}"
    then have "x \<in> winners st" by simp
    then show "x \<in> winners st'"
    proof (cases rule: winners_cases)
      case (1 m)
      with x assms(1) have "findByName st' m = Some x" by (auto simp: findByName_def map)
      then show ?thesis by (rule findByName_winner)
    next
      case (2 m)
      then show ?thesis using assms(3) by (intro findGroup_winner [of _ m]) (simp add: findGroup_def)
    next
      case 3
      then show ?thesis using assms(4) by (intro content_winner) simp
    qed
  qed
  have e: "name_of h e = n" "n \<noteq> []" "\<not> is_group_at h e"
    using assms(1,5) by (auto simp: tables_ok_def)
  assume "e \<noteq> a"
  then have "\<not> findByName st' m = Some e" for m
    using assms(5) e by (auto simp: findByName_def map tables_ok_def)
  moreover have "\<not> findGroup st' m = Some e" for m
    using assms(3,5) e by (auto simp: findGroup_def tables_ok_def)
  moreover have "e \<notin> set (contentTable st')"
    using assms(4,5) e by (auto simp: tables_ok_def)
  ultimately show "e \<notin> winners st'" by (metis winners_cases)
qed

lemma addByName_inv:
  assumes inv: "symtab_inv h st" and fresh: "fresh_atom st a" and ng: "\<not> is_group_at h a"
    and add: "addByName ctx h a st = Inr (st', b)"
  shows "symtab_inv h st'" and "winners st' \<subseteq> insert a (winners st)"
    and "winners st \<union> dom (replacedAtoms st) \<union> {a} = winners st' \<union> dom (replacedAtoms st')"
    and "\<exists>t. findByName st' (name_of h a) = Some t \<and> replacement st' a = Some t"
proof -
  have ne: "name_of h a \<noteq> []" using add by (rule addByName_name_nonempty)
  have tok: "tables_ok h st" and rok: "replaced_ok h st" using inv by (auto simp: symtab_inv_def)
  have ra: "replacedAtoms st a = None" and aw: "a \<notin> winners st"
    using fresh by (auto simp: fresh_atom_def)
  have goal: "symtab_inv h st' \<and> winners st' \<subseteq> insert a (winners st) \<and>
    winners st \<union> dom (replacedAtoms st) \<union> {a} = winners st' \<union> dom (replacedAtoms st') \<and>
    (\<exists>t. findByName st' (name_of h a) = Some t \<and> replacement st' a = Some t)"
    using add
  proof (cases rule: addByName_cases)
    case new_name
    note w = winners_update_new [OF new_name(1,3,5,6)]
    have "tables_ok h st'"
      using tok new_name ne ng
      by (auto simp: tables_ok_def findByName_def findGroup_def distinct_update)
    moreover have "replaced_ok h st'"
      using rok new_name w ra by (auto simp: replaced_ok_def replacement_def)
    ultimately show ?thesis
      using new_name w ra by (auto simp: symtab_inv_def findByName_def replacement_idle)
  next
    case same
    then show ?thesis using aw findByName_winner by blast
  next
    case (use_new existing ds)
    note w = winners_update_old [OF use_new(1,5,7,8) tok]
    have ex: "name_of h existing = name_of h a" "\<not> is_group_at h existing" "replacedAtoms st existing = None"
      using tok rok use_new(1) findByName_winner by (auto simp: tables_ok_def replaced_ok_def)
    have "tables_ok h st'"
      using tok use_new ne ng
      by (auto simp: tables_ok_def findByName_def findGroup_def distinct_update)
    moreover have "replaced_ok h st'"
      by (rule replaced_ok_link [OF rok ex(3) ra use_new(2) _ _ use_new(6) w(1) w(4)])
        (use ex ng use_new(2) w in auto)
    moreover have "winners st \<union> dom (replacedAtoms st) \<union> {a} = winners st' \<union> dom (replacedAtoms st')"
      using use_new w findByName_winner [OF use_new(1)] by auto
    moreover have "replacement st' a = Some a"
      by (rule replacement_idle) (use use_new ra in auto)
    ultimately show ?thesis using use_new w by (auto simp: symtab_inv_def findByName_def)
  next
    case (use_old existing ds)
    have w: "winners st' = winners st" using use_old by (simp add: winners_def)
    have ex: "name_of h existing = name_of h a" "\<not> is_group_at h existing" "replacedAtoms st existing = None"
      using tok rok use_old(1) findByName_winner by (auto simp: tables_ok_def replaced_ok_def)
    have "tables_ok h st'"
      using tok use_old by (auto simp: tables_ok_def findByName_def findGroup_def)
    moreover have "replaced_ok h st'"
      by (rule replaced_ok_link [OF rok ra ex(3) use_old(2) [symmetric] _ _ use_old(6)])
        (use ex ng w aw findByName_winner [OF use_old(1)] in auto)
    moreover have "replacement st' a = Some existing"
      using replacement_of_link [OF replacement_of_end [of "replacedAtoms st", OF ra] ra ex(3) use_old(2) [symmetric]]
      by (simp add: replacement_def use_old(6))
    ultimately show ?thesis
      using use_old w by (auto simp: symtab_inv_def findByName_def)
  qed
  then show "symtab_inv h st'" "winners st' \<subseteq> insert a (winners st)"
    "winners st \<union> dom (replacedAtoms st) \<union> {a} = winners st' \<union> dom (replacedAtoms st')"
    "\<exists>t. findByName st' (name_of h a) = Some t \<and> replacement st' a = Some t"
    by blast+
qed

lemma addByContent_inv:
  assumes inv: "symtab_inv h st" and fresh: "fresh_atom st a" and ng: "\<not> is_group_at h a"
    and nm: "name_of h a = []" and add: "addByContent h a st = (st', b)"
  shows "symtab_inv h st'"
    and "winners st \<union> dom (replacedAtoms st) \<union> {a} = winners st' \<union> dom (replacedAtoms st')"
    and "\<exists>t \<in> set (contentTable st'). replacement st' a = Some t \<and>
           (t = a \<or> isEqual (the_defined (atom_at h a)) (the_defined (atom_at h t)))"
proof -
  have tok: "tables_ok h st" and rok: "replaced_ok h st" using inv by (auto simp: symtab_inv_def)
  have ra: "replacedAtoms st a = None" and aw: "a \<notin> winners st"
    using fresh by (auto simp: fresh_atom_def)
  let ?P = "\<lambda>e. e = a \<or> isEqual (the_defined (atom_at h a)) (the_defined (atom_at h e))"
  have "symtab_inv h st' \<and>
    winners st \<union> dom (replacedAtoms st) \<union> {a} = winners st' \<union> dom (replacedAtoms st') \<and>
    (\<exists>t \<in> set (contentTable st'). replacement st' a = Some t \<and> ?P t)"
  proof (cases "find ?P (contentTable st)")
    case None
    with add have st': "st' = st\<lparr>contentTable := contentTable st @ [a]\<rparr>"
      by (simp add: addByContent_def)
    have w: "winners st' = insert a (winners st)" by (auto simp: winners_def st')
    have "tables_ok h st'"
      using tok ng nm by (auto simp: tables_ok_def st' findByName_def findGroup_def)
    moreover have "replaced_ok h st'"
      using rok w ra by (auto simp: replaced_ok_def replacement_def st')
    ultimately show ?thesis using w ra by (auto simp: symtab_inv_def st' replacement_idle)
  next
    case (Some e)
    with add have st': "st' = st\<lparr>replacedAtoms := (replacedAtoms st)(a \<mapsto> e)\<rparr>"
      by (simp add: addByContent_def)
    have e: "e \<in> set (contentTable st)" "?P e" using Some by (auto simp: find_Some_iff)
    have ew: "e \<in> winners st" using e(1) by (rule content_winner)
    have ea: "a \<noteq> e" using ew aw by auto
    have re: "replacedAtoms st e = None" using rok ew by (auto simp: replaced_ok_def)
    have en: "name_of h e = []" "\<not> is_group_at h e" using tok e(1) by (auto simp: tables_ok_def)
    have w: "winners st' = winners st" by (simp add: winners_def st')
    have "tables_ok h st'" using tok by (auto simp: tables_ok_def st' findByName_def findGroup_def)
    moreover have "replaced_ok h st'"
      by (rule replaced_ok_link [OF rok ra re ea, of st']) (use en nm ng w aw ew in \<open>auto simp: st'\<close>)
    moreover have "replacement st' a = Some e"
      using replacement_of_link [OF replacement_of_end [of "replacedAtoms st", OF ra] ra re ea]
      by (simp add: replacement_def st')
    ultimately show ?thesis using w e by (auto simp: symtab_inv_def st')
  qed
  then show "symtab_inv h st'"
    "winners st \<union> dom (replacedAtoms st) \<union> {a} = winners st' \<union> dom (replacedAtoms st')"
    "\<exists>t \<in> set (contentTable st'). replacement st' a = Some t \<and> ?P t" by blast+
qed

lemma addGroup_inv:
  assumes inv: "symtab_inv h st" and fresh: "fresh_atom st a" and g: "is_group_at h a"
    and add: "addGroup h a st = Inr (st', b)"
  shows "symtab_inv h st'"
    and "winners st \<union> dom (replacedAtoms st) \<union> {a} = winners st' \<union> dom (replacedAtoms st')"
    and "\<exists>t. findGroup st' (name_of h a) = Some t \<and> replacement st' a = Some t"
    and "b \<longleftrightarrow> findGroup st (name_of h a) = None"
proof -
  have tok: "tables_ok h st" and rok: "replaced_ok h st" using inv by (auto simp: symtab_inv_def)
  have ra: "replacedAtoms st a = None" and aw: "a \<notin> winners st"
    using fresh by (auto simp: fresh_atom_def)
  have ne: "name_of h a \<noteq> []" using add by (auto simp: addGroup_def)
  have "symtab_inv h st' \<and>
    winners st \<union> dom (replacedAtoms st) \<union> {a} = winners st' \<union> dom (replacedAtoms st') \<and>
    (\<exists>t. findGroup st' (name_of h a) = Some t \<and> replacement st' a = Some t) \<and>
    (b \<longleftrightarrow> findGroup st (name_of h a) = None)"
  proof (cases "findGroup st (name_of h a)")
    case None
    with add ne have st': "st' = st\<lparr>groupTable := AList.update (name_of h a) a (groupTable st)\<rparr>" and b
      by (auto simp: addGroup_def)
    have w: "winners st' = insert a (winners st)"
      using None by (auto simp: winners_def st' findGroup_def ran_map_upd)
    have "tables_ok h st'"
      using tok g ne by (auto simp: tables_ok_def st' findByName_def findGroup_def)
    moreover have "replaced_ok h st'"
      using rok w ra by (auto simp: replaced_ok_def replacement_def st')
    ultimately show ?thesis
      using w ra \<open>b\<close> None by (auto simp: symtab_inv_def st' replacement_idle findGroup_def)
  next
    case (Some e)
    with add ne have st': "st' = st\<lparr>replacedAtoms := (replacedAtoms st)(a \<mapsto> e)\<rparr>" and b: "\<not> b"
      by (auto simp: addGroup_def)
    have ew: "e \<in> winners st" using Some by (rule findGroup_winner)
    have ea: "a \<noteq> e" using ew aw by auto
    have re: "replacedAtoms st e = None" using rok ew by (auto simp: replaced_ok_def)
    have en: "name_of h e = name_of h a" "is_group_at h e" using tok Some by (auto simp: tables_ok_def)
    have w: "winners st' = winners st" by (simp add: winners_def st')
    have "tables_ok h st'" using tok by (auto simp: tables_ok_def st' findByName_def findGroup_def)
    moreover have "replaced_ok h st'"
      by (rule replaced_ok_link [OF rok ra re ea, of st']) (use en g w aw ew in \<open>auto simp: st'\<close>)
    moreover have "replacement st' a = Some e"
      using replacement_of_link [OF replacement_of_end [of "replacedAtoms st", OF ra] ra re ea]
      by (simp add: replacement_def st')
    ultimately show ?thesis using w b Some by (auto simp: symtab_inv_def st' findGroup_def)
  qed
  then show "symtab_inv h st'"
    "winners st \<union> dom (replacedAtoms st) \<union> {a} = winners st' \<union> dom (replacedAtoms st')"
    "\<exists>t. findGroup st' (name_of h a) = Some t \<and> replacement st' a = Some t"
    "b \<longleftrightarrow> findGroup st (name_of h a) = None" by blast+
qed

text \<open>Which atoms are entered under their name.\<close>

definition by_name :: "store \<Rightarrow> atom_id \<Rightarrow> bool" where
  "by_name h a \<longleftrightarrow> \<not> is_group_at h a \<and>
     (is_defined_at h a \<longrightarrow> name_of h a \<noteq> [] \<and> scope (the_defined (atom_at h a)) \<noteq> scopeTranslationUnit)"

lemma add_atom_cases:
  assumes "add_atom ctx h a st = Inr (st', b)" and "\<not> is_group_at h a"
  obtains (name) "by_name h a" "addByName ctx h a st = Inr (st', b)"
  | (content) "\<not> by_name h a" "name_of h a = []" "addByContent h a st = (st', b)" "is_defined_at h a"
  | (skip) "\<not> by_name h a" "st' = st" "\<not> b"
  using assms by (auto simp: add_atom_def add_defined_def by_name_def Let_def split: if_splits)

lemma add_atom_inv:
  assumes inv: "symtab_inv h st" and fresh: "fresh_atom st a" and ng: "\<not> is_group_at h a"
    and add: "add_atom ctx h a st = Inr (st', b)"
  shows "symtab_inv h st'"
    and "winners st' \<union> dom (replacedAtoms st') \<subseteq> insert a (winners st \<union> dom (replacedAtoms st))"
    and "winners st \<union> dom (replacedAtoms st) \<subseteq> winners st' \<union> dom (replacedAtoms st')"
    and "by_name h a \<Longrightarrow> a \<in> winners st' \<union> dom (replacedAtoms st')"
proof -
  have "symtab_inv h st' \<and>
    winners st' \<union> dom (replacedAtoms st') \<subseteq> insert a (winners st \<union> dom (replacedAtoms st)) \<and>
    winners st \<union> dom (replacedAtoms st) \<subseteq> winners st' \<union> dom (replacedAtoms st') \<and>
    (by_name h a \<longrightarrow> a \<in> winners st' \<union> dom (replacedAtoms st'))"
    using add ng
  proof (cases rule: add_atom_cases)
    case name
    note i = addByName_inv [OF inv fresh ng name(2)]
    from i(1,3) show ?thesis by blast
  next
    case content
    note i = addByContent_inv [OF inv fresh ng content(2,3)]
    from i(1,2) content(1) show ?thesis by blast
  next
    case skip
    then show ?thesis using inv by auto
  qed
  then show "symtab_inv h st'"
    "winners st' \<union> dom (replacedAtoms st') \<subseteq> insert a (winners st \<union> dom (replacedAtoms st))"
    "winners st \<union> dom (replacedAtoms st) \<subseteq> winners st' \<union> dom (replacedAtoms st')"
    "by_name h a \<Longrightarrow> a \<in> winners st' \<union> dom (replacedAtoms st')" by blast+
qed

section \<open>Entering a sequence of atoms\<close>

text \<open>The dispatch of the resolver on one atom, and a whole link's atoms in order.\<close>

definition enter :: "linking_context \<Rightarrow> store \<Rightarrow> atom_id \<Rightarrow> symtab \<Rightarrow> link_error + symtab" where
  "enter ctx h a st =
     bind_res (if is_group_at h a then addGroup h a st else add_atom ctx h a st) (\<lambda>(st', _). Inr st')"

abbreviation enter_all :: "linking_context \<Rightarrow> store \<Rightarrow> atom_id list \<Rightarrow> symtab \<Rightarrow> link_error + symtab" where
  "enter_all ctx h \<equiv> fold_res (enter ctx h)"

definition seen :: "symtab \<Rightarrow> atom_id set" where
  "seen st = winners st \<union> dom (replacedAtoms st)"

lemma fresh_atom_seen: "fresh_atom st a \<longleftrightarrow> a \<notin> seen st"
  by (auto simp: fresh_atom_def seen_def)

lemma enter_inv:
  assumes "symtab_inv h st" and "a \<notin> seen st" and "enter ctx h a st = Inr st'"
  shows "symtab_inv h st'" and "seen st' \<subseteq> insert a (seen st)" and "seen st \<subseteq> seen st'"
    and "by_name h a \<or> is_group_at h a \<Longrightarrow> a \<in> seen st'"
proof -
  have "symtab_inv h st' \<and> seen st' \<subseteq> insert a (seen st) \<and> seen st \<subseteq> seen st' \<and>
    (by_name h a \<or> is_group_at h a \<longrightarrow> a \<in> seen st')"
  proof (cases "is_group_at h a")
    case True
    with assms(3) obtain b where "addGroup h a st = Inr (st', b)"
      by (auto simp: enter_def res_simps)
    from addGroup_inv [OF assms(1) _ True this] assms(2) show ?thesis
      by (auto simp: fresh_atom_seen seen_def)
  next
    case False
    with assms(3) obtain b where "add_atom ctx h a st = Inr (st', b)"
      by (auto simp: enter_def res_simps)
    note i = add_atom_inv [OF assms(1) _ False this]
    from i assms(2) False show ?thesis by (simp add: fresh_atom_seen seen_def)
  qed
  then show "symtab_inv h st'" "seen st' \<subseteq> insert a (seen st)" "seen st \<subseteq> seen st'"
    "by_name h a \<or> is_group_at h a \<Longrightarrow> a \<in> seen st'" by blast+
qed

lemma enter_all_inv:
  assumes "enter_all ctx h as st = Inr st'" and "symtab_inv h st" and "distinct as"
    and "set as \<inter> seen st = {}"
  shows "symtab_inv h st' \<and> seen st \<subseteq> seen st' \<and> seen st' \<subseteq> seen st \<union> set as \<and>
    (\<forall>a \<in> set as. by_name h a \<or> is_group_at h a \<longrightarrow> a \<in> seen st')"
  using assms
proof (induction as arbitrary: st)
  case Nil
  then show ?case by simp
next
  case (Cons a as)
  from Cons.prems(1) obtain su where su: "enter ctx h a st = Inr su" "enter_all ctx h as su = Inr st'"
    by (auto simp: res_simps)
  have a: "a \<notin> seen st" using Cons.prems(4) by auto
  note i = enter_inv [OF Cons.prems(2) a su(1)]
  have "set as \<inter> seen su = {}" using i(2) Cons.prems(3,4) by auto
  from Cons.IH [OF su(2) i(1) _ this] Cons.prems(3)
  have ih: "symtab_inv h st'" "seen su \<subseteq> seen st'" "seen st' \<subseteq> seen su \<union> set as"
    "\<forall>a \<in> set as. by_name h a \<or> is_group_at h a \<longrightarrow> a \<in> seen st'" by simp_all
  have "by_name h a \<or> is_group_at h a \<longrightarrow> a \<in> seen st'" using i(4) ih(2) by blast
  then show ?case using ih i(2,3) by auto
qed

section \<open>What the table promises\<close>

lemma symtab_inv_winner:
  "symtab_inv h st \<Longrightarrow> a \<in> winners st \<Longrightarrow> replacedAtoms st a = None"
  by (simp add: symtab_inv_def replaced_ok_def)

text \<open>The atom a chain ends at is not coalesced away, and it has the kind and name of its start.\<close>

lemma replacement_seen:
  assumes "symtab_inv h st" and "a \<in> seen st"
  obtains t where "replacement st a = Some t" "t \<in> winners st" "name_of h t = name_of h a"
    "is_group_at h t = is_group_at h a" "\<not> isCoalescedAway st t"
proof (cases "replacedAtoms st a")
  case None
  with assms have w: "a \<in> winners st" by (auto simp: seen_def)
  show ?thesis by (rule that [of a]) (use None w in \<open>auto simp: replacement_idle isCoalescedAway_def\<close>)
next
  case (Some b)
  with assms obtain t where "t \<in> winners st" "replacement st a = Some t" "name_of h t = name_of h a"
    "is_group_at h t = is_group_at h a"
    by (auto simp: symtab_inv_def replaced_ok_def)
  with assms symtab_inv_winner show ?thesis
    by (intro that [of t]) (auto simp: isCoalescedAway_def)
qed

lemma named_winner:
  assumes "symtab_inv h st" and "t \<in> winners st" and "name_of h t = n" "n \<noteq> []"
  shows "if is_group_at h t then findGroup st n = Some t else findByName st n = Some t"
  using assms(2)
proof (cases rule: winners_cases)
  case (1 m)
  with assms show ?thesis by (auto simp: symtab_inv_def tables_ok_def)
next
  case (2 m)
  with assms show ?thesis by (auto simp: symtab_inv_def tables_ok_def)
next
  case 3
  with assms show ?thesis by (auto simp: symtab_inv_def tables_ok_def)
qed

lemma findByName_name_nonempty:
  "symtab_inv h st \<Longrightarrow> findByName st n = Some a \<Longrightarrow> n \<noteq> [] \<and> name_of h a = n"
  by (auto simp: symtab_inv_def tables_ok_def)

lemmas enter_all_start = enter_all_inv [OF _ symtab_inv_empty]

lemma seen_empty [simp]: "seen empty_symtab = {}"
  by (simp add: seen_def winners_def empty_symtab_def)

lemma enter_by_name_nonempty:
  "enter ctx h a st = Inr st' \<Longrightarrow> by_name h a \<Longrightarrow> name_of h a \<noteq> []"
  by (auto simp: enter_def add_atom_def add_defined_def by_name_def addByName_def res_simps Let_def
      split: if_splits)

lemma enter_all_named:
  "enter_all ctx h as st = Inr st' \<Longrightarrow> a \<in> set as \<Longrightarrow> by_name h a \<Longrightarrow> name_of h a \<noteq> []"
  by (induction as arbitrary: st) (auto simp: res_simps dest: enter_by_name_nonempty)

text \<open>C2: When atoms are entered once each into an empty table and none is refused, every atom that takes part in name resolution has a replacement: the one atom the name table holds for its name, which was entered, has that name and is not coalesced away. In particular the loop of \<open>replacement\<close> ends.\<close>

theorem replacement_is_named_winner:
  assumes "enter_all ctx h as empty_symtab = Inr st" and "distinct as"
    and "a \<in> set as" and "by_name h a"
  shows "\<exists>t \<in> set as. replacement st a = Some t \<and> findByName st (name_of h a) = Some t \<and>
           name_of h t = name_of h a \<and> \<not> isCoalescedAway st t"
proof -
  from enter_all_start [OF assms(1,2)]
  have inv: "symtab_inv h st" and sub: "seen st \<subseteq> set as" and mem: "a \<in> seen st"
    using assms(3,4) by auto
  have ne: "name_of h a \<noteq> []" using assms by (blast dest: enter_all_named)
  from replacement_seen [OF inv mem] obtain t where
    t: "replacement st a = Some t" "t \<in> winners st" "name_of h t = name_of h a"
      "is_group_at h t = is_group_at h a" "\<not> isCoalescedAway st t" by metis
  have "findByName st (name_of h a) = Some t"
    using named_winner [OF inv t(2,3) ne] t(4) assms(4) by (simp add: by_name_def)
  with t sub show ?thesis by (auto simp: seen_def)
qed

text \<open>The strength of a definition: undefined, then shared library, then absolute or regular.\<close>

fun strength :: "definition_t \<Rightarrow> nat" where
  "strength definitionUndefined = 0"
| "strength definitionSharedLibrary = 1"
| "strength definitionAbsolute = 2"
| "strength definitionRegular = 2"

abbreviation strength_at :: "store \<Rightarrow> atom_id \<Rightarrow> nat" where
  "strength_at h a \<equiv> strength (definition_of (atom_at h a))"

lemma nth_4 [simp]: "[a, b, c, d] ! Suc 0 = b" "[a, b, c, d] ! 2 = c" "[a, b, c, d] ! 3 = d"
  by simp_all

lemma collide_simps [simp]:
  "collide definitionRegular d = (case d of definitionRegular \<Rightarrow> NCR_DupDef | definitionAbsolute \<Rightarrow> NCR_Error | _ \<Rightarrow> NCR_First)"
  "collide definitionAbsolute d = (case d of definitionRegular \<Rightarrow> NCR_Error | definitionAbsolute \<Rightarrow> NCR_Error | _ \<Rightarrow> NCR_First)"
  "collide definitionUndefined d = (case d of definitionUndefined \<Rightarrow> NCR_DupUndef | _ \<Rightarrow> NCR_Second)"
  "collide definitionSharedLibrary d = (case d of definitionUndefined \<Rightarrow> NCR_First
     | definitionSharedLibrary \<Rightarrow> NCR_DupShLib | _ \<Rightarrow> NCR_Second)"
  by (simp_all add: collide_def cases_table_def split: definition_t.split)

lemma decide_strength:
  assumes "decide ctx h e n = Inr (useNew, ds)"
  shows "strength_at h (if useNew then n else e) = max (strength_at h e) (strength_at h n)"
  using assms
  by (cases "definition_of (atom_at h e)"; cases "definition_of (atom_at h n)")
    (auto simp: decide_def decide_shlib_def Let_def)

lemma findByName_update:
  "nameTable st' = AList.update m a (nameTable st) \<Longrightarrow>
   findByName st' n = (if n = m then Some a else findByName st n)"
  by (simp add: findByName_def)

lemma findByName_cong: "nameTable st' = nameTable st \<Longrightarrow> findByName st' = findByName st"
  by (rule ext) (simp add: findByName_def)

lemma addByName_strength:
  assumes "addByName ctx h a st = Inr (st', b)"
  shows "findByName st n = Some t \<Longrightarrow> \<exists>t'. findByName st' n = Some t' \<and> strength_at h t \<le> strength_at h t'"
    and "\<exists>t'. findByName st' (name_of h a) = Some t' \<and> strength_at h a \<le> strength_at h t'"
proof -
  have "(findByName st n = Some t \<longrightarrow> (\<exists>t'. findByName st' n = Some t' \<and> strength_at h t \<le> strength_at h t')) \<and>
    (\<exists>t'. findByName st' (name_of h a) = Some t' \<and> strength_at h a \<le> strength_at h t')"
    using assms
  proof (cases rule: addByName_cases)
    case new_name
    then show ?thesis by (auto simp: findByName_update)
  next
    case same
    then show ?thesis by auto
  next
    case (use_new e ds)
    from decide_strength [OF use_new(4)] have "strength_at h e \<le> strength_at h a" by simp
    then show ?thesis using use_new by (auto simp: findByName_update)
  next
    case (use_old e ds)
    from decide_strength [OF use_old(4)] have "strength_at h a \<le> strength_at h e" by simp
    with use_old(1) show ?thesis by (auto simp: findByName_cong [OF use_old(5)])
  qed
  then show "findByName st n = Some t \<Longrightarrow> \<exists>t'. findByName st' n = Some t' \<and> strength_at h t \<le> strength_at h t'"
    and "\<exists>t'. findByName st' (name_of h a) = Some t' \<and> strength_at h a \<le> strength_at h t'" by blast+
qed

lemma addByContent_fields [simp]:
  "addByContent h a st = (st', b) \<Longrightarrow> nameTable st' = nameTable st"
  by (auto simp: addByContent_def split: option.splits)

lemma enter_strength:
  assumes "enter ctx h a st = Inr st'"
  shows "findByName st n = Some t \<Longrightarrow> \<exists>t'. findByName st' n = Some t' \<and> strength_at h t \<le> strength_at h t'"
    and "by_name h a \<Longrightarrow> \<exists>t'. findByName st' (name_of h a) = Some t' \<and> strength_at h a \<le> strength_at h t'"
proof -
  have "(findByName st n = Some t \<longrightarrow> (\<exists>t'. findByName st' n = Some t' \<and> strength_at h t \<le> strength_at h t')) \<and>
    (by_name h a \<longrightarrow> (\<exists>t'. findByName st' (name_of h a) = Some t' \<and> strength_at h a \<le> strength_at h t'))"
  proof (cases "is_group_at h a")
    case True
    with assms have "nameTable st' = nameTable st"
      by (auto simp: enter_def addGroup_def res_simps Let_def split: if_splits option.splits)
    then have "findByName st' = findByName st" by (rule findByName_cong)
    with True show ?thesis by (auto simp: by_name_def)
  next
    case False
    with assms obtain b where "add_atom ctx h a st = Inr (st', b)"
      by (auto simp: enter_def res_simps)
    then show ?thesis using False
    proof (cases rule: add_atom_cases)
      case name
      from addByName_strength [OF name(2)] show ?thesis by blast
    next
      case content
      with findByName_cong [OF addByContent_fields [OF content(3)]] show ?thesis by simp
    next
      case skip
      then show ?thesis by auto
    qed
  qed
  then show "findByName st n = Some t \<Longrightarrow> \<exists>t'. findByName st' n = Some t' \<and> strength_at h t \<le> strength_at h t'"
    and "by_name h a \<Longrightarrow> \<exists>t'. findByName st' (name_of h a) = Some t' \<and> strength_at h a \<le> strength_at h t'" by blast+
qed

lemma enter_all_strength:
  assumes "enter_all ctx h as st = Inr st'" and "findByName st n = Some t"
  shows "\<exists>t'. findByName st' n = Some t' \<and> strength_at h t \<le> strength_at h t'"
  using assms
proof (induction as arbitrary: st t)
  case Nil
  then show ?case by auto
next
  case (Cons a as)
  from Cons.prems(1) obtain su where su: "enter ctx h a st = Inr su" "enter_all ctx h as su = Inr st'"
    by (auto simp: res_simps)
  from enter_strength(1) [OF su(1) Cons.prems(2)] obtain u where
    "findByName su n = Some u" "strength_at h t \<le> strength_at h u" by blast
  with Cons.IH [OF su(2)] show ?case by fastforce
qed

text \<open>C4: The atom a name resolves to at the end is at least as strong as every atom entered under that name: a regular or absolute definition beats a shared library export, which beats an undefined symbol, whatever the order.\<close>

theorem strongest_definition_wins:
  assumes "enter_all ctx h as st0 = Inr st" and "a \<in> set as" and "by_name h a"
  shows "\<exists>t. findByName st (name_of h a) = Some t \<and> strength_at h a \<le> strength_at h t"
proof -
  from assms(2) obtain xs ys where as: "as = xs @ a # ys" by (meson split_list)
  with assms(1) obtain s1 s2 where s: "enter ctx h a s1 = Inr s2" "enter_all ctx h ys s2 = Inr st"
    by (auto simp: fold_res_append res_simps)
  from enter_strength(2) [OF s(1) assms(3)] obtain u where
    u: "findByName s2 (name_of h a) = Some u" "strength_at h a \<le> strength_at h u" by blast
  from enter_all_strength [OF s(2) u(1)] u(2) show ?thesis by fastforce
qed

text \<open>Two atoms that the rules can tell apart without looking at the order they arrive in.\<close>

definition distinguishable :: "store \<Rightarrow> atom_id \<Rightarrow> atom_id \<Rightarrow> bool" where
  "distinguishable h x y \<longleftrightarrow>
     definition_of (atom_at h x) \<noteq> definition_of (atom_at h y) \<or>
     (is_defined_at h x \<and> is_defined_at h y \<and>
        merge_of (the_defined (atom_at h x)) \<noteq> merge_of (the_defined (atom_at h y)) \<and>
        sectionSize (the_defined (atom_at h x)) \<noteq> sectionSize (the_defined (atom_at h y))) \<or>
     (is_undefined_at h x \<and> is_undefined_at h y \<and> canBeNull (atom_at h x) \<noteq> canBeNull (atom_at h y))"

fun mirror_mcr :: "merge_resolution \<Rightarrow> merge_resolution" where
  "mirror_mcr MCR_First = MCR_Second"
| "mirror_mcr MCR_Second = MCR_First"
| "mirror_mcr r = r"

lemma mergeSelect_mirror:
  "a \<noteq> b \<Longrightarrow> mergeSelect b a = map_sum id mirror_mcr (mergeSelect a b)"
  by (cases a; cases b) (simp_all add: mergeSelect_def mergeCases_def)

lemma decide_defined_mirror:
  assumes "decide_defined ctx h x y = Inr (u, ds)" and "\<not> allowDuplicates ctx"
    and "merge_of (the_defined (atom_at h x)) \<noteq> merge_of (the_defined (atom_at h y))"
    and "sectionSize (the_defined (atom_at h x)) \<noteq> sectionSize (the_defined (atom_at h y))"
  shows "\<exists>ds'. decide_defined ctx h y x = Inr (\<not> u, ds')"
proof -
  obtain r where r: "mergeSelect (merge_of (the_defined (atom_at h x))) (merge_of (the_defined (atom_at h y))) = Inr r"
    using assms(1) by (auto simp: decide_defined_def Let_def res_simps)
  with mergeSelect_mirror [OF assms(3)]
  have "mergeSelect (merge_of (the_defined (atom_at h y))) (merge_of (the_defined (atom_at h x))) = Inr (mirror_mcr r)"
    by simp
  with r assms(1,2,4) show ?thesis
    by (cases r) (auto simp: decide_defined_def Let_def dup_error_def split: if_splits)
qed

lemma is_defined_definition_of: "is_defined_at h a \<longleftrightarrow> definition_of (atom_at h a) = definitionRegular"
  by (cases "atom_at h a") auto

lemma is_undefined_definition_of: "is_undefined_at h a \<longleftrightarrow> definition_of (atom_at h a) = definitionUndefined"
  by (cases "atom_at h a") auto

text \<open>C24: As long as duplicate definitions are not allowed (with \<open>allowDuplicates\<close> the first of two definitions stays),
  the choice between two atoms that differ in kind, or two definitions that differ in merge class and section size, or
  two undefined symbols that differ in \<open>canBeNull\<close>, does not depend on which came first: when one is made (two
  strong definitions, for instance, are an error), seen in the other order the decision is the opposite one.\<close>

theorem winner_order_independent:
  assumes "\<not> allowDuplicates ctx" and "distinguishable h x y" and "decide ctx h x y = Inr (useNew, ds)"
  shows "\<exists>ds'. decide ctx h y x = Inr (\<not> useNew, ds')"
  using assms decide_defined_mirror [of ctx h x y useNew ds]
  by (cases "definition_of (atom_at h x)"; cases "definition_of (atom_at h y)")
    (auto simp: distinguishable_def decide_def decide_undefined_def is_defined_definition_of
      is_undefined_definition_of Let_def)

text \<open>C25: A second definition of a symbol whose definitions may not be merged is an error, unless duplicates are allowed; then the first definition stays in the table and replaces the second.\<close>

theorem duplicate_strong_definitions:
  assumes "findByName st (name_of h b) = Some a" and "a \<noteq> b" and "name_of h b \<noteq> []"
    and "is_defined_at h a" and "is_defined_at h b"
    and "merge_of (the_defined (atom_at h a)) = mergeNo" and "merge_of (the_defined (atom_at h b)) = mergeNo"
  shows "addByName ctx h b st =
    (if allowDuplicates ctx
     then Inr (st\<lparr>replacedAtoms := (replacedAtoms st)(b \<mapsto> a)\<rparr>, False)
     else Inl (DuplicateSymbolError (name_of h b)))"
proof -
  have "definition_of (atom_at h a) = definitionRegular" "definition_of (atom_at h b) = definitionRegular"
    using assms(4,5) by (auto simp: is_defined_definition_of)
  then have d: "decide ctx h a b =
      (if allowDuplicates ctx then Inr (False, []) else Inl (DuplicateSymbolError (name_of h b)))"
    using assms(6,7)
    by (simp add: decide_def decide_defined_def dup_error_def mergeSelect_def mergeCases_def Let_def)
  have n: "notifySymbolTableCoalesce ctx h a b st = st"
    using assms(4,5) by (cases "atom_at h a"; cases "atom_at h b") (auto simp: notifySymbolTableCoalesce_def Let_def)
  show ?thesis using assms(1-3) n by (simp add: addByName_def Let_def d)
qed

section \<open>Merging by content\<close>

lemma isEqual_refl: "isEqual d d"
  by (simp add: isEqual_def)

definition content_sized :: "defined_atom \<Rightarrow> bool" where
  "content_sized d \<longleftrightarrow> length (rawContent d) = unat (da_size d)"

lemma isEqual_content:
  "content_sized l \<Longrightarrow> content_sized r \<Longrightarrow>
   isEqual l r \<longleftrightarrow> contentType l = contentType r \<and> da_size l = da_size r \<and>
     sectionChoice l = sectionChoice r \<and>
     (sectionChoice l = sectionCustomRequired \<longrightarrow> customSectionName l = customSectionName r) \<and>
     rawContent l = rawContent r"
  by (auto simp: isEqual_def content_sized_def)

definition content_ok :: "store \<Rightarrow> symtab \<Rightarrow> bool" where
  "content_ok h st \<longleftrightarrow>
     (\<forall>a \<in> set (contentTable st). name_of h a = [] \<and> is_defined_at h a) \<and>
     (\<forall>a b. replacedAtoms st a = Some b \<longrightarrow> name_of h a = [] \<longrightarrow>
        b \<in> set (contentTable st) \<and> isEqual (the_defined (atom_at h a)) (the_defined (atom_at h b))) \<and>
     sorted_wrt (\<lambda>e n. \<not> isEqual (the_defined (atom_at h n)) (the_defined (atom_at h e))) (contentTable st)"

lemma content_ok_empty: "content_ok h empty_symtab"
  by (simp add: content_ok_def empty_symtab_def)

lemma addByName_content_ok:
  assumes "content_ok h st" and "symtab_inv h st" and "addByName ctx h a st = Inr (st', b)"
  shows "content_ok h st'"
  using assms(3)
proof (cases rule: addByName_cases)
  case (use_new e ds)
  have "name_of h e \<noteq> []" using findByName_name_nonempty [OF assms(2) use_new(1)] by simp
  with use_new assms(1) show ?thesis by (auto simp: content_ok_def)
next
  case (use_old e ds)
  have "name_of h a \<noteq> []" using assms(3) by (rule addByName_name_nonempty)
  with use_old assms(1) show ?thesis by (auto simp: content_ok_def)
qed (use assms(1) in \<open>auto simp: content_ok_def\<close>)

lemma addByContent_content_ok:
  assumes "content_ok h st" and "a \<notin> seen st" and "name_of h a = []" and "addByContent h a st = (st', b)"
    and "is_defined_at h a"
  shows "content_ok h st'"
proof -
  let ?P = "\<lambda>e. e = a \<or> isEqual (the_defined (atom_at h a)) (the_defined (atom_at h e))"
  show ?thesis
  proof (cases "find ?P (contentTable st)")
    case None
    with assms(4) have st': "st' = st\<lparr>contentTable := contentTable st @ [a]\<rparr>"
      by (simp add: addByContent_def)
    from None have "\<forall>e \<in> set (contentTable st). \<not> ?P e" by (simp add: find_None_iff)
    then show ?thesis using assms(1,3,5) by (auto simp: content_ok_def st' sorted_wrt_append)
  next
    case (Some e)
    with assms(4) have st': "st' = st\<lparr>replacedAtoms := (replacedAtoms st)(a \<mapsto> e)\<rparr>"
      by (simp add: addByContent_def)
    have "e \<in> set (contentTable st)" "?P e" using Some by (auto simp: find_Some_iff)
    moreover have "a \<noteq> e" using \<open>e \<in> set _\<close> assms(2) content_winner by (auto simp: seen_def)
    ultimately show ?thesis using assms(1) by (auto simp: content_ok_def st')
  qed
qed

lemma enter_content_ok:
  assumes "content_ok h st" and "symtab_inv h st" and "a \<notin> seen st" and "enter ctx h a st = Inr st'"
  shows "content_ok h st'"
proof (cases "is_group_at h a")
  case True
  with assms(4) obtain b where g: "addGroup h a st = Inr (st', b)" by (auto simp: enter_def res_simps)
  then have "name_of h a \<noteq> []" by (auto simp: addGroup_def)
  with g assms(1) show ?thesis
    by (auto simp: addGroup_def content_ok_def Let_def split: option.splits if_splits)
next
  case False
  with assms(4) obtain b where "add_atom ctx h a st = Inr (st', b)"
    by (auto simp: enter_def res_simps)
  then show ?thesis using False
  proof (cases rule: add_atom_cases)
    case name
    with assms show ?thesis by (blast intro: addByName_content_ok)
  next
    case content
    with assms show ?thesis by (blast intro: addByContent_content_ok)
  next
    case skip
    with assms show ?thesis by simp
  qed
qed

lemma enter_all_content_ok:
  assumes "enter_all ctx h as st = Inr st'" and "symtab_inv h st" and "content_ok h st" and "distinct as"
    and "set as \<inter> seen st = {}"
  shows "content_ok h st'"
  using assms
proof (induction as arbitrary: st)
  case Nil
  then show ?case by simp
next
  case (Cons a as)
  from Cons.prems(1) obtain su where su: "enter ctx h a st = Inr su" "enter_all ctx h as su = Inr st'"
    by (auto simp: res_simps)
  have a: "a \<notin> seen st" using Cons.prems(5) by auto
  note i = enter_inv [OF Cons.prems(2) a su(1)]
  have "set as \<inter> seen su = {}" using i(2) Cons.prems(4,5) by auto
  with Cons.IH [OF su(2) i(1) enter_content_ok [OF Cons.prems(3,2) a su(1)]] Cons.prems(4)
  show ?case by simp
qed

text \<open>A constant that may be merged with others of the same bytes.\<close>

definition mergeable_constant :: "store \<Rightarrow> atom_id \<Rightarrow> bool" where
  "mergeable_constant h a \<longleftrightarrow> is_defined_at h a \<and> \<not> is_group_at h a \<and> name_of h a = [] \<and>
     merge_of (the_defined (atom_at h a)) = mergeByContent \<and>
     permissions_of (the_defined (atom_at h a)) = permR"

lemma enter_mergeable:
  assumes "symtab_inv h st" and "a \<notin> seen st" and "enter ctx h a st = Inr st'" and "mergeable_constant h a"
  shows "a \<in> seen st'"
proof -
  from assms(3,4) obtain b where "addByContent h a st = (st', b)"
    by (auto simp: mergeable_constant_def enter_def add_atom_def add_defined_def split: prod.splits)
  from addByContent_inv(2) [OF assms(1) _ _ _ this] assms(2,4) show ?thesis
    by (auto simp: mergeable_constant_def seen_def fresh_atom_def)
qed

lemma enter_all_mergeable:
  assumes "enter_all ctx h as st = Inr st'" and "symtab_inv h st" and "distinct as"
    and "set as \<inter> seen st = {}" and "a \<in> set as" and "mergeable_constant h a"
  shows "a \<in> seen st'"
  using assms
proof (induction as arbitrary: st)
  case Nil
  then show ?case by simp
next
  case (Cons x as)
  from Cons.prems(1) obtain su where su: "enter ctx h x st = Inr su" "enter_all ctx h as su = Inr st'"
    by (auto simp: res_simps)
  have x: "x \<notin> seen st" using Cons.prems(4) by auto
  note i = enter_inv [OF Cons.prems(2) x su(1)]
  have dj: "set as \<inter> seen su = {}" using i(2) Cons.prems(3,4) by auto
  have sub: "seen su \<subseteq> seen st'"
    using enter_all_inv [OF su(2) i(1) _ dj] Cons.prems(3) by simp
  show ?case
  proof (cases "a = x")
    case True
    with enter_mergeable [OF Cons.prems(2) x su(1)] Cons.prems(6) sub show ?thesis by auto
  next
    case False
    with Cons.IH [OF su(2) i(1) _ dj] Cons.prems show ?thesis by simp
  qed
qed

lemma content_survivor:
  assumes "symtab_inv h st" and "content_ok h st" and "a \<in> seen st" and "mergeable_constant h a"
  obtains t where "replacement st a = Some t" "t \<in> set (contentTable st)"
    "isEqual (the_defined (atom_at h a)) (the_defined (atom_at h t))"
proof (cases "replacedAtoms st a")
  case None
  with assms(3) have "a \<in> winners st" by (auto simp: seen_def)
  then have "a \<in> set (contentTable st)"
  proof (cases rule: winners_cases)
    case (1 n)
    with assms show ?thesis using findByName_name_nonempty by (auto simp: mergeable_constant_def)
  next
    case (2 n)
    with assms show ?thesis by (auto simp: mergeable_constant_def symtab_inv_def tables_ok_def)
  qed
  then show ?thesis by (intro that [of a]) (simp_all add: None replacement_idle isEqual_refl)
next
  case (Some b)
  with assms have b: "b \<in> set (contentTable st)"
    "isEqual (the_defined (atom_at h a)) (the_defined (atom_at h b))"
    by (auto simp: content_ok_def mergeable_constant_def)
  have "replacedAtoms st b = None"
    using assms(1) b(1) by (blast intro: symtab_inv_winner content_winner)
  then have "replacement st a = Some b"
    using Some by (simp add: replacement_def replacement_of_step [of _ a b] replacement_of_end [of _ b])
  with b that show ?thesis by blast
qed

text \<open>C26: When distinct atoms are entered into an empty table, none of them with a size other than that of its content,
  two unnamed read-only constants among them that merge by content and that \<open>isEqual\<close> accepts as equal get the same
  replacement, whose bytes are theirs.\<close>

theorem content_coalescing:
  assumes "enter_all ctx h as empty_symtab = Inr st" and "distinct as"
    and "\<forall>x \<in> set as. is_defined_at h x \<longrightarrow> content_sized (the_defined (atom_at h x))"
    and "a \<in> set as" and "b \<in> set as" and "mergeable_constant h a" and "mergeable_constant h b"
    and "isEqual (the_defined (atom_at h a)) (the_defined (atom_at h b))"
  shows "\<exists>t \<in> set as. replacement st a = Some t \<and> replacement st b = Some t \<and>
           rawContent (the_defined (atom_at h t)) = rawContent (the_defined (atom_at h a))"
proof -
  from enter_all_start [OF assms(1,2)]
  have inv: "symtab_inv h st" and sub: "seen st \<subseteq> set as" by auto
  have cok: "content_ok h st"
    using enter_all_content_ok [OF assms(1) symtab_inv_empty content_ok_empty assms(2)] by simp
  have mem: "a \<in> seen st" "b \<in> seen st"
    using enter_all_mergeable [OF assms(1) symtab_inv_empty assms(2)] assms(4-7) by auto
  obtain t where t: "replacement st a = Some t" "t \<in> set (contentTable st)"
    "isEqual (the_defined (atom_at h a)) (the_defined (atom_at h t))"
    using content_survivor [OF inv cok mem(1) assms(6)] .
  obtain u where u: "replacement st b = Some u" "u \<in> set (contentTable st)"
    "isEqual (the_defined (atom_at h b)) (the_defined (atom_at h u))"
    using content_survivor [OF inv cok mem(2) assms(7)] .
  have tu: "t \<in> set as" "u \<in> set as"
    using t(2) u(2) content_winner sub by (auto simp: seen_def)
  have "is_defined_at h t" "is_defined_at h u" "is_defined_at h a" "is_defined_at h b"
    using cok t(2) u(2) assms(6,7) by (auto simp: content_ok_def mergeable_constant_def)
  then have eq: "isEqual (the_defined (atom_at h t)) (the_defined (atom_at h u))"
    "isEqual (the_defined (atom_at h u)) (the_defined (atom_at h t))"
    "rawContent (the_defined (atom_at h t)) = rawContent (the_defined (atom_at h a))"
    using t(3) u(3) assms(3-5,8) tu by (auto simp: isEqual_content)
  have "t = u"
  proof (rule ccontr)
    assume "t \<noteq> u"
    moreover obtain i j where "i < length (contentTable st)" "j < length (contentTable st)"
      "contentTable st ! i = t" "contentTable st ! j = u"
      using t(2) u(2) by (auto simp: in_set_conv_nth)
    ultimately show False
      using cok eq(1,2) by (auto simp: content_ok_def sorted_wrt_iff_nth_less) (metis linorder_neqE_nat)
  qed
  with t(1) u(1) tu(1) eq(3) show ?thesis by auto
qed

section \<open>The interface the resolver uses\<close>

text \<open>What a client may rely on: following replacements always ends, at an atom that is not coalesced
  away, and an atom that is not coalesced away is its own replacement.\<close>

locale coalescer =
  fixes repl :: "'t \<Rightarrow> atom_id \<Rightarrow> atom_id option"
    and gone :: "'t \<Rightarrow> atom_id \<Rightarrow> bool"
    and inv :: "'t \<Rightarrow> bool"
  assumes repl_ends: "inv t \<Longrightarrow> \<exists>b. repl t a = Some b \<and> \<not> gone t b"
    and repl_stays: "\<not> gone t a \<Longrightarrow> repl t a = Some a"
begin

lemma repl_idem: "inv t \<Longrightarrow> repl t a = Some b \<Longrightarrow> repl t b = Some b"
  using repl_ends [of t a] repl_stays [of t b] by auto

lemma repl_not_gone: "inv t \<Longrightarrow> repl t a = Some b \<Longrightarrow> \<not> gone t b"
  using repl_ends [of t a] by auto

text \<open>Redirecting a list of targets leaves none that is gone, and does not change a list of survivors.\<close>

lemma redirect_targets:
  assumes "inv t" and "those (map (repl t) as) = Some bs"
  shows "\<forall>b \<in> set bs. \<not> gone t b" and "length bs = length as"
  using assms(2)
  by (induction as arbitrary: bs) (auto simp: repl_not_gone [OF assms(1)] split: option.splits)

lemma redirect_total:
  assumes "inv t"
  shows "\<exists>bs. those (map (repl t) as) = Some bs"
proof (induction as)
  case Nil
  show ?case by simp
next
  case (Cons a as)
  with repl_ends [OF assms, of a] show ?case by auto
qed

end

lemma replacement_ends:
  assumes "symtab_inv h st"
  shows "\<exists>b. replacement st a = Some b \<and> \<not> isCoalescedAway st b"
proof (cases "a \<in> seen st")
  case True
  with assms obtain t where "replacement st a = Some t" "\<not> isCoalescedAway st t"
    by (rule replacement_seen)
  then show ?thesis by blast
next
  case False
  then show ?thesis by (auto simp: seen_def isCoalescedAway_def replacement_idle)
qed

interpretation stc: coalescer replacement isCoalescedAway "symtab_inv h" for h :: store
  by unfold_locales (blast intro: replacement_ends, simp add: isCoalescedAway_def replacement_idle)

definition sample_defined :: "merge \<Rightarrow> u64 \<Rightarrow> u8 list \<Rightarrow> defined_atom" where
  "sample_defined m secsize bytes = \<lparr>ordinal = 0, da_size = of_nat (length bytes), sectionSize = secsize,
     scope = scopeGlobal, interpose = interposeNo, merge_of = m, contentType = typeConstant,
     alignment = (1, 0), sectionChoice = sectionBasedOnContent, customSectionName = [],
     deadStrip_of = deadStripNormal, dynamicExport = dynamicExportNormal, codeModel = codeNA,
     permissions_of = permR, rawContent = bytes, refs = []\<rparr>"

definition sample_store :: store where
  "sample_store = \<lparr>atom_at = (\<lambda>a.
      if a = 0 then DefinedAtom ''f'' 0 (sample_defined mergeAsWeak 4 [1])
      else if a = 1 then UndefinedAtom ''f'' 1 canBeNullNever None
      else if a = 2 then DefinedAtom ''f'' 2 (sample_defined mergeNo 8 [2])
      else if a = 3 then DefinedAtom [] 0 (sample_defined mergeByContent 0 [7, 7])
      else if a = 4 then DefinedAtom [] 2 (sample_defined mergeByContent 0 [7, 7])
      else if a = 5 then SharedLibraryAtom ''f'' 3 ''libf'' False
      else UndefinedAtom ''z'' 0 canBeNullNever None),
    file_kind_of = (\<lambda>_. kindObject)\<rparr>"

lemma sample_enter: "\<exists>st. enter_all LinkingContext sample_store [1, 0, 5, 3, 2, 4] empty_symtab = Inr st"
proof -
  have "\<not> isl (enter_all LinkingContext sample_store [1, 0, 5, 3, 2, 4] empty_symtab)"
    by code_simp
  then show ?thesis by (metis isl_def sum.exhaust)
qed

theorem replacement_is_named_winner_witness:
  "\<exists>st. enter_all LinkingContext sample_store [1, 0, 5, 3, 2, 4] empty_symtab = Inr st \<and>
     (\<exists>t \<in> set [1, 0, 5, 3, 2, 4]. replacement st 1 = Some t \<and> findByName st ''f'' = Some t)"
proof -
  obtain st where st: "enter_all LinkingContext sample_store [1, 0, 5, 3, 2, 4] empty_symtab = Inr st"
    using sample_enter by blast
  have "by_name sample_store 1" and n: "name_of sample_store 1 = ''f''"
    by code_simp+
  from replacement_is_named_winner [OF st _ _ this(1)] st show ?thesis
    unfolding n by auto
qed

theorem strongest_definition_wins_witness:
  "\<exists>st t. enter_all LinkingContext sample_store [1, 0, 5, 3, 2, 4] empty_symtab = Inr st \<and>
     findByName st ''f'' = Some t \<and> strength_at sample_store 2 \<le> strength_at sample_store t"
proof -
  obtain st where st: "enter_all LinkingContext sample_store [1, 0, 5, 3, 2, 4] empty_symtab = Inr st"
    using sample_enter by blast
  have "by_name sample_store 2" and n: "name_of sample_store 2 = ''f''"
    by code_simp+
  from strongest_definition_wins [OF st _ this(1)] st show ?thesis
    unfolding n by auto
qed

theorem winner_order_independent_witness:
  "\<exists>ds. decide LinkingContext sample_store 2 0 = Inr (False, ds)"
proof -
  have "\<not> allowDuplicates LinkingContext" and "distinguishable sample_store 0 2"
    and "decide LinkingContext sample_store 0 2 = Inr (True, [])"
    by code_simp+
  from winner_order_independent [OF this] show ?thesis by simp
qed

theorem duplicate_strong_definitions_witness:
  "addByName LinkingContext (sample_store\<lparr>atom_at := (atom_at sample_store)(0 := atom_at sample_store 2)\<rparr>) 2
     (empty_symtab\<lparr>nameTable := [(''f'', 0)]\<rparr>) = Inl (DuplicateSymbolError ''f'')"
  by (subst duplicate_strong_definitions [where a = 0])
    (simp_all add: sample_store_def sample_defined_def findByName_def LinkingContext_def)

theorem content_coalescing_witness:
  "\<exists>st. enter_all LinkingContext sample_store [1, 0, 5, 3, 2, 4] empty_symtab = Inr st \<and>
     (\<exists>t. replacement st 3 = Some t \<and> replacement st 4 = Some t)"
proof -
  obtain st where st: "enter_all LinkingContext sample_store [1, 0, 5, 3, 2, 4] empty_symtab = Inr st"
    using sample_enter by blast
  have s: "\<forall>x \<in> set [1, 0, 5, 3, 2, 4]. is_defined_at sample_store x \<longrightarrow>
      content_sized (the_defined (atom_at sample_store x))"
    by (simp add: sample_store_def sample_defined_def content_sized_def)
  have m: "mergeable_constant sample_store 3" "mergeable_constant sample_store 4"
    "isEqual (the_defined (atom_at sample_store 3)) (the_defined (atom_at sample_store 4))"
    by code_simp+
  from content_coalescing [OF st _ s _ _ m] st show ?thesis by auto
qed

text \<open>The remaining undefined atoms are those a name still stands for, and nothing replaces them.\<close>

lemma set_undefines:
  assumes "symtab_inv h st"
  shows "set (undefines h st) = {a. \<exists>n. findByName st n = Some a \<and> is_undefined_at h a}"
proof -
  have "distinct (map fst (nameTable st))" using assms by (simp add: symtab_inv_def tables_ok_def)
  then have "a \<in> snd ` set (nameTable st) \<longleftrightarrow> (\<exists>n. findByName st n = Some a)" for a
    by (force simp: findByName_def)
  moreover have "findByName st n = Some a \<Longrightarrow> replacedAtoms st a = None" for n a
    using assms by (blast intro: symtab_inv_winner findByName_winner)
  ultimately show ?thesis by (auto simp: undefines_def)
qed

end
