(* ===== verification/Resolver.thy ===== *)
theory Resolver
  imports Symbol_Table
begin

text \<open>
  The resolver of the core linker (lib/Core/Resolver.cpp) with the archive lookup it drives
  (FileArchive in lib/ReaderWriter/FileArchive.cpp): it feeds the atoms of the input files to the
  symbol table, pulls members out of archives while names stay undefined, redirects references to
  the atoms that survive, drops dead and coalesced atoms and reports what is still undefined.

  Loops whose end is not obvious (the group loop over the input files, the work list of undefined
  names, fallback chains, the marking of live atoms) are recursive functions into \<open>option\<close>: \<open>None\<close>
  is the run that does not end, and that it does not happen is proved. The value inside is a
  result: \<open>Inl\<close> a fatal error, \<open>Inr\<close> the new state.
\<close>

section \<open>Runs that may diverge or fail\<close>

type_synonym 'a run = "(link_error + 'a) option"

definition ret :: "'a \<Rightarrow> 'a run" where
  "ret x = Some (Inr x)"

definition fatal :: "link_error \<Rightarrow> 'a run" where
  "fatal e = Some (Inl e)"

definition andThen :: "'a run \<Rightarrow> ('a \<Rightarrow> 'b run) \<Rightarrow> 'b run" where
  "andThen m f = (case m of None \<Rightarrow> None | Some (Inl e) \<Rightarrow> Some (Inl e) | Some (Inr x) \<Rightarrow> f x)"

lemma andThen_simps [simp]:
  "andThen (ret x) f = f x"
  "andThen (fatal e) f = fatal e"
  "andThen (Some (Inr x)) f = f x"
  "andThen (Some (Inl e)) f = Some (Inl e)"
  "andThen None f = None"
  by (simp_all add: andThen_def ret_def fatal_def)

lemma andThen_Inr [res_simps]:
  "andThen m f = Some (Inr y) \<longleftrightarrow> (\<exists>x. m = Some (Inr x) \<and> f x = Some (Inr y))"
  by (cases m) (auto simp: andThen_def split: sum.splits)

lemma andThen_halts:
  "m \<noteq> None \<Longrightarrow> (\<And>x. m = Some (Inr x) \<Longrightarrow> f x \<noteq> None) \<Longrightarrow> andThen m f \<noteq> None"
  by (auto simp: andThen_def split: sum.splits)

lemma ret_Inr [simp]: "ret x = Some (Inr y) \<longleftrightarrow> x = y"
  by (simp add: ret_def)

lemma ret_inject [simp]: "ret x = ret y \<longleftrightarrow> x = y"
  by (simp add: ret_def)

lemma ret_halts [simp]: "ret x \<noteq> None" "fatal e \<noteq> None" "fatal e \<noteq> Some (Inr y)"
  by (simp_all add: ret_def fatal_def)

lemma andThen_bind:
  "andThen m f = Option.bind m (\<lambda>r. case r of Inl e \<Rightarrow> Some (Inl e) | Inr x \<Rightarrow> f x)"
  by (cases m) (auto simp: andThen_def split: sum.splits)

text \<open>The recursive functions below call themselves under \<open>andThen\<close> and \<open>forEach\<close>.\<close>

lemma andThen_mono [partial_function_mono]:
  assumes m: "mono_option m" and g: "\<And>y. mono_option (\<lambda>f. g y f)"
  shows "mono_option (\<lambda>f. andThen (m f) (\<lambda>y. g y f))"
  unfolding andThen_bind
proof (rule bind_mono [OF m])
  fix r
  show "mono_option (\<lambda>f. case r of Inl e \<Rightarrow> Some (Inl e) | Inr x \<Rightarrow> g x f)"
    using g by (cases r) (simp_all add: monotone_def flat_ord_def)
qed

fun forEach :: "('a \<Rightarrow> 's \<Rightarrow> 's run) \<Rightarrow> 'a list \<Rightarrow> 's \<Rightarrow> 's run" where
  "forEach f [] s = ret s"
| "forEach f (x # xs) s = andThen (f x s) (forEach f xs)"

lemma forEach_mono [partial_function_mono]:
  assumes g: "\<And>x s. mono_option (\<lambda>f. g x s f)"
  shows "mono_option (\<lambda>f. forEach (\<lambda>x s. g x s f) xs s)"
proof (induction xs arbitrary: s)
  case Nil
  show ?case by (simp add: monotone_def option.leq_refl)
next
  case (Cons x xs)
  show ?case unfolding forEach.simps by (rule andThen_mono [OF g Cons.IH])
qed

section \<open>Files, nodes and state\<close>

text \<open>A file as its reader leaves it. For an archive: the symbol table of contents, the symbols that
  \<open>isDataSymbol\<close> accepts in a member; \<open>f_parseError\<close> of a member is a failing \<open>instantiateMember\<close>.
  For a shared library \<open>f_exports\<close> is the virtual \<open>exports\<close>.\<close>

record input_file =
  f_defined :: "atom_id list"
  f_undefined :: "atom_id list"
  f_shared :: "atom_id list"
  f_absolute :: "atom_id list"
  f_parseError :: bool
  f_symbolMemberMap :: "(string \<times> file_id) list"
  f_dataSymbols :: "(file_id \<times> string) list"
  f_exports :: "string \<Rightarrow> bool \<Rightarrow> atom_id option"

datatype node = FileNode file_id | GroupEnd nat

record link_env =
  ctx :: linking_context
  files :: "file_id \<Rightarrow> input_file"
  nodes :: "node list"

record resolver =
  heap :: store
  symtab_of :: symtab
  atoms_of :: "atom_id list"
  rootSet :: "atom_id set"
  liveAtoms :: "atom_id set"
  deadAtoms :: "atom_id set"
  newUndefinesAdded :: "file_id \<Rightarrow> bool"
  undefs :: "string list"
  undefineIndex :: "file_id \<Rightarrow> nat"
  archiveMap :: "(string \<times> file_id) list"
  archiveSeen :: "file_id set"
  preloads :: "(file_id \<times> string) list"
  membersInstantiated :: "(file_id \<times> file_id) set"
  fileOrdinal :: "file_id \<rightharpoonup> nat"
  nextOrdinal :: nat

definition init_resolver :: "store \<Rightarrow> resolver" where
  "init_resolver h = \<lparr>heap = h, symtab_of = empty_symtab, atoms_of = [], rootSet = {}, liveAtoms = {},
     deadAtoms = {}, newUndefinesAdded = (\<lambda>_. False), undefs = [], undefineIndex = (\<lambda>_. 0),
     archiveMap = [], archiveSeen = {}, preloads = [], membersInstantiated = {},
     fileOrdinal = Map.empty, nextOrdinal = 0\<rparr>"

section \<open>Atoms\<close>

definition pushAtom :: "atom_id \<Rightarrow> resolver \<Rightarrow> resolver" where
  "pushAtom a r = r\<lparr>atoms_of := atoms_of r @ [a]\<rparr>"

text \<open>\<open>_symbolTable.add\<close> on the resolver's table, with its boolean result.\<close>

definition tableAdd :: "link_env \<Rightarrow> atom_id \<Rightarrow> resolver \<Rightarrow> (resolver \<times> bool) run" where
  "tableAdd env a r =
     (case add_atom (ctx env) (heap r) a (symtab_of r) of
        Inl e \<Rightarrow> fatal e
      | Inr (st, b) \<Rightarrow> ret (r\<lparr>symtab_of := st\<rparr>, b))"

definition group_children :: "store \<Rightarrow> atom_id \<Rightarrow> atom_id list" where
  "group_children h a =
     map target (filter (\<lambda>r. kindNamespace r = ns_all \<and> kindValue r = kindGroupChild)
                   (refs (the_defined (atom_at h a))))"

definition maybeAddSectionGroupOrGnuLinkOnce :: "link_env \<Rightarrow> atom_id \<Rightarrow> resolver \<Rightarrow> resolver run" where
  "maybeAddSectionGroupOrGnuLinkOnce env a r =
     (case addGroup (heap r) a (symtab_of r) of
        Inl e \<Rightarrow> fatal e
      | Inr (st, isFirstTime) \<Rightarrow>
          let r1 = r\<lparr>symtab_of := st\<rparr> in
          if \<not> isFirstTime then
            if allowDuplicates (ctx env) then ret r1
            else case findGroup st (name_of (heap r) a) of
                   None \<Rightarrow> fatal (AssertionFailed ''findGroup'')
                 | Some prev \<Rightarrow>
                     if contentType (the_defined (atom_at (heap r) a)) =
                        contentType (the_defined (atom_at (heap r) prev))
                     then ret r1
                     else fatal (DuplicateSymbolError (name_of (heap r) a))
          else forEach (\<lambda>t r.
                 if \<not> is_defined_at (heap r) t then fatal (AssertionFailed ''kindGroupChild'')
                 else andThen (tableAdd env t (pushAtom t r)) (\<lambda>(r, _). ret r))
               (group_children (heap r) a) r1)"

definition doDefinedAtom :: "link_env \<Rightarrow> atom_id \<Rightarrow> resolver \<Rightarrow> resolver run" where
  "doDefinedAtom env a r =
     (let d = the_defined (atom_at (heap r) a); r1 = pushAtom a r
      in andThen (if isGroupParent d then maybeAddSectionGroupOrGnuLinkOnce env a r1
                  else andThen (tableAdd env a r1) (\<lambda>(r, _). ret r))
           (\<lambda>r2. ret (if deadStrip (ctx env) \<and> deadStrip_of d = deadStripNever
                      then r2\<lparr>rootSet := insert a (rootSet r2)\<rparr> else r2)))"

text \<open>The virtual \<open>fallback()\<close>, which only an undefined atom has.\<close>

fun fallback_of :: "atom \<Rightarrow> atom_id option" where
  "fallback_of (UndefinedAtom _ _ _ fb) = fb"
| "fallback_of _ = None"

partial_function (option) doUndefinedAtom ::
  "link_env \<Rightarrow> atom_id \<Rightarrow> resolver \<Rightarrow> (link_error + resolver \<times> bool) option" where
  "doUndefinedAtom env a r =
     andThen (tableAdd env a (pushAtom a r)) (\<lambda>(r1, newUndefAdded).
       let nm = name_of (heap r1) a;
           r2 = (if newUndefAdded then r1\<lparr>undefs := undefs r1 @ [nm]\<rparr> else r1)
       in if newUndefAdded \<or> \<not> isDefined (heap r2) (symtab_of r2) nm
          then case fallback_of (atom_at (heap r2) a) of
                 None \<Rightarrow> ret (r2, newUndefAdded)
               | Some fb \<Rightarrow> andThen (doUndefinedAtom env fb r2) (\<lambda>(r3, _).
                   ret (r3\<lparr>symtab_of := addReplacement a fb (symtab_of r3)\<rparr>, newUndefAdded))
          else ret (r2, newUndefAdded))"

definition doSharedLibraryAtom :: "link_env \<Rightarrow> atom_id \<Rightarrow> resolver \<Rightarrow> resolver run" where
  "doSharedLibraryAtom env a r = andThen (tableAdd env a (pushAtom a r)) (\<lambda>(r, _). ret r)"

definition doAbsoluteAtom :: "link_env \<Rightarrow> atom_id \<Rightarrow> resolver \<Rightarrow> resolver run" where
  "doAbsoluteAtom env a r =
     (let r1 = pushAtom a r
      in if absScope (atom_at (heap r) a) \<noteq> scopeTranslationUnit
         then andThen (tableAdd env a r1) (\<lambda>(r, _). ret r)
         else ret r1)"

section \<open>Files\<close>

definition maybePreloadArchiveMember :: "string \<Rightarrow> resolver \<Rightarrow> resolver" where
  "maybePreloadArchiveMember nm r =
     (case map_of (archiveMap r) nm of
        None \<Rightarrow> r
      | Some archive \<Rightarrow> r\<lparr>preloads := preloads r @ [(archive, nm)]\<rparr>)"

definition handleFile :: "link_env \<Rightarrow> file_id \<Rightarrow> resolver \<Rightarrow> (resolver \<times> bool) run" where
  "handleFile env f r =
     (let F = files env f
      in andThen (forEach (doDefinedAtom env) (f_defined F) r) (\<lambda>r1.
         andThen (forEach (\<lambda>a (r, undefAdded).
                    andThen (doUndefinedAtom env a r) (\<lambda>(r', added).
                      ret (if added then (maybePreloadArchiveMember (name_of (heap r') a) r', True)
                           else (r', undefAdded))))
                  (f_undefined F) (r1, False)) (\<lambda>(r2, undefAdded).
         andThen (forEach (doSharedLibraryAtom env) (f_shared F) r2) (\<lambda>r3.
         andThen (forEach (doAbsoluteAtom env) (f_absolute F) r3) (\<lambda>r4.
         ret (r4, undefAdded))))))"

text \<open>\<open>updatePreloadArchiveMap\<close> walks the nodes from the last to the first.\<close>

definition archive_symbols :: "link_env \<Rightarrow> file_id \<Rightarrow> string list" where
  "archive_symbols env f = remdups (map fst (f_symbolMemberMap (files env f)))"

definition updatePreloadArchiveMap :: "link_env \<Rightarrow> resolver \<Rightarrow> resolver" where
  "updatePreloadArchiveMap env r =
     fold (\<lambda>n r. case n of
             GroupEnd _ \<Rightarrow> r
           | FileNode f \<Rightarrow>
               if file_kind_of (heap r) f \<noteq> kindArchiveLibrary \<or> f \<in> archiveSeen r then r
               else r\<lparr>archiveSeen := insert f (archiveSeen r),
                      archiveMap := fold (\<lambda>nm m. AList.update nm f m) (archive_symbols env f) (archiveMap r)\<rparr>)
       (rev (nodes env)) r"

text \<open>\<open>FileArchive::find\<close>: a member is returned at most once.\<close>

definition archive_find ::
  "link_env \<Rightarrow> file_id \<Rightarrow> string \<Rightarrow> bool \<Rightarrow> resolver \<Rightarrow> file_id option \<times> resolver" where
  "archive_find env f nm dataSymbolOnly r =
     (case map_of (f_symbolMemberMap (files env f)) nm of
        None \<Rightarrow> (None, r)
      | Some m \<Rightarrow>
          if (f, m) \<in> membersInstantiated r then (None, r)
          else if dataSymbolOnly \<and> (m, nm) \<notin> set (f_dataSymbols (files env f)) then (None, r)
          else let r1 = r\<lparr>membersInstantiated := insert (f, m) (membersInstantiated r)\<rparr>
               in if f_parseError (files env m) then (None, r1) else (Some m, r1))"

type_synonym undef_callback = "string \<Rightarrow> bool \<Rightarrow> resolver \<times> bool \<Rightarrow> (resolver \<times> bool) run"

text \<open>The inner \<open>for\<close> of \<open>forEachUndefines\<close>: it ends with \<open>i\<close> at the end of the list, which the
  callback may have extended.\<close>

partial_function (option) scanUndefines ::
  "undef_callback \<Rightarrow> nat \<Rightarrow> resolver \<times> bool \<Rightarrow> (link_error + nat \<times> resolver \<times> bool) option" where
  "scanUndefines cb i s =
     (let r = fst s; nm = undefs r ! i in
      if length (undefs r) \<le> i then ret (i, s)
      else if nm = [] then scanUndefines cb (Suc i) s
      else case findByName (symtab_of r) nm of
             None \<Rightarrow> fatal (AssertionFailed ''forEachUndefines'')
           | Some a \<Rightarrow>
               if \<not> is_undefined_at (heap r) a \<or> isCoalescedAway (symtab_of r) a
               then scanUndefines cb (Suc i) (r\<lparr>undefs := (undefs r)[i := []]\<rparr>, snd s)
               else andThen (cb nm False s) (\<lambda>s'. scanUndefines cb (Suc i) s'))"

definition overrideTentative :: "undef_callback \<Rightarrow> string \<Rightarrow> resolver \<times> bool \<Rightarrow> (resolver \<times> bool) run" where
  "overrideTentative cb nm s =
     (let r = fst s in
      case findByName (symtab_of r) nm of
        None \<Rightarrow> fatal (AssertionFailed ''curAtom != nullptr'')
      | Some a \<Rightarrow>
          if is_defined_at (heap r) a \<and> merge_of (the_defined (atom_at (heap r) a)) = mergeAsTentative
          then cb nm True s else ret s)"

partial_function (option) undefinesLoop ::
  "undef_callback \<Rightarrow> bool \<Rightarrow> nat \<Rightarrow> resolver \<times> bool \<Rightarrow> (link_error + nat \<times> resolver \<times> bool) option" where
  "undefinesLoop cb searchForOverrides i s =
     andThen (scanUndefines cb i s) (\<lambda>(i, s).
       andThen (if \<not> searchForOverrides then ret s
                else forEach (overrideTentative cb)
                       (tentativeDefinitions (heap (fst s)) (symtab_of (fst s))) s) (\<lambda>s.
       if i < length (undefs (fst s)) then undefinesLoop cb searchForOverrides i s else ret (i, s)))"

definition forEachUndefines ::
  "file_id \<Rightarrow> bool \<Rightarrow> undef_callback \<Rightarrow> resolver \<times> bool \<Rightarrow> (resolver \<times> bool) run" where
  "forEachUndefines f searchForOverrides cb s =
     andThen (undefinesLoop cb searchForOverrides (undefineIndex (fst s) f) s) (\<lambda>(i, (r, b)).
       ret (r\<lparr>undefineIndex := (undefineIndex r)(f := i)\<rparr>, b))"

definition setOrdinal :: "file_id \<Rightarrow> resolver \<Rightarrow> resolver" where
  "setOrdinal f r = r\<lparr>fileOrdinal := (fileOrdinal r)(f \<mapsto> nextOrdinal r), nextOrdinal := Suc (nextOrdinal r)\<rparr>"

definition archiveCallback :: "link_env \<Rightarrow> file_id \<Rightarrow> undef_callback" where
  "archiveCallback env f nm dataSymbolOnly s =
     (let (r, undefAdded) = s in
      case archive_find env f nm dataSymbolOnly r of
        (None, r1) \<Rightarrow> ret (r1, undefAdded)
      | (Some m, r1) \<Rightarrow>
          andThen (handleFile env m (updatePreloadArchiveMap env (setOrdinal m r1))) (\<lambda>(r2, added).
            ret (r2, added \<or> undefAdded)))"

definition handleArchiveFile :: "link_env \<Rightarrow> file_id \<Rightarrow> resolver \<Rightarrow> (resolver \<times> bool) run" where
  "handleArchiveFile env f r =
     forEachUndefines f (searchArchivesToOverrideTentativeDefinitions (ctx env))
       (archiveCallback env f) (r, False)"

definition sharedCallback :: "link_env \<Rightarrow> file_id \<Rightarrow> undef_callback" where
  "sharedCallback env f nm dataSymbolOnly s =
     (case f_exports (files env f) nm dataSymbolOnly of
        None \<Rightarrow> ret s
      | Some a \<Rightarrow> andThen (doSharedLibraryAtom env a (fst s)) (\<lambda>r. ret (r, snd s)))"

definition handleSharedLibrary :: "link_env \<Rightarrow> file_id \<Rightarrow> resolver \<Rightarrow> resolver run" where
  "handleSharedLibrary env f r =
     andThen (handleFile env f r) (\<lambda>(r1, _).
     andThen (forEachUndefines f (searchSharedLibrariesToOverrideTentativeDefinitions (ctx env))
                (sharedCallback env f) (r1, False)) (\<lambda>(r2, _). ret r2))"

section \<open>The input list\<close>

definition undefinesAdded :: "link_env \<Rightarrow> resolver \<Rightarrow> nat \<Rightarrow> nat \<Rightarrow> bool" where
  "undefinesAdded env r b e \<longleftrightarrow>
     (\<exists>i \<in> {b..<e}. case nodes env ! i of FileNode f \<Rightarrow> newUndefinesAdded r f | GroupEnd _ \<Rightarrow> False)"

text \<open>\<open>getFile\<close> returns the next file to visit and advances \<open>index\<close>, going back to the start of a group
  when one of its files has added an undefined symbol.\<close>

partial_function (option) getFile :: "link_env \<Rightarrow> resolver \<Rightarrow> nat \<Rightarrow> (file_id option \<times> nat) option" where
  "getFile env r i =
     (if length (nodes env) \<le> i then Some (None, i)
      else case nodes env ! i of
             FileNode f \<Rightarrow> Some (Some f, Suc i)
           | GroupEnd sz \<Rightarrow>
               if undefinesAdded env r (i - sz) i then getFile env r (i - sz)
               else getFile env r (Suc i))"

text \<open>One round of the loop of \<open>resolveUndefines\<close> after \<open>parse\<close> succeeded: the \<open>switch\<close> on the file's
  kind and the recording of \<open>undefAdded\<close>. \<open>visited\<close> are the object files visited so far.\<close>

definition handleInput ::
  "link_env \<Rightarrow> file_id \<Rightarrow> file_id set \<Rightarrow> resolver \<Rightarrow> (file_id set \<times> resolver) run" where
  "handleInput env f visited r0 =
     (let r = updatePreloadArchiveMap env r0;
          withOrdinal = (if fileOrdinal r f = None then setOrdinal f r else r);
          record_added = (\<lambda>(sn, r, undefAdded). ret (sn, r\<lparr>newUndefinesAdded := (newUndefinesAdded r)(f := undefAdded)\<rparr>))
      in andThen
        (case file_kind_of (heap r) f of
           kindObject \<Rightarrow>
             if f \<in> visited then ret (visited, r, False)
             else if fileOrdinal r f \<noteq> None then fatal (AssertionFailed ''hasOrdinal'')
             else andThen (handleFile env f (setOrdinal f r)) (\<lambda>(r1, b). ret (insert f visited, r1, b))
         | kindArchiveLibrary \<Rightarrow>
             andThen (handleArchiveFile env f withOrdinal) (\<lambda>(r1, b). ret (visited, r1, b))
         | kindSharedLibrary \<Rightarrow>
             andThen (handleSharedLibrary env f withOrdinal) (\<lambda>r1. ret (visited, r1, False)))
        record_added)"

partial_function (option) resolveLoop ::
  "link_env \<Rightarrow> nat \<Rightarrow> file_id set \<Rightarrow> resolver \<Rightarrow> (link_error + resolver \<times> bool) option" where
  "resolveLoop env i visited r =
     (case getFile env r i of
        None \<Rightarrow> None
      | Some (None, _) \<Rightarrow> ret (r, True)
      | Some (Some f, j) \<Rightarrow>
          if f_parseError (files env f) then ret (r, False)
          else andThen (handleInput env f visited r) (\<lambda>(visited', r'). resolveLoop env j visited' r'))"

definition resolveUndefines :: "link_env \<Rightarrow> resolver \<Rightarrow> (resolver \<times> bool) run" where
  "resolveUndefines env r = resolveLoop env 0 {} r"

section \<open>After resolution\<close>

definition is_associate :: "reference \<Rightarrow> bool" where
  "is_associate ref \<longleftrightarrow> kindNamespace ref = ns_all \<and> kindValue ref = kindAssociate"

definition setRefs :: "atom_id \<Rightarrow> reference list \<Rightarrow> resolver \<Rightarrow> resolver" where
  "setRefs a rs r =
     (case atom_at (heap r) a of
        DefinedAtom n f d \<Rightarrow> r\<lparr>heap := (heap r)\<lparr>atom_at := (atom_at (heap r))(a := DefinedAtom n f (d\<lparr>refs := rs\<rparr>))\<rparr>\<rparr>
      | _ \<Rightarrow> r)"

definition redirect :: "symtab \<Rightarrow> reference \<Rightarrow> reference option" where
  "redirect st ref =
     (if is_associate ref then Some ref
      else map_option (\<lambda>t. ref\<lparr>target := t\<rparr>) (replacement st (target ref)))"

definition updateAtom :: "atom_id \<Rightarrow> resolver \<Rightarrow> resolver run" where
  "updateAtom a r =
     (if \<not> is_defined_at (heap r) a then ret r
      else let rs = refs (the_defined (atom_at (heap r) a)); st = symtab_of r in
        case those (map (redirect st) rs) of
          None \<Rightarrow> None
        | Some rs' \<Rightarrow>
            ret ((setRefs a rs' r)\<lparr>deadAtoms :=
                   (if isCoalescedAway st a then deadAtoms r \<union> target ` set (filter is_associate rs)
                    else deadAtoms r)\<rparr>))"

definition updateReferences :: "resolver \<Rightarrow> resolver run" where
  "updateReferences r = forEach updateAtom (atoms_of r) r"

fun forEach_opt :: "('a \<Rightarrow> 's \<Rightarrow> 's option) \<Rightarrow> 'a list \<Rightarrow> 's \<Rightarrow> 's option" where
  "forEach_opt f [] s = Some s"
| "forEach_opt f (x # xs) s = Option.bind (f x s) (forEach_opt f xs)"

lemma forEach_opt_mono [partial_function_mono]:
  assumes g: "\<And>x s. mono_option (\<lambda>f. g x s f)"
  shows "mono_option (\<lambda>f. forEach_opt (\<lambda>x s. g x s f) xs s)"
proof (induction xs arbitrary: s)
  case Nil
  show ?case by (simp add: monotone_def option.leq_refl)
next
  case (Cons x xs)
  show ?case unfolding forEach_opt.simps by (rule bind_mono [OF g Cons.IH])
qed

text \<open>The edges \<open>markLive\<close> follows from an atom: its references, then the reverse edges.\<close>

definition live_edges :: "store \<Rightarrow> (atom_id \<times> atom_id) list \<Rightarrow> atom_id \<Rightarrow> atom_id list" where
  "live_edges h rev_refs a =
     (if is_defined_at h a
      then map target (refs (the_defined (atom_at h a))) @ map snd (filter (\<lambda>p. fst p = a) rev_refs)
      else [])"

partial_function (option) markLive ::
  "store \<Rightarrow> (atom_id \<times> atom_id) list \<Rightarrow> atom_id \<Rightarrow> atom_id set \<Rightarrow> atom_id set option" where
  "markLive h rev_refs a live =
     (if a \<in> live then Some live
      else forEach_opt (markLive h rev_refs) (live_edges h rev_refs a) (insert a live))"

definition isBackref :: "reference \<Rightarrow> bool" where
  "isBackref ref \<longleftrightarrow> kindNamespace ref = ns_all \<and>
     (kindValue ref = kindLayoutAfter \<or> kindValue ref = kindGroupChild)"

definition reverseRefs :: "store \<Rightarrow> atom_id \<Rightarrow> (atom_id \<times> atom_id) list" where
  "reverseRefs h a =
     (if is_defined_at h a
      then map (\<lambda>ref. (target ref, a)) (filter isBackref (refs (the_defined (atom_at h a)))) else [])"

text \<open>Absolute atoms are marked while the reverse map is built; having no edges they do not look at it,
  so the complete map serves both markings.\<close>

definition deadStripOptimize :: "link_env \<Rightarrow> resolver \<Rightarrow> resolver run" where
  "deadStripOptimize env r =
     (if \<not> deadStrip (ctx env) then ret r
      else let h = heap r; st = symtab_of r; as = atoms_of r;
               globals = (if globalsAreDeadStripRoots (ctx env)
                          then {a \<in> set as. is_defined_at h a \<and> scope (the_defined (atom_at h a)) = scopeGlobal}
                          else {})
           in case those (map (findByName st) (deadStripRoots (ctx env))) of
                None \<Rightarrow> fatal (AssertionFailed ''symAtom'')
              | Some named \<Rightarrow>
                  let roots = rootSet r \<union> globals \<union> set named;
                      rev_refs = concat (map (reverseRefs h) as) in
                  case Option.bind
                         (forEach_opt (\<lambda>a live. if is_AbsoluteAtom (atom_at h a) then markLive h rev_refs a live
                                               else Some live) as (liveAtoms r))
                         (forEach_opt (markLive h rev_refs) (sorted_list_of_set roots)) of
                    None \<Rightarrow> None
                  | Some live \<Rightarrow>
                      ret (r\<lparr>rootSet := roots, liveAtoms := live, atoms_of := filter (\<lambda>a. a \<in> live) as\<rparr>))"

text \<open>Does this remaining undefined atom make the link fail?\<close>

definition undefine_is_error :: "link_env \<Rightarrow> resolver \<Rightarrow> atom_id \<Rightarrow> bool" where
  "undefine_is_error env r u \<longleftrightarrow>
     canBeNull (atom_at (heap r) u) = canBeNullNever \<and>
     \<not> (file_kind_of (heap r) (atom_file (atom_at (heap r) u)) = kindSharedLibrary \<and>
        allowShlibUndefines (ctx env)) \<and>
     \<not> isCoalescedAway (symtab_of r) u"

definition remainingUndefines :: "link_env \<Rightarrow> resolver \<Rightarrow> atom_id list" where
  "remainingUndefines env r =
     (let us = undefines (heap r) (symtab_of r)
      in filter (undefine_is_error env r) (if deadStrip (ctx env) then filter (\<lambda>a. a \<in> liveAtoms r) us else us))"

definition checkUndefines :: "link_env \<Rightarrow> resolver \<Rightarrow> resolver \<times> bool" where
  "checkUndefines env r =
     (let us = remainingUndefines env r in
      if us = [] then (r, False)
      else (if printRemainingUndefines (ctx env)
            then r\<lparr>symtab_of := (symtab_of r)\<lparr>errs := errs (symtab_of r) @
                   map (\<lambda>u. UndefinedSymbol (name_of (heap r) u) (atom_file (atom_at (heap r) u))) us @
                   [SymbolsNotFound]\<rparr>\<rparr>
            else r, True))"

definition removeCoalescedAwayAtoms :: "resolver \<Rightarrow> resolver" where
  "removeCoalescedAwayAtoms r =
     r\<lparr>atoms_of := filter (\<lambda>a. \<not> (isCoalescedAway (symtab_of r) a \<or> a \<in> deadAtoms r)) (atoms_of r)\<rparr>"

text \<open>\<open>resolve\<close>; when it returns true the atoms of the result file are \<open>atoms_of\<close>.\<close>

definition resolve :: "link_env \<Rightarrow> resolver \<Rightarrow> (resolver \<times> bool) run" where
  "resolve env r0 =
     andThen (resolveUndefines env (updatePreloadArchiveMap env r0)) (\<lambda>(r1, ok).
       if \<not> ok then ret (r1, False)
       else andThen (updateReferences r1) (\<lambda>r2.
            andThen (deadStripOptimize env r2) (\<lambda>r3.
            let (r4, undefined_left) = checkUndefines env r3 in
            if undefined_left \<and> \<not> allowRemainingUndefines (ctx env) then ret (r4, False)
            else ret (removeCoalescedAwayAtoms r4, True))))"

text \<open>The recursive functions can be evaluated.\<close>

declare resolveLoop.simps [code] getFile.simps [code] doUndefinedAtom.simps [code]
  scanUndefines.simps [code] undefinesLoop.simps [code] markLive.simps [code] replacement_of.simps [code]

section \<open>A sample link\<close>

text \<open>An object that calls a function of an archive member, linked with dead stripping from \<open>main\<close>.\<close>

definition link_sample_store :: store where
  "link_sample_store = \<lparr>atom_at = (\<lambda>a.
      if a = 0 then DefinedAtom ''main'' 0 ((sample_defined mergeNo 4 [0])\<lparr>refs :=
        [\<lparr>kindNamespace = ns_ELF, kindArch = arch_x86_64, kindValue = 2, offsetInAtom = 0, target = 1,
          addend = 0, tag = 0\<rparr>]\<rparr>)
      else if a = 1 then UndefinedAtom ''foo'' 0 canBeNullNever None
      else if a = 2 then DefinedAtom ''foo'' 2 (sample_defined mergeNo 4 [1])
      else DefinedAtom ''unused'' 2 (sample_defined mergeNo 4 [2])),
    file_kind_of = (\<lambda>f. if f = 1 then kindArchiveLibrary else kindObject)\<rparr>"

definition link_sample :: link_env where
  "link_sample = \<lparr>ctx = LinkingContext\<lparr>deadStrip := True, deadStripRoots := [''main'']\<rparr>, files = (\<lambda>f.
      \<lparr>f_defined = (if f = 0 then [0] else if f = 2 then [2, 3] else []),
       f_undefined = (if f = 0 then [1] else []), f_shared = [], f_absolute = [], f_parseError = False,
       f_symbolMemberMap = (if f = 1 then [(''foo'', 2), (''unused'', 2)] else []), f_dataSymbols = [],
       f_exports = (\<lambda>_ _. None)\<rparr>),
    nodes = [FileNode 0, FileNode 1, GroupEnd 2]\<rparr>"

end
