(* ===== verification/Dead_Strip.thy ===== *)
theory Dead_Strip
  imports Resolver
begin

text \<open>
  Dead stripping (\<open>Resolver::deadStripOptimize\<close>, \<open>markLive\<close>): the marking of live atoms computes
  reachability in the link graph.
\<close>

section \<open>Marking live atoms\<close>

text \<open>\<open>reach es L X\<close>: what can be reached from \<open>X\<close> along the edges \<open>es\<close> without touching \<open>L\<close>.\<close>

definition avoiding :: "('a \<Rightarrow> 'a list) \<Rightarrow> 'a set \<Rightarrow> ('a \<times> 'a) set" where
  "avoiding es L = {(x, y). y \<in> set (es x) \<and> x \<notin> L \<and> y \<notin> L}"

definition reach :: "('a \<Rightarrow> 'a list) \<Rightarrow> 'a set \<Rightarrow> 'a set \<Rightarrow> 'a set" where
  "reach es L X = {c. \<exists>x \<in> X - L. (x, c) \<in> (avoiding es L)\<^sup>*}"

lemma reach_empty [simp]: "reach es L {} = {}"
  by (simp add: reach_def)

lemma reach_disjoint: "reach es L X \<inter> L = {}"
proof -
  have "(x, c) \<in> (avoiding es L)\<^sup>* \<Longrightarrow> x \<notin> L \<Longrightarrow> c \<notin> L" for x c
    by (induction rule: rtrancl_induct) (auto simp: avoiding_def)
  then show ?thesis by (auto simp: reach_def)
qed

lemma reach_mono: "X \<subseteq> Y \<Longrightarrow> L \<subseteq> K \<Longrightarrow> reach es K X \<subseteq> reach es L Y"
proof -
  assume "X \<subseteq> Y" and KL: "L \<subseteq> K"
  have "avoiding es K \<subseteq> avoiding es L" using KL by (auto simp: avoiding_def)
  then have "(avoiding es K)\<^sup>* \<subseteq> (avoiding es L)\<^sup>*" by (rule rtrancl_mono)
  with \<open>X \<subseteq> Y\<close> KL show ?thesis by (fastforce simp: reach_def)
qed

text \<open>Marking from \<open>x\<close> and then, with those marks, from \<open>X\<close> marks what is reachable from both.\<close>

lemma reach_insert:
  "reach es L (insert x X) = reach es L {x} \<union> reach es (L \<union> reach es L {x}) X"
proof
  let ?M = "L \<union> reach es L {x}"
  show "reach es L {x} \<union> reach es ?M X \<subseteq> reach es L (insert x X)"
    using reach_mono [of "{x}" "insert x X" L L es] reach_mono [of X "insert x X" L ?M es] by blast
  have step: "(y, c) \<in> (avoiding es L)\<^sup>* \<Longrightarrow> y \<notin> L \<Longrightarrow>
      c \<in> reach es L {x} \<or> (y \<notin> ?M \<and> (y, c) \<in> (avoiding es ?M)\<^sup>*)" for y c
  proof (induction rule: rtrancl_induct)
    case base
    then show ?case by auto
  next
    case (step b c)
    show ?case
    proof (cases "b \<in> reach es L {x}")
      case True
      with step(2) have "c \<in> reach es L {x}"
        by (auto simp: reach_def intro: rtrancl_into_rtrancl)
      then show ?thesis ..
    next
      case False
      with step have y: "y \<notin> ?M" "(y, b) \<in> (avoiding es ?M)\<^sup>*" by auto
      show ?thesis
      proof (cases "c \<in> reach es L {x}")
        case False
        moreover have "b \<notin> ?M" using y reach_disjoint [of es ?M "{y}"] by (auto simp: reach_def)
        ultimately have "(b, c) \<in> avoiding es ?M" using step(2) by (auto simp: avoiding_def)
        with y show ?thesis by (auto intro: rtrancl_into_rtrancl)
      qed simp
    qed
  qed
  show "reach es L (insert x X) \<subseteq> reach es L {x} \<union> reach es ?M X"
  proof
    fix c
    assume "c \<in> reach es L (insert x X)"
    then obtain y where y: "y \<in> insert x X" "y \<notin> L" "(y, c) \<in> (avoiding es L)\<^sup>*"
      by (auto simp: reach_def)
    then show "c \<in> reach es L {x} \<union> reach es ?M X"
      using step [OF y(3,2)] by (auto simp: reach_def)
  qed
qed

text \<open>Marking an unmarked atom: the atom and what its edges reach.\<close>

lemma reach_unfold:
  assumes "a \<notin> L"
  shows "reach es L {a} = insert a (reach es (insert a L) (set (es a)))"
proof
  show "insert a (reach es (insert a L) (set (es a))) \<subseteq> reach es L {a}"
  proof -
    have "c \<in> reach es L {a}" if "c \<in> reach es (insert a L) (set (es a))" for c
    proof -
      from that obtain y where y: "y \<in> set (es a)" "y \<notin> L" "(y, c) \<in> (avoiding es (insert a L))\<^sup>*"
        by (auto simp: reach_def)
      have "avoiding es (insert a L) \<subseteq> avoiding es L" by (auto simp: avoiding_def)
      with y(3) have "(y, c) \<in> (avoiding es L)\<^sup>*" using rtrancl_mono by blast
      moreover have "(a, y) \<in> avoiding es L" using y assms by (simp add: avoiding_def)
      ultimately show ?thesis using assms by (auto simp: reach_def intro: converse_rtrancl_into_rtrancl)
    qed
    then show ?thesis using assms by (auto simp: reach_def)
  qed
  have "(a, c) \<in> (avoiding es L)\<^sup>* \<Longrightarrow> c = a \<or> c \<in> reach es (insert a L) (set (es a))" for c
  proof (induction rule: rtrancl_induct)
    case base
    then show ?case by simp
  next
    case (step b c)
    show ?case
    proof (cases "c = a")
      case False
      show ?thesis
      proof (cases "b = a")
        case True
        with step(2) False show ?thesis by (auto simp: avoiding_def reach_def)
      next
        case b: False
        with step.IH obtain y where y: "y \<in> set (es a) - insert a L"
          "(y, b) \<in> (avoiding es (insert a L))\<^sup>*" by (auto simp: reach_def)
        moreover have "(b, c) \<in> avoiding es (insert a L)"
          using step(2) b False by (auto simp: avoiding_def)
        ultimately show ?thesis by (auto simp: reach_def intro: rtrancl_into_rtrancl)
      qed
    qed simp
  qed
  then show "reach es L {a} \<subseteq> insert a (reach es (insert a L) (set (es a)))"
    by (auto simp: reach_def)
qed

lemma reach_closed:
  assumes "\<forall>x \<in> U. set (es x) \<subseteq> U" and "X \<subseteq> U"
  shows "reach es L X \<subseteq> U"
proof -
  have "(x, c) \<in> (avoiding es L)\<^sup>* \<Longrightarrow> x \<in> U \<Longrightarrow> c \<in> U" for x c
    by (induction rule: rtrancl_induct) (use assms(1) in \<open>auto simp: avoiding_def\<close>)
  with assms(2) show ?thesis by (auto simp: reach_def)
qed

lemma forEach_opt_mark:
  assumes "\<And>x K. x \<in> set xs \<Longrightarrow> L \<subseteq> K \<Longrightarrow> f x K = Some (K \<union> reach es K {x})"
  shows "forEach_opt f xs L = Some (L \<union> reach es L (set xs))"
  using assms
proof (induction xs arbitrary: L)
  case Nil
  then show ?case by simp
next
  case (Cons x xs)
  let ?M = "L \<union> reach es L {x}"
  have "forEach_opt f xs ?M = Some (?M \<union> reach es ?M (set xs))"
    by (rule Cons.IH) (use Cons.prems in auto)
  moreover have "f x L = Some ?M" using Cons.prems by simp
  ultimately show ?case by (simp add: reach_insert [of es L x "set xs"] Un_assoc)
qed

lemma markLive_reach:
  assumes "finite U" and "\<forall>x \<in> U. set (live_edges h rv x) \<subseteq> U" and "a \<in> U"
  shows "markLive h rv a L = Some (L \<union> reach (live_edges h rv) L {a})"
  using assms(3)
proof (induction "card (U - L)" arbitrary: a L rule: less_induct)
  case less
  let ?es = "live_edges h rv"
  show ?case
  proof (cases "a \<in> L")
    case True
    then show ?thesis by (subst markLive.simps) (simp add: reach_def)
  next
    case False
    have "forEach_opt (markLive h rv) (?es a) (insert a L) =
        Some (insert a L \<union> reach ?es (insert a L) (set (?es a)))"
    proof (rule forEach_opt_mark)
      fix x K
      assume "x \<in> set (?es a)" and K: "insert a L \<subseteq> K"
      then have "x \<in> U" using assms(2) less.prems by auto
      moreover have "card (U - K) < card (U - L)"
        by (rule psubset_card_mono) (use assms(1) K False less.prems in auto)
      ultimately show "markLive h rv x K = Some (K \<union> reach ?es K {x})"
        by (intro less.hyps)
    qed
    with False show ?thesis by (subst markLive.simps) (simp add: reach_unfold)
  qed
qed

lemma reach_Image: "reach es {} X = {(x, y). y \<in> set (es x)}\<^sup>* `` X"
  by (auto simp: reach_def avoiding_def)

lemma forEach_opt_filter:
  "forEach_opt (\<lambda>x s. if P x then f x s else Some s) xs s = forEach_opt f (filter P xs) s"
proof (induction xs arbitrary: s)
  case (Cons x xs)
  then show ?case by (cases "P x"; cases "f x s") simp_all
qed simp

lemma forEach_opt_append:
  "forEach_opt f (xs @ ys) s = Option.bind (forEach_opt f xs s) (forEach_opt f ys)"
proof (induction xs arbitrary: s)
  case (Cons x xs)
  then show ?case by (cases "f x s") simp_all
qed simp

text \<open>The roots of dead stripping and the edges along which liveness spreads.\<close>

definition strip_roots :: "link_env \<Rightarrow> resolver \<Rightarrow> atom_id set" where
  "strip_roots env r = rootSet r \<union>
     {a \<in> set (atoms_of r). globalsAreDeadStripRoots (ctx env) \<and> is_defined_at (heap r) a \<and>
        scope (the_defined (atom_at (heap r) a)) = scopeGlobal} \<union>
     {a. \<exists>n \<in> set (deadStripRoots (ctx env)). findByName (symtab_of r) n = Some a} \<union>
     {a \<in> set (atoms_of r). is_AbsoluteAtom (atom_at (heap r) a)}"

definition strip_edges :: "resolver \<Rightarrow> (atom_id \<times> atom_id) set" where
  "strip_edges r = {(x, y). is_defined_at (heap r) x \<and>
     ((\<exists>ref \<in> set (refs (the_defined (atom_at (heap r) x))). target ref = y) \<or>
      y \<in> set (atoms_of r) \<and> is_defined_at (heap r) y \<and>
      (\<exists>ref \<in> set (refs (the_defined (atom_at (heap r) y))). target ref = x \<and>
         kindNamespace ref = ns_all \<and> kindValue ref \<in> {kindLayoutAfter, kindGroupChild}))}"

lemma strip_edges_live:
  "strip_edges r = {(x, y). y \<in> set (live_edges (heap r) (concat (map (reverseRefs (heap r)) (atoms_of r))) x)}"
  by (auto simp: strip_edges_def live_edges_def reverseRefs_def isBackref_def image_iff split: if_splits)

text \<open>A finite set of objects that holds the roots, the atoms and all they refer to.\<close>

definition link_objects :: "link_env \<Rightarrow> resolver \<Rightarrow> atom_id set \<Rightarrow> bool" where
  "link_objects env r U \<longleftrightarrow> finite U \<and> strip_roots env r \<union> set (atoms_of r) \<subseteq> U \<and> strip_edges r `` U \<subseteq> U"

text \<open>When the marking ends, it has marked what is reachable, whether the objects are finite or not.\<close>

lemma forEach_opt_marked:
  assumes "\<And>x K K'. x \<in> set xs \<Longrightarrow> f x K = Some K' \<Longrightarrow> K' = K \<union> reach es K {x}"
  shows "forEach_opt f xs L = Some L' \<Longrightarrow> L' = L \<union> reach es L (set xs)"
  using assms
proof (induction xs arbitrary: L)
  case Nil
  then show ?case by simp
next
  case (Cons x xs)
  from Cons.prems(1) obtain M where M: "f x L = Some M" "forEach_opt f xs M = Some L'"
    by (cases "f x L") auto
  have "M = L \<union> reach es L {x}" using Cons.prems(2) M(1) by simp
  moreover have "L' = M \<union> reach es M (set xs)" by (rule Cons.IH [OF M(2)]) (use Cons.prems(2) in simp)
  ultimately show ?case by (simp add: reach_insert [of es L x "set xs"] Un_assoc)
qed

lemma markLive_marked:
  "markLive h rv a L = Some L' \<Longrightarrow> L' = L \<union> reach (live_edges h rv) L {a}"
proof (erule markLive.raw_induct [where P = "\<lambda>h rv a L L'. L' = L \<union> reach (live_edges h rv) L {a}", rotated])
  fix mark h rv a L L'
  assume ih: "\<And>h rv a L L'. mark h rv a L = Some L' \<Longrightarrow> L' = L \<union> reach (live_edges h rv) L {a}"
    and body: "(if a \<in> L then Some L else forEach_opt (mark h rv) (live_edges h rv a) (insert a L)) = Some L'"
  show "L' = L \<union> reach (live_edges h rv) L {a}"
  proof (cases "a \<in> L")
    case True
    with body show ?thesis by (simp add: reach_def)
  next
    case False
    have "L' = insert a L \<union> reach (live_edges h rv) (insert a L) (set (live_edges h rv a))"
      by (rule forEach_opt_marked [where f = "mark h rv"]) (use ih body False in auto)
    with False show ?thesis by (simp add: reach_unfold)
  qed
qed

lemma deadStripOptimize_marked:
  assumes "deadStripOptimize env r = ret r'" and "deadStrip (ctx env)"
    and "liveAtoms r = {}" and "finite (rootSet r)"
  shows "liveAtoms r' = (strip_edges r)\<^sup>* `` strip_roots env r \<and>
    atoms_of r' = filter (\<lambda>a. a \<in> (strip_edges r)\<^sup>* `` strip_roots env r) (atoms_of r)"
proof -
  let ?h = "heap r" and ?as = "atoms_of r"
  define rv where "rv = concat (map (reverseRefs ?h) ?as)"
  let ?es = "live_edges ?h rv"
  define G where "G = (if globalsAreDeadStripRoots (ctx env)
      then {a \<in> set ?as. is_defined_at ?h a \<and> scope (the_defined (atom_at ?h a)) = scopeGlobal} else {})"
  let ?A = "filter (\<lambda>a. is_AbsoluteAtom (atom_at ?h a)) ?as"
  from assms(1,2,3) obtain named L where named: "those (map (findByName (symtab_of r)) (deadStripRoots (ctx env))) = Some named"
    and L: "Option.bind (forEach_opt (markLive ?h rv) ?A {})
      (forEach_opt (markLive ?h rv) (sorted_list_of_set (rootSet r \<union> G \<union> set named))) = Some L"
    and r': "r' = r\<lparr>rootSet := rootSet r \<union> G \<union> set named, liveAtoms := L, atoms_of := filter (\<lambda>a. a \<in> L) ?as\<rparr>"
    unfolding deadStripOptimize_def Let_def forEach_opt_filter G_def rv_def
    by (auto simp: fatal_def ret_def split: option.splits)
  let ?R = "rootSet r \<union> G \<union> set named"
  have edges: "strip_edges r = {(x, y). y \<in> set (?es x)}"
    by (simp add: strip_edges_live rv_def)
  have roots: "strip_roots env r = ?R \<union> set ?A"
    by (auto simp: strip_roots_def G_def those_SomeD [OF named])
  have fin: "finite ?R" using assms(4) by (simp add: G_def)
  have "L = {} \<union> reach ?es {} (set (?A @ sorted_list_of_set ?R))"
    by (rule forEach_opt_marked [where f = "markLive ?h rv"])
      (use L in \<open>auto simp: forEach_opt_append dest: markLive_marked\<close>)
  also have "\<dots> = (strip_edges r)\<^sup>* `` strip_roots env r"
    unfolding reach_Image edges roots using fin by (simp add: Un_commute)
  finally show ?thesis by (simp add: r')
qed

text \<open>C5: Dead stripping ends, and an atom is kept exactly when it can be reached from a root
  (an atom never to be stripped, a global when globals are roots, a named root, an absolute atom)
  along references and, against their direction, along layout-after and group-child references.\<close>

theorem dead_strip_keeps_reachable:
  assumes "deadStrip (ctx env)" and "liveAtoms r = {}" and "link_objects env r U"
    and "\<forall>n \<in> set (deadStripRoots (ctx env)). findByName (symtab_of r) n \<noteq> None"
  shows "\<exists>r'. deadStripOptimize env r = ret r' \<and>
    liveAtoms r' = (strip_edges r)\<^sup>* `` strip_roots env r \<and>
    atoms_of r' = filter (\<lambda>a. a \<in> (strip_edges r)\<^sup>* `` strip_roots env r) (atoms_of r)"
proof -
  let ?h = "heap r" and ?as = "atoms_of r"
  define rv where "rv = concat (map (reverseRefs ?h) ?as)"
  let ?es = "live_edges ?h rv"
  have U: "finite U" "\<forall>x \<in> U. set (?es x) \<subseteq> U" "strip_roots env r \<subseteq> U" "set ?as \<subseteq> U"
    using assms(3) by (auto simp: link_objects_def strip_edges_live rv_def)
  have edges: "strip_edges r = {(x, y). y \<in> set (?es x)}"
    by (simp add: strip_edges_live rv_def)
  obtain named where named: "those (map (findByName (symtab_of r)) (deadStripRoots (ctx env))) = Some named"
    using those_total [OF assms(4)] by blast
  define G where "G = (if globalsAreDeadStripRoots (ctx env)
      then {a \<in> set ?as. is_defined_at ?h a \<and> scope (the_defined (atom_at ?h a)) = scopeGlobal} else {})"
  let ?R = "rootSet r \<union> G \<union> set named"
  let ?A = "filter (\<lambda>a. is_AbsoluteAtom (atom_at ?h a)) ?as"
  have roots: "strip_roots env r = ?R \<union> set ?A"
    by (auto simp: strip_roots_def G_def those_SomeD [OF named])
  have fin: "finite ?R" using U(1,3) roots by (metis finite_Un finite_subset)
  have "Option.bind (forEach_opt (markLive ?h rv) ?A {}) (forEach_opt (markLive ?h rv) (sorted_list_of_set ?R)) =
      forEach_opt (markLive ?h rv) (?A @ sorted_list_of_set ?R) {}"
    by (simp add: forEach_opt_append)
  also have "\<dots> = Some ({} \<union> reach ?es {} (set (?A @ sorted_list_of_set ?R)))"
    by (rule forEach_opt_mark, rule markLive_reach [OF U(1,2)]) (use U(3,4) roots fin in auto)
  also have "\<dots> = Some ((strip_edges r)\<^sup>* `` strip_roots env r)"
    unfolding reach_Image edges roots using fin by (simp add: Un_commute)
  finally have "Option.bind (forEach_opt (markLive ?h rv) ?A {})
      (forEach_opt (markLive ?h rv) (sorted_list_of_set ?R)) = Some ((strip_edges r)\<^sup>* `` strip_roots env r)" .
  with assms(1,2) named
  have "deadStripOptimize env r = ret (r\<lparr>rootSet := ?R, liveAtoms := (strip_edges r)\<^sup>* `` strip_roots env r,
      atoms_of := filter (\<lambda>a. a \<in> (strip_edges r)\<^sup>* `` strip_roots env r) ?as\<rparr>)"
    unfolding deadStripOptimize_def Let_def forEach_opt_filter G_def rv_def by simp
  then show ?thesis by (intro exI conjI, assumption) simp_all
qed

text \<open>The sample link after resolution, its references already redirected.\<close>

definition strip_sample :: resolver where
  "strip_sample = (init_resolver (link_sample_store\<lparr>atom_at := (atom_at link_sample_store)
       (0 := DefinedAtom ''main'' 0 ((sample_defined mergeNo 4 [0])\<lparr>refs :=
          [\<lparr>kindNamespace = ns_ELF, kindArch = arch_x86_64, kindValue = 2, offsetInAtom = 0, target = 2,
            addend = 0, tag = 0\<rparr>]\<rparr>))\<rparr>))
     \<lparr>symtab_of := empty_symtab\<lparr>nameTable := [(''main'', 0), (''foo'', 2), (''unused'', 3)],
        replacedAtoms := [1 \<mapsto> 2]\<rparr>, atoms_of := [0, 1, 2, 3]\<rparr>"

lemma strip_sample_atoms:
  "atoms_of strip_sample = [0, 1, 2, 3]" "rootSet strip_sample = {}" "liveAtoms strip_sample = {}"
  "findByName (symtab_of strip_sample) ''main'' = Some 0"
  by (simp_all add: strip_sample_def init_resolver_def findByName_def)

lemma strip_sample_edges: "strip_edges strip_sample = {(0, 2)}"
proof -
  have h: "atom_at (heap strip_sample) x = (if x = 0 then DefinedAtom ''main'' 0 ((sample_defined mergeNo 4 [0])\<lparr>refs :=
          [\<lparr>kindNamespace = ns_ELF, kindArch = arch_x86_64, kindValue = 2, offsetInAtom = 0, target = 2,
            addend = 0, tag = 0\<rparr>]\<rparr>) else atom_at link_sample_store x)" for x
    by (simp add: strip_sample_def init_resolver_def)
  have rv: "concat (map (reverseRefs (heap strip_sample)) (atoms_of strip_sample)) = []"
    by (simp add: strip_sample_atoms reverseRefs_def h link_sample_store_def sample_defined_def isBackref_def)
  have "live_edges (heap strip_sample) [] x = (if x = 0 then [2] else [])" for x
    by (simp add: live_edges_def h link_sample_store_def sample_defined_def)
  then show ?thesis by (auto simp: strip_edges_live rv split: if_splits)
qed

theorem dead_strip_keeps_reachable_witness:
  "\<exists>r'. deadStripOptimize link_sample strip_sample = ret r' \<and> atoms_of r' = [0, 2]"
proof -
  have roots: "strip_roots link_sample strip_sample = {0}"
    by (auto simp: strip_roots_def strip_sample_atoms link_sample_def LinkingContext_def)
      (auto simp: strip_sample_def init_resolver_def link_sample_store_def split: if_splits)
  have "link_objects link_sample strip_sample {0, 1, 2, 3}"
    by (auto simp: link_objects_def roots strip_sample_atoms strip_sample_edges)
  moreover have "deadStrip (ctx link_sample)" "deadStripRoots (ctx link_sample) = [''main'']"
    by (simp_all add: link_sample_def)
  ultimately obtain r' where
    r': "deadStripOptimize link_sample strip_sample = ret r'"
      "atoms_of r' = filter (\<lambda>a. a \<in> {(0, 2)}\<^sup>* `` {0}) [0, 1, 2, 3]"
    using dead_strip_keeps_reachable [of link_sample strip_sample "{0, 1, 2, 3}"]
    by (auto simp: roots strip_sample_atoms strip_sample_edges)
  have "(0, x) \<in> {(0, 2)}\<^sup>* \<longleftrightarrow> x = 0 \<or> x = 2" for x :: nat
    by (auto elim: rtranclE)
  with r' show ?thesis by (auto simp: Image_singleton)
qed

end
