(* ===== verification/Resolver_Frame.thy ===== *)
theory Resolver_Frame
  imports Resolver
begin

text \<open>
  What the loop over the inputs (\<open>Resolver::resolveUndefines\<close> and all it calls) leaves alone: when it ends it has changed
  no object and marked none live or dead, and has recorded finitely many roots. Nothing is assumed of the inputs: the
  recursive functions are treated by fixpoint induction, so runs that do not end are covered as well.
\<close>

section \<open>Runs that yield a value\<close>

text \<open>\<open>yields m Q\<close>: if the run ends with a value, the value satisfies \<open>Q\<close>.\<close>

definition yields :: "'a run \<Rightarrow> ('a \<Rightarrow> bool) \<Rightarrow> bool" where
  "yields m Q \<longleftrightarrow> (\<forall>x. m = ret x \<longrightarrow> Q x)"

lemma yields_simps [simp]:
  "yields (ret x) Q \<longleftrightarrow> Q x"
  "yields (fatal e) Q"
  "yields None Q"
  "yields (andThen m f) Q \<longleftrightarrow> yields m (\<lambda>x. yields (f x) Q)"
  by (auto simp: yields_def andThen_def ret_def fatal_def split: option.splits sum.splits)

lemma yields_mono: "yields m P \<Longrightarrow> (\<And>x. P x \<Longrightarrow> Q x) \<Longrightarrow> yields m Q"
  by (simp add: yields_def)

lemma yields_forEach:
  "(\<And>x s. x \<in> set xs \<Longrightarrow> I s \<Longrightarrow> yields (f x s) I) \<Longrightarrow> I s \<Longrightarrow> yields (forEach f xs s) I"
proof (induction xs arbitrary: s)
  case (Cons x xs)
  have "yields (f x s) I" using Cons.prems by simp
  moreover have "I t \<Longrightarrow> yields (forEach f xs t) I" for t using Cons by simp
  ultimately show ?case by (simp add: yields_mono)
qed simp

section \<open>Nothing is marked before the marking\<close>

text \<open>The objects are \<open>h\<close>, no atom is marked live or dead, and the roots are finite.\<close>

definition unmarked :: "store \<Rightarrow> resolver \<Rightarrow> bool" where
  "unmarked h r \<longleftrightarrow> heap r = h \<and> liveAtoms r = {} \<and> deadAtoms r = {} \<and> finite (rootSet r)"

lemma unmarked_init: "unmarked h (init_resolver h)"
  by (simp add: unmarked_def init_resolver_def)

lemma unmarked_updates [simp]:
  "unmarked h (pushAtom a s) = unmarked h s"
  "unmarked h (s\<lparr>symtab_of := st\<rparr>) = unmarked h s"
  "unmarked h (s\<lparr>undefs := us\<rparr>) = unmarked h s"
  "unmarked h (s\<lparr>undefineIndex := ui\<rparr>) = unmarked h s"
  "unmarked h (s\<lparr>newUndefinesAdded := nu\<rparr>) = unmarked h s"
  "unmarked h (s\<lparr>membersInstantiated := ms\<rparr>) = unmarked h s"
  "unmarked h (s\<lparr>rootSet := insert a (rootSet s)\<rparr>) = unmarked h s"
  "unmarked h (setOrdinal f s) = unmarked h s"
  "unmarked h (maybePreloadArchiveMember nm s) = unmarked h s"
  by (simp_all add: unmarked_def pushAtom_def setOrdinal_def maybePreloadArchiveMember_def split: option.splits)

lemma unmarked_updatePreload [simp]: "unmarked h (updatePreloadArchiveMap env s) = unmarked h s"
proof -
  have "unmarked h (fold (\<lambda>n r. case n of
             GroupEnd _ \<Rightarrow> r
           | FileNode f \<Rightarrow>
               if file_kind_of (heap r) f \<noteq> kindArchiveLibrary \<or> f \<in> archiveSeen r then r
               else r\<lparr>archiveSeen := insert f (archiveSeen r),
                      archiveMap := fold (\<lambda>nm m. AList.update nm f m) (archive_symbols env f) (archiveMap r)\<rparr>) ns s)
    = unmarked h s" for ns
    by (induction ns arbitrary: s) (auto simp: unmarked_def split: node.splits)
  then show ?thesis by (simp add: updatePreloadArchiveMap_def)
qed

lemma tableAdd_unmarked: "unmarked h s \<Longrightarrow> yields (tableAdd env a s) (\<lambda>(s', _). unmarked h s')"
  by (auto simp: tableAdd_def split: sum.splits)

lemma addGroup_unmarked:
  "unmarked h s \<Longrightarrow> yields (maybeAddSectionGroupOrGnuLinkOnce env a s) (unmarked h)"
  unfolding maybeAddSectionGroupOrGnuLinkOnce_def
  by (auto simp: Let_def split: sum.splits option.splits intro!: yields_forEach yields_mono [OF tableAdd_unmarked])

lemma atoms_unmarked:
  assumes "unmarked h s"
  shows "yields (doDefinedAtom env a s) (unmarked h)"
    and "yields (doSharedLibraryAtom env a s) (unmarked h)"
    and "yields (doAbsoluteAtom env a s) (unmarked h)"
  using assms
  by (auto simp: doDefinedAtom_def doSharedLibraryAtom_def doAbsoluteAtom_def Let_def
      intro!: yields_mono [OF addGroup_unmarked] yields_mono [OF tableAdd_unmarked])

text \<open>Inside a recursive function, the runs it calls may be assumed to have the property.\<close>

lemma yields_Some: "yields m Q \<longleftrightarrow> (\<forall>y. m = Some y \<longrightarrow> (case y of Inl _ \<Rightarrow> True | Inr x \<Rightarrow> Q x))"
  by (cases m) (auto simp: yields_def ret_def split: sum.splits)

lemma doUndefinedAtom_unmarked:
  assumes "unmarked h s"
  shows "yields (doUndefinedAtom env a s) (\<lambda>(s', _). unmarked h s')"
  unfolding yields_Some
proof (intro allI impI)
  fix y
  assume "doUndefinedAtom env a s = Some y"
  then have "unmarked h s \<longrightarrow> (case y of Inl _ \<Rightarrow> True | Inr (s', _) \<Rightarrow> unmarked h s')"
  proof (rule doUndefinedAtom.raw_induct [where P = "\<lambda>env a s y. unmarked h s \<longrightarrow>
      (case y of Inl _ \<Rightarrow> True | Inr (s', _) \<Rightarrow> unmarked h s')", rotated])
    fix f env a s y
    assume ih: "\<And>env a s y. f env a s = Some y \<Longrightarrow> unmarked h s \<longrightarrow>
        (case y of Inl _ \<Rightarrow> True | Inr (s', _) \<Rightarrow> unmarked h s')"
      and body: "andThen (tableAdd env a (pushAtom a s)) (\<lambda>(r1, newUndefAdded).
       let nm = name_of (heap r1) a;
           r2 = (if newUndefAdded then r1\<lparr>undefs := undefs r1 @ [nm]\<rparr> else r1)
       in if newUndefAdded \<or> \<not> isDefined (heap r2) (symtab_of r2) nm
          then case fallback_of (atom_at (heap r2) a) of
                 None \<Rightarrow> ret (r2, newUndefAdded)
               | Some fb \<Rightarrow> andThen (f env fb r2) (\<lambda>(r3, _).
                   ret (r3\<lparr>symtab_of := addReplacement a fb (symtab_of r3)\<rparr>, newUndefAdded))
          else ret (r2, newUndefAdded)) = Some y"
    have call: "unmarked h t \<Longrightarrow> yields (f env b t) (\<lambda>(s', _). unmarked h s')" for b t
      using ih unfolding yields_Some by blast
    have "unmarked h s \<Longrightarrow> yields (andThen (tableAdd env a (pushAtom a s)) (\<lambda>(r1, newUndefAdded).
       let nm = name_of (heap r1) a;
           r2 = (if newUndefAdded then r1\<lparr>undefs := undefs r1 @ [nm]\<rparr> else r1)
       in if newUndefAdded \<or> \<not> isDefined (heap r2) (symtab_of r2) nm
          then case fallback_of (atom_at (heap r2) a) of
                 None \<Rightarrow> ret (r2, newUndefAdded)
               | Some fb \<Rightarrow> andThen (f env fb r2) (\<lambda>(r3, _).
                   ret (r3\<lparr>symtab_of := addReplacement a fb (symtab_of r3)\<rparr>, newUndefAdded))
          else ret (r2, newUndefAdded))) (\<lambda>(s', _). unmarked h s')"
      by (auto simp: Let_def split: option.split intro!: yields_mono [OF tableAdd_unmarked] yields_mono [OF call])
    with body show "unmarked h s \<longrightarrow> (case y of Inl _ \<Rightarrow> True | Inr (s', _) \<Rightarrow> unmarked h s')"
      unfolding yields_Some by blast
  qed
  with assms show "case y of Inl _ \<Rightarrow> True | Inr x \<Rightarrow> (case x of (s', _) \<Rightarrow> unmarked h s')" by simp
qed

text \<open>The callbacks of the scan over the undefined names.\<close>

lemma handleFile_unmarked:
  assumes "unmarked h s"
  shows "yields (handleFile env f s) (\<lambda>(s', _). unmarked h s')"
proof -
  have d: "yields (forEach (doDefinedAtom env) xs v) (unmarked h)"
    and sh: "yields (forEach (doSharedLibraryAtom env) xs v) (unmarked h)"
    and ab: "yields (forEach (doAbsoluteAtom env) xs v) (unmarked h)" if "unmarked h v" for xs v
    using that by (auto intro!: yields_forEach atoms_unmarked)
  have u: "yields (forEach (\<lambda>a (r, undefAdded).
                    andThen (doUndefinedAtom env a r) (\<lambda>(r', added).
                      ret (if added then (maybePreloadArchiveMember (name_of (heap r') a) r', True)
                           else (r', undefAdded)))) xs (v, False)) (\<lambda>(s', _). unmarked h s')"
    if "unmarked h v" for v xs
    by (rule yields_forEach) (use that in \<open>auto intro!: yields_mono [OF doUndefinedAtom_unmarked]\<close>)
  show ?thesis
    unfolding handleFile_def Let_def
    by (auto intro!: yields_mono [OF d [OF assms]] yields_mono [OF u] yields_mono [OF sh] yields_mono [OF ab])
qed

lemma archive_find_unmarked: "unmarked h (snd (archive_find env f nm d r)) = unmarked h r"
  by (simp add: archive_find_def Let_def split: option.split)

lemma archiveCallback_unmarked:
  "unmarked h (fst s) \<Longrightarrow> yields (archiveCallback env f nm d s) (\<lambda>s'. unmarked h (fst s'))"
  using archive_find_unmarked [of h env f nm d "fst s"]
  by (auto simp: archiveCallback_def split: prod.splits option.splits intro!: yields_mono [OF handleFile_unmarked])

lemma sharedCallback_unmarked:
  "unmarked h (fst s) \<Longrightarrow> yields (sharedCallback env f nm d s) (\<lambda>s'. unmarked h (fst s'))"
  by (auto simp: sharedCallback_def split: option.split intro!: yields_mono [OF atoms_unmarked(2)])

text \<open>The callbacks of the scan over the undefined names.\<close>

definition unmarking :: "store \<Rightarrow> undef_callback \<Rightarrow> bool" where
  "unmarking h cb \<longleftrightarrow> (\<forall>nm d s. unmarked h (fst s) \<longrightarrow> yields (cb nm d s) (\<lambda>s'. unmarked h (fst s')))"

lemma unmarking_call: "unmarking h cb \<Longrightarrow> unmarked h (fst s) \<Longrightarrow> yields (cb nm d s) (\<lambda>s'. unmarked h (fst s'))"
  unfolding unmarking_def by blast

lemma unmarking_callbacks: "unmarking h (archiveCallback env f)" "unmarking h (sharedCallback env f)"
  by (simp_all add: unmarking_def archiveCallback_unmarked sharedCallback_unmarked)

lemma scanUndefines_unmarked:
  assumes "unmarking h cb" and "unmarked h (fst s)"
  shows "yields (scanUndefines cb i s) (\<lambda>(_, s'). unmarked h (fst s'))"
  unfolding yields_Some
proof (intro allI impI)
  fix y
  assume "scanUndefines cb i s = Some y"
  then show "case y of Inl _ \<Rightarrow> True | Inr x \<Rightarrow> (case x of (_, s') \<Rightarrow> unmarked h (fst s'))"
    using assms
  proof (induction cb i s y rule: scanUndefines.raw_induct [rotated, consumes 1, case_names step])
    case (step f cb i s y)
    have call: "unmarked h (fst t) \<Longrightarrow> yields (f cb j t) (\<lambda>(_, s'). unmarked h (fst s'))" for j t
      unfolding yields_Some by (intro allI impI step.IH [OF _ step.prems(1)])
    have "yields (Some y) (\<lambda>(_, s'). unmarked h (fst s'))"
      unfolding step.hyps [symmetric]
      using step.prems(2)
      by (auto simp: Let_def split: option.split intro!: call yields_mono [OF unmarking_call [OF step.prems(1)]])
    then show ?case unfolding yields_Some by blast
  qed
qed

lemma overrides_unmarked:
  assumes "unmarking h cb" and "unmarked h (fst s)"
  shows "yields (forEach (overrideTentative cb) xs s) (\<lambda>s'. unmarked h (fst s'))"
  by (rule yields_forEach)
    (use assms in \<open>auto simp: overrideTentative_def Let_def unmarking_call split: option.split\<close>)

lemma undefinesLoop_unmarked:
  assumes "unmarking h cb" and "unmarked h (fst s)"
  shows "yields (undefinesLoop cb search i s) (\<lambda>(_, s'). unmarked h (fst s'))"
  unfolding yields_Some
proof (intro allI impI)
  fix y
  assume "undefinesLoop cb search i s = Some y"
  then show "case y of Inl _ \<Rightarrow> True | Inr x \<Rightarrow> (case x of (_, s') \<Rightarrow> unmarked h (fst s'))"
    using assms
  proof (induction cb search i s y rule: undefinesLoop.raw_induct [rotated, consumes 1, case_names step])
    case (step f cb search i s y)
    have call: "unmarked h (fst t) \<Longrightarrow> yields (f cb se j t) (\<lambda>(_, s'). unmarked h (fst s'))" for se j t
      unfolding yields_Some by (intro allI impI step.IH [OF _ step.prems(1)])
    have "yields (Some y) (\<lambda>(_, s'). unmarked h (fst s'))"
      unfolding step.hyps [symmetric]
      using step.prems(2)
      by (auto intro!: call yields_mono [OF scanUndefines_unmarked [OF step.prems(1)]]
          yields_mono [OF overrides_unmarked [OF step.prems(1)]])
    then show ?case unfolding yields_Some by blast
  qed
qed

lemma forEachUndefines_unmarked:
  "unmarking h cb \<Longrightarrow> unmarked h (fst s) \<Longrightarrow>
    yields (forEachUndefines f search cb s) (\<lambda>s'. unmarked h (fst s'))"
  unfolding forEachUndefines_def by (auto intro!: yields_mono [OF undefinesLoop_unmarked])

lemma handleInput_unmarked:
  assumes "unmarked h r"
  shows "yields (handleInput env f visited r) (\<lambda>(_, r'). unmarked h r')"
  using assms
  by (auto simp: handleInput_def handleArchiveFile_def handleSharedLibrary_def Let_def split: file_kind.split
      intro!: yields_mono [OF handleFile_unmarked] yields_mono [OF forEachUndefines_unmarked] unmarking_callbacks)

lemma resolveLoop_unmarked:
  assumes "unmarked h r"
  shows "yields (resolveLoop env i visited r) (\<lambda>(r', _). unmarked h r')"
  unfolding yields_Some
proof (intro allI impI)
  fix y
  assume "resolveLoop env i visited r = Some y"
  then show "case y of Inl _ \<Rightarrow> True | Inr x \<Rightarrow> (case x of (r', _) \<Rightarrow> unmarked h r')"
    using assms
  proof (induction env i visited r y rule: resolveLoop.raw_induct [rotated, consumes 1, case_names step])
    case (step f env i visited r y)
    have call: "unmarked h t \<Longrightarrow> yields (f env j v t) (\<lambda>(r', _). unmarked h r')" for j v t
      unfolding yields_Some by (intro allI impI step.IH)
    have "yields (Some y) (\<lambda>(r', _). unmarked h r')"
      unfolding step.hyps [symmetric]
      using step.prems
      by (auto split: option.split prod.split intro!: call yields_mono [OF handleInput_unmarked])
    then show ?case unfolding yields_Some by blast
  qed
qed

lemma resolveUndefines_unmarked:
  assumes "resolveUndefines env (updatePreloadArchiveMap env (init_resolver h)) = ret (r, ok)"
  shows "unmarked h r"
proof -
  have "yields (resolveUndefines env (updatePreloadArchiveMap env (init_resolver h))) (\<lambda>(r', _). unmarked h r')"
    unfolding resolveUndefines_def by (rule resolveLoop_unmarked) (simp add: unmarked_init)
  with assms show ?thesis by (simp add: yields_def)
qed

end
