(* ===== verification/Resolution.thy ===== *)
theory Resolution
  imports Dead_Strip Resolver_Frame
begin

text \<open>
  Properties of the resolver: the redirection of references to surviving atoms, the end of the loops
  over the inputs and over the undefined names, and what holds of the atoms a successful \<open>resolve\<close>
  leaves.
\<close>

section \<open>Redirecting references\<close>

definition red :: "symtab \<Rightarrow> reference \<Rightarrow> reference" where
  "red st ref = (if is_associate ref then ref else ref\<lparr>target := the (replacement st (target ref))\<rparr>)"

fun red_atom :: "symtab \<Rightarrow> atom \<Rightarrow> atom" where
  "red_atom st (DefinedAtom n f d) = DefinedAtom n f (d\<lparr>refs := map (red st) (refs d)\<rparr>)"
| "red_atom st a = a"

definition associates :: "atom \<Rightarrow> atom_id set" where
  "associates a = (if is_DefinedAtom a then target ` set (filter is_associate (refs (the_defined a))) else {})"

lemma is_associate_target [simp]: "is_associate (ref\<lparr>target := t\<rparr>) = is_associate ref"
  by (simp add: is_associate_def)

lemma is_associate_red [simp]: "is_associate (red st ref) = is_associate ref"
  by (simp add: red_def)

text \<open>The references of an atom whose targets have a last replacement: no cycle in \<open>_replacedAtoms\<close> is met.\<close>

definition redirectable :: "symtab \<Rightarrow> atom \<Rightarrow> bool" where
  "redirectable st a \<longleftrightarrow> (is_DefinedAtom a \<longrightarrow>
     (\<forall>ref \<in> set (refs (the_defined a)). is_associate ref \<or> replacement st (target ref) \<noteq> None))"

text \<open>An atom that refers to no coalesced atom, associations apart.\<close>

definition refers_to_survivors :: "symtab \<Rightarrow> atom \<Rightarrow> bool" where
  "refers_to_survivors st a \<longleftrightarrow> is_DefinedAtom a \<longrightarrow>
     (\<forall>ref \<in> set (refs (the_defined a)). is_associate ref \<or> \<not> isCoalescedAway st (target ref))"

lemma symtab_inv_redirectable: "symtab_inv h st \<Longrightarrow> redirectable st a"
  using stc.repl_ends [of h st] by (fastforce simp: redirectable_def)

lemma replacement_again: "replacement st a = Some b \<Longrightarrow> replacement st b = Some b"
  by (auto simp: replacement_def intro: replacement_of_end dest: replacement_of_terminal)

lemma redirectable_cases:
  "redirectable st (DefinedAtom n f d) \<longleftrightarrow>
     (\<forall>ref \<in> set (refs d). is_associate ref \<or> (\<exists>b. replacement st (target ref) = Some b))"
  by (simp add: redirectable_def)

lemma red_twice:
  assumes "is_associate ref \<or> (\<exists>b. replacement st (target ref) = Some b)"
  shows "red st (red st ref) = red st ref"
    and "is_associate ref \<or> (\<exists>b. replacement st (target (red st ref)) = Some b)"
    and "is_associate ref \<or> \<not> isCoalescedAway st (target (red st ref))"
  using assms replacement_again [of st "target ref"] replacement_of_terminal [of "replacedAtoms st" "target ref"]
  by (auto simp: red_def isCoalescedAway_def replacement_def)

lemma red_atom_idem: "redirectable st a \<Longrightarrow> red_atom st (red_atom st a) = red_atom st a"
proof (cases a)
  case (DefinedAtom n f d)
  assume "redirectable st a"
  then have "map (red st) (map (red st) (refs d)) = map (red st) (refs d)"
    using DefinedAtom red_twice(1) by (auto simp: redirectable_cases)
  with DefinedAtom show ?thesis by simp
qed simp_all

lemma redirectable_red [simp]: "redirectable st a \<Longrightarrow> redirectable st (red_atom st a)"
  using red_twice(2) by (cases a) (fastforce simp: redirectable_cases)+

lemma red_atom_survivors: "redirectable st a \<Longrightarrow> refers_to_survivors st (red_atom st a)"
  using red_twice(3) by (cases a) (fastforce simp: redirectable_cases refers_to_survivors_def)+

lemma filter_associate_red: "filter is_associate (map (red st) rs) = filter is_associate rs"
  by (induction rs) (auto simp: red_def)

lemma associates_red [simp]: "associates (red_atom st a) = associates a"
  by (cases a) (simp_all add: associates_def filter_associate_red)

lemma redirect_all:
  "those (map (redirect st) rs) =
     (if \<forall>ref \<in> set rs. is_associate ref \<or> (\<exists>b. replacement st (target ref) = Some b)
      then Some (map (red st) rs) else None)"
  by (induction rs) (auto simp: redirect_def red_def split: option.splits)

definition redirected :: "atom_id \<Rightarrow> resolver \<Rightarrow> resolver" where
  "redirected a r = r\<lparr>heap := (heap r)\<lparr>atom_at := (atom_at (heap r))(a := red_atom (symtab_of r) (atom_at (heap r) a))\<rparr>,
     deadAtoms := (if isCoalescedAway (symtab_of r) a then deadAtoms r \<union> associates (atom_at (heap r) a)
                   else deadAtoms r)\<rparr>"

lemma updateAtom_eq:
  "updateAtom a r = (if redirectable (symtab_of r) (atom_at (heap r) a) then ret (redirected a r) else None)"
  by (cases "atom_at (heap r) a")
    (auto simp: updateAtom_def Let_def setRefs_def associates_def fun_upd_idem redirected_def redirect_all
      redirectable_def)

lemma updateAtoms_diverge:
  "\<exists>a \<in> set as. \<not> redirectable (symtab_of r) (atom_at (heap r) a) \<Longrightarrow> forEach updateAtom as r = None"
proof (induction as arbitrary: r)
  case (Cons a as)
  show ?case
  proof (cases "redirectable (symtab_of r) (atom_at (heap r) a)")
    case True
    then have "forEach updateAtom as (redirected a r) = None"
      using Cons.prems by (intro Cons.IH) (auto simp: redirected_def)
    with True show ?thesis by (simp add: updateAtom_eq [of a r])
  qed (simp add: updateAtom_eq [of a r])
qed simp

lemma updateAtoms_eq:
  assumes "\<forall>a \<in> set as. redirectable (symtab_of r) (atom_at (heap r) a)"
  shows "\<exists>r'. forEach updateAtom as r = ret r' \<and>
    r' = r\<lparr>heap := heap r', deadAtoms := deadAtoms r'\<rparr> \<and>
    file_kind_of (heap r') = file_kind_of (heap r) \<and>
    (\<forall>x. atom_at (heap r') x = (if x \<in> set as then red_atom (symtab_of r) (atom_at (heap r) x) else atom_at (heap r) x)) \<and>
    deadAtoms r' = deadAtoms r \<union> (\<Union>a \<in> {a \<in> set as. isCoalescedAway (symtab_of r) a}. associates (atom_at (heap r) a))"
  using assms
proof (induction as arbitrary: r)
  case Nil
  then show ?case by simp
next
  case (Cons a as)
  let ?st = "symtab_of r"
  define r1 where "r1 = redirected a r"
  have step: "updateAtom a r = ret r1" using Cons.prems by (simp add: updateAtom_eq r1_def)
  have st1: "symtab_of r1 = ?st" by (simp add: r1_def redirected_def)
  have "\<forall>x \<in> set as. redirectable (symtab_of r1) (atom_at (heap r1) x)"
    using Cons.prems by (auto simp: r1_def redirected_def)
  from Cons.IH [OF this] st1 obtain r' where r':
    "forEach updateAtom as r1 = ret r'" "r' = r1\<lparr>heap := heap r', deadAtoms := deadAtoms r'\<rparr>"
    "file_kind_of (heap r') = file_kind_of (heap r1)"
    "\<forall>x. atom_at (heap r') x = (if x \<in> set as then red_atom ?st (atom_at (heap r1) x) else atom_at (heap r1) x)"
    "deadAtoms r' = deadAtoms r1 \<union> (\<Union>a \<in> {a \<in> set as. isCoalescedAway ?st a}. associates (atom_at (heap r1) a))"
    by auto
  have assoc: "associates (atom_at (heap r1) x) = associates (atom_at (heap r) x)" for x
    by (simp add: r1_def redirected_def)
  have "forEach updateAtom (a # as) r = ret r'" using step r'(1) by simp
  moreover have "r' = r\<lparr>heap := heap r', deadAtoms := deadAtoms r'\<rparr>"
    by (subst r'(2)) (simp add: r1_def redirected_def)
  moreover have "file_kind_of (heap r') = file_kind_of (heap r)" using r'(3) by (simp add: r1_def redirected_def)
  moreover have "atom_at (heap r') x =
      (if x \<in> set (a # as) then red_atom ?st (atom_at (heap r) x) else atom_at (heap r) x)" for x
    using r'(4) Cons.prems by (auto simp: r1_def redirected_def red_atom_idem)
  moreover have "deadAtoms r' = deadAtoms r \<union>
      (\<Union>x \<in> {x \<in> set (a # as). isCoalescedAway ?st x}. associates (atom_at (heap r) x))"
    using r'(5) by (auto simp: assoc) (auto simp: r1_def redirected_def split: if_splits)
  ultimately show ?case by blast
qed

lemma updateReferences_ret:
  assumes "updateReferences r = ret r'"
  shows "(\<forall>a \<in> set (atoms_of r). redirectable (symtab_of r) (atom_at (heap r) a)) \<and>
    r' = r\<lparr>heap := heap r', deadAtoms := deadAtoms r'\<rparr> \<and> file_kind_of (heap r') = file_kind_of (heap r) \<and>
    (\<forall>x. atom_at (heap r') x =
       (if x \<in> set (atoms_of r) then red_atom (symtab_of r) (atom_at (heap r) x) else atom_at (heap r) x)) \<and>
    deadAtoms r' = deadAtoms r \<union>
      (\<Union>a \<in> {a \<in> set (atoms_of r). isCoalescedAway (symtab_of r) a}. associates (atom_at (heap r) a))"
proof -
  have "\<forall>a \<in> set (atoms_of r). redirectable (symtab_of r) (atom_at (heap r) a)"
    using updateAtoms_diverge [of "atoms_of r" r] assms by (auto simp: updateReferences_def ret_def)
  with updateAtoms_eq [OF this] assms show ?thesis by (auto simp: updateReferences_def)
qed

text \<open>C23: Redirecting the references ends exactly when no reference of a linked atom, an association apart, leads into
  a cycle of replacements (the operations of the symbol table make none, lemma \<open>symtab_inv_redirectable\<close>; fallbacks
  that name each other do). Then every reference of a linked atom, an association apart, points at the atom that
  replaces its old target, which is not coalesced away; the atoms that an association of a coalesced atom names are
  added to the dead ones; and no other atom and nothing else of the resolver changes.\<close>

theorem updateReferences_redirects:
  "if \<forall>a \<in> set (atoms_of r). redirectable (symtab_of r) (atom_at (heap r) a)
   then \<exists>r'. updateReferences r = ret r' \<and>
     r' = r\<lparr>heap := heap r', deadAtoms := deadAtoms r'\<rparr> \<and> file_kind_of (heap r') = file_kind_of (heap r) \<and>
     (\<forall>x. atom_at (heap r') x =
        (if x \<in> set (atoms_of r) then red_atom (symtab_of r) (atom_at (heap r) x) else atom_at (heap r) x)) \<and>
     (\<forall>a \<in> set (atoms_of r). refers_to_survivors (symtab_of r) (atom_at (heap r') a)) \<and>
     deadAtoms r' = deadAtoms r \<union>
       (\<Union>a \<in> {a \<in> set (atoms_of r). isCoalescedAway (symtab_of r) a}. associates (atom_at (heap r) a))
   else updateReferences r = None"
proof (cases "\<forall>a \<in> set (atoms_of r). redirectable (symtab_of r) (atom_at (heap r) a)")
  case True
  from updateAtoms_eq [OF this] obtain r' where r': "updateReferences r = ret r'"
    by (auto simp: updateReferences_def)
  note u = updateReferences_ret [OF r']
  have "\<forall>a \<in> set (atoms_of r). refers_to_survivors (symtab_of r) (atom_at (heap r') a)"
    using u red_atom_survivors by simp
  with u r' True show ?thesis by auto
next
  case False
  then show ?thesis using updateAtoms_diverge [of "atoms_of r" r] by (auto simp: updateReferences_def)
qed

section \<open>Loops that end\<close>

text \<open>\<open>runs m Q\<close>: the run ends, and if no fatal error stopped it its value satisfies \<open>Q\<close>.\<close>

definition runs :: "'a run \<Rightarrow> ('a \<Rightarrow> bool) \<Rightarrow> bool" where
  "runs m Q \<longleftrightarrow> m \<noteq> None \<and> (\<forall>x. m = ret x \<longrightarrow> Q x)"

lemma runs_ret [simp]: "runs (ret x) Q \<longleftrightarrow> Q x"
  by (simp add: runs_def)

lemma runs_fatal [simp]: "runs (fatal e) Q"
  by (simp add: runs_def fatal_def ret_def)

lemma runs_andThen [simp]: "runs (andThen m f) Q \<longleftrightarrow> runs m (\<lambda>x. runs (f x) Q)"
  by (cases m) (auto simp: andThen_def runs_def ret_def split: sum.splits)

lemma runs_mono: "runs m P \<Longrightarrow> (\<And>x. P x \<Longrightarrow> Q x) \<Longrightarrow> runs m Q"
  by (auto simp: runs_def)

lemma runs_if: "(c \<Longrightarrow> runs a Q) \<Longrightarrow> (\<not> c \<Longrightarrow> runs b Q) \<Longrightarrow> runs (if c then a else b) Q"
  by simp

lemma runs_forEach:
  "(\<And>x s. x \<in> set xs \<Longrightarrow> I s \<Longrightarrow> runs (f x s) I) \<Longrightarrow> I s \<Longrightarrow> runs (forEach f xs s) I"
proof (induction xs arbitrary: s)
  case (Cons x xs)
  have "runs (f x s) I" using Cons.prems by simp
  moreover have "I t \<Longrightarrow> runs (forEach f xs t) I" for t using Cons by simp
  ultimately show ?case by (simp add: runs_mono)
qed simp

text \<open>What adding atoms leaves alone: the objects, the archive members taken and the flags of the
  group loop.\<close>

definition framed :: "resolver \<Rightarrow> resolver \<Rightarrow> bool" where
  "framed r r' \<longleftrightarrow> heap r' = heap r \<and> membersInstantiated r' = membersInstantiated r \<and>
     newUndefinesAdded r' = newUndefinesAdded r"

lemma framed_refl [simp]: "framed r r" by (simp add: framed_def)

lemma framed_trans: "framed r s \<Longrightarrow> framed s t \<Longrightarrow> framed r t" by (simp add: framed_def)

lemma framed_updates [simp]:
  "framed r (pushAtom a s) = framed r s"
  "framed r (s\<lparr>symtab_of := st\<rparr>) = framed r s"
  "framed r (s\<lparr>rootSet := rs\<rparr>) = framed r s"
  "framed r (s\<lparr>undefs := us\<rparr>) = framed r s"
  "framed r (setOrdinal f s) = framed r s"
  "framed r (maybePreloadArchiveMember nm s) = framed r s"
  by (simp_all add: framed_def pushAtom_def setOrdinal_def maybePreloadArchiveMember_def split: option.splits)

lemma framed_updatePreload [simp]: "framed r (updatePreloadArchiveMap env s) = framed r s"
proof -
  have "framed r (fold (\<lambda>n r. case n of
             GroupEnd _ \<Rightarrow> r
           | FileNode f \<Rightarrow>
               if file_kind_of (heap r) f \<noteq> kindArchiveLibrary \<or> f \<in> archiveSeen r then r
               else r\<lparr>archiveSeen := insert f (archiveSeen r),
                      archiveMap := fold (\<lambda>nm m. AList.update nm f m) (archive_symbols env f) (archiveMap r)\<rparr>) ns s)
    = framed r s" for ns
    by (induction ns arbitrary: s) (auto simp: framed_def split: node.splits)
  then show ?thesis by (simp add: updatePreloadArchiveMap_def)
qed

lemma tableAdd_runs: "runs (tableAdd env a s) (\<lambda>(s', _). framed r s' = framed r s)"
  by (auto simp: tableAdd_def split: sum.splits)

lemma tableAdd_step: "framed r s \<Longrightarrow> runs (tableAdd env a s) (\<lambda>(s', _). framed r s')"
  by (rule runs_mono [OF tableAdd_runs [of env a s r]]) auto

lemma addGroup_step:
  "framed r s \<Longrightarrow> runs (maybeAddSectionGroupOrGnuLinkOnce env a s) (framed r)"
  unfolding maybeAddSectionGroupOrGnuLinkOnce_def
  by (auto simp: Let_def split: sum.splits option.splits intro!: runs_forEach runs_mono [OF tableAdd_step])

lemma doDefinedAtom_step: "framed r s \<Longrightarrow> runs (doDefinedAtom env a s) (framed r)"
  by (auto simp: doDefinedAtom_def Let_def intro!: runs_mono [OF addGroup_step] runs_mono [OF tableAdd_step])

lemma doSharedLibraryAtom_step: "framed r s \<Longrightarrow> runs (doSharedLibraryAtom env a s) (framed r)"
  by (auto simp: doSharedLibraryAtom_def intro!: runs_mono [OF tableAdd_step])

lemma doAbsoluteAtom_step: "framed r s \<Longrightarrow> runs (doAbsoluteAtom env a s) (framed r)"
  by (auto simp: doAbsoluteAtom_def Let_def intro!: runs_mono [OF tableAdd_step])

text \<open>The fallback chains of the undefined atoms must end.\<close>

definition fallback_edges :: "store \<Rightarrow> (atom_id \<times> atom_id) set" where
  "fallback_edges h = {(b, a). fallback_of (atom_at h a) = Some b}"

lemma doUndefinedAtom_step:
  assumes "wf (fallback_edges (heap r))" and "framed r s"
  shows "runs (doUndefinedAtom env a s) (\<lambda>(s', _). framed r s')"
  using assms
proof (induction a arbitrary: s rule: wf_induct_rule)
  case (less a)
  have fb: "runs (doUndefinedAtom env fb u) (\<lambda>(s', _). framed r s')"
    if "framed r u" "fallback_of (atom_at (heap u) a) = Some fb" for u fb
    by (rule less.IH) (use that in \<open>auto simp: fallback_edges_def framed_def\<close>)
  have body: "runs (case fallback_of (atom_at (heap u) a) of
                 None \<Rightarrow> ret (u, nu)
               | Some fb \<Rightarrow> andThen (doUndefinedAtom env fb u) (\<lambda>(r3, _).
                   ret (r3\<lparr>symtab_of := addReplacement a fb (symtab_of r3)\<rparr>, nu))) (\<lambda>(s', _). framed r s')"
    if "framed r u" for u nu
    using that by (auto split: option.splits intro!: runs_mono [OF fb])
  show ?case
    unfolding doUndefinedAtom.simps [of env a s] runs_andThen
  proof (rule runs_mono [OF tableAdd_step [of r]])
    fix x :: "resolver \<times> bool"
    assume x: "case x of (s', _) \<Rightarrow> framed r s'"
    obtain r1 added where xx: "x = (r1, added)" by (cases x)
    let ?r2 = "if added then r1\<lparr>undefs := undefs r1 @ [name_of (heap r1) a]\<rparr> else r1"
    have r2: "framed r ?r2" using x xx by simp
    from x show "runs (case x of (r1, newUndefAdded) \<Rightarrow>
       let nm = name_of (heap r1) a;
           r2 = (if newUndefAdded then r1\<lparr>undefs := undefs r1 @ [nm]\<rparr> else r1)
       in if newUndefAdded \<or> \<not> isDefined (heap r2) (symtab_of r2) nm
          then case fallback_of (atom_at (heap r2) a) of
                 None \<Rightarrow> ret (r2, newUndefAdded)
               | Some fb \<Rightarrow> andThen (doUndefinedAtom env fb r2) (\<lambda>(r3, _).
                   ret (r3\<lparr>symtab_of := addReplacement a fb (symtab_of r3)\<rparr>, newUndefAdded))
          else ret (r2, newUndefAdded)) (\<lambda>(s', _). framed r s')"
      unfolding xx prod.case Let_def
      by (intro runs_if body [OF r2]) (use r2 in simp)
  qed (use less.prems in simp)
qed

lemma handleFile_step:
  assumes "wf (fallback_edges (heap r))" and "framed r s"
  shows "runs (handleFile env f s) (\<lambda>(s', _). framed r s')"
proof -
  have u: "runs (forEach (\<lambda>a (r, undefAdded).
                    andThen (doUndefinedAtom env a r) (\<lambda>(r', added).
                      ret (if added then (maybePreloadArchiveMember (name_of (heap r') a) r', True)
                           else (r', undefAdded)))) xs (v, False)) (\<lambda>(s', _). framed r s')"
    if "framed r v" for v xs
  proof (rule runs_forEach)
    fix x :: nat and w :: "resolver \<times> bool"
    assume w: "case w of (s', _) \<Rightarrow> framed r s'"
    obtain r' b where w': "w = (r', b)" by (cases w)
    have "runs (doUndefinedAtom env x r') (\<lambda>(s', _). framed r s')"
      using doUndefinedAtom_step [OF assms(1)] w w' by simp
    then show "runs (case w of (r, undefAdded) \<Rightarrow> andThen (doUndefinedAtom env x r) (\<lambda>(r', added).
                      ret (if added then (maybePreloadArchiveMember (name_of (heap r') x) r', True)
                           else (r', undefAdded)))) (\<lambda>(s', _). framed r s')"
      unfolding w' by (auto elim!: runs_mono)
  qed (use that in simp)
  have d: "runs (forEach (doDefinedAtom env) xs v) (framed r)" if "framed r v" for xs v
    using that by (auto intro!: runs_forEach doDefinedAtom_step)
  have sh: "runs (forEach (doSharedLibraryAtom env) xs v) (framed r)" if "framed r v" for xs v
    using that by (auto intro!: runs_forEach doSharedLibraryAtom_step)
  have ab: "runs (forEach (doAbsoluteAtom env) xs v) (framed r)" if "framed r v" for xs v
    using that by (auto intro!: runs_forEach doAbsoluteAtom_step)
  show ?thesis
    unfolding handleFile_def Let_def runs_andThen
  proof (rule runs_mono [OF d [OF assms(2)]], rule runs_mono [OF u])
    fix x v
    assume "case x of (s', _) \<Rightarrow> framed r s'"
    then show "runs (case x of (r2, undefAdded) \<Rightarrow>
        andThen (forEach (doSharedLibraryAtom env) (f_shared (files env f)) r2) (\<lambda>r3.
        andThen (forEach (doAbsoluteAtom env) (f_absolute (files env f)) r3) (\<lambda>r4.
        ret (r4, undefAdded)))) (\<lambda>(s', _). framed r s')"
      by (cases x) (auto intro!: runs_mono [OF sh] runs_mono [OF ab])
  qed
qed

section \<open>The work list of undefined names\<close>

text \<open>What the scan over the undefined names asks of its callback: it keeps \<open>P\<close>, and either it uses up
  some of \<open>mu\<close> or it adds no undefined name.\<close>

definition advances :: "(resolver \<Rightarrow> nat) \<Rightarrow> resolver \<Rightarrow> resolver \<Rightarrow> bool" where
  "advances mu r r' \<longleftrightarrow> mu r' < mu r \<or> mu r' = mu r \<and> length (undefs r') = length (undefs r)"

lemma advances_refl [simp]: "advances mu r r"
  by (simp add: advances_def)

lemma advances_trans: "advances mu r s \<Longrightarrow> advances mu s t \<Longrightarrow> advances mu r t"
  by (auto simp: advances_def)

locale undef_handler =
  fixes cb :: undef_callback and P :: "resolver \<times> bool \<Rightarrow> bool" and mu :: "resolver \<Rightarrow> nat"
  assumes handles: "P s \<Longrightarrow> runs (cb nm d s) (\<lambda>s'. P s' \<and> advances mu (fst s) (fst s'))"
    and keeps: "P (r, b) \<Longrightarrow> P (r\<lparr>undefs := us\<rparr>, b)"
    and same_mu: "mu (r\<lparr>undefs := us\<rparr>) = mu r"
begin

lemma scan_ends:
  "P s \<Longrightarrow> runs (scanUndefines cb i s)
     (\<lambda>(j, s'). P s' \<and> advances mu (fst s) (fst s') \<and> length (undefs (fst s')) \<le> j)"
proof (induction "(mu (fst s), length (undefs (fst s)) - i)" arbitrary: s i
    rule: wf_induct_rule [OF wf_lex_prod [OF wf_less_than wf_less_than]])
  case 1
  note ih = 1(1) and P = 1(2)
  obtain r b where s: "s = (r, b)" by (cases s)
  let ?Q = "\<lambda>s. \<lambda>(j, s'). P s' \<and> advances mu (fst s) (fst s') \<and> length (undefs (fst s')) \<le> j"
  have next_i: "runs (scanUndefines cb (Suc i) t) (?Q s)"
    if "i < length (undefs r)" "P t" "advances mu r (fst t)" for t
  proof (rule runs_mono [OF ih])
    show "((mu (fst t), length (undefs (fst t)) - Suc i), mu (fst s), length (undefs (fst s)) - i)
        \<in> less_than <*lex*> less_than"
      using that s by (auto simp: advances_def)
  qed (use that s in \<open>auto intro: advances_trans\<close>)
  show ?case
  proof (cases "length (undefs r) \<le> i")
    case True
    then show ?thesis using P by (subst scanUndefines.simps) (simp add: Let_def s)
  next
    case False
    then have i: "i < length (undefs r)" by simp
    show ?thesis
    proof (cases "undefs r ! i = []")
      case True
      then show ?thesis using i next_i [of s] P s by (subst scanUndefines.simps) (simp add: Let_def)
    next
      case nm: False
      show ?thesis
      proof (cases "findByName (symtab_of r) (undefs r ! i)")
        case None
        then show ?thesis using i nm s by (subst scanUndefines.simps) (simp add: Let_def)
      next
        case (Some a)
        have blank: "runs (scanUndefines cb (Suc i) (r\<lparr>undefs := (undefs r)[i := []]\<rparr>, b)) (?Q s)"
          using P s by (intro next_i [OF i]) (auto simp: keeps advances_def same_mu)
        have call: "runs (andThen (cb (undefs r ! i) False s) (\<lambda>s'. scanUndefines cb (Suc i) s')) (?Q s)"
          unfolding runs_andThen
          by (rule runs_mono [OF handles [OF P]], rule next_i [OF i]) (use s in auto)
        show ?thesis
          using i nm Some blank call s by (subst scanUndefines.simps) (simp add: Let_def)
      qed
    qed
  qed
qed

lemma overrides_end:
  assumes "P s"
  shows "runs (forEach (overrideTentative cb) xs s) (\<lambda>s'. P s' \<and> advances mu (fst s) (fst s'))"
proof (rule runs_forEach)
  fix nm t
  assume t: "P t \<and> advances mu (fst s) (fst t)"
  have "runs (cb nm True t) (\<lambda>s'. P s' \<and> advances mu (fst s) (fst s'))"
    by (rule runs_mono [OF handles]) (use t in \<open>auto intro: advances_trans\<close>)
  then show "runs (overrideTentative cb nm t) (\<lambda>s'. P s' \<and> advances mu (fst s) (fst s'))"
    using t by (auto simp: overrideTentative_def Let_def split: option.split)
qed (use assms in simp)

lemma loop_ends:
  "P s \<Longrightarrow> runs (undefinesLoop cb search i s)
     (\<lambda>(j, s'). P s' \<and> advances mu (fst s) (fst s') \<and> length (undefs (fst s')) \<le> j)"
proof (induction "mu (fst s)" arbitrary: s i rule: less_induct)
  case less
  let ?Q = "\<lambda>(j, s'). P s' \<and> advances mu (fst s) (fst s') \<and> length (undefs (fst s')) \<le> j"
  have again: "runs (if j < length (undefs (fst u)) then undefinesLoop cb search j u else ret (j, u)) ?Q"
    if u: "P u" "advances mu (fst t) (fst u)" and t: "advances mu (fst s) (fst t)"
      "length (undefs (fst t)) \<le> j" for t u j
  proof (rule runs_if)
    assume "j < length (undefs (fst u))"
    then have "mu (fst u) < mu (fst s)" using u t by (auto simp: advances_def)
    then show "runs (undefinesLoop cb search j u) ?Q"
      by (intro runs_mono [OF less(1)]) (use u t in \<open>auto intro: advances_trans\<close>)
  qed (use u t in \<open>auto intro: advances_trans\<close>)
  have round: "runs (case x of (j, t) \<Rightarrow>
       andThen (if \<not> search then ret t
                else forEach (overrideTentative cb)
                       (tentativeDefinitions (heap (fst t)) (symtab_of (fst t))) t) (\<lambda>u.
       if j < length (undefs (fst u)) then undefinesLoop cb search j u else ret (j, u))) ?Q"
    if "case x of (j, t) \<Rightarrow> P t \<and> advances mu (fst s) (fst t) \<and> length (undefs (fst t)) \<le> j" for x
  proof -
    obtain j t where x: "x = (j, t)" by (cases x)
    have "runs (if \<not> search then ret t
                else forEach (overrideTentative cb)
                       (tentativeDefinitions (heap (fst t)) (symtab_of (fst t))) t)
            (\<lambda>u. P u \<and> advances mu (fst t) (fst u))"
      using that x by (intro runs_if overrides_end) simp_all
    then show ?thesis
      unfolding x prod.case runs_andThen
      by (rule runs_mono) (rule again [of _ t], use that x in auto)
  qed
  show ?case
    unfolding undefinesLoop.simps [of cb search i s] runs_andThen
    by (rule runs_mono [OF scan_ends [OF less(2)] round])
qed

lemma forEachUndefines_ends:
  assumes "P s" and "\<And>r b m. P (r, b) \<Longrightarrow> P (r\<lparr>undefineIndex := m\<rparr>, b)"
  shows "runs (forEachUndefines f search cb s) P"
  unfolding forEachUndefines_def runs_andThen
  by (rule runs_mono [OF loop_ends [OF assms(1)]]) (use assms(2) in auto)

end

text \<open>The archive members the inputs can still give. A pair counts an archive and one of its members.\<close>

definition input_files :: "link_env \<Rightarrow> file_id set" where
  "input_files env = {f. FileNode f \<in> set (nodes env)}"

definition archive_members :: "link_env \<Rightarrow> (file_id \<times> file_id) set" where
  "archive_members env = (SIGMA f : input_files env. snd ` set (f_symbolMemberMap (files env f)))"

definition pending :: "link_env \<Rightarrow> resolver \<Rightarrow> nat" where
  "pending env r = card (archive_members env - membersInstantiated r)"

lemma finite_input_files: "finite (input_files env)"
proof -
  have "FileNode ` input_files env \<subseteq> set (nodes env)" by (auto simp: input_files_def)
  then show ?thesis by (metis finite_imageD finite_set finite_subset inj_onI node.inject(1))
qed

lemma finite_archive_members: "finite (archive_members env)"
  by (simp add: archive_members_def finite_input_files)

lemma pending_instantiate:
  assumes "f \<in> input_files env" and "map_of (f_symbolMemberMap (files env f)) nm = Some m"
    and "(f, m) \<notin> membersInstantiated r"
    and "membersInstantiated r' = insert (f, m) (membersInstantiated r)"
  shows "pending env r' < pending env r"
  unfolding pending_def
proof (rule psubset_card_mono)
  have "m \<in> snd ` set (f_symbolMemberMap (files env f))" using map_of_SomeD [OF assms(2)] by force
  then show "archive_members env - membersInstantiated r' \<subset> archive_members env - membersInstantiated r"
    using assms by (auto simp: archive_members_def)
qed (simp add: finite_archive_members)

text \<open>The state of the visit of one input: the objects and flags are those of its start, and an archive
  that has added undefined names has used up a member.\<close>

definition visiting :: "link_env \<Rightarrow> resolver \<Rightarrow> resolver \<times> bool \<Rightarrow> bool" where
  "visiting env r0 s \<longleftrightarrow> heap (fst s) = heap r0 \<and> newUndefinesAdded (fst s) = newUndefinesAdded r0 \<and>
     pending env (fst s) \<le> pending env r0 \<and> (snd s \<longrightarrow> pending env (fst s) < pending env r0)"

lemma framed_pending: "framed r s \<Longrightarrow> pending env s = pending env r"
  by (simp add: framed_def pending_def)

lemma archive_find_cases:
  obtains (none) "archive_find env f nm d r = (None, r)"
  | (new) x m r' where "archive_find env f nm d r = (x, r')" "x = None \<or> x = Some m"
    "map_of (f_symbolMemberMap (files env f)) nm = Some m" "(f, m) \<notin> membersInstantiated r"
    "r' = r\<lparr>membersInstantiated := insert (f, m) (membersInstantiated r)\<rparr>"
proof (cases "map_of (f_symbolMemberMap (files env f)) nm")
  case None
  then show thesis by (intro none) (simp add: archive_find_def)
next
  case (Some m)
  show thesis
  proof (cases "(f, m) \<in> membersInstantiated r \<or> d \<and> (m, nm) \<notin> set (f_dataSymbols (files env f))")
    case True
    then show thesis using Some by (intro none) (auto simp: archive_find_def)
  next
    case False
    let ?r = "r\<lparr>membersInstantiated := insert (f, m) (membersInstantiated r)\<rparr>"
    show thesis
      by (rule new [of "if f_parseError (files env m) then None else Some m" ?r m])
        (use Some False in \<open>auto simp: archive_find_def\<close>)
  qed
qed

lemma archive_handles:
  assumes f: "f \<in> input_files env" and wf: "wf (fallback_edges (heap r0))" and s: "visiting env r0 s"
  shows "runs (archiveCallback env f nm d s)
    (\<lambda>s'. visiting env r0 s' \<and> advances (pending env) (fst s) (fst s'))"
proof -
  obtain r b where sr: "s = (r, b)" by (cases s)
  show ?thesis
  proof (cases rule: archive_find_cases [of env f nm d r])
    case none
    then show ?thesis using s sr by (simp add: archiveCallback_def)
  next
    case (new x m r')
    have less: "pending env r' < pending env r"
      by (rule pending_instantiate [OF f new(3,4)]) (simp add: new(5))
    show ?thesis
    proof (cases x)
      case None
      then show ?thesis
        using new(1,5) s sr less by (auto simp: archiveCallback_def visiting_def advances_def)
    next
      case (Some _)
      with new have x: "x = Some m" by auto
      have "runs (handleFile env m (updatePreloadArchiveMap env (setOrdinal m r')))
          (\<lambda>(s', _). framed r' s')"
        using s sr wf new(5) by (intro handleFile_step) (auto simp: visiting_def)
      then show ?thesis
        unfolding archiveCallback_def sr prod.case Let_def new(1) x option.case runs_andThen
        by (rule runs_mono)
          (use s sr less new(5) in \<open>auto simp: visiting_def advances_def framed_pending\<close>,
           auto simp: framed_def)
    qed
  qed
qed

lemma doSharedLibraryAtom_keeps:
  "runs (doSharedLibraryAtom env a r) (\<lambda>r'. framed r r' \<and> undefs r' = undefs r)"
  by (auto simp: doSharedLibraryAtom_def tableAdd_def framed_def pushAtom_def split: sum.splits)

lemma shared_handles:
  assumes s: "visiting env r0 s"
  shows "runs (sharedCallback env f nm d s)
    (\<lambda>s'. visiting env r0 s' \<and> advances (pending env) (fst s) (fst s'))"
proof (cases "f_exports (files env f) nm d")
  case None
  then show ?thesis using s by (simp add: sharedCallback_def)
next
  case (Some a)
  show ?thesis
    unfolding sharedCallback_def Some option.case runs_andThen
  proof (rule runs_mono [OF doSharedLibraryAtom_keeps])
    fix r'
    assume r': "framed (fst s) r' \<and> undefs r' = undefs (fst s)"
    with s show "runs (ret (r', snd s))
        (\<lambda>s'. visiting env r0 s' \<and> advances (pending env) (fst s) (fst s'))"
      unfolding runs_ret by (simp add: visiting_def advances_def framed_def pending_def)
  qed
qed

interpretation shared_lib: undef_handler "sharedCallback env f" "visiting env r0" "pending env"
  for env f r0
  by unfold_locales (erule shared_handles, simp_all add: visiting_def pending_def)

interpretation archive_lib: undef_handler "archiveCallback env f"
    "\<lambda>s. visiting env r0 s \<and> f \<in> input_files env \<and> wf (fallback_edges (heap r0))" "pending env"
  for env f r0
proof unfold_locales
  fix s nm d
  assume "visiting env r0 s \<and> f \<in> input_files env \<and> wf (fallback_edges (heap r0))"
  then show "runs (archiveCallback env f nm d s) (\<lambda>s'. (visiting env r0 s' \<and> f \<in> input_files env \<and>
      wf (fallback_edges (heap r0))) \<and> advances (pending env) (fst s) (fst s'))"
    by (auto intro: archive_handles)
qed (simp_all add: visiting_def pending_def)

lemma handleArchiveFile_ends:
  assumes "f \<in> input_files env" and "wf (fallback_edges (heap r))"
  shows "runs (handleArchiveFile env f r) (visiting env r)"
  unfolding handleArchiveFile_def
  by (rule runs_mono [OF archive_lib.forEachUndefines_ends [where ?r0.0 = r]])
    (use assms in \<open>auto simp: visiting_def pending_def\<close>)

lemma handleSharedLibrary_ends:
  assumes "wf (fallback_edges (heap r))"
  shows "runs (handleSharedLibrary env f r) (\<lambda>r'. visiting env r (r', False))"
  unfolding handleSharedLibrary_def runs_andThen
proof (rule runs_mono [OF handleFile_step [OF assms framed_refl]])
  fix x :: "resolver \<times> bool"
  assume x: "case x of (r', _) \<Rightarrow> framed r r'"
  obtain r1 b where r1: "x = (r1, b)" by (cases x)
  have v: "visiting env r (r1, False)" using x r1 by (auto simp: visiting_def framed_pending) (auto simp: framed_def)
  have "runs (forEachUndefines f (searchSharedLibrariesToOverrideTentativeDefinitions (ctx env))
      (sharedCallback env f) (r1, False)) (visiting env r)"
    by (rule shared_lib.forEachUndefines_ends [OF v]) (auto simp: visiting_def pending_def)
  then show "runs (case x of (r1, _) \<Rightarrow>
     andThen (forEachUndefines f (searchSharedLibrariesToOverrideTentativeDefinitions (ctx env))
                (sharedCallback env f) (r1, False)) (\<lambda>(r2, _). ret r2)) (\<lambda>r'. visiting env r (r', False))"
    unfolding r1 by (auto elim!: runs_mono simp: visiting_def)
qed

section \<open>The group loop\<close>

text \<open>A node is flagged when the last visit of its file added an undefined symbol. \<open>getFile\<close> goes back
  over a flagged node only.\<close>

definition flagged :: "link_env \<Rightarrow> resolver \<Rightarrow> nat \<Rightarrow> nat set" where
  "flagged env r i = {k. k < i \<and> k < length (nodes env) \<and>
     (case nodes env ! k of FileNode f \<Rightarrow> newUndefinesAdded r f | GroupEnd _ \<Rightarrow> False)}"

lemma finite_flagged [simp]: "finite (flagged env r i)"
  by (rule finite_subset [of _ "{..<i}"]) (auto simp: flagged_def)

lemma undefinesAdded_flagged:
  "i < length (nodes env) \<Longrightarrow> undefinesAdded env r b i \<longleftrightarrow> flagged env r i \<inter> {b..} \<noteq> {}"
  by (fastforce simp: undefinesAdded_def flagged_def)

lemma flagged_mono: "i \<le> j \<Longrightarrow> flagged env r i \<subseteq> flagged env r j"
  by (auto simp: flagged_def)

lemma flagged_less: "k \<in> flagged env r i \<Longrightarrow> k < i"
  by (simp add: flagged_def)

lemma flagged_cong:
  assumes "newUndefinesAdded t = newUndefinesAdded s"
  shows "flagged env t i = flagged env s i"
  unfolding flagged_def assms ..

definition gets :: "link_env \<Rightarrow> resolver \<Rightarrow> nat \<Rightarrow> file_id option \<times> nat \<Rightarrow> bool" where
  "gets env r i x = (case x of (None, j) \<Rightarrow> length (nodes env) \<le> j
     | (Some f, j) \<Rightarrow> \<exists>k. j = Suc k \<and> k < length (nodes env) \<and> nodes env ! k = FileNode f \<and>
          (card (flagged env r k) < card (flagged env r i) \<or>
           card (flagged env r k) = card (flagged env r i) \<and> i \<le> k))"

lemma gets_back: "gets env r i x \<Longrightarrow> card (flagged env r i) < card (flagged env r j) \<Longrightarrow> gets env r j x"
  by (auto simp: gets_def split: option.splits)

lemma gets_on: "gets env r (Suc i) x \<Longrightarrow> card (flagged env r (Suc i)) = card (flagged env r i) \<Longrightarrow> gets env r i x"
  by (auto simp: gets_def split: option.splits)

lemma getFile_ends: "\<exists>x. getFile env r i = Some x \<and> gets env r i x"
proof (induction "(card (flagged env r i), length (nodes env) - i)" arbitrary: i
    rule: wf_induct_rule [OF wf_lex_prod [OF wf_less_than wf_less_than]])
  case 1
  note ih = 1
  show ?case
  proof (cases "length (nodes env) \<le> i")
    case True
    then show ?thesis by (subst getFile.simps) (simp add: gets_def)
  next
    case False
    then have i: "i < length (nodes env)" by simp
    show ?thesis
    proof (cases "nodes env ! i")
      case (FileNode f)
      with i show ?thesis by (subst getFile.simps) (simp add: gets_def)
    next
      case (GroupEnd sz)
      show ?thesis
      proof (cases "undefinesAdded env r (i - sz) i")
        case True
        then obtain k where k: "k \<in> flagged env r i" "i - sz \<le> k"
          by (auto simp: undefinesAdded_flagged [OF i])
        have less: "card (flagged env r (i - sz)) < card (flagged env r i)"
          using flagged_mono [of "i - sz" i env r] flagged_less [of k env r "i - sz"] k
          by (intro psubset_card_mono) auto
        then obtain x where "getFile env r (i - sz) = Some x" "gets env r (i - sz) x"
          using ih [of "i - sz"] by (metis in_lex_prod less_than_iff)
        moreover have "getFile env r i = getFile env r (i - sz)"
          by (subst getFile.simps) (use i GroupEnd True in simp)
        ultimately show ?thesis using gets_back [OF _ less] by auto
      next
        case no: False
        have same: "card (flagged env r (Suc i)) = card (flagged env r i)"
          by (rule arg_cong [of _ _ card]) (use GroupEnd in \<open>auto simp: flagged_def less_Suc_eq\<close>)
        have "length (nodes env) - Suc i < length (nodes env) - i" using i by simp
        with same obtain x where "getFile env r (Suc i) = Some x" "gets env r (Suc i) x"
          using ih [of "Suc i"] by (metis in_lex_prod less_than_iff)
        moreover have "getFile env r i = getFile env r (Suc i)"
          by (subst getFile.simps) (use i GroupEnd no in simp)
        ultimately show ?thesis using gets_on [OF _ same] by auto
      qed
    qed
  qed
qed

text \<open>What is left to do when the loop is about to visit node \<open>i\<close>.\<close>

definition left_over :: "link_env \<Rightarrow> file_id set \<Rightarrow> resolver \<Rightarrow> nat" where
  "left_over env visited r = pending env r + card (input_files env - visited)"

definition visited_once ::
  "link_env \<Rightarrow> file_id \<Rightarrow> file_id set \<Rightarrow> resolver \<Rightarrow> file_id set \<times> resolver \<times> bool \<Rightarrow> bool" where
  "visited_once env f visited r x = (case x of (v', r', b) \<Rightarrow>
     heap r' = heap r \<and> newUndefinesAdded r' = newUndefinesAdded r \<and>
     (left_over env v' r' < left_over env visited r \<or>
      left_over env v' r' = left_over env visited r \<and> \<not> b))"

lemma visiting_once:
  assumes "visiting env s (r', b)" and "framed r s"
  shows "visited_once env f visited r (visited, r', b)"
  using assms framed_pending [OF assms(2), of env]
  by (auto simp: visiting_def visited_once_def left_over_def framed_def)

lemma handleInput_ends:
  assumes f: "f \<in> input_files env" and wf: "wf (fallback_edges (heap r))"
  shows "runs (handleInput env f visited r) (\<lambda>(v', r'). heap r' = heap r \<and>
     (\<exists>b. newUndefinesAdded r' = (newUndefinesAdded r)(f := b) \<and>
       (left_over env v' r' < left_over env visited r \<or>
        left_over env v' r' = left_over env visited r \<and> \<not> b)))"
proof -
  define s where "s = updatePreloadArchiveMap env r"
  define t where "t = (if fileOrdinal s f = None then setOrdinal f s else s)"
  have fr: "framed r s" "framed r t" "framed r (setOrdinal f s)"
    by (simp_all add: s_def t_def)
  then have wfs: "wf (fallback_edges (heap t))" using wf by (simp add: framed_def)
  let ?V = "visited_once env f visited r"
  have obj: "runs (if f \<in> visited then ret (visited, s, False)
             else if fileOrdinal s f \<noteq> None then fatal (AssertionFailed ''hasOrdinal'')
             else andThen (handleFile env f (setOrdinal f s)) (\<lambda>(r1, b). ret (insert f visited, r1, b))) ?V"
  proof (intro runs_if)
    assume "f \<notin> visited"
    have less: "card (input_files env - insert f visited) < card (input_files env - visited)"
      by (rule psubset_card_mono) (use f \<open>f \<notin> visited\<close> in \<open>auto simp: finite_input_files\<close>)
    have "runs (handleFile env f (setOrdinal f s)) (\<lambda>(s', _). framed r s')"
      by (rule handleFile_step [OF wf fr(3)])
    then show "runs (andThen (handleFile env f (setOrdinal f s)) (\<lambda>(r1, b). ret (insert f visited, r1, b))) ?V"
      using less by (auto elim!: runs_mono simp: visited_once_def left_over_def framed_def pending_def)
  qed (use fr(1) in \<open>auto simp: visited_once_def left_over_def framed_def pending_def\<close>)
  have arch: "runs (andThen (handleArchiveFile env f t) (\<lambda>(r1, b). ret (visited, r1, b))) ?V"
    using handleArchiveFile_ends [OF f wfs] fr(2) by (auto elim!: runs_mono intro: visiting_once)
  have shl: "runs (andThen (handleSharedLibrary env f t) (\<lambda>r1. ret (visited, r1, False))) ?V"
    using handleSharedLibrary_ends [OF wfs, of env f] fr(2) by (auto elim!: runs_mono intro: visiting_once)
  have "runs (case file_kind_of (heap s) f of
           kindObject \<Rightarrow>
             if f \<in> visited then ret (visited, s, False)
             else if fileOrdinal s f \<noteq> None then fatal (AssertionFailed ''hasOrdinal'')
             else andThen (handleFile env f (setOrdinal f s)) (\<lambda>(r1, b). ret (insert f visited, r1, b))
         | kindArchiveLibrary \<Rightarrow>
             andThen (handleArchiveFile env f t) (\<lambda>(r1, b). ret (visited, r1, b))
         | kindSharedLibrary \<Rightarrow>
             andThen (handleSharedLibrary env f t) (\<lambda>r1. ret (visited, r1, False))) ?V"
    using obj arch shl by (cases "file_kind_of (heap s) f") (simp_all only: file_kind.case)
  then show ?thesis
    unfolding handleInput_def Let_def runs_andThen s_def [symmetric] t_def [symmetric]
    by (rule runs_mono) (auto simp: visited_once_def left_over_def pending_def)
qed

lemma flagged_update:
  assumes "newUndefinesAdded r' = (newUndefinesAdded r)(f := False)"
  shows "flagged env r' i = flagged env r i - {k. k < length (nodes env) \<and> nodes env ! k = FileNode f}"
  using assms by (auto simp: flagged_def split: node.splits)

lemma flagged_Suc:
  assumes "k < length (nodes env)" and "nodes env ! k = FileNode f" and "\<not> newUndefinesAdded r f"
  shows "flagged env r (Suc k) = flagged env r k"
  using assms by (auto simp: flagged_def less_Suc_eq)

lemma resolveLoop_runs:
  assumes "wf (fallback_edges (heap s))"
  shows "runs (resolveLoop env i visited s) (\<lambda>(r', _). heap r' = heap s)"
proof -
  let ?N = "length (nodes env)"
  show ?thesis
    using assms
  proof (induction "(left_over env visited s, card (flagged env s ?N), card (flagged env s i), ?N - i)"
      arbitrary: i visited s
      rule: wf_induct_rule [OF wf_lex_prod [OF wf_less_than wf_lex_prod [OF wf_less_than wf_lex_prod
        [OF wf_less_than wf_less_than]]]])
    case 1
    note ih = 1(1) and wf = 1(2)
    from getFile_ends [of env s i] obtain fo j where g: "getFile env s i = Some (fo, j)" "gets env s i (fo, j)"
      by auto
    show ?case
    proof (cases fo)
      case None
      with g show ?thesis by (subst resolveLoop.simps) simp
    next
      case (Some f)
      with g(2) obtain k where k: "j = Suc k" "k < ?N" "nodes env ! k = FileNode f"
        "card (flagged env s k) < card (flagged env s i) \<or>
         card (flagged env s k) = card (flagged env s i) \<and> i \<le> k"
        by (auto simp: gets_def)
      have f: "f \<in> input_files env" using k(2,3) by (force simp: input_files_def set_conv_nth)
      have rec: "runs (resolveLoop env j v t) (\<lambda>(r', _). heap r' = heap s)"
        if t: "heap t = heap s" "newUndefinesAdded t = (newUndefinesAdded s)(f := b)"
          "left_over env v t < left_over env visited s \<or>
           left_over env v t = left_over env visited s \<and> \<not> b" for v t b
      proof -
        have "card (flagged env t ?N) < card (flagged env s ?N) \<or>
          card (flagged env t ?N) = card (flagged env s ?N) \<and>
          (card (flagged env t j) < card (flagged env s i) \<or>
           card (flagged env t j) = card (flagged env s i) \<and> i < j)" if b: "\<not> b"
        proof (cases "newUndefinesAdded s f")
          case True
          have "card (flagged env t ?N) < card (flagged env s ?N)"
            by (rule psubset_card_mono)
              (use b t(2) True k(2,3) in \<open>auto simp: flagged_def split: node.splits if_splits\<close>)
          then show ?thesis ..
        next
          case False
          with b t(2) have "newUndefinesAdded t = newUndefinesAdded s" by (simp add: fun_upd_idem)
          with k False show ?thesis by (auto simp: flagged_Suc flagged_cong [of t s])
        qed
        then have "((left_over env v t, card (flagged env t ?N), card (flagged env t j), ?N - j),
            left_over env visited s, card (flagged env s ?N), card (flagged env s i), ?N - i)
          \<in> less_than <*lex*> less_than <*lex*> less_than <*lex*> less_than"
          using t(3) k(1,2) by auto
        from ih [OF this] t(1) wf show ?thesis by simp
      qed
      have "runs (andThen (handleInput env f visited s) (\<lambda>(v, t). resolveLoop env j v t))
          (\<lambda>(r', _). heap r' = heap s)"
        unfolding runs_andThen by (rule runs_mono [OF handleInput_ends [OF f wf]]) (auto intro: rec)
      with g Some show ?thesis by (subst resolveLoop.simps) simp
    qed
  qed
qed

text \<open>C3: Resolution ends: whatever the input list with its groups, archives and shared libraries, the loop
  that visits the inputs until no group has to be visited again stops, provided no chain of weak external
  fallbacks is endless. The objects themselves are not changed.\<close>

theorem resolveUndefines_ends:
  assumes "wf (fallback_edges (heap r))"
  shows "resolveUndefines env r \<noteq> None \<and>
    (\<forall>r' ok. resolveUndefines env r = ret (r', ok) \<longrightarrow> heap r' = heap r)"
proof -
  have "runs (resolveUndefines env r) (\<lambda>(r', _). heap r' = heap r)"
    unfolding resolveUndefines_def by (rule resolveLoop_runs [OF assms])
  then show ?thesis unfolding runs_def by blast
qed

section \<open>The result of a link\<close>

text \<open>What is reachable once the references of \<open>r\<close> have become those of \<open>h\<close>.\<close>

definition reachable_after :: "link_env \<Rightarrow> resolver \<Rightarrow> store \<Rightarrow> atom_id set" where
  "reachable_after env r h = (strip_edges (r\<lparr>heap := h\<rparr>))\<^sup>* `` strip_roots env (r\<lparr>heap := h\<rparr>)"

lemma deadStripOptimize_result:
  assumes "deadStripOptimize env r = ret r'" and "liveAtoms r = {}" and "finite (rootSet r)"
  shows "symtab_of r' = symtab_of r \<and> heap r' = heap r \<and> deadAtoms r' = deadAtoms r \<and>
    (if deadStrip (ctx env)
     then liveAtoms r' = (strip_edges r)\<^sup>* `` strip_roots env r \<and>
       atoms_of r' = filter (\<lambda>a. a \<in> (strip_edges r)\<^sup>* `` strip_roots env r) (atoms_of r)
     else r' = r)"
proof (cases "deadStrip (ctx env)")
  case True
  have "symtab_of r' = symtab_of r \<and> heap r' = heap r \<and> deadAtoms r' = deadAtoms r"
    using assms(1) by (auto simp: deadStripOptimize_def Let_def fatal_def ret_def split: if_splits option.splits)
  with deadStripOptimize_marked [OF assms(1) True assms(2,3)] True show ?thesis by simp
next
  case False
  with assms(1) show ?thesis by (simp add: deadStripOptimize_def)
qed

lemma resolve_steps:
  assumes "resolve env r0 = ret (r, True)"
  obtains r1 r2 r3 where "resolveUndefines env (updatePreloadArchiveMap env r0) = ret (r1, True)"
    "updateReferences r1 = ret r2" "deadStripOptimize env r2 = ret r3"
    "snd (checkUndefines env r3) \<longrightarrow> allowRemainingUndefines (ctx env)"
    "r = removeCoalescedAwayAtoms (fst (checkUndefines env r3))"
proof -
  from assms obtain r1 where r1: "resolveUndefines env (updatePreloadArchiveMap env r0) = ret (r1, True)"
    "andThen (updateReferences r1) (\<lambda>r2.
       andThen (deadStripOptimize env r2) (\<lambda>r3.
       let (r4, undefined_left) = checkUndefines env r3 in
       if undefined_left \<and> \<not> allowRemainingUndefines (ctx env) then ret (r4, False)
       else ret (removeCoalescedAwayAtoms r4, True))) = ret (r, True)"
    by (auto simp: resolve_def ret_def res_simps split: if_splits)
  from r1(2) obtain r2 r3 where r23: "updateReferences r1 = ret r2" "deadStripOptimize env r2 = ret r3"
    and r4: "(let (r4, undefined_left) = checkUndefines env r3 in
       if undefined_left \<and> \<not> allowRemainingUndefines (ctx env) then ret (r4, False)
       else ret (removeCoalescedAwayAtoms r4, True)) = ret (r, True)"
    by (auto simp: ret_def res_simps)
  show thesis
    by (rule that [OF r1(1) r23]) (use r4 in \<open>auto split: prod.splits if_splits\<close>)
qed

lemma checkUndefines_fields:
  "heap (fst (checkUndefines env r)) = heap r" "deadAtoms (fst (checkUndefines env r)) = deadAtoms r"
  "liveAtoms (fst (checkUndefines env r)) = liveAtoms r" "atoms_of (fst (checkUndefines env r)) = atoms_of r"
  "isCoalescedAway (symtab_of (fst (checkUndefines env r))) = isCoalescedAway (symtab_of r)"
  "undefines h (symtab_of (fst (checkUndefines env r))) = undefines h (symtab_of r)"
  by (auto simp: checkUndefines_def Let_def isCoalescedAway_def undefines_def fun_eq_iff)

lemma no_error_left:
  assumes "\<not> snd (checkUndefines env r)" and "u \<in> set (undefines (heap r) (symtab_of r))"
    and "deadStrip (ctx env) \<longrightarrow> u \<in> liveAtoms r"
  shows "\<not> undefine_is_error env r u"
proof -
  have "remainingUndefines env r = []"
    using assms(1) by (auto simp: checkUndefines_def Let_def split: if_splits)
  then show ?thesis
    using assms(2,3) by (auto simp: remainingUndefines_def Let_def filter_empty_conv split: if_splits)
qed

text \<open>C1: When \<open>resolve\<close>, started on a new resolver, succeeds, the atoms of the result are, in their order, exactly those
  the loop over the inputs has collected that are not coalesced away, that no association of a coalesced atom names
  and, when dead code is stripped, that can be reached from a root once references are redirected (the roots and
  edges are those of the property on dead stripping; the live atoms are exactly the reachable ones). The linked
  atoms differ from the input only by the redirection of their references; no reference of a result atom,
  associations apart, points at a coalesced atom; and unless remaining undefines are allowed, no undefined symbol,
  reachable when dead code is stripped, is left that must be resolved.\<close>

theorem resolve_result:
  assumes "resolve env (init_resolver h) = ret (r, True)"
  shows "\<exists>r1. resolveUndefines env (updatePreloadArchiveMap env (init_resolver h)) = ret (r1, True) \<and>
    atoms_of r = filter (\<lambda>a. \<not> isCoalescedAway (symtab_of r1) a \<and> a \<notin> deadAtoms r \<and>
       (deadStrip (ctx env) \<longrightarrow> a \<in> reachable_after env r1 (heap r))) (atoms_of r1) \<and>
    deadAtoms r = (\<Union>a \<in> {a \<in> set (atoms_of r1). isCoalescedAway (symtab_of r1) a}. associates (atom_at h a)) \<and>
    (deadStrip (ctx env) \<longrightarrow> liveAtoms r = reachable_after env r1 (heap r)) \<and>
    (\<forall>a. atom_at (heap r) a =
       (if a \<in> set (atoms_of r1) then red_atom (symtab_of r1) (atom_at h a) else atom_at h a)) \<and>
    (\<forall>a \<in> set (atoms_of r). refers_to_survivors (symtab_of r1) (atom_at (heap r) a)) \<and>
    (allowRemainingUndefines (ctx env) \<or>
      (\<forall>u \<in> set (undefines (heap r) (symtab_of r)).
         (deadStrip (ctx env) \<longrightarrow> u \<in> reachable_after env r1 (heap r)) \<longrightarrow> \<not> undefine_is_error env r u))"
proof -
  obtain r1 r2 r3 where r1: "resolveUndefines env (updatePreloadArchiveMap env (init_resolver h)) = ret (r1, True)"
    and r2: "updateReferences r1 = ret r2" and r3: "deadStripOptimize env r2 = ret r3"
    and ok: "snd (checkUndefines env r3) \<longrightarrow> allowRemainingUndefines (ctx env)"
    and r: "r = removeCoalescedAwayAtoms (fst (checkUndefines env r3))"
    using assms by (rule resolve_steps)
  have un: "heap r1 = h" "liveAtoms r1 = {}" "deadAtoms r1 = {}" "finite (rootSet r1)"
    using resolveUndefines_unmarked [OF r1] by (simp_all add: unmarked_def)
  note u = updateReferences_ret [OF r2]
  then have r2': "r2 = r1\<lparr>heap := heap r2, deadAtoms := deadAtoms r2\<rparr>" by blast
  have same: "symtab_of r2 = symtab_of r1" "atoms_of r2 = atoms_of r1" "liveAtoms r2 = {}" "rootSet r2 = rootSet r1"
    using un by (subst r2', simp)+
  note d = deadStripOptimize_result [OF r3 same(3)]
  have d: "symtab_of r3 = symtab_of r1" "heap r3 = heap r2" "deadAtoms r3 = deadAtoms r2"
    "if deadStrip (ctx env)
     then liveAtoms r3 = (strip_edges r2)\<^sup>* `` strip_roots env r2 \<and>
       atoms_of r3 = filter (\<lambda>a. a \<in> (strip_edges r2)\<^sup>* `` strip_roots env r2) (atoms_of r1)
     else r3 = r2"
    using d un same by simp_all
  have fields: "heap r = heap r2" "deadAtoms r = deadAtoms r2" "liveAtoms r = liveAtoms r3"
    "isCoalescedAway (symtab_of r) = isCoalescedAway (symtab_of r1)"
    "undefines (heap r) (symtab_of r) = undefines (heap r3) (symtab_of r3)"
    by (simp_all add: r removeCoalescedAwayAtoms_def checkUndefines_fields d)
  have reach: "(strip_edges r2)\<^sup>* `` strip_roots env r2 = reachable_after env r1 (heap r)"
    unfolding reachable_after_def fields by (subst r2', subst r2') (simp add: strip_edges_def strip_roots_def)
  have live: "deadStrip (ctx env) \<longrightarrow> liveAtoms r = reachable_after env r1 (heap r)"
    using d(4) fields(3) reach by simp
  have atoms: "atoms_of r = filter (\<lambda>a. \<not> isCoalescedAway (symtab_of r1) a \<and> a \<notin> deadAtoms r \<and>
       (deadStrip (ctx env) \<longrightarrow> a \<in> reachable_after env r1 (heap r))) (atoms_of r1)"
    using d(4) same(2) fields(2) unfolding reach
    by (cases "deadStrip (ctx env)")
      (auto simp: r removeCoalescedAwayAtoms_def checkUndefines_fields d(1,3) same(1) intro: filter_cong)
  have "\<not> undefine_is_error env r v"
    if "\<not> allowRemainingUndefines (ctx env)" "v \<in> set (undefines (heap r) (symtab_of r))"
      "deadStrip (ctx env) \<longrightarrow> v \<in> reachable_after env r1 (heap r)" for v
    using no_error_left [of env r3 v] that ok live fields d(1,2) by (simp add: undefine_is_error_def)
  moreover have "\<forall>a \<in> set (atoms_of r). refers_to_survivors (symtab_of r1) (atom_at (heap r) a)"
    using u atoms fields(1) un(1) red_atom_survivors by auto
  ultimately show ?thesis
    using r1 atoms live u fields(1,2) un(1,3) by (intro exI [of _ r1]) auto
qed

section \<open>Mutual fallbacks\<close>

text \<open>Two objects with weak externals that name each other as the fallback: the first file has \<open>x\<close> falling
  back to \<open>y\<close>, the second \<open>y\<close> falling back to \<open>x\<close>.\<close>

definition mutual_store :: store where
  "mutual_store = \<lparr>atom_at = (\<lambda>a.
      if a = 0 then UndefinedAtom ''x'' 0 canBeNullNever (Some 1)
      else if a = 1 then UndefinedAtom ''y'' 0 canBeNullNever None
      else if a = 2 then UndefinedAtom ''y'' 1 canBeNullNever (Some 3)
      else if a = 3 then UndefinedAtom ''x'' 1 canBeNullNever None
      else DefinedAtom ''f'' 0 ((sample_defined mergeNo 4 [0])\<lparr>refs :=
        [\<lparr>kindNamespace = ns_COFF, kindArch = arch_x86, kindValue = 0, offsetInAtom = 0, target = 0,
          addend = 0, tag = 0\<rparr>]\<rparr>)),
    file_kind_of = (\<lambda>_. kindObject)\<rparr>"

definition mutual_env :: link_env where
  "mutual_env = \<lparr>ctx = LinkingContext, files = (\<lambda>f.
      \<lparr>f_defined = (if f = 0 then [4] else []), f_undefined = (if f = 0 then [0] else [2]), f_shared = [], f_absolute = [],
       f_parseError = False, f_symbolMemberMap = [], f_dataSymbols = [], f_exports = (\<lambda>_ _. None)\<rparr>),
    nodes = [FileNode 0, FileNode 1]\<rparr>"

lemma mutual_run:
  "case resolveUndefines mutual_env (updatePreloadArchiveMap mutual_env (init_resolver mutual_store)) of
     Some (Inr (r, ok)) \<Rightarrow> ok \<and> atoms_of r = [4, 0, 1, 2, 3] \<and>
       map (replacedAtoms (symtab_of r)) [0, 1, 2, 3] = [Some 1, Some 2, Some 3, Some 0]
   | _ \<Rightarrow> False"
  by code_simp

lemma replacement_of_closed:
  "replacement_of m a = Some t \<Longrightarrow> a \<in> C \<Longrightarrow> (\<And>x y. x \<in> C \<Longrightarrow> m x = Some y \<Longrightarrow> y \<in> C) \<Longrightarrow> t \<in> C"
  by (induction rule: replacement_of_induct) auto

lemma updatePreload_heap [simp]: "heap (updatePreloadArchiveMap env r) = heap r"
  using framed_updatePreload [of r env r] by (simp add: framed_def)

lemma mutual_wf: "wf (fallback_edges mutual_store)"
  by (rule wf_subset [OF wf_measure [of "\<lambda>a. 4 - a"]])
    (auto simp: fallback_edges_def mutual_store_def split: if_splits)

text \<open>C27: Weak externals that fall back to each other make the link diverge: two objects, one with \<open>x\<close> falling
  back to \<open>y\<close>, the other with \<open>y\<close> falling back to \<open>x\<close>, close a cycle in \<open>_replacedAtoms\<close>, and redirecting a
  reference to \<open>x\<close> follows it for ever.\<close>

theorem mutual_fallbacks_diverge: "resolve mutual_env (init_resolver mutual_store) = None"
proof -
  obtain r where r: "resolveUndefines mutual_env (updatePreloadArchiveMap mutual_env (init_resolver mutual_store))
      = ret (r, True)" "atoms_of r = [4, 0, 1, 2, 3]"
    "map (replacedAtoms (symtab_of r)) [0, 1, 2, 3] = [Some 1, Some 2, Some 3, Some 0]"
    using mutual_run by (auto simp: ret_def split: option.splits sum.splits)
  have "runs (resolveUndefines mutual_env (updatePreloadArchiveMap mutual_env (init_resolver mutual_store)))
      (\<lambda>(r', _). heap r' = heap (updatePreloadArchiveMap mutual_env (init_resolver mutual_store)))"
    unfolding resolveUndefines_def
    by (rule resolveLoop_runs) (simp add: init_resolver_def mutual_wf)
  with r(1) have "heap r = mutual_store" by (simp add: init_resolver_def)
  have "replacement (symtab_of r) 0 = None"
  proof (rule ccontr)
    assume "replacement (symtab_of r) 0 \<noteq> None"
    then obtain t where t: "replacement_of (replacedAtoms (symtab_of r)) 0 = Some t"
      by (auto simp: replacement_def)
    have "t \<in> {0, 1, 2, 3}"
      by (rule replacement_of_closed [OF t]) (use r(3) in auto)
    with replacement_of_terminal [OF t] r(3) show False by auto
  qed
  then have "updateAtom 4 r = None"
    using \<open>heap r = mutual_store\<close>
    by (simp add: updateAtom_def mutual_store_def redirect_def is_associate_def kindAssociate_def)
  then have "updateReferences r = None" by (simp add: updateReferences_def r(2))
  then show ?thesis by (simp add: resolve_def r(1))
qed

lemma link_sample_run:
  "case resolve link_sample (init_resolver link_sample_store) of
     Some (Inr (r, ok)) \<Rightarrow> ok \<and> atoms_of r = [0, 2]
   | _ \<Rightarrow> False"
  by code_simp

lemma link_sample_wf: "wf (fallback_edges link_sample_store)"
  by (rule wf_subset [OF wf_measure [of "\<lambda>a. a"]]) (auto simp: fallback_edges_def link_sample_store_def split: if_splits)

theorem resolveUndefines_ends_witness:
  "resolveUndefines link_sample (init_resolver link_sample_store) \<noteq> None"
  using resolveUndefines_ends [of "init_resolver link_sample_store" link_sample] link_sample_wf
  by (simp add: init_resolver_def)

theorem resolve_result_witness:
  "\<exists>r r1. resolve link_sample (init_resolver link_sample_store) = ret (r, True) \<and> atoms_of r = [0, 2] \<and>
     resolveUndefines link_sample (updatePreloadArchiveMap link_sample (init_resolver link_sample_store)) = ret (r1, True) \<and>
     liveAtoms r = reachable_after link_sample r1 (heap r) \<and> 2 \<in> reachable_after link_sample r1 (heap r) \<and>
     refers_to_survivors (symtab_of r1) (atom_at (heap r) 0)"
proof -
  obtain r where r: "resolve link_sample (init_resolver link_sample_store) = ret (r, True)" "atoms_of r = [0, 2]"
    using link_sample_run by (auto simp: ret_def split: option.splits sum.splits)
  have strip: "deadStrip (ctx link_sample)" by (simp add: link_sample_def)
  from resolve_result [OF r(1)] obtain r1 where
    r1: "resolveUndefines link_sample (updatePreloadArchiveMap link_sample (init_resolver link_sample_store)) = ret (r1, True)"
    and at: "atoms_of r = filter (\<lambda>a. \<not> isCoalescedAway (symtab_of r1) a \<and> a \<notin> deadAtoms r \<and>
       (deadStrip (ctx link_sample) \<longrightarrow> a \<in> reachable_after link_sample r1 (heap r))) (atoms_of r1)"
    and live: "deadStrip (ctx link_sample) \<longrightarrow> liveAtoms r = reachable_after link_sample r1 (heap r)"
    and surv: "\<forall>a \<in> set (atoms_of r). refers_to_survivors (symtab_of r1) (atom_at (heap r) a)"
    by blast
  have "2 \<in> set (atoms_of r)" using r(2) by simp
  then have "2 \<in> reachable_after link_sample r1 (heap r)" using at strip by simp
  with r r1 live surv strip show ?thesis by (intro exI [of _ r] exI [of _ r1]) simp
qed

lemma link_sample_enter: "\<exists>st. enter_all LinkingContext link_sample_store [0, 1, 2, 3] empty_symtab = Inr st"
proof -
  have "\<not> isl (enter_all LinkingContext link_sample_store [0, 1, 2, 3] empty_symtab)"
    by code_simp
  then show ?thesis by (metis isl_def sum.exhaust)
qed

theorem updateReferences_redirects_witness:
  "\<exists>st r'. enter_all LinkingContext link_sample_store [0, 1, 2, 3] empty_symtab = Inr st \<and>
     updateReferences ((init_resolver link_sample_store)\<lparr>symtab_of := st, atoms_of := [0, 1, 2, 3]\<rparr>) = ret r' \<and>
     atom_at (heap r') 0 = red_atom st (atom_at link_sample_store 0)"
proof -
  obtain st where st: "enter_all LinkingContext link_sample_store [0, 1, 2, 3] empty_symtab = Inr st"
    using link_sample_enter by blast
  have "symtab_inv link_sample_store st" using enter_all_start [OF st] by simp
  then have "redirectable st a" for a by (rule symtab_inv_redirectable)
  then show ?thesis
    using updateReferences_redirects [of "(init_resolver link_sample_store)\<lparr>symtab_of := st, atoms_of := [0, 1, 2, 3]\<rparr>"] st
    by (auto simp: init_resolver_def)
qed

end
