(* ===== verification/Relocation.thy ===== *)
theory Relocation
  imports Atoms
begin

text \<open>
  What the ELF targets share when they patch the output (lib/ReaderWriter/ELF): the errors of
  TargetHandler.h, the place of an atom in the output, the loop of \<open>AtomSection::write\<close> in
  SectionChunks.cpp that copies the atoms and applies their references, and the contract between
  that loop, which runs over the atoms in parallel, and a target's relocation handler.
\<close>

section \<open>Errors and layouts\<close>

datatype reloc_error =
    unhandled_reloc
  | out_of_range_reloc
  | unaligned_range_reloc
  | reloc_message string
  | reloc_assertion string

record atom_layout =
  layout_atom :: defined_atom
  fileOffset :: nat
  virtualAddr :: u64

text \<open>\<open>loc\<close> and \<open>reloc\<close> of every \<open>applyRelocation\<close>: the patched bytes and their address.\<close>

definition reloc_loc :: "atom_layout \<Rightarrow> reference \<Rightarrow> nat" where
  "reloc_loc ai ref = fileOffset ai + unat (offsetInAtom ref)"

definition reloc_addr :: "atom_layout \<Rightarrow> reference \<Rightarrow> u64" where
  "reloc_addr ai ref = virtualAddr ai + offsetInAtom ref"

type_synonym patch = "mem \<Rightarrow> reloc_error + mem"

text \<open>\<open>writer.addressOfAtom\<close>, and what a target's handler looks up elsewhere: how the numbers of
  \<open>kindValue\<close> name relocations is the table of \<open>llvm/Support/ELF.h\<close>.\<close>

record program_header =
  is_tls :: bool
  p_align :: u64
  p_memsz :: u64

record 'k reloc_env =
  kindOf :: "u16 \<Rightarrow> 'k"
  addressOfAtom :: "atom_id \<Rightarrow> u64"
  programHeader :: "program_header list"

text \<open>\<open>TargetLayout::getTLSSize\<close>; \<open>getTPOffset\<close> of the ARM targets, with the size of the thread control
  block, fails its assertion when there is no TLS segment.\<close>

definition getTLSSize :: "program_header list \<Rightarrow> u64" where
  "getTLSSize phdrs = (case find is_tls phdrs of Some ph \<Rightarrow> p_memsz ph | None \<Rightarrow> 0)"

definition RoundUpToAlignment :: "u64 \<Rightarrow> u64 \<Rightarrow> u64" where
  "RoundUpToAlignment v a = (v + a - 1) div a * a"

definition getTPOffset :: "u64 \<Rightarrow> program_header list \<Rightarrow> u64 option" where
  "getTPOffset tcb_size phdrs =
     (let tpOff = (case find is_tls phdrs of Some ph \<Rightarrow> RoundUpToAlignment tcb_size (p_align ph) | None \<Rightarrow> 0)
      in if tpOff = 0 then None else Some tpOff)"

text \<open>The address a reference stands for, \<open>S + A\<close>.\<close>

definition ref_value :: "'k reloc_env \<Rightarrow> reference \<Rightarrow> u64" where
  "ref_value env ref = addressOfAtom env (target ref) + addend ref"

definition memcpy :: "mem \<Rightarrow> nat \<Rightarrow> u8 list \<Rightarrow> mem" where
  "memcpy m a bs = (\<lambda>b. if a \<le> b \<and> b < a + length bs then bs ! (b - a) else m b)"

section \<open>Patches that keep to a set of bytes\<close>

text \<open>\<open>keeps_to X f\<close>: the patch changes bytes of \<open>X\<close> only, and what it does depends on these bytes only.\<close>

definition keeps_to :: "nat set \<Rightarrow> patch \<Rightarrow> bool" where
  "keeps_to X f \<longleftrightarrow>
     (\<forall>m m'. f m = Inr m' \<longrightarrow> (\<forall>a. a \<notin> X \<longrightarrow> m' a = m a)) \<and>
     (\<forall>m1 m2. (\<forall>a \<in> X. m1 a = m2 a) \<longrightarrow>
        (case f m1 of Inl e \<Rightarrow> f m2 = Inl e
         | Inr n1 \<Rightarrow> (\<exists>n2. f m2 = Inr n2 \<and> (\<forall>a \<in> X. n1 a = n2 a))))"

named_theorems keeps_to_intros \<open>patches that keep to their bytes\<close>

lemma keeps_to_frame: "keeps_to X f \<Longrightarrow> f m = Inr m' \<Longrightarrow> a \<notin> X \<Longrightarrow> m' a = m a"
  unfolding keeps_to_def by blast

lemma keeps_to_agree:
  assumes "keeps_to X f" and "\<forall>a \<in> X. m1 a = m2 a"
  shows "case f m1 of Inl e \<Rightarrow> f m2 = Inl e | Inr n1 \<Rightarrow> (\<exists>n2. f m2 = Inr n2 \<and> (\<forall>a \<in> X. n1 a = n2 a))"
  using assms unfolding keeps_to_def by blast

lemma keeps_to_Inl: "keeps_to X f \<Longrightarrow> \<forall>a \<in> X. m1 a = m2 a \<Longrightarrow> f m1 = Inl e \<Longrightarrow> f m2 = Inl e"
  using keeps_to_agree [of X f m1 m2] by simp

lemma keeps_to_Inr:
  "keeps_to X f \<Longrightarrow> \<forall>a \<in> X. m1 a = m2 a \<Longrightarrow> f m1 = Inr n1 \<Longrightarrow> \<exists>n2. f m2 = Inr n2 \<and> (\<forall>a \<in> X. n1 a = n2 a)"
  using keeps_to_agree [of X f m1 m2] by simp

lemma keeps_to_error [keeps_to_intros]: "keeps_to X (\<lambda>m. Inl e)"
  by (simp add: keeps_to_def)

lemma keeps_to_skip [keeps_to_intros]: "keeps_to X (\<lambda>m. Inr m)"
  by (simp add: keeps_to_def)

lemma keeps_to_if [keeps_to_intros]:
  "(c \<Longrightarrow> keeps_to X f) \<Longrightarrow> (\<not> c \<Longrightarrow> keeps_to X g) \<Longrightarrow> keeps_to X (\<lambda>m. if c then f m else g m)"
  by (cases c) simp_all

lemma keeps_to_option [keeps_to_intros]:
  "(x = None \<Longrightarrow> keeps_to X f) \<Longrightarrow> (\<And>y. x = Some y \<Longrightarrow> keeps_to X (g y)) \<Longrightarrow>
   keeps_to X (\<lambda>m. case x of None \<Rightarrow> f m | Some y \<Rightarrow> g y m)"
  by (cases x) simp_all

lemma keeps_to_cell:
  assumes "\<And>m v b. b \<notin> X \<Longrightarrow> wr m v b = m b"
    and "\<And>m m'. (\<And>b. b \<in> X \<Longrightarrow> m b = m' b) \<Longrightarrow> rd m = rd m'"
    and "\<And>m m' v b. b \<in> X \<Longrightarrow> wr m v b = wr m' v b"
  shows "keeps_to X (\<lambda>m. Inr (wr m (g (rd m))))"
proof -
  have "wr m1 (g (rd m1)) b = wr m2 (g (rd m2)) b" if "\<forall>a \<in> X. m1 a = m2 a" "b \<in> X" for m1 m2 b
    using assms(2) [of m1 m2] assms(3) [OF that(2), of m1 _ m2] that(1) by simp
  then show ?thesis using assms(1) by (simp add: keeps_to_def)
qed

lemma keeps_to_patch64 [keeps_to_intros]:
  "X = {a..<a + 8} \<Longrightarrow> keeps_to X (\<lambda>m. Inr (write64le m a (g (read64le m a))))"
  by (rule keeps_to_cell)
    (auto simp: write64le_other intro: read64le_local, auto simp: write64le_def write32le_def write16le_def)

lemma keeps_to_patch32 [keeps_to_intros]:
  "X = {a..<a + 4} \<Longrightarrow> keeps_to X (\<lambda>m. Inr (write32le m a (g (read32le m a))))"
  by (rule keeps_to_cell)
    (auto simp: write32le_other intro: read32le_local, auto simp: write32le_def write16le_def)

lemma keeps_to_patch16 [keeps_to_intros]:
  "X = {a..<a + 2} \<Longrightarrow> keeps_to X (\<lambda>m. Inr (write16le m a (g (read16le m a))))"
  by (rule keeps_to_cell)
    (auto simp: write16le_other intro: read16le_local, auto simp: write16le_def)

lemmas keeps_to_store64 [keeps_to_intros] = keeps_to_patch64 [where g = "\<lambda>_. v" for v]
lemmas keeps_to_store32 [keeps_to_intros] = keeps_to_patch32 [where g = "\<lambda>_. v" for v]

lemma keeps_to_memcpy [keeps_to_intros]:
  "{a..<a + length bs} = X \<Longrightarrow> keeps_to X (\<lambda>m. Inr (memcpy m a bs))"
  by (auto simp: keeps_to_def memcpy_def)

lemma keeps_to_mono:
  assumes "keeps_to X f" and "X \<subseteq> Y"
  shows "keeps_to Y f"
proof -
  have "case f m1 of Inl e \<Rightarrow> f m2 = Inl e | Inr n1 \<Rightarrow> (\<exists>n2. f m2 = Inr n2 \<and> (\<forall>a \<in> Y. n1 a = n2 a))"
    if eq: "\<forall>a \<in> Y. m1 a = m2 a" for m1 m2
  proof (cases "f m1")
    case (Inl e)
    have "f m2 = Inl e" by (rule keeps_to_Inl [OF assms(1) _ Inl]) (use eq assms(2) in auto)
    with Inl show ?thesis by simp
  next
    case (Inr n1)
    obtain n2 where n2: "f m2 = Inr n2" "\<forall>a \<in> X. n1 a = n2 a"
      using keeps_to_Inr [OF assms(1) _ Inr, of m2] eq assms(2) by auto
    have "n1 a = n2 a" if "a \<in> Y" for a
      using n2(2) keeps_to_frame [OF assms(1) Inr, of a] keeps_to_frame [OF assms(1) n2(1), of a] that eq
      by (cases "a \<in> X") auto
    with n2(1) Inr show ?thesis by auto
  qed
  then show ?thesis using keeps_to_frame [OF assms(1)] assms(2) unfolding keeps_to_def by blast
qed

lemma keeps_to_bind [keeps_to_intros]:
  assumes f: "keeps_to X f" and g: "keeps_to X g"
  shows "keeps_to X (\<lambda>m. bind_res (f m) g)"
proof -
  have "case bind_res (f m1) g of Inl e \<Rightarrow> bind_res (f m2) g = Inl e
      | Inr n1 \<Rightarrow> \<exists>n2. bind_res (f m2) g = Inr n2 \<and> (\<forall>a \<in> X. n1 a = n2 a)"
    if eq: "\<forall>a \<in> X. m1 a = m2 a" for m1 m2
  proof (cases "f m1")
    case (Inl e)
    with keeps_to_Inl [OF f eq] show ?thesis by simp
  next
    case (Inr n1)
    obtain n2 where n2: "f m2 = Inr n2" "\<forall>a \<in> X. n1 a = n2 a"
      using keeps_to_Inr [OF f eq Inr] by blast
    with keeps_to_agree [OF g n2(2)] Inr show ?thesis by (cases "g n1") auto
  qed
  moreover have "m' a = m a" if "bind_res (f m) g = Inr m'" "a \<notin> X" for m m' a
    using that by (auto simp: res_simps keeps_to_frame [OF f] keeps_to_frame [OF g])
  ultimately show ?thesis unfolding keeps_to_def by blast
qed

text \<open>A patch computed from a value that was read from the bytes of \<open>X\<close>.\<close>

lemma keeps_to_read:
  assumes "\<And>m1 m2. \<forall>a \<in> X. m1 a = m2 a \<Longrightarrow> rd m1 = rd m2" and "\<And>v. keeps_to X (f v)"
  shows "keeps_to X (\<lambda>m. f (rd m) m)"
proof -
  have "case f (rd m1) m1 of Inl e \<Rightarrow> f (rd m2) m2 = Inl e
      | Inr n1 \<Rightarrow> \<exists>n2. f (rd m2) m2 = Inr n2 \<and> (\<forall>a \<in> X. n1 a = n2 a)"
    if eq: "\<forall>a \<in> X. m1 a = m2 a" for m1 m2
    using keeps_to_agree [OF assms(2) eq, of "rd m1"] assms(1) [OF eq]
    by (cases "f (rd m1) m1") auto
  moreover have "m' a = m a" if "f (rd m) m = Inr m'" "a \<notin> X" for m m' a
    using keeps_to_frame [OF assms(2) that] .
  ultimately show ?thesis unfolding keeps_to_def by blast
qed

section \<open>Writing the atoms of a section\<close>

text \<open>The state of the loop: the image and the \<open>success\<close> flag. A reference whose relocation fails is
  reported and leaves the image as it is.\<close>

type_synonym image = "mem \<times> bool"

definition apply_ref :: "(atom_layout \<Rightarrow> reference \<Rightarrow> patch) \<Rightarrow> atom_layout \<Rightarrow> reference \<Rightarrow> image \<Rightarrow> image" where
  "apply_ref apply_reloc ai ref s =
     (case apply_reloc ai ref (fst s) of Inl _ \<Rightarrow> (fst s, False) | Inr m \<Rightarrow> (m, snd s))"

definition write_atom :: "(atom_layout \<Rightarrow> reference \<Rightarrow> patch) \<Rightarrow> atom_layout \<Rightarrow> image \<Rightarrow> image" where
  "write_atom apply_reloc ai s =
     (if \<not> occupiesDiskSpace (layout_atom ai) then s
      else if rawContent (layout_atom ai) = [] then s
      else fold (apply_ref apply_reloc ai) (refs (layout_atom ai))
             (memcpy (fst s) (fileOffset ai) (rawContent (layout_atom ai)), snd s))"

text \<open>\<open>AtomSection::write\<close>, the atoms taken in some order; \<open>None\<close> is the fatal error at its end.\<close>

definition AtomSection_write ::
  "(atom_layout \<Rightarrow> reference \<Rightarrow> patch) \<Rightarrow> atom_layout list \<Rightarrow> mem \<Rightarrow> mem option" where
  "AtomSection_write apply_reloc ais m =
     (case fold (write_atom apply_reloc) ais (m, True) of (m', success) \<Rightarrow> if success then Some m' else None)"

text \<open>The bytes an atom's write may touch: its own and those its references patch.\<close>

definition atom_bytes :: "(atom_layout \<Rightarrow> reference \<Rightarrow> nat set) \<Rightarrow> atom_layout \<Rightarrow> nat set" where
  "atom_bytes touched ai =
     (if \<not> occupiesDiskSpace (layout_atom ai) \<or> rawContent (layout_atom ai) = [] then {}
      else {fileOffset ai..<fileOffset ai + length (rawContent (layout_atom ai))} \<union>
           (\<Union>ref \<in> set (refs (layout_atom ai)). touched ai ref))"

section \<open>The contract of a relocation handler\<close>

text \<open>An image function that keeps to \<open>X\<close>, flag included: it may only clear the flag, and whether it does
  depends on the bytes of \<open>X\<close>.\<close>

definition image_keeps_to :: "nat set \<Rightarrow> (image \<Rightarrow> image) \<Rightarrow> bool" where
  "image_keeps_to X f \<longleftrightarrow>
     (\<forall>s a. a \<notin> X \<longrightarrow> fst (f s) a = fst s a) \<and>
     (\<forall>s1 s2. (\<forall>a \<in> X. fst s1 a = fst s2 a) \<longrightarrow>
        (\<forall>a \<in> X. fst (f s1) a = fst (f s2) a) \<and>
        (\<exists>c. snd (f s1) = (snd s1 \<and> c) \<and> snd (f s2) = (snd s2 \<and> c)))"

lemma image_frame: "image_keeps_to X f \<Longrightarrow> a \<notin> X \<Longrightarrow> fst (f s) a = fst s a"
  unfolding image_keeps_to_def by blast

lemma image_agree:
  "image_keeps_to X f \<Longrightarrow> \<forall>a \<in> X. fst s1 a = fst s2 a \<Longrightarrow> a \<in> X \<Longrightarrow> fst (f s1) a = fst (f s2) a"
  unfolding image_keeps_to_def by blast

lemma image_flag:
  assumes "image_keeps_to X f" and "\<forall>a \<in> X. fst s1 a = fst s2 a"
  obtains c where "snd (f s1) = (snd s1 \<and> c)" "snd (f s2) = (snd s2 \<and> c)"
  using assms unfolding image_keeps_to_def by blast

lemma image_keeps_to_comp:
  assumes "image_keeps_to X f" and "image_keeps_to X g"
  shows "image_keeps_to X (\<lambda>s. g (f s))"
proof -
  have "\<exists>c. snd (g (f s1)) = (snd s1 \<and> c) \<and> snd (g (f s2)) = (snd s2 \<and> c)"
    if eq: "\<forall>a \<in> X. fst s1 a = fst s2 a" for s1 s2
  proof -
    obtain c where c: "snd (f s1) = (snd s1 \<and> c)" "snd (f s2) = (snd s2 \<and> c)"
      using image_flag [OF assms(1) eq] .
    obtain d where "snd (g (f s1)) = (snd (f s1) \<and> d)" "snd (g (f s2)) = (snd (f s2) \<and> d)"
      using image_flag [OF assms(2), of "f s1" "f s2"] image_agree [OF assms(1) eq] by blast
    with c show ?thesis by (intro exI [of _ "c \<and> d"]) auto
  qed
  moreover have "\<forall>a \<in> X. fst (g (f s1)) a = fst (g (f s2)) a" if eq: "\<forall>a \<in> X. fst s1 a = fst s2 a" for s1 s2
  proof -
    have "\<forall>a \<in> X. fst (f s1) a = fst (f s2) a" using image_agree [OF assms(1) eq] by simp
    then show ?thesis using image_agree [OF assms(2)] by simp
  qed
  moreover have "a \<notin> X \<Longrightarrow> fst (g (f s)) a = fst s a" for s a
    by (simp add: image_frame [OF assms(1)] image_frame [OF assms(2)])
  ultimately show ?thesis unfolding image_keeps_to_def by simp
qed

lemma image_keeps_to_fold:
  "(\<And>x. x \<in> set xs \<Longrightarrow> image_keeps_to X (f x)) \<Longrightarrow> image_keeps_to X (fold f xs)"
proof (induction xs)
  case Nil
  show ?case by (auto simp: image_keeps_to_def intro: exI [of _ True])
next
  case (Cons x xs)
  have "image_keeps_to X (\<lambda>s. fold f xs (f x s))"
    by (rule image_keeps_to_comp) (use Cons in auto)
  then show ?case by (simp add: o_def)
qed

lemma image_keeps_to_memcpy:
  "{a..<a + length bs} \<subseteq> X \<Longrightarrow> image_keeps_to X (\<lambda>s. (memcpy (fst s) a bs, snd s))"
  by (auto simp: image_keeps_to_def memcpy_def intro: exI [of _ True])

lemma image_keeps_to_apply_ref:
  assumes "keeps_to X (apply_reloc ai ref)"
  shows "image_keeps_to X (apply_ref apply_reloc ai ref)"
proof -
  have "(\<forall>a \<in> X. fst (apply_ref apply_reloc ai ref s1) a = fst (apply_ref apply_reloc ai ref s2) a) \<and>
     (\<exists>c. snd (apply_ref apply_reloc ai ref s1) = (snd s1 \<and> c) \<and>
          snd (apply_ref apply_reloc ai ref s2) = (snd s2 \<and> c))"
    if eq: "\<forall>a \<in> X. fst s1 a = fst s2 a" for s1 s2
  proof (cases "apply_reloc ai ref (fst s1)")
    case (Inl e)
    with keeps_to_Inl [OF assms eq Inl] eq show ?thesis
      by (auto simp: apply_ref_def intro: exI [of _ False])
  next
    case (Inr n)
    with keeps_to_Inr [OF assms eq Inr] show ?thesis
      by (auto simp: apply_ref_def intro: exI [of _ True])
  qed
  moreover have "fst (apply_ref apply_reloc ai ref s) a = fst s a" if "a \<notin> X" for s a
    using keeps_to_frame [OF assms _ that] by (auto simp: apply_ref_def split: sum.split)
  ultimately show ?thesis unfolding image_keeps_to_def by blast
qed

lemma image_keeps_to_commute:
  assumes f: "image_keeps_to X f" and g: "image_keeps_to Y g" and "X \<inter> Y = {}"
  shows "f (g s) = g (f s)"
proof (rule prod_eqI)
  have onX: "\<forall>a \<in> X. fst (g s) a = fst s a" using image_frame [OF g] assms(3) by blast
  have onY: "\<forall>a \<in> Y. fst (f s) a = fst s a" using image_frame [OF f] assms(3) by blast
  show "fst (f (g s)) = fst (g (f s))"
  proof
    fix a
    consider "a \<in> X" | "a \<in> Y" | "a \<notin> X" "a \<notin> Y" by blast
    then show "fst (f (g s)) a = fst (g (f s)) a"
    proof cases
      case 1
      then have "a \<notin> Y" using assms(3) by blast
      with image_agree [OF f onX 1] image_frame [OF g] show ?thesis by simp
    next
      case 2
      then have "a \<notin> X" using assms(3) by blast
      with image_agree [OF g onY 2] image_frame [OF f] show ?thesis by simp
    next
      case 3
      then show ?thesis by (simp add: image_frame [OF f] image_frame [OF g])
    qed
  qed
  obtain c where c: "snd (f (g s)) = (snd (g s) \<and> c)" "snd (f s) = (snd s \<and> c)"
    using image_flag [OF f onX] .
  obtain d where d: "snd (g (f s)) = (snd (f s) \<and> d)" "snd (g s) = (snd s \<and> d)"
    using image_flag [OF g onY] .
  from c d show "snd (f (g s)) = snd (g (f s))" by auto
qed

text \<open>What \<open>AtomSection::write\<close> relies on: applying a reference touches the bytes \<open>touched\<close> names and
  depends on no other byte of the image.\<close>

locale reloc_handler =
  fixes apply_reloc :: "atom_layout \<Rightarrow> reference \<Rightarrow> patch"
    and touched :: "atom_layout \<Rightarrow> reference \<Rightarrow> nat set"
  assumes keeps: "keeps_to (touched ai ref) (apply_reloc ai ref)"
begin

lemma write_atom_keeps: "image_keeps_to (atom_bytes touched ai) (write_atom apply_reloc ai)"
proof (cases "\<not> occupiesDiskSpace (layout_atom ai) \<or> rawContent (layout_atom ai) = []")
  case True
  then have "write_atom apply_reloc ai = (\<lambda>s. s)" by (auto simp: write_atom_def fun_eq_iff)
  then show ?thesis using image_keeps_to_fold [of "[]" _ "\<lambda>_ s. s"] by (simp add: id_def)
next
  case False
  have refs: "image_keeps_to (atom_bytes touched ai) (fold (apply_ref apply_reloc ai) (refs (layout_atom ai)))"
    by (intro image_keeps_to_fold image_keeps_to_apply_ref keeps_to_mono [OF keeps])
      (use False in \<open>auto simp: atom_bytes_def\<close>)
  have "image_keeps_to (atom_bytes touched ai)
      (\<lambda>s. (memcpy (fst s) (fileOffset ai) (rawContent (layout_atom ai)), snd s))"
    by (rule image_keeps_to_memcpy) (use False in \<open>auto simp: atom_bytes_def\<close>)
  from image_keeps_to_comp [OF this refs] False show ?thesis
    by (simp add: write_atom_def [abs_def])
qed

text \<open>Atoms that touch different bytes may be written in any order: the parallel loop has one result.\<close>

lemma write_order:
  assumes "mset ais = mset bis"
    and "\<And>x y. x \<in> set ais \<Longrightarrow> y \<in> set ais \<Longrightarrow> x \<noteq> y \<Longrightarrow> atom_bytes touched x \<inter> atom_bytes touched y = {}"
  shows "AtomSection_write apply_reloc ais m = AtomSection_write apply_reloc bis m"
proof -
  have "fold (write_atom apply_reloc) ais = fold (write_atom apply_reloc) bis"
  proof (rule fold_multiset_equiv [OF _ assms(1)])
    fix x y
    assume "x \<in> set ais" "y \<in> set ais"
    then show "write_atom apply_reloc x \<circ> write_atom apply_reloc y =
        write_atom apply_reloc y \<circ> write_atom apply_reloc x"
      using image_keeps_to_commute [OF write_atom_keeps write_atom_keeps, OF assms(2)]
      by (cases "x = y") (auto simp: fun_eq_iff)
  qed
  then show ?thesis by (simp add: AtomSection_write_def)
qed

text \<open>A byte no atom touches is left as it was.\<close>

lemma write_frame:
  assumes "AtomSection_write apply_reloc ais m = Some m'" and "\<forall>ai \<in> set ais. a \<notin> atom_bytes touched ai"
  shows "m' a = m a"
proof -
  have "fst (fold (write_atom apply_reloc) ais s) a = fst s a" for s
    using assms(2)
    by (induction ais arbitrary: s) (auto simp: image_frame [OF write_atom_keeps])
  then show ?thesis
    using assms(1) by (auto simp: AtomSection_write_def split: prod.splits if_splits) (metis fst_conv)
qed

end

end
