(* ===== verification/Reloc_X86_64.thy ===== *)
theory Reloc_X86_64
  imports Relocation
begin

text \<open>
  The relocation handlers of the x86-64 and x86 ELF targets
  (lib/ReaderWriter/ELF/X86_64/X86_64RelocationHandler.cpp, X86/X86RelocationHandler.cpp).
\<close>

section \<open>x86-64: the single relocations\<close>

text \<open>\<open>l\<close> is the location, \<open>P\<close> its address, \<open>S\<close> the target, \<open>A\<close> the addend.\<close>

definition reloc64 :: "nat \<Rightarrow> u64 \<Rightarrow> u64 \<Rightarrow> i64 \<Rightarrow> mem \<Rightarrow> mem" where
  "reloc64 l P S A m = (let result = S + A in write64le m l (result OR read64le m l))"

definition relocPC32 :: "nat \<Rightarrow> u64 \<Rightarrow> u64 \<Rightarrow> i64 \<Rightarrow> mem \<Rightarrow> mem" where
  "relocPC32 l P S A m = (let result = ucast (S + A - P) in write32le m l (result + read32le m l))"

definition reloc32 :: "nat \<Rightarrow> u64 \<Rightarrow> u64 \<Rightarrow> i64 \<Rightarrow> mem \<Rightarrow> mem" where
  "reloc32 l P S A m = (let result = ucast (S + A) in write32le m l (result OR read32le m l))"

definition reloc32S :: "nat \<Rightarrow> u64 \<Rightarrow> u64 \<Rightarrow> i64 \<Rightarrow> mem \<Rightarrow> mem" where
  "reloc32S l P S A m = (let result = ucast (S + A) in write32le m l (result OR read32le m l))"

definition reloc16 :: "nat \<Rightarrow> u64 \<Rightarrow> u64 \<Rightarrow> i64 \<Rightarrow> mem \<Rightarrow> mem" where
  "reloc16 l P S A m = (let result = ucast (S + A) in write16le m l (result OR read16le m l))"

definition relocPC16 :: "nat \<Rightarrow> u64 \<Rightarrow> u64 \<Rightarrow> i64 \<Rightarrow> mem \<Rightarrow> mem" where
  "relocPC16 l P S A m = (let result = ucast (S + A - P) in write16le m l (result OR read16le m l))"

definition relocPC64 :: "nat \<Rightarrow> u64 \<Rightarrow> u64 \<Rightarrow> i64 \<Rightarrow> mem \<Rightarrow> mem" where
  "relocPC64 l P S A m = (let result = S + A - P in write64le m l (result OR read64le m l))"

section \<open>x86-64: the dispatch\<close>

datatype x86_64_reloc =
    R_X86_64_NONE | R_X86_64_64 | R_X86_64_PC32 | R_X86_64_GOTPCREL | R_X86_64_32 | R_X86_64_32S
  | R_X86_64_16 | R_X86_64_PC16 | R_X86_64_DTPOFF32 | R_X86_64_TPOFF32 | R_X86_64_GOTTPOFF
  | R_X86_64_TLSGD | R_X86_64_TLSLD | R_X86_64_PC64 | LLD_R_X86_64_GOTRELINDEX
  | R_X86_64_RELATIVE | R_X86_64_IRELATIVE | R_X86_64_JUMP_SLOT | R_X86_64_GLOB_DAT
  | R_X86_64_DTPMOD64 | R_X86_64_DTPOFF64 | R_X86_64_TPOFF64 | R_X86_64_other

text \<open>What the handler asks the layout besides the program headers: the references of a target atom and
  the index of a reference in the PLT relocation table.\<close>

record x86_64_env = "x86_64_reloc reloc_env" +
  target_refs :: "atom_id \<Rightarrow> reference list"
  getRelocationIndex :: "reference \<Rightarrow> u32 option"

text \<open>\<open>data16 data16 data16 mov %fs:0, %rax\<close>.\<close>

definition tlsld_instr :: "u8 list" where
  "tlsld_instr = [0x66, 0x66, 0x66, 0x64, 0x48, 0x8b, 0x04, 0x25, 0x00, 0x00, 0x00, 0x00]"

definition x86_64_applyRelocation :: "x86_64_env \<Rightarrow> atom_layout \<Rightarrow> reference \<Rightarrow> patch" where
  "x86_64_applyRelocation env ai ref m =
     (let loc = reloc_loc ai ref; tgt = addressOfAtom env (target ref); reloc = reloc_addr ai ref;
          A = addend ref in
      if kindNamespace ref \<noteq> ns_ELF then Inr m
      else if kindArch ref \<noteq> arch_x86_64 then Inl (reloc_assertion ''kindArch'')
      else case kindOf env (kindValue ref) of
        R_X86_64_NONE \<Rightarrow> Inr m
      | R_X86_64_64 \<Rightarrow> Inr (reloc64 loc reloc tgt A m)
      | R_X86_64_PC32 \<Rightarrow> Inr (relocPC32 loc reloc tgt A m)
      | R_X86_64_GOTPCREL \<Rightarrow> Inr (relocPC32 loc reloc tgt A m)
      | R_X86_64_32 \<Rightarrow> Inr (reloc32 loc reloc tgt A m)
      | R_X86_64_32S \<Rightarrow> Inr (reloc32S loc reloc tgt A m)
      | R_X86_64_16 \<Rightarrow> Inr (reloc16 loc reloc tgt A m)
      | R_X86_64_PC16 \<Rightarrow> Inr (relocPC16 loc reloc tgt A m)
      | R_X86_64_DTPOFF32 \<Rightarrow> Inr (write32le m loc (ucast (tgt - getTLSSize (programHeader env))))
      | R_X86_64_TPOFF32 \<Rightarrow> Inr (write32le m loc (ucast (tgt - getTLSSize (programHeader env))))
      | R_X86_64_GOTTPOFF \<Rightarrow> Inr (relocPC32 loc reloc tgt A m)
      | R_X86_64_TLSGD \<Rightarrow> Inr (relocPC32 loc reloc tgt A m)
      | R_X86_64_TLSLD \<Rightarrow>
          (if loc < 3 then Inl (reloc_assertion ''before the buffer'')
           else Inr (memcpy m (loc - 3) tlsld_instr))
      | R_X86_64_PC64 \<Rightarrow> Inr (relocPC64 loc reloc tgt A m)
      | LLD_R_X86_64_GOTRELINDEX \<Rightarrow>
          (case find (\<lambda>r. kindOf env (kindValue r) = R_X86_64_JUMP_SLOT) (target_refs env (target ref)) of
             None \<Rightarrow> Inr m
           | Some r \<Rightarrow>
               (case getRelocationIndex env r of
                  None \<Rightarrow> Inl (reloc_assertion ''Relocation does not exist'')
                | Some index \<Rightarrow> Inr (reloc32 loc 0 (ucast index) 0 m)))
      | R_X86_64_other \<Rightarrow> Inl unhandled_reloc
      | _ \<Rightarrow> Inr m)"

section \<open>x86\<close>

definition x86_reloc32 :: "nat \<Rightarrow> u64 \<Rightarrow> u64 \<Rightarrow> u64 \<Rightarrow> mem \<Rightarrow> mem" where
  "x86_reloc32 l P S A m = (let result = ucast (S + A) in write32le m l (result OR read32le m l))"

definition x86_relocPC32 :: "nat \<Rightarrow> u64 \<Rightarrow> u64 \<Rightarrow> u64 \<Rightarrow> mem \<Rightarrow> mem" where
  "x86_relocPC32 l P S A m = (let result = ucast (S + A - P) in write32le m l (result + read32le m l))"

datatype x86_reloc = R_386_32 | R_386_PC32 | R_386_other

definition x86_applyRelocation :: "x86_reloc reloc_env \<Rightarrow> atom_layout \<Rightarrow> reference \<Rightarrow> patch" where
  "x86_applyRelocation env ai ref m =
     (let loc = reloc_loc ai ref; tgt = addressOfAtom env (target ref); reloc = reloc_addr ai ref in
      if kindNamespace ref \<noteq> ns_ELF then Inr m
      else if kindArch ref \<noteq> arch_x86 then Inl (reloc_assertion ''kindArch'')
      else case kindOf env (kindValue ref) of
        R_386_32 \<Rightarrow> Inr (x86_reloc32 loc reloc tgt (addend ref) m)
      | R_386_PC32 \<Rightarrow> Inr (x86_relocPC32 loc reloc tgt (addend ref) m)
      | R_386_other \<Rightarrow> Inl unhandled_reloc)"

section \<open>The bytes a relocation touches\<close>

fun x86_64_extent :: "x86_64_reloc \<Rightarrow> nat \<Rightarrow> nat set" where
  "x86_64_extent R_X86_64_64 l = {l..<l + 8}"
| "x86_64_extent R_X86_64_PC64 l = {l..<l + 8}"
| "x86_64_extent R_X86_64_16 l = {l..<l + 2}"
| "x86_64_extent R_X86_64_PC16 l = {l..<l + 2}"
| "x86_64_extent R_X86_64_TLSLD l = (if l < 3 then {} else {l - 3..<l + 9})"
| "x86_64_extent k l =
     (if k \<in> {R_X86_64_PC32, R_X86_64_GOTPCREL, R_X86_64_32, R_X86_64_32S, R_X86_64_DTPOFF32,
              R_X86_64_TPOFF32, R_X86_64_GOTTPOFF, R_X86_64_TLSGD, LLD_R_X86_64_GOTRELINDEX}
      then {l..<l + 4} else {})"

definition x86_64_touched :: "x86_64_env \<Rightarrow> atom_layout \<Rightarrow> reference \<Rightarrow> nat set" where
  "x86_64_touched env ai ref = x86_64_extent (kindOf env (kindValue ref)) (reloc_loc ai ref)"

lemmas x86_64_reloc_defs = reloc64_def relocPC32_def reloc32_def reloc32S_def reloc16_def relocPC16_def
  relocPC64_def

lemma x86_64_keeps: "keeps_to (x86_64_touched env ai ref) (x86_64_applyRelocation env ai ref)"
proof (cases "kindNamespace ref \<noteq> ns_ELF \<or> kindArch ref \<noteq> arch_x86_64")
  case True
  then show ?thesis
    unfolding x86_64_applyRelocation_def Let_def
    by (cases "kindNamespace ref = ns_ELF") (simp_all add: keeps_to_intros)
next
  case False
  then show ?thesis
    unfolding x86_64_applyRelocation_def Let_def x86_64_touched_def x86_64_reloc_defs
    by (cases "kindOf env (kindValue ref)") (auto simp: tlsld_instr_def intro!: keeps_to_intros)
qed

interpretation x86_64: reloc_handler "x86_64_applyRelocation env" "x86_64_touched env" for env
  by unfold_locales (rule x86_64_keeps)

section \<open>What the patched bytes mean\<close>

text \<open>C28: A pc-relative relocation lands on its target: if the 32 bits at the location were zero and the
  displacement fits a signed 32-bit integer, the sign-extended word added to the place's address is the
  target's address plus the addend, and no other byte changes.\<close>

theorem x86_64_pc32_lands:
  assumes "kindOf env (kindValue ref) \<in> {R_X86_64_PC32, R_X86_64_GOTPCREL, R_X86_64_GOTTPOFF, R_X86_64_TLSGD}"
    and "kindNamespace ref = ns_ELF" and "kindArch ref = arch_x86_64"
    and "read32le m (reloc_loc ai ref) = 0"
    and "isInt 32 (addressOfAtom env (target ref) + addend ref - reloc_addr ai ref)"
  shows "\<exists>m'. x86_64_applyRelocation env ai ref m = Inr m' \<and>
    reloc_addr ai ref + scast (read32le m' (reloc_loc ai ref)) = addressOfAtom env (target ref) + addend ref \<and>
    (\<forall>a. a \<notin> {reloc_loc ai ref..<reloc_loc ai ref + 4} \<longrightarrow> m' a = m a)"
proof -
  define m' where "m' = relocPC32 (reloc_loc ai ref) (reloc_addr ai ref) (addressOfAtom env (target ref)) (addend ref) m"
  have "x86_64_applyRelocation env ai ref m = Inr m'"
    using assms(1-3) by (auto simp: x86_64_applyRelocation_def Let_def m'_def)
  moreover have "read32le m' (reloc_loc ai ref) =
      ucast (addressOfAtom env (target ref) + addend ref - reloc_addr ai ref)"
    using assms(4) by (simp add: m'_def relocPC32_def)
  moreover have "a \<notin> {reloc_loc ai ref..<reloc_loc ai ref + 4} \<Longrightarrow> m' a = m a" for a
    unfolding m'_def relocPC32_def Let_def by (rule write32le_other)
  ultimately show ?thesis
    using scast_ucast_isInt [where 'a = 32] assms(5) by simp
qed

text \<open>The 32-bit absolute relocations are not checked for overflow: the handler always succeeds; over a
  zero word it stores the address as an unsigned (R_X86_64_32) or signed (R_X86_64_32S) word, which gives
  the address back exactly when the address fits, and is the same word for both relocations.\<close>

theorem x86_64_abs32_unchecked:
  assumes "kindOf env (kindValue ref) \<in> {R_X86_64_32, R_X86_64_32S}"
    and "kindNamespace ref = ns_ELF" and "kindArch ref = arch_x86_64"
    and "read32le m (reloc_loc ai ref) = 0"
  shows "\<exists>m' w. x86_64_applyRelocation env ai ref m = Inr m' \<and> w = read32le m' (reloc_loc ai ref) \<and>
    (ucast w = addressOfAtom env (target ref) + addend ref \<longleftrightarrow>
       isUInt 32 (addressOfAtom env (target ref) + addend ref)) \<and>
    (scast w = addressOfAtom env (target ref) + addend ref \<longleftrightarrow>
       isInt 32 (addressOfAtom env (target ref) + addend ref))"
proof -
  let ?x = "addressOfAtom env (target ref) + addend ref"
  define m' where "m' = write32le m (reloc_loc ai ref) (ucast ?x)"
  have a: "x86_64_applyRelocation env ai ref m = Inr m'"
    using assms by (auto simp: x86_64_applyRelocation_def Let_def m'_def reloc32_def reloc32S_def)
  have u: "ucast (ucast ?x :: 32 word) = ?x \<longleftrightarrow> isUInt 32 ?x"
  proof
    assume e: "ucast (ucast ?x :: 32 word) = ?x"
    have "uint (ucast w :: 64 word) < 2 ^ 32" for w :: "32 word"
      using uint_bounded [of w] by (simp add: uint_up_ucast is_up)
    from this [of "ucast ?x"] e show "isUInt 32 ?x" by (simp add: isUInt_def)
  qed (use ucast_ucast_isUInt [where 'a = 32, of ?x] in simp)
  have s: "scast (ucast ?x :: 32 word) = ?x \<longleftrightarrow> isInt 32 ?x"
  proof
    assume e: "scast (ucast ?x :: 32 word) = ?x"
    have "sint (scast (ucast ?x :: 32 word) :: 64 word) = sint (ucast ?x :: 32 word)"
      by (simp add: sint_up_scast is_up)
    moreover have "- (2 ^ 31) \<le> sint (ucast ?x :: 32 word) \<and> sint (ucast ?x :: 32 word) < 2 ^ 31"
      using sint_ge [of "ucast ?x :: 32 word"] sint_lt [of "ucast ?x :: 32 word"] by simp
    ultimately show "isInt 32 ?x" unfolding isInt_def using e by simp
  qed (use scast_ucast_isInt [where 'a = 32, of ?x] in simp)
  show ?thesis
    using a u s by (intro exI [of _ m'] exI [of _ "ucast ?x"]) (simp add: m'_def)
qed

text \<open>C21: Writing the atoms of an x86-64 section has one result whatever the order in which the parallel
  loop takes them, provided no two of them patch or copy a common byte.\<close>

theorem x86_64_write_order:
  assumes "mset ais = mset bis"
    and "\<forall>x \<in> set ais. \<forall>y \<in> set ais. x \<noteq> y \<longrightarrow>
      atom_bytes (x86_64_touched env) x \<inter> atom_bytes (x86_64_touched env) y = {}"
  shows "AtomSection_write (x86_64_applyRelocation env) ais m =
         AtomSection_write (x86_64_applyRelocation env) bis m"
  by (rule x86_64.write_order [OF assms(1)]) (use assms(2) in blast)

section \<open>A sample atom\<close>

definition x86_64_sample :: x86_64_env where
  "x86_64_sample = \<lparr>kindOf = (\<lambda>v. if v = 2 then R_X86_64_PC32 else if v = 10 then R_X86_64_32 else R_X86_64_other),
     addressOfAtom = (\<lambda>_. 0x401000), programHeader = [], target_refs = (\<lambda>_. []), getRelocationIndex = (\<lambda>_. None)\<rparr>"

definition x86_64_sample_ref :: "u16 \<Rightarrow> reference" where
  "x86_64_sample_ref k = \<lparr>kindNamespace = ns_ELF, kindArch = arch_x86_64, kindValue = k, offsetInAtom = 1,
     target = 7, addend = - 4, tag = 0\<rparr>"

text \<open>A five byte call at the given file offset and address.\<close>

definition x86_64_sample_atom :: "nat \<Rightarrow> atom_layout" where
  "x86_64_sample_atom off = \<lparr>layout_atom = \<lparr>ordinal = 0, da_size = 5, sectionSize = 0, scope = scopeGlobal,
       interpose = interposeNo, merge_of = mergeNo, contentType = typeCode, alignment = (1, 0),
       sectionChoice = sectionBasedOnContent, customSectionName = [], deadStrip_of = deadStripNormal,
       dynamicExport = dynamicExportNormal, codeModel = codeNA, permissions_of = permR_X,
       rawContent = [0xe8, 0, 0, 0, 0], refs = [x86_64_sample_ref 2]\<rparr>,
     fileOffset = off, virtualAddr = 0x400000\<rparr>"

theorem x86_64_pc32_lands_witness:
  "\<exists>m'. x86_64_applyRelocation x86_64_sample (x86_64_sample_atom 16) (x86_64_sample_ref 2) (\<lambda>_. 0) = Inr m' \<and>
     reloc_addr (x86_64_sample_atom 16) (x86_64_sample_ref 2) + scast (read32le m' 17) = 0x400ffc"
proof -
  have "isInt 32 (addressOfAtom x86_64_sample (target (x86_64_sample_ref 2)) + addend (x86_64_sample_ref 2) -
      reloc_addr (x86_64_sample_atom 16) (x86_64_sample_ref 2))"
    by (simp add: x86_64_sample_def x86_64_sample_ref_def reloc_addr_def x86_64_sample_atom_def isInt_def)
  moreover have "read32le (\<lambda>_. 0) a = 0" for a by (simp add: read32le_def read16le_def)
  moreover have "reloc_loc (x86_64_sample_atom 16) (x86_64_sample_ref 2) = 17"
    by (simp add: reloc_loc_def x86_64_sample_atom_def x86_64_sample_ref_def)
  ultimately show ?thesis
    using x86_64_pc32_lands [of x86_64_sample "x86_64_sample_ref 2" "\<lambda>_. 0" "x86_64_sample_atom 16"]
    by (auto simp: x86_64_sample_def x86_64_sample_ref_def)
qed

theorem x86_64_abs32_unchecked_witness:
  "\<exists>m' w. x86_64_applyRelocation x86_64_sample (x86_64_sample_atom 16) (x86_64_sample_ref 10) (\<lambda>_. 0) = Inr m' \<and>
     w = read32le m' 17 \<and> ucast w = (0x400ffc :: u64)"
proof -
  have "isUInt 32 (addressOfAtom x86_64_sample (target (x86_64_sample_ref 10)) + addend (x86_64_sample_ref 10))"
    by (simp add: x86_64_sample_def x86_64_sample_ref_def isUInt_def)
  moreover have "read32le (\<lambda>_. 0) a = 0" for a by (simp add: read32le_def read16le_def)
  moreover have "reloc_loc (x86_64_sample_atom 16) (x86_64_sample_ref 10) = 17"
    by (simp add: reloc_loc_def x86_64_sample_atom_def x86_64_sample_ref_def)
  ultimately show ?thesis
    using x86_64_abs32_unchecked [of x86_64_sample "x86_64_sample_ref 10" "\<lambda>_. 0" "x86_64_sample_atom 16"]
    by (auto simp: x86_64_sample_def x86_64_sample_ref_def)
qed

theorem x86_64_write_order_witness:
  "AtomSection_write (x86_64_applyRelocation x86_64_sample) [x86_64_sample_atom 0, x86_64_sample_atom 8] (\<lambda>_. 0) =
   AtomSection_write (x86_64_applyRelocation x86_64_sample) [x86_64_sample_atom 8, x86_64_sample_atom 0] (\<lambda>_. 0)"
proof -
  have "atom_bytes (x86_64_touched x86_64_sample) (x86_64_sample_atom off) = {off..<off + 5}" for off
    by (auto simp: atom_bytes_def x86_64_touched_def x86_64_sample_atom_def x86_64_sample_ref_def reloc_loc_def
        x86_64_sample_def occupiesDiskSpace_def)
  then show ?thesis by (intro x86_64_write_order) (auto simp: add_mset_commute)
qed

end
