(* ===== verification/Reloc_AArch64.thy ===== *)
theory Reloc_AArch64
  imports Relocation
begin

text \<open>
  The relocation handler of the AArch64 ELF target
  (lib/ReaderWriter/ELF/AArch64/AArch64RelocationHandler.cpp): every relocation ORs (or adds) an
  immediate into the instruction or data word at the location, after a range or alignment check
  for some kinds. The lemmas decode the immediates as the processor does.
\<close>

section \<open>The single relocations\<close>

definition page :: "i64 \<Rightarrow> i64" where
  "page v = v AND NOT 0xFFF"

definition withinSignedUnsignedRange :: "i64 \<Rightarrow> nat \<Rightarrow> bool" where
  "withinSignedUnsignedRange X bits \<longleftrightarrow> isInt (bits - 1) X \<or> isUInt bits X"

text \<open>The immediate of an ADR or ADRP instruction in its two fields.\<close>

definition adr_fields :: "i64 \<Rightarrow> u32" where
  "adr_fields result =
     (let immlo = ucast (result AND 0x3); immhi = ucast (result AND 0x1FFFFC)
      in push_bit 29 immlo OR push_bit 3 immhi)"

definition relocR_AARCH64_ABS64 :: "nat \<Rightarrow> u64 \<Rightarrow> u64 \<Rightarrow> i64 \<Rightarrow> mem \<Rightarrow> mem" where
  "relocR_AARCH64_ABS64 l P S A m =
     (let result = S + A in write64le m l (result OR read64le m l))"

definition relocR_AARCH64_ABS32 :: "nat \<Rightarrow> u64 \<Rightarrow> u64 \<Rightarrow> i64 \<Rightarrow> patch" where
  "relocR_AARCH64_ABS32 l P S A m =
     (let result = S + A in
      if \<not> withinSignedUnsignedRange result 32 then Inl out_of_range_reloc
      else Inr (write32le m l (ucast result OR read32le m l)))"

definition relocR_AARCH64_ABS16 :: "nat \<Rightarrow> u64 \<Rightarrow> u64 \<Rightarrow> i64 \<Rightarrow> patch" where
  "relocR_AARCH64_ABS16 l P S A m =
     (let result = S + A in
      if \<not> withinSignedUnsignedRange result 16 then Inl out_of_range_reloc
      else Inr (write16le m l (ucast result OR read16le m l)))"

definition relocR_AARCH64_PREL64 :: "nat \<Rightarrow> u64 \<Rightarrow> u64 \<Rightarrow> i64 \<Rightarrow> mem \<Rightarrow> mem" where
  "relocR_AARCH64_PREL64 l P S A m =
     (let result = S + A - P in write64le m l (result + read64le m l))"

definition relocR_AARCH64_PREL32 :: "nat \<Rightarrow> u64 \<Rightarrow> u64 \<Rightarrow> i64 \<Rightarrow> patch" where
  "relocR_AARCH64_PREL32 l P S A m =
     (let result = S + A - P in
      if \<not> withinSignedUnsignedRange result 32 then Inl out_of_range_reloc
      else Inr (write32le m l (ucast result + read32le m l)))"

definition relocR_AARCH64_PREL16 :: "nat \<Rightarrow> u64 \<Rightarrow> u64 \<Rightarrow> i64 \<Rightarrow> patch" where
  "relocR_AARCH64_PREL16 l P S A m =
     (let result = S + A - P in
      if \<not> withinSignedUnsignedRange result 16 then Inl out_of_range_reloc
      else Inr (write16le m l (ucast result + read16le m l)))"

definition relocR_AARCH64_ADR_PREL_PG_HI21 :: "nat \<Rightarrow> u64 \<Rightarrow> u64 \<Rightarrow> i64 \<Rightarrow> patch" where
  "relocR_AARCH64_ADR_PREL_PG_HI21 l P S A m =
     (let result = page (S + A) - page P in
      if \<not> isInt 32 result then Inl out_of_range_reloc
      else Inr (write32le m l (adr_fields (signed_drop_bit 12 result) OR read32le m l)))"

definition relocR_AARCH64_ADR_PREL_LO21 :: "nat \<Rightarrow> u64 \<Rightarrow> u64 \<Rightarrow> i64 \<Rightarrow> patch" where
  "relocR_AARCH64_ADR_PREL_LO21 l P S A m =
     (let result = S + A - P in
      if \<not> isInt 20 result then Inl out_of_range_reloc
      else Inr (write32le m l (adr_fields result OR read32le m l)))"

definition relocR_AARCH64_ADD_ABS_LO12_NC :: "nat \<Rightarrow> u64 \<Rightarrow> u64 \<Rightarrow> i64 \<Rightarrow> mem \<Rightarrow> mem" where
  "relocR_AARCH64_ADD_ABS_LO12_NC l P S A m =
     (let result = push_bit 10 (ucast ((S + A) AND 0xFFF)) in write32le m l (result OR read32le m l))"

definition relocJump26 :: "nat \<Rightarrow> u64 \<Rightarrow> u64 \<Rightarrow> i64 \<Rightarrow> patch" where
  "relocJump26 l P S A m =
     (let result = S + A - P in
      if \<not> isInt 27 result then Inl out_of_range_reloc
      else Inr (write32le m l (ucast (drop_bit 2 (result AND 0x0FFFFFFC)) OR read32le m l)))"

definition relocR_AARCH64_CONDBR19 :: "nat \<Rightarrow> u64 \<Rightarrow> u64 \<Rightarrow> i64 \<Rightarrow> patch" where
  "relocR_AARCH64_CONDBR19 l P S A m =
     (let result = S + A - P in
      if \<not> isInt 20 result then Inl out_of_range_reloc
      else Inr (write32le m l (ucast (push_bit 3 (result AND 0x01FFFFC)) OR read32le m l)))"

definition relocR_AARCH64_LDST8_ABS_LO12_NC :: "nat \<Rightarrow> u64 \<Rightarrow> u64 \<Rightarrow> i64 \<Rightarrow> mem \<Rightarrow> mem" where
  "relocR_AARCH64_LDST8_ABS_LO12_NC l P S A m =
     (let result = push_bit 10 (ucast ((S + A) AND 0xFFF)) in write32le m l (result OR read32le m l))"

definition relocR_AARCH64_LDST16_ABS_LO12_NC :: "nat \<Rightarrow> u64 \<Rightarrow> u64 \<Rightarrow> i64 \<Rightarrow> mem \<Rightarrow> mem" where
  "relocR_AARCH64_LDST16_ABS_LO12_NC l P S A m =
     (let result = push_bit 9 (ucast (S + A) AND 0x0FFC) in write32le m l (result OR read32le m l))"

definition relocR_AARCH64_LDST32_ABS_LO12_NC :: "nat \<Rightarrow> u64 \<Rightarrow> u64 \<Rightarrow> i64 \<Rightarrow> mem \<Rightarrow> mem" where
  "relocR_AARCH64_LDST32_ABS_LO12_NC l P S A m =
     (let result = push_bit 8 (ucast (S + A) AND 0x0FFC) in write32le m l (result OR read32le m l))"

definition relocR_AARCH64_LDST64_ABS_LO12_NC :: "nat \<Rightarrow> u64 \<Rightarrow> u64 \<Rightarrow> i64 \<Rightarrow> mem \<Rightarrow> mem" where
  "relocR_AARCH64_LDST64_ABS_LO12_NC l P S A m =
     (let result = push_bit 7 (ucast (S + A) AND 0x0FF8) in write32le m l (result OR read32le m l))"

definition relocR_AARCH64_LDST128_ABS_LO12_NC :: "nat \<Rightarrow> u64 \<Rightarrow> u64 \<Rightarrow> i64 \<Rightarrow> mem \<Rightarrow> mem" where
  "relocR_AARCH64_LDST128_ABS_LO12_NC l P S A m =
     (let result = push_bit 6 (ucast (S + A) AND 0x0FF8) in write32le m l (result OR read32le m l))"

definition relocR_AARCH64_ADR_GOT_PAGE :: "nat \<Rightarrow> u64 \<Rightarrow> u64 \<Rightarrow> i64 \<Rightarrow> patch" where
  "relocR_AARCH64_ADR_GOT_PAGE l P S A m =
     (let result = page (S + A) - page P in
      if \<not> isInt 32 result then Inl out_of_range_reloc
      else Inr (write32le m l (adr_fields (drop_bit 12 result AND 0x3FFFF) OR read32le m l)))"

definition relocR_AARCH64_LD64_GOT_LO12_NC :: "nat \<Rightarrow> u64 \<Rightarrow> u64 \<Rightarrow> i64 \<Rightarrow> patch" where
  "relocR_AARCH64_LD64_GOT_LO12_NC l P S A m =
     (let result = ucast (S + A) :: i32 in
      if result AND 0x7 \<noteq> 0 then Inl unaligned_range_reloc
      else Inr (write32le m l (push_bit 7 (result AND 0xFF8) OR read32le m l)))"

definition relocADD_AARCH64_GOTRELINDEX :: "nat \<Rightarrow> u64 \<Rightarrow> u64 \<Rightarrow> i64 \<Rightarrow> mem \<Rightarrow> mem" where
  "relocADD_AARCH64_GOTRELINDEX l P S A m =
     (let result = push_bit 10 (ucast (S + A) AND 0xFFF) in write32le m l (result OR read32le m l))"

definition relocR_AARCH64_TLSIE_ADR_GOTTPREL_PAGE21 :: "nat \<Rightarrow> u64 \<Rightarrow> u64 \<Rightarrow> i64 \<Rightarrow> patch" where
  "relocR_AARCH64_TLSIE_ADR_GOTTPREL_PAGE21 l P S A m =
     (let result = page (S + A) - page P in
      if \<not> isInt 32 result then Inl out_of_range_reloc
      else Inr (write32le m l (adr_fields (signed_drop_bit 12 result) OR read32le m l)))"

definition relocR_AARCH64_TLSIE_LD64_GOTTPREL_LO12_NC :: "nat \<Rightarrow> u64 \<Rightarrow> u64 \<Rightarrow> i64 \<Rightarrow> mem \<Rightarrow> mem" where
  "relocR_AARCH64_TLSIE_LD64_GOTTPREL_LO12_NC l P S A m =
     (let result = push_bit 7 (ucast (S + A) AND 0xFF8) in write32le m l (result OR read32le m l))"

definition relocR_AARCH64_TLSLE_ADD_TPREL_HI12 :: "nat \<Rightarrow> u64 \<Rightarrow> u64 \<Rightarrow> i64 \<Rightarrow> patch" where
  "relocR_AARCH64_TLSLE_ADD_TPREL_HI12 l P S A m =
     (let result = S + A in
      if \<not> isUInt 24 result then Inl out_of_range_reloc
      else Inr (write32le m l (ucast (drop_bit 2 (result AND 0x0FFF000)) OR read32le m l)))"

definition relocR_AARCH64_TLSLE_ADD_TPREL_LO12_NC :: "nat \<Rightarrow> u64 \<Rightarrow> u64 \<Rightarrow> i64 \<Rightarrow> mem \<Rightarrow> mem" where
  "relocR_AARCH64_TLSLE_ADD_TPREL_LO12_NC l P S A m =
     (let result = push_bit 10 (ucast (S + A) AND 0x0FFF) in write32le m l (result OR read32le m l))"

definition relocR_AARCH64_TLSDESC_ADR_PAGE21 :: "nat \<Rightarrow> u64 \<Rightarrow> u64 \<Rightarrow> i64 \<Rightarrow> patch" where
  "relocR_AARCH64_TLSDESC_ADR_PAGE21 l P S A m =
     (let result = page (S + A) - page P in
      if \<not> isInt 32 result then Inl out_of_range_reloc
      else Inr (write32le m l (adr_fields (signed_drop_bit 12 result) OR read32le m l)))"

definition relocR_AARCH64_TLSDESC_LD64_LO12_NC :: "nat \<Rightarrow> u64 \<Rightarrow> u64 \<Rightarrow> i64 \<Rightarrow> patch" where
  "relocR_AARCH64_TLSDESC_LD64_LO12_NC l P S A m =
     (let result = ucast (S + A) :: i32 in
      if result AND 0x7 \<noteq> 0 then Inl unaligned_range_reloc
      else Inr (write32le m l (push_bit 7 (result AND 0xFF8) OR read32le m l)))"

definition relocR_AARCH64_TLSDESC_ADD_LO12_NC :: "nat \<Rightarrow> u64 \<Rightarrow> u64 \<Rightarrow> i64 \<Rightarrow> mem \<Rightarrow> mem" where
  "relocR_AARCH64_TLSDESC_ADD_LO12_NC l P S A m =
     (let result = push_bit 10 (ucast ((S + A) AND 0xFFF)) in write32le m l (result OR read32le m l))"

section \<open>The dispatch\<close>

datatype aarch64_reloc =
    R_AARCH64_NONE | R_AARCH64_ABS64 | R_AARCH64_ABS32 | R_AARCH64_ABS16 | R_AARCH64_PREL64
  | R_AARCH64_PREL32 | R_AARCH64_PREL16 | R_AARCH64_ADR_PREL_PG_HI21 | R_AARCH64_ADR_PREL_LO21
  | R_AARCH64_ADD_ABS_LO12_NC | R_AARCH64_CALL26 | R_AARCH64_JUMP26 | R_AARCH64_CONDBR19
  | R_AARCH64_ADR_GOT_PAGE | R_AARCH64_LD64_GOT_LO12_NC | R_AARCH64_LDST8_ABS_LO12_NC
  | R_AARCH64_LDST16_ABS_LO12_NC | R_AARCH64_LDST32_ABS_LO12_NC | R_AARCH64_LDST64_ABS_LO12_NC
  | R_AARCH64_LDST128_ABS_LO12_NC | ADD_AARCH64_GOTRELINDEX
  | R_AARCH64_TLSIE_ADR_GOTTPREL_PAGE21 | R_AARCH64_TLSIE_LD64_GOTTPREL_LO12_NC
  | R_AARCH64_TLSLE_ADD_TPREL_HI12 | R_AARCH64_TLSLE_ADD_TPREL_LO12_NC
  | R_AARCH64_TLSDESC_ADR_PAGE21 | R_AARCH64_TLSDESC_LD64_LO12_NC
  | R_AARCH64_TLSDESC_ADD_LO12_NC | R_AARCH64_TLSDESC_CALL | R_AARCH64_RELATIVE
  | R_AARCH64_IRELATIVE | R_AARCH64_JUMP_SLOT | R_AARCH64_GLOB_DAT | R_AARCH64_TLS_TPREL64
  | R_AARCH64_TLSDESC | R_AARCH64_other

text \<open>\<open>TCB_SIZE\<close> of AArch64TargetHandler.h.\<close>

definition AArch64_TCB_SIZE :: u64 where
  "AArch64_TCB_SIZE = 16"

definition aarch64_applyRelocation :: "aarch64_reloc reloc_env \<Rightarrow> atom_layout \<Rightarrow> reference \<Rightarrow> patch" where
  "aarch64_applyRelocation env ai ref m =
     (let loc = reloc_loc ai ref; tgt = addressOfAtom env (target ref); reloc = reloc_addr ai ref;
          A = addend ref in
      if kindNamespace ref \<noteq> ns_ELF then Inr m
      else if kindArch ref \<noteq> arch_AArch64 then Inl (reloc_assertion ''kindArch'')
      else case kindOf env (kindValue ref) of
        R_AARCH64_NONE \<Rightarrow> Inr m
      | R_AARCH64_ABS64 \<Rightarrow> Inr (relocR_AARCH64_ABS64 loc reloc tgt A m)
      | R_AARCH64_ABS32 \<Rightarrow> relocR_AARCH64_ABS32 loc reloc tgt A m
      | R_AARCH64_ABS16 \<Rightarrow> relocR_AARCH64_ABS16 loc reloc tgt A m
      | R_AARCH64_PREL64 \<Rightarrow> Inr (relocR_AARCH64_PREL64 loc reloc tgt A m)
      | R_AARCH64_PREL32 \<Rightarrow> relocR_AARCH64_PREL32 loc reloc tgt A m
      | R_AARCH64_PREL16 \<Rightarrow> relocR_AARCH64_PREL16 loc reloc tgt A m
      | R_AARCH64_ADR_PREL_PG_HI21 \<Rightarrow> relocR_AARCH64_ADR_PREL_PG_HI21 loc reloc tgt A m
      | R_AARCH64_ADR_PREL_LO21 \<Rightarrow> relocR_AARCH64_ADR_PREL_LO21 loc reloc tgt A m
      | R_AARCH64_ADD_ABS_LO12_NC \<Rightarrow> Inr (relocR_AARCH64_ADD_ABS_LO12_NC loc reloc tgt A m)
      | R_AARCH64_CALL26 \<Rightarrow> relocJump26 loc reloc tgt A m
      | R_AARCH64_JUMP26 \<Rightarrow> relocJump26 loc reloc tgt A m
      | R_AARCH64_CONDBR19 \<Rightarrow> relocR_AARCH64_CONDBR19 loc reloc tgt A m
      | R_AARCH64_ADR_GOT_PAGE \<Rightarrow> relocR_AARCH64_ADR_GOT_PAGE loc reloc tgt A m
      | R_AARCH64_LD64_GOT_LO12_NC \<Rightarrow> relocR_AARCH64_LD64_GOT_LO12_NC loc reloc tgt A m
      | R_AARCH64_LDST8_ABS_LO12_NC \<Rightarrow> Inr (relocR_AARCH64_LDST8_ABS_LO12_NC loc reloc tgt A m)
      | R_AARCH64_LDST16_ABS_LO12_NC \<Rightarrow> Inr (relocR_AARCH64_LDST16_ABS_LO12_NC loc reloc tgt A m)
      | R_AARCH64_LDST32_ABS_LO12_NC \<Rightarrow> Inr (relocR_AARCH64_LDST32_ABS_LO12_NC loc reloc tgt A m)
      | R_AARCH64_LDST64_ABS_LO12_NC \<Rightarrow> Inr (relocR_AARCH64_LDST64_ABS_LO12_NC loc reloc tgt A m)
      | R_AARCH64_LDST128_ABS_LO12_NC \<Rightarrow> Inr (relocR_AARCH64_LDST128_ABS_LO12_NC loc reloc tgt A m)
      | ADD_AARCH64_GOTRELINDEX \<Rightarrow> Inr (relocADD_AARCH64_GOTRELINDEX loc reloc tgt A m)
      | R_AARCH64_TLSIE_ADR_GOTTPREL_PAGE21 \<Rightarrow> relocR_AARCH64_TLSIE_ADR_GOTTPREL_PAGE21 loc reloc tgt A m
      | R_AARCH64_TLSIE_LD64_GOTTPREL_LO12_NC \<Rightarrow> Inr (relocR_AARCH64_TLSIE_LD64_GOTTPREL_LO12_NC loc reloc tgt A m)
      | R_AARCH64_TLSLE_ADD_TPREL_HI12 \<Rightarrow> 
          (case getTPOffset AArch64_TCB_SIZE (programHeader env) of
             None \<Rightarrow> Inl (reloc_assertion ''TLS segment not found'')
           | Some tpoffset \<Rightarrow> relocR_AARCH64_TLSLE_ADD_TPREL_HI12 loc reloc (tgt + tpoffset) A m)
      | R_AARCH64_TLSLE_ADD_TPREL_LO12_NC \<Rightarrow> 
          (case getTPOffset AArch64_TCB_SIZE (programHeader env) of
             None \<Rightarrow> Inl (reloc_assertion ''TLS segment not found'')
           | Some tpoffset \<Rightarrow> Inr (relocR_AARCH64_TLSLE_ADD_TPREL_LO12_NC loc reloc (tgt + tpoffset) A m))
      | R_AARCH64_TLSDESC_ADR_PAGE21 \<Rightarrow> relocR_AARCH64_TLSDESC_ADR_PAGE21 loc reloc tgt A m
      | R_AARCH64_TLSDESC_LD64_LO12_NC \<Rightarrow> relocR_AARCH64_TLSDESC_LD64_LO12_NC loc reloc tgt A m
      | R_AARCH64_TLSDESC_ADD_LO12_NC \<Rightarrow> Inr (relocR_AARCH64_TLSDESC_ADD_LO12_NC loc reloc tgt A m)
      | R_AARCH64_TLSDESC_CALL \<Rightarrow> Inr m
      | R_AARCH64_RELATIVE \<Rightarrow> Inr m
      | R_AARCH64_IRELATIVE \<Rightarrow> Inr m
      | R_AARCH64_JUMP_SLOT \<Rightarrow> Inr m
      | R_AARCH64_GLOB_DAT \<Rightarrow> Inr m
      | R_AARCH64_TLS_TPREL64 \<Rightarrow> Inr m
      | R_AARCH64_TLSDESC \<Rightarrow> Inr m
      | R_AARCH64_other \<Rightarrow> Inl unhandled_reloc)"

section \<open>The bytes a relocation touches\<close>

fun aarch64_width :: "aarch64_reloc \<Rightarrow> nat" where
  "aarch64_width R_AARCH64_ABS64 = 8"
| "aarch64_width R_AARCH64_PREL64 = 8"
| "aarch64_width R_AARCH64_ABS16 = 2"
| "aarch64_width R_AARCH64_PREL16 = 2"
| "aarch64_width k =
     (if k \<in> {R_AARCH64_NONE, R_AARCH64_TLSDESC_CALL, R_AARCH64_RELATIVE, R_AARCH64_IRELATIVE,
              R_AARCH64_JUMP_SLOT, R_AARCH64_GLOB_DAT, R_AARCH64_TLS_TPREL64, R_AARCH64_TLSDESC,
              R_AARCH64_other} then 0 else 4)"

definition aarch64_touched :: "aarch64_reloc reloc_env \<Rightarrow> atom_layout \<Rightarrow> reference \<Rightarrow> nat set" where
  "aarch64_touched env ai ref =
     {reloc_loc ai ref..<reloc_loc ai ref + aarch64_width (kindOf env (kindValue ref))}"

lemmas aarch64_reloc_defs =
  relocR_AARCH64_ABS64_def relocR_AARCH64_ABS32_def relocR_AARCH64_ABS16_def
  relocR_AARCH64_PREL64_def relocR_AARCH64_PREL32_def relocR_AARCH64_PREL16_def
  relocR_AARCH64_ADR_PREL_PG_HI21_def relocR_AARCH64_ADR_PREL_LO21_def
  relocR_AARCH64_ADD_ABS_LO12_NC_def relocJump26_def relocR_AARCH64_CONDBR19_def
  relocR_AARCH64_LDST8_ABS_LO12_NC_def relocR_AARCH64_LDST16_ABS_LO12_NC_def
  relocR_AARCH64_LDST32_ABS_LO12_NC_def relocR_AARCH64_LDST64_ABS_LO12_NC_def
  relocR_AARCH64_LDST128_ABS_LO12_NC_def relocR_AARCH64_ADR_GOT_PAGE_def
  relocR_AARCH64_LD64_GOT_LO12_NC_def relocADD_AARCH64_GOTRELINDEX_def
  relocR_AARCH64_TLSIE_ADR_GOTTPREL_PAGE21_def relocR_AARCH64_TLSIE_LD64_GOTTPREL_LO12_NC_def
  relocR_AARCH64_TLSLE_ADD_TPREL_HI12_def relocR_AARCH64_TLSLE_ADD_TPREL_LO12_NC_def
  relocR_AARCH64_TLSDESC_ADR_PAGE21_def relocR_AARCH64_TLSDESC_LD64_LO12_NC_def
  relocR_AARCH64_TLSDESC_ADD_LO12_NC_def

lemma aarch64_keeps: "keeps_to (aarch64_touched env ai ref) (aarch64_applyRelocation env ai ref)"
proof (cases "kindNamespace ref \<noteq> ns_ELF \<or> kindArch ref \<noteq> arch_AArch64")
  case True
  then show ?thesis
    unfolding aarch64_applyRelocation_def Let_def
    by (cases "kindNamespace ref = ns_ELF") (simp_all add: keeps_to_intros)
next
  case False
  then show ?thesis
    unfolding aarch64_applyRelocation_def Let_def aarch64_touched_def aarch64_reloc_defs
    by (cases "kindOf env (kindValue ref)") (auto intro!: keeps_to_intros)
qed

interpretation aarch64: reloc_handler "aarch64_applyRelocation env" "aarch64_touched env" for env
  by unfold_locales (rule aarch64_keeps)

section \<open>Decoding immediates\<close>

text \<open>The immediate of ADR and ADRP, of ADD, of a branch, of a conditional branch, and of a load or store.\<close>

definition adr_imm :: "u32 \<Rightarrow> i64" where
  "adr_imm w = signExtend 21 (push_bit 2 (ucast (drop_bit 5 w AND 0x7FFFF)) OR ucast (drop_bit 29 w AND 0x3))"

definition imm12 :: "u32 \<Rightarrow> u64" where
  "imm12 w = ucast (drop_bit 10 w AND 0xFFF)"

definition imm26 :: "u32 \<Rightarrow> i64" where
  "imm26 w = signExtend 28 (push_bit 2 (ucast (w AND 0x3FFFFFF)))"

definition imm19 :: "u32 \<Rightarrow> i64" where
  "imm19 w = signExtend 21 (push_bit 2 (ucast (drop_bit 5 w AND 0x7FFFF)))"

lemma adr_imm_fields:
  assumes "w AND (push_bit 5 (mask 19) OR push_bit 29 (mask 2)) = 0"
  shows "adr_imm (adr_fields r OR w) = signExtend 21 r"
proof -
  have z: "\<not> bit w j" if "5 \<le> j \<and> j < 24 \<or> 29 \<le> j \<and> j < 31" for j
    by (rule no_bit [OF assms]) (use that in \<open>auto simp: bit_simps\<close>)
  show ?thesis
    by (rule bit_word_eqI)
      (auto simp: adr_imm_def adr_fields_def mask_bits signExtend_def Let_def bit_simps z min_def Suc_diff_2)
qed

lemma imm12_field:
  assumes "w AND push_bit 10 (mask 12) = 0"
  shows "imm12 (push_bit 10 (ucast x AND 0xFFF) OR w) = x AND 0xFFF"
    and "imm12 (push_bit 10 (ucast (x AND 0xFFF)) OR w) = x AND 0xFFF"
proof -
  have z: "\<not> bit w j" if "10 \<le> j \<and> j < 22" for j
    by (rule no_bit [OF assms]) (use that in \<open>auto simp: bit_simps\<close>)
  show "imm12 (push_bit 10 (ucast x AND 0xFFF) OR w) = x AND 0xFFF"
    "imm12 (push_bit 10 (ucast (x AND 0xFFF)) OR w) = x AND 0xFFF"
    by (rule bit_word_eqI, auto simp: imm12_def mask_bits bit_simps z)+
qed

lemma imm26_field:
  assumes "w AND 0x3FFFFFF = 0"
  shows "imm26 (ucast (drop_bit 2 (x AND 0x0FFFFFFC)) OR w) = signExtend 28 (x AND NOT 3)"
proof -
  have z: "\<not> bit w j" if "j < 26" for j
    by (rule no_bit [OF assms]) (use that in \<open>auto simp: mask_bits bit_simps\<close>)
  show ?thesis
    by (rule bit_word_eqI) (auto simp: imm26_def mask_bits signExtend_def bit_simps z min_def Suc_diff_2)
qed

lemma imm19_field:
  assumes "w AND push_bit 5 (mask 19) = 0"
  shows "imm19 (ucast (push_bit 3 (x AND 0x01FFFFC)) OR w) = signExtend 21 (x AND NOT 3)"
proof -
  have z: "\<not> bit w j" if "5 \<le> j \<and> j < 24" for j
    by (rule no_bit [OF assms]) (use that in \<open>auto simp: bit_simps\<close>)
  show ?thesis
    by (rule bit_word_eqI) (auto simp: imm19_def mask_bits signExtend_def bit_simps z min_def Suc_diff_2)
qed



section \<open>Pages\<close>

lemma page_split: "page x + (x AND 0xFFF) = x"
proof -
  have "page x AND (x AND 0xFFF) = 0" and "page x OR (x AND 0xFFF) = x"
    by (rule bit_word_eqI, auto simp: page_def mask_bits bit_simps)+
  with word_plus_and_or [of "page x" "x AND 0xFFF"] show ?thesis by simp
qed

lemma page_diff: "\<exists>k. page x - page y = push_bit 12 k"
proof -
  have "page v = push_bit 12 (drop_bit 12 v)" for v
    by (rule bit_word_eqI) (auto simp: page_def mask_bits bit_simps)
  then have "page x - page y = push_bit 12 (drop_bit 12 x - drop_bit 12 y)"
    by (simp add: push_bit_eq_mult algebra_simps)
  then show ?thesis ..
qed

lemma push_signed_drop: "\<exists>k. d = push_bit 12 k \<Longrightarrow> push_bit 12 (signed_drop_bit 12 d) = (d :: i64)"
  by (rule bit_word_eqI) (auto simp: bit_simps)

lemma isInt_signed_drop:
  assumes "isInt 32 d"
  shows "isInt 21 (signed_drop_bit 12 d)"
proof -
  have "- (2 ^ 31) \<le> sint d" "sint d < 2 ^ 31" using assms by (simp_all add: isInt_def)
  then have "- (2 ^ 20) \<le> sint d div 2 ^ 12 \<and> sint d div 2 ^ 12 < 2 ^ 20" by (simp; linarith)
  then show ?thesis by (simp add: isInt_def sint_signed_drop_bit_eq drop_bit_eq_div)
qed

text \<open>What an ADRP computes once its immediate holds the distance of two pages.\<close>

lemma adrp_value:
  assumes "isInt 32 (page x - page P)" and "w AND (push_bit 5 (mask 19) OR push_bit 29 (mask 2)) = 0"
  shows "page P + push_bit 12 (adr_imm (adr_fields (signed_drop_bit 12 (page x - page P)) OR w)) = page x"
  unfolding adr_imm_fields [OF assms(2)]
  using isInt_signExtend [OF isInt_signed_drop [OF assms(1)]] push_signed_drop [OF page_diff]
  by simp

section \<open>What the patched instructions compute\<close>

definition aarch64_ref :: "aarch64_reloc reloc_env \<Rightarrow> reference \<Rightarrow> aarch64_reloc \<Rightarrow> bool" where
  "aarch64_ref env ref k \<longleftrightarrow>
     kindNamespace ref = ns_ELF \<and> kindArch ref = arch_AArch64 \<and> kindOf env (kindValue ref) = k"

lemma aarch64_apply [simp]:
  "aarch64_ref env ref k \<Longrightarrow> kindNamespace ref = ns_ELF"
  "aarch64_ref env ref k \<Longrightarrow> kindArch ref = arch_AArch64"
  "aarch64_ref env ref k \<Longrightarrow> kindOf env (kindValue ref) = k"
  by (simp_all add: aarch64_ref_def)

text \<open>C20: An ADRP/ADD pair computes the address it is relocated for: after the page relocation on the first
  and the low-12-bits relocation on the second instruction, both with zero immediates before and in
  either order in the output, the page of the first instruction plus the two decoded immediates is the
  target's address plus the addend, whenever the pages are less than 2 GiB apart.\<close>

theorem aarch64_adrp_add_lands:
  assumes "aarch64_ref env r1 R_AARCH64_ADR_PREL_PG_HI21" and "aarch64_ref env r2 R_AARCH64_ADD_ABS_LO12_NC"
    and "ref_value env r1 = ref_value env r2"
    and "isInt 32 (page (ref_value env r1) - page (reloc_addr ai r1))"
    and "reloc_loc ai r1 + 4 \<le> reloc_loc ai r2 \<or> reloc_loc ai r2 + 4 \<le> reloc_loc ai r1"
    and "read32le m (reloc_loc ai r1) AND (push_bit 5 (mask 19) OR push_bit 29 (mask 2)) = 0"
    and "read32le m (reloc_loc ai r2) AND push_bit 10 (mask 12) = 0"
  shows "\<exists>m1 m2. aarch64_applyRelocation env ai r1 m = Inr m1 \<and> aarch64_applyRelocation env ai r2 m1 = Inr m2 \<and>
    page (reloc_addr ai r1) + push_bit 12 (adr_imm (read32le m2 (reloc_loc ai r1))) +
      imm12 (read32le m2 (reloc_loc ai r2)) = ref_value env r1"
proof -
  let ?l1 = "reloc_loc ai r1" and ?l2 = "reloc_loc ai r2" and ?x = "ref_value env r1"
  define m1 where "m1 = write32le m ?l1
    (adr_fields (signed_drop_bit 12 (page ?x - page (reloc_addr ai r1))) OR read32le m ?l1)"
  define m2 where "m2 = write32le m1 ?l2 (push_bit 10 (ucast (?x AND 0xFFF)) OR read32le m1 ?l2)"
  have "aarch64_applyRelocation env ai r1 m = Inr m1"
    using assms(1,4)
    by (simp add: aarch64_applyRelocation_def Let_def relocR_AARCH64_ADR_PREL_PG_HI21_def m1_def ref_value_def)
  moreover have "aarch64_applyRelocation env ai r2 m1 = Inr m2"
    using assms(2,3)
    by (simp add: aarch64_applyRelocation_def Let_def relocR_AARCH64_ADD_ABS_LO12_NC_def m2_def ref_value_def)
  moreover have "read32le m2 ?l1 = read32le m1 ?l1" "read32le m1 ?l2 = read32le m ?l2"
    using assms(5) by (auto simp: m1_def m2_def read32le_write32le_other)
  ultimately show ?thesis
    using adrp_value [OF assms(4,6)] imm12_field(2) [OF assms(7), of ?x] page_split [of ?x]
    by (simp add: m1_def m2_def)
qed

text \<open>A relocated branch (BL, B) goes where it should: over a zero immediate, an offset that is a multiple
  of four and accepted by the range check is decoded exactly, and the opcode bits stay; an offset that
  does not fit 27 signed bits is refused, although the field would hold one more bit.\<close>

theorem aarch64_branch_lands:
  assumes "aarch64_ref env ref R_AARCH64_CALL26 \<or> aarch64_ref env ref R_AARCH64_JUMP26"
    and "(ref_value env ref - reloc_addr ai ref) AND 3 = 0"
    and "read32le m (reloc_loc ai ref) AND 0x3FFFFFF = 0"
  shows "if isInt 27 (ref_value env ref - reloc_addr ai ref)
     then \<exists>m'. aarch64_applyRelocation env ai ref m = Inr m' \<and>
       reloc_addr ai ref + imm26 (read32le m' (reloc_loc ai ref)) = ref_value env ref \<and>
       read32le m' (reloc_loc ai ref) AND NOT 0x3FFFFFF = read32le m (reloc_loc ai ref)
     else aarch64_applyRelocation env ai ref m = Inl out_of_range_reloc"
proof (cases "isInt 27 (ref_value env ref - reloc_addr ai ref)")
  case False
  with assms(1) show ?thesis
    by (auto simp: aarch64_applyRelocation_def Let_def relocJump26_def ref_value_def)
next
  case True
  let ?d = "ref_value env ref - reloc_addr ai ref" and ?w = "read32le m (reloc_loc ai ref)"
  define m' where "m' = write32le m (reloc_loc ai ref) (ucast (drop_bit 2 (?d AND 0x0FFFFFFC)) OR ?w)"
  have a: "aarch64_applyRelocation env ai ref m = Inr m'"
    using assms(1) True
    by (auto simp: aarch64_applyRelocation_def Let_def relocJump26_def ref_value_def m'_def)
  have d: "?d AND NOT 3 = ?d"
  proof (rule bit_word_eqI)
    fix j
    show "bit (?d AND NOT 3) j = bit ?d j"
      using no_bit [OF assms(2), of j] by (auto simp: mask_bits bit_simps dest: bit_imp_le_length)
  qed
  have "isInt 28 ?d" using True by (auto simp: isInt_def)
  then have "imm26 (read32le m' (reloc_loc ai ref)) = ?d"
    using imm26_field [OF assms(3), of ?d] d by (simp add: m'_def isInt_signExtend)
  moreover have "read32le m' (reloc_loc ai ref) AND NOT 0x3FFFFFF = ?w"
  proof (rule bit_word_eqI)
    fix j
    assume "j < LENGTH(32)"
    then show "bit (read32le m' (reloc_loc ai ref) AND NOT 0x3FFFFFF) j = bit ?w j"
      using no_bit [OF assms(3), of j] by (auto simp: m'_def mask_bits bit_simps)
  qed
  ultimately show ?thesis using a True by simp
qed





text \<open>The GOT page relocation keeps only 18 bits of the page distance: it lands on the page of the GOT
  slot exactly when that page is at or after the instruction's and less than 1 GiB away; a slot on an
  earlier page, accepted by the range check, is missed.\<close>

theorem aarch64_got_page_reach:
  assumes "aarch64_ref env ref R_AARCH64_ADR_GOT_PAGE"
    and "isInt 32 (page (ref_value env ref) - page (reloc_addr ai ref))"
    and "read32le m (reloc_loc ai ref) AND (push_bit 5 (mask 19) OR push_bit 29 (mask 2)) = 0"
  shows "\<exists>m'. aarch64_applyRelocation env ai ref m = Inr m' \<and>
    (page (reloc_addr ai ref) + push_bit 12 (adr_imm (read32le m' (reloc_loc ai ref))) = page (ref_value env ref)
     \<longleftrightarrow> isUInt 30 (page (ref_value env ref) - page (reloc_addr ai ref)))"
proof -
  let ?d = "page (ref_value env ref) - page (reloc_addr ai ref)"
  define m' where "m' = write32le m (reloc_loc ai ref)
    (adr_fields (drop_bit 12 ?d AND 0x3FFFF) OR read32le m (reloc_loc ai ref))"
  have a: "aarch64_applyRelocation env ai ref m = Inr m'"
    using assms(1,2)
    by (simp add: aarch64_applyRelocation_def Let_def relocR_AARCH64_ADR_GOT_PAGE_def ref_value_def m'_def)
  have "signExtend 21 (drop_bit 12 ?d AND 0x3FFFF) = drop_bit 12 ?d AND 0x3FFFF"
    by (rule bit_word_eqI) (auto simp: signExtend_def mask_bits bit_simps min_def)
  moreover have "push_bit 12 (drop_bit 12 ?d AND 0x3FFFF) = take_bit 30 ?d"
  proof -
    obtain k where "?d = push_bit 12 k" using page_diff by blast
    then show ?thesis by (intro bit_word_eqI) (auto simp: mask_bits bit_simps)
  qed
  ultimately have v: "push_bit 12 (adr_imm (read32le m' (reloc_loc ai ref))) = take_bit 30 ?d"
    using adr_imm_fields [OF assms(3)] by (simp add: m'_def)
  have "take_bit 30 ?d = ?d \<longleftrightarrow> isUInt 30 ?d"
  proof
    assume "take_bit 30 ?d = ?d"
    then have "take_bit 30 (uint ?d) = uint ?d" by (metis unsigned_take_bit_eq)
    then show "isUInt 30 ?d" by (simp add: isUInt_def take_bit_int_eq_self_iff)
  next
    assume "isUInt 30 ?d"
    then have "take_bit 30 (uint ?d) = uint ?d" by (simp add: isUInt_def take_bit_int_eq_self)
    then have "uint (take_bit 30 ?d) = uint ?d" by (simp add: unsigned_take_bit_eq)
    then show "take_bit 30 ?d = ?d" by (simp only: word_uint_eq_iff)
  qed
  then show ?thesis using a v by (intro exI [of _ m']) (auto simp: algebra_simps)
qed

text \<open>ADR and conditional branches get an exact displacement when it fits 20 signed bits (and, for the
  branch, is a multiple of four); a displacement that only fits the 21 bits the fields hold is refused.\<close>

theorem aarch64_adr_condbr_lands:
  assumes "read32le m (reloc_loc ai ref) AND (push_bit 5 (mask 19) OR push_bit 29 (mask 2)) = 0"
    and "aarch64_ref env ref R_AARCH64_ADR_PREL_LO21 \<or>
      aarch64_ref env ref R_AARCH64_CONDBR19 \<and> (ref_value env ref - reloc_addr ai ref) AND 3 = 0"
  shows "if isInt 20 (ref_value env ref - reloc_addr ai ref)
     then \<exists>m'. aarch64_applyRelocation env ai ref m = Inr m' \<and>
       reloc_addr ai ref + (if kindOf env (kindValue ref) = R_AARCH64_CONDBR19
         then imm19 (read32le m' (reloc_loc ai ref)) else adr_imm (read32le m' (reloc_loc ai ref))) = ref_value env ref
     else aarch64_applyRelocation env ai ref m = Inl out_of_range_reloc"
proof (cases "isInt 20 (ref_value env ref - reloc_addr ai ref)")
  case False
  with assms(2) show ?thesis
    by (auto simp: aarch64_applyRelocation_def Let_def relocR_AARCH64_ADR_PREL_LO21_def
        relocR_AARCH64_CONDBR19_def ref_value_def)
next
  case True
  let ?d = "ref_value env ref - reloc_addr ai ref" and ?w = "read32le m (reloc_loc ai ref)"
  have s: "signExtend 21 ?d = ?d" using True by (intro isInt_signExtend) (auto simp: isInt_def)
  from assms(2) show ?thesis
  proof
    assume r: "aarch64_ref env ref R_AARCH64_ADR_PREL_LO21"
    then show ?thesis
      using True adr_imm_fields [OF assms(1), of ?d] s
      by (simp add: aarch64_applyRelocation_def Let_def relocR_AARCH64_ADR_PREL_LO21_def ref_value_def)
  next
    assume "aarch64_ref env ref R_AARCH64_CONDBR19 \<and> ?d AND 3 = 0"
    then have k: "aarch64_ref env ref R_AARCH64_CONDBR19" and r: "?d AND 3 = 0" by simp_all
    have z: "?w AND push_bit 5 (mask 19) = 0"
      by (rule bit_word_eqI) (use no_bit [OF assms(1)] in \<open>auto simp: bit_simps\<close>)
    have "?d AND NOT 3 = ?d"
      by (rule bit_word_eqI) (use r no_bit [OF r] in \<open>auto simp: mask_bits bit_simps dest: bit_imp_le_length\<close>)
    with k show ?thesis
      using True imm19_field [OF z, of ?d] s
      by (simp add: aarch64_applyRelocation_def Let_def relocR_AARCH64_CONDBR19_def ref_value_def)
  qed
qed

section \<open>A sample atom\<close>

definition aarch64_sample :: "aarch64_reloc reloc_env" where
  "aarch64_sample = \<lparr>kindOf = (\<lambda>v. if v = 1 then R_AARCH64_ADR_PREL_PG_HI21 else if v = 2 then R_AARCH64_ADD_ABS_LO12_NC
       else if v = 3 then R_AARCH64_CALL26 else if v = 4 then R_AARCH64_LDST16_ABS_LO12_NC
       else if v = 5 then R_AARCH64_ADR_GOT_PAGE else R_AARCH64_ADR_PREL_LO21),
     addressOfAtom = (\<lambda>_. 0x12346), programHeader = []\<rparr>"

definition aarch64_sample_ref :: "u16 \<Rightarrow> u64 \<Rightarrow> i64 \<Rightarrow> reference" where
  "aarch64_sample_ref k off a = \<lparr>kindNamespace = ns_ELF, kindArch = arch_AArch64, kindValue = k, offsetInAtom = off,
     target = 7, addend = a, tag = 0\<rparr>"

definition aarch64_sample_atom :: atom_layout where
  "aarch64_sample_atom = \<lparr>layout_atom = \<lparr>ordinal = 0, da_size = 8, sectionSize = 0, scope = scopeGlobal,
       interpose = interposeNo, merge_of = mergeNo, contentType = typeCode, alignment = (4, 0),
       sectionChoice = sectionBasedOnContent, customSectionName = [], deadStrip_of = deadStripNormal,
       dynamicExport = dynamicExportNormal, codeModel = codeNA, permissions_of = permR_X,
       rawContent = [0, 0, 0, 0, 0, 0, 0, 0], refs = []\<rparr>,
     fileOffset = 0, virtualAddr = 0x20000\<rparr>"

lemmas aarch64_samples = aarch64_sample_def aarch64_sample_ref_def aarch64_sample_atom_def

theorem aarch64_adrp_add_lands_witness:
  "\<exists>m1 m2. aarch64_applyRelocation aarch64_sample aarch64_sample_atom (aarch64_sample_ref 1 0 0) (\<lambda>_. 0) = Inr m1 \<and>
     aarch64_applyRelocation aarch64_sample aarch64_sample_atom (aarch64_sample_ref 2 4 0) m1 = Inr m2 \<and>
     page 0x20000 + push_bit 12 (adr_imm (read32le m2 0)) + imm12 (read32le m2 4) = 0x12346"
  using aarch64_adrp_add_lands [of aarch64_sample "aarch64_sample_ref 1 0 0" "aarch64_sample_ref 2 4 0"
      aarch64_sample_atom "\<lambda>_. 0"]
  by (simp add: aarch64_samples aarch64_ref_def ref_value_def reloc_loc_def reloc_addr_def read_zero isInt_def page_def)

theorem aarch64_branch_lands_witness:
  "\<exists>m'. aarch64_applyRelocation aarch64_sample aarch64_sample_atom (aarch64_sample_ref 3 0 2) (\<lambda>_. 0) = Inr m' \<and>
     0x20000 + imm26 (read32le m' 0) = 0x12348"
  using aarch64_branch_lands [of aarch64_sample "aarch64_sample_ref 3 0 2" aarch64_sample_atom "\<lambda>_. 0"]
  by (simp add: aarch64_samples aarch64_ref_def ref_value_def reloc_loc_def reloc_addr_def read_zero isInt_def) blast


theorem aarch64_got_page_reach_witness:
  "\<exists>m'. aarch64_applyRelocation aarch64_sample aarch64_sample_atom (aarch64_sample_ref 5 0 0) (\<lambda>_. 0) = Inr m' \<and>
     page 0x20000 + push_bit 12 (adr_imm (read32le m' 0)) \<noteq> page 0x12346"
  using aarch64_got_page_reach [of aarch64_sample "aarch64_sample_ref 5 0 0" aarch64_sample_atom "\<lambda>_. 0"]
  by (simp add: aarch64_samples aarch64_ref_def ref_value_def reloc_loc_def reloc_addr_def read_zero isInt_def
      isUInt_def page_def)

theorem aarch64_adr_condbr_lands_witness:
  "\<exists>m'. aarch64_applyRelocation aarch64_sample aarch64_sample_atom (aarch64_sample_ref 6 0 0) (\<lambda>_. 0) = Inr m' \<and>
     0x20000 + adr_imm (read32le m' 0) = 0x12346"
  using aarch64_adr_condbr_lands [of "\<lambda>_. 0" aarch64_sample_atom "aarch64_sample_ref 6 0 0" aarch64_sample]
  by (simp add: aarch64_samples aarch64_ref_def ref_value_def reloc_loc_def reloc_addr_def read_zero isInt_def)

end
