(* ===== verification/Reloc_ARM.thy ===== *)
theory Reloc_ARM
  imports Relocation
begin

text \<open>
  The relocation handler of the ARM ELF target
  (lib/ReaderWriter/ELF/ARM/ARMRelocationHandler.cpp). Unlike on x86-64 and AArch64 the addend is
  read back from the instruction; a relocation then replaces a field under a mask.
\<close>

section \<open>Reading the addend\<close>

definition readAddend_THM_MOV :: "mem \<Rightarrow> nat \<Rightarrow> i64" where
  "readAddend_THM_MOV m l =
     (let halfHi = read16le m l; halfLo = read16le m (l + 2);
          imm8 = halfLo AND 0xFF; imm3 = drop_bit 12 halfLo AND 0x7;
          imm4 = halfHi AND 0xF; bitI = drop_bit 10 halfHi AND 0x1
      in scast (push_bit 12 imm4 OR push_bit 11 bitI OR push_bit 8 imm3 OR imm8))"

definition readAddend_ARM_MOV :: "mem \<Rightarrow> nat \<Rightarrow> i64" where
  "readAddend_ARM_MOV m l =
     (let val = read32le m l; imm12 = val AND 0xFFF; imm4 = drop_bit 16 val AND 0xF
      in scast (push_bit 12 imm4 OR imm12))"

definition readAddend_THM_CALL :: "mem \<Rightarrow> nat \<Rightarrow> i64" where
  "readAddend_THM_CALL m l =
     (let halfHi = read16le m l; halfLo = read16le m (l + 2);
          imm10 = halfHi AND 0x3FF; bitS = drop_bit 10 halfHi AND 0x1;
          imm11 = halfLo AND 0x7FF;
          bitJ2 = drop_bit 11 halfLo AND 0x1; bitI2 = NOT (bitJ2 XOR bitS) AND 0x1;
          bitJ1 = drop_bit 13 halfLo AND 0x1; bitI1 = NOT (bitJ1 XOR bitS) AND 0x1;
          result = push_bit 24 (ucast bitS) OR push_bit 23 (ucast bitI1) OR push_bit 22 (ucast bitI2) OR
                   push_bit 12 (ucast imm10) OR push_bit 1 (ucast imm11) :: i32
      in signExtend 25 (scast result))"

definition readAddend_ARM_CALL :: "mem \<Rightarrow> nat \<Rightarrow> i64" where
  "readAddend_ARM_CALL m l =
     (let val = read32le m l; isBLX = (val AND 0xF0000000 = 0xF0000000);
          bitH = (if isBLX then drop_bit 24 (val AND 0x1000000) else 0);
          result = push_bit 2 (val AND 0xFFFFFF) OR push_bit 1 bitH
      in signExtend 26 (scast result))"

definition readAddend_THM_JUMP11 :: "mem \<Rightarrow> nat \<Rightarrow> i64" where
  "readAddend_THM_JUMP11 m l =
     (let val = read16le m l; imm11 = val AND 0x7FF in signExtend 12 (push_bit 1 (ucast imm11)))"

datatype arm_reloc =
    R_ARM_NONE | R_ARM_ABS32 | R_ARM_REL32 | R_ARM_TARGET1 | R_ARM_THM_CALL | R_ARM_CALL | R_ARM_JUMP24
  | R_ARM_THM_JUMP24 | R_ARM_THM_JUMP11 | R_ARM_MOVW_ABS_NC | R_ARM_MOVT_ABS | R_ARM_THM_MOVW_ABS_NC
  | R_ARM_THM_MOVT_ABS | R_ARM_PREL31 | R_ARM_TLS_IE32 | R_ARM_TLS_LE32 | R_ARM_TLS_TPOFF32
  | R_ARM_GOT_BREL | R_ARM_BASE_PREL | R_ARM_ALU_PC_G0_NC | R_ARM_ALU_PC_G1_NC | R_ARM_LDR_PC_G2
  | R_ARM_JUMP_SLOT | R_ARM_GLOB_DAT | R_ARM_IRELATIVE | R_ARM_V4BX | R_ARM_other

fun readAddend :: "arm_reloc \<Rightarrow> mem \<Rightarrow> nat \<Rightarrow> i64" where
  "readAddend R_ARM_ABS32 m l = scast (read32le m l)"
| "readAddend R_ARM_REL32 m l = scast (read32le m l)"
| "readAddend R_ARM_TARGET1 m l = scast (read32le m l)"
| "readAddend R_ARM_GOT_BREL m l = scast (read32le m l)"
| "readAddend R_ARM_BASE_PREL m l = scast (read32le m l)"
| "readAddend R_ARM_TLS_IE32 m l = scast (read32le m l)"
| "readAddend R_ARM_TLS_LE32 m l = scast (read32le m l)"
| "readAddend R_ARM_TLS_TPOFF32 m l = scast (read32le m l)"
| "readAddend R_ARM_PREL31 m l = signExtend 31 (ucast (read32le m l AND 0x7FFFFFFF))"
| "readAddend R_ARM_THM_CALL m l = readAddend_THM_CALL m l"
| "readAddend R_ARM_THM_JUMP24 m l = readAddend_THM_CALL m l"
| "readAddend R_ARM_THM_JUMP11 m l = readAddend_THM_JUMP11 m l"
| "readAddend R_ARM_CALL m l = readAddend_ARM_CALL m l"
| "readAddend R_ARM_JUMP24 m l = readAddend_ARM_CALL m l"
| "readAddend R_ARM_MOVW_ABS_NC m l = readAddend_ARM_MOV m l"
| "readAddend R_ARM_MOVT_ABS m l = readAddend_ARM_MOV m l"
| "readAddend R_ARM_THM_MOVW_ABS_NC m l = readAddend_THM_MOV m l"
| "readAddend R_ARM_THM_MOVT_ABS m l = readAddend_THM_MOV m l"
| "readAddend _ m l = 0"

section \<open>Replacing a field\<close>

definition applyArmReloc :: "nat \<Rightarrow> u32 \<Rightarrow> u32 \<Rightarrow> patch" where
  "applyArmReloc l result msk m =
     (if result AND NOT msk \<noteq> 0 then Inl (reloc_assertion ''applyArmReloc'')
      else Inr (write32le m l ((read32le m l AND NOT msk) OR (result AND msk))))"

definition applyThumb32Reloc :: "nat \<Rightarrow> u16 \<Rightarrow> u16 \<Rightarrow> u16 \<Rightarrow> u16 \<Rightarrow> patch" where
  "applyThumb32Reloc l resHi resLo maskHi maskLo m =
     (if resHi AND NOT maskHi \<noteq> 0 \<or> resLo AND NOT maskLo \<noteq> 0
      then Inl (reloc_assertion ''applyThumb32Reloc'')
      else let m1 = write16le m l ((read16le m l AND NOT maskHi) OR (resHi AND maskHi))
           in Inr (write16le m1 (l + 2) ((read16le m1 (l + 2) AND NOT maskLo) OR (resLo AND maskLo))))"

definition applyThumb16Reloc :: "nat \<Rightarrow> u16 \<Rightarrow> u16 \<Rightarrow> patch" where
  "applyThumb16Reloc l result msk m =
     (if result AND NOT msk \<noteq> 0 then Inl (reloc_assertion ''applyThumb16Reloc'')
      else Inr (write16le m l ((read16le m l AND NOT msk) OR (result AND msk))))"

section \<open>The single relocations\<close>

text \<open>\<open>T\<close>: whether the target is Thumb code.\<close>

definition relocR_ARM_ABS32 :: "nat \<Rightarrow> u64 \<Rightarrow> u64 \<Rightarrow> i64 \<Rightarrow> bool \<Rightarrow> patch" where
  "relocR_ARM_ABS32 l P S A T = applyArmReloc l (ucast ((S + A) OR of_bool T)) 0xFFFFFFFF"

definition relocR_ARM_REL32 :: "nat \<Rightarrow> u64 \<Rightarrow> u64 \<Rightarrow> i64 \<Rightarrow> bool \<Rightarrow> patch" where
  "relocR_ARM_REL32 l P S A T = applyArmReloc l (ucast (((S + A) OR of_bool T) - P)) 0xFFFFFFFF"

definition relocR_ARM_PREL31 :: "nat \<Rightarrow> u64 \<Rightarrow> u64 \<Rightarrow> i64 \<Rightarrow> bool \<Rightarrow> patch" where
  "relocR_ARM_PREL31 l P S A T m =
     (let result = ucast (((S + A) OR of_bool T) - P) :: u32 in
      if \<not> isInt 31 (scast result) then Inl out_of_range_reloc
      else applyArmReloc l (result AND 0x7FFFFFFF) 0x7FFFFFFF m)"

definition relocR_ARM_THM_B_L :: "nat \<Rightarrow> u32 \<Rightarrow> bool \<Rightarrow> patch" where
  "relocR_ARM_THM_B_L l result0 useJs m =
     (if useJs \<and> \<not> isInt 25 (scast result0) \<or> \<not> useJs \<and> \<not> isInt 23 (scast result0)
      then Inl out_of_range_reloc
      else let result = drop_bit 1 (result0 AND 0x01FFFFFE);
               imm10 = ucast (drop_bit 11 result) AND 0x3FF;
               bitS = ucast (drop_bit 23 result) AND 0x1;
               resHi = push_bit 10 bitS OR imm10;
               imm11 = ucast result AND 0x7FF;
               bitJ2 = (if useJs then ucast (drop_bit 21 result) AND 0x1 else bitS);
               bitI2 = NOT (bitJ2 XOR bitS) AND 0x1;
               bitJ1 = (if useJs then ucast (drop_bit 22 result) AND 0x1 else bitS);
               bitI1 = NOT (bitJ1 XOR bitS) AND 0x1;
               resLo = push_bit 13 bitI1 OR push_bit 11 bitI2 OR imm11
           in applyThumb32Reloc l resHi resLo 0x7FF 0x2FFF m)"

definition relocR_ARM_THM_CALL :: "nat \<Rightarrow> u64 \<Rightarrow> u64 \<Rightarrow> i64 \<Rightarrow> bool \<Rightarrow> bool \<Rightarrow> patch" where
  "relocR_ARM_THM_CALL l P0 S A useJs T m =
     (let switchMode = \<not> T;
          P = (if switchMode then P0 AND NOT 0x3 else P0);
          result = ucast (((S + A) OR of_bool T) - P)
      in bind_res (relocR_ARM_THM_B_L l result useJs m) (\<lambda>m1.
         if switchMode then applyThumb32Reloc l 0 0 0 0x1001 m1 else Inr m1))"

definition relocR_ARM_THM_JUMP24 :: "nat \<Rightarrow> u64 \<Rightarrow> u64 \<Rightarrow> i64 \<Rightarrow> bool \<Rightarrow> patch" where
  "relocR_ARM_THM_JUMP24 l P S A T = relocR_ARM_THM_B_L l (ucast (((S + A) OR of_bool T) - P)) True"

definition relocR_ARM_THM_JUMP11 :: "nat \<Rightarrow> u64 \<Rightarrow> u64 \<Rightarrow> i64 \<Rightarrow> patch" where
  "relocR_ARM_THM_JUMP11 l P S A m =
     (let result = ucast (S + A - P) :: u32 in
      if \<not> isInt 12 (scast result) then Inl out_of_range_reloc
      else applyThumb16Reloc l (ucast (drop_bit 1 (result AND 0x0FFE))) 0x7FF m)"

definition relocR_ARM_BASE_PREL :: "nat \<Rightarrow> u64 \<Rightarrow> u64 \<Rightarrow> i64 \<Rightarrow> patch" where
  "relocR_ARM_BASE_PREL l P S A = applyArmReloc l (ucast (S + A - P)) 0xFFFFFFFF"

definition relocR_ARM_GOT_BREL :: "nat \<Rightarrow> u64 \<Rightarrow> u64 \<Rightarrow> i64 \<Rightarrow> u64 \<Rightarrow> patch" where
  "relocR_ARM_GOT_BREL l P S A GOT_ORG = applyArmReloc l (ucast (S + A - GOT_ORG)) 0xFFFFFFFF"

definition relocR_ARM_CALL :: "nat \<Rightarrow> u64 \<Rightarrow> u64 \<Rightarrow> i64 \<Rightarrow> bool \<Rightarrow> patch" where
  "relocR_ARM_CALL l P S A T m =
     (let switchMode = T; result = ucast (((S + A) OR of_bool T) - P) :: u32 in
      if \<not> isInt 26 (scast result) then Inl out_of_range_reloc
      else let imm24 = drop_bit 2 (result AND 0x03FFFFFC)
           in bind_res (applyArmReloc l imm24 0xFFFFFF m) (\<lambda>m1.
              if switchMode
              then let bitH = drop_bit 1 (result AND 0x2)
                   in applyArmReloc l (push_bit 24 (0xFA OR bitH)) 0xFF000000 m1
              else Inr m1))"

definition relocR_ARM_JUMP24 :: "nat \<Rightarrow> u64 \<Rightarrow> u64 \<Rightarrow> i64 \<Rightarrow> bool \<Rightarrow> patch" where
  "relocR_ARM_JUMP24 l P S A T m =
     (let result = ucast (((S + A) OR of_bool T) - P) :: u32 in
      if \<not> isInt 26 (scast result) then Inl out_of_range_reloc
      else applyArmReloc l (drop_bit 2 (result AND 0x03FFFFFC)) 0xFFFFFF m)"

definition relocR_ARM_MOV :: "nat \<Rightarrow> u32 \<Rightarrow> patch" where
  "relocR_ARM_MOV l result =
     (let imm12 = result AND 0xFFF; imm4 = drop_bit 12 result AND 0xF
      in applyArmReloc l (push_bit 16 imm4 OR imm12) 0xF0FFF)"

definition relocR_ARM_MOVW_ABS_NC :: "nat \<Rightarrow> u64 \<Rightarrow> u64 \<Rightarrow> i64 \<Rightarrow> bool \<Rightarrow> patch" where
  "relocR_ARM_MOVW_ABS_NC l P S A T =
     (let result = ucast ((S + A) OR of_bool T) in relocR_ARM_MOV l (result AND 0x0000FFFF))"

definition relocR_ARM_MOVT_ABS :: "nat \<Rightarrow> u64 \<Rightarrow> u64 \<Rightarrow> i64 \<Rightarrow> patch" where
  "relocR_ARM_MOVT_ABS l P S A =
     (let result = ucast (S + A) in relocR_ARM_MOV l (drop_bit 16 (result AND 0xFFFF0000)))"

definition relocR_ARM_THM_MOV :: "nat \<Rightarrow> u32 \<Rightarrow> patch" where
  "relocR_ARM_THM_MOV l result =
     (let imm8 = ucast result AND 0xFF; imm3 = ucast (drop_bit 8 result) AND 0x7;
          resLo = push_bit 12 imm3 OR imm8;
          imm4 = ucast (drop_bit 12 result) AND 0xF; bitI = ucast (drop_bit 11 result) AND 0x1;
          resHi = push_bit 10 bitI OR imm4
      in applyThumb32Reloc l resHi resLo 0x40F 0x70FF)"

definition relocR_ARM_THM_MOVW_ABS_NC :: "nat \<Rightarrow> u64 \<Rightarrow> u64 \<Rightarrow> i64 \<Rightarrow> bool \<Rightarrow> patch" where
  "relocR_ARM_THM_MOVW_ABS_NC l P S A T =
     (let result = ucast ((S + A) OR of_bool T) in relocR_ARM_THM_MOV l (result AND 0x0000FFFF))"

definition relocR_ARM_THM_MOVT_ABS :: "nat \<Rightarrow> u64 \<Rightarrow> u64 \<Rightarrow> i64 \<Rightarrow> patch" where
  "relocR_ARM_THM_MOVT_ABS l P S A =
     (let result = ucast (S + A) in relocR_ARM_THM_MOV l (drop_bit 16 (result AND 0xFFFF0000)))"

definition relocR_ARM_TLS_IE32 :: "nat \<Rightarrow> u64 \<Rightarrow> u64 \<Rightarrow> i64 \<Rightarrow> patch" where
  "relocR_ARM_TLS_IE32 l P S A = applyArmReloc l (ucast (S + A - P)) 0xFFFFFFFF"

definition relocR_ARM_TLS_LE32 :: "nat \<Rightarrow> u64 \<Rightarrow> u64 \<Rightarrow> i64 \<Rightarrow> u64 \<Rightarrow> patch" where
  "relocR_ARM_TLS_LE32 l P S A tpoff = applyArmReloc l (ucast (S + A + tpoff)) 0xFFFFFFFF"

definition relocR_ARM_TLS_TPOFF32 :: "nat \<Rightarrow> u64 \<Rightarrow> u64 \<Rightarrow> i64 \<Rightarrow> patch" where
  "relocR_ARM_TLS_TPOFF32 l P S A = applyArmReloc l (ucast (S + A)) 0xFFFFFFFF"

definition relocR_ARM_ALU_PC_GN_NC :: "nat \<Rightarrow> nat \<Rightarrow> u32 \<Rightarrow> patch" where
  "relocR_ARM_ALU_PC_GN_NC lshift l result =
     (let rshift = 32 - lshift
      in applyArmReloc l ((drop_bit lshift result AND 0xFF) OR push_bit 8 (of_nat (rshift div 2))) 0xFFF)"

definition unsupported_range_group :: reloc_error where
  "unsupported_range_group = reloc_message ''Negative offsets for group relocations are not implemented''"

definition relocR_ARM_ALU_PC_G0_NC :: "nat \<Rightarrow> u64 \<Rightarrow> u64 \<Rightarrow> i64 \<Rightarrow> patch" where
  "relocR_ARM_ALU_PC_G0_NC l P S A m =
     (let result = ucast (S + A - P) :: i32 in
      if sint result < 0 then Inl unsupported_range_group else relocR_ARM_ALU_PC_GN_NC 20 l result m)"

definition relocR_ARM_ALU_PC_G1_NC :: "nat \<Rightarrow> u64 \<Rightarrow> u64 \<Rightarrow> i64 \<Rightarrow> patch" where
  "relocR_ARM_ALU_PC_G1_NC l P S A m =
     (let result = ucast (S + A - P) :: i32 in
      if sint result < 0 then Inl unsupported_range_group else relocR_ARM_ALU_PC_GN_NC 12 l result m)"

definition relocR_ARM_LDR_PC_G2 :: "nat \<Rightarrow> u64 \<Rightarrow> u64 \<Rightarrow> i64 \<Rightarrow> patch" where
  "relocR_ARM_LDR_PC_G2 l P S A m =
     (let result = ucast (S + A - P) :: i32 in
      if sint result < 0 then Inl unsupported_range_group else applyArmReloc l (result AND 0xFFF) 0xFFF m)"

section \<open>The dispatch\<close>

text \<open>\<open>None\<close>: the call of an unresolved weak symbol cannot be turned into a NOP.\<close>

fun fixupUnresolvedWeakCall :: "arm_reloc \<Rightarrow> nat \<Rightarrow> patch option" where
  "fixupUnresolvedWeakCall R_ARM_THM_CALL l = Some (\<lambda>m. Inr (write32le m l 0x8000F3AF))"
| "fixupUnresolvedWeakCall R_ARM_THM_JUMP24 l = Some (\<lambda>m. Inr (write32le m l 0x8000F3AF))"
| "fixupUnresolvedWeakCall R_ARM_THM_JUMP11 l = Some (\<lambda>m. Inr (write16le m l 0xBF00))"
| "fixupUnresolvedWeakCall R_ARM_CALL l = Some (applyArmReloc l 0x320F000 0xFFFFFFF)"
| "fixupUnresolvedWeakCall R_ARM_JUMP24 l = Some (applyArmReloc l 0x320F000 0xFFFFFFF)"
| "fixupUnresolvedWeakCall _ l = None"

text \<open>\<open>isThumbCode\<close> of ARMLinkingContext.cpp.\<close>

fun isThumbCode :: "code_model \<Rightarrow> bool" where
  "isThumbCode codeARMThumb = True"
| "isThumbCode codeARM_t = True"
| "isThumbCode _ = False"

text \<open>What the handler asks the layout: the objects, \<open>--target1-rel\<close> and the address of
  \<open>_GLOBAL_OFFSET_TABLE_\<close>.\<close>

record arm_env = "arm_reloc reloc_env" +
  arm_objects :: store
  target1Rel :: bool
  getGOTSymAddr :: u64

definition ARM_TCB_SIZE :: u64 where
  "ARM_TCB_SIZE = 0x8"

definition arm_dispatch :: "arm_env \<Rightarrow> reference \<Rightarrow> nat \<Rightarrow> u64 \<Rightarrow> u64 \<Rightarrow> bool \<Rightarrow> i64 \<Rightarrow> patch" where
  "arm_dispatch env ref loc reloc tgt thumb A =
     (case kindOf env (kindValue ref) of
        R_ARM_NONE \<Rightarrow> Inr
      | R_ARM_ABS32 \<Rightarrow> relocR_ARM_ABS32 loc reloc tgt A thumb
      | R_ARM_REL32 \<Rightarrow> relocR_ARM_REL32 loc reloc tgt A thumb
      | R_ARM_TARGET1 \<Rightarrow>
          (if target1Rel env then relocR_ARM_REL32 loc reloc tgt A thumb
           else relocR_ARM_ABS32 loc reloc tgt A thumb)
      | R_ARM_THM_CALL \<Rightarrow> relocR_ARM_THM_CALL loc reloc tgt A True thumb
      | R_ARM_CALL \<Rightarrow> relocR_ARM_CALL loc reloc tgt A thumb
      | R_ARM_JUMP24 \<Rightarrow> relocR_ARM_JUMP24 loc reloc tgt A thumb
      | R_ARM_THM_JUMP24 \<Rightarrow> relocR_ARM_THM_JUMP24 loc reloc tgt A thumb
      | R_ARM_THM_JUMP11 \<Rightarrow> relocR_ARM_THM_JUMP11 loc reloc tgt A
      | R_ARM_MOVW_ABS_NC \<Rightarrow> relocR_ARM_MOVW_ABS_NC loc reloc tgt A thumb
      | R_ARM_MOVT_ABS \<Rightarrow> relocR_ARM_MOVT_ABS loc reloc tgt A
      | R_ARM_THM_MOVW_ABS_NC \<Rightarrow> relocR_ARM_THM_MOVW_ABS_NC loc reloc tgt A thumb
      | R_ARM_THM_MOVT_ABS \<Rightarrow> relocR_ARM_THM_MOVT_ABS loc reloc tgt A
      | R_ARM_PREL31 \<Rightarrow> relocR_ARM_PREL31 loc reloc tgt A thumb
      | R_ARM_TLS_IE32 \<Rightarrow> relocR_ARM_TLS_IE32 loc reloc tgt A
      | R_ARM_TLS_LE32 \<Rightarrow>
          (case getTPOffset ARM_TCB_SIZE (programHeader env) of
             None \<Rightarrow> (\<lambda>m. Inl (reloc_assertion ''TLS segment not found''))
           | Some tpoff \<Rightarrow> relocR_ARM_TLS_LE32 loc reloc tgt A tpoff)
      | R_ARM_TLS_TPOFF32 \<Rightarrow> relocR_ARM_TLS_TPOFF32 loc reloc tgt A
      | R_ARM_GOT_BREL \<Rightarrow> relocR_ARM_GOT_BREL loc reloc tgt A (getGOTSymAddr env)
      | R_ARM_BASE_PREL \<Rightarrow>
          (if tgt = 0 \<or> name_of (arm_objects env) (target ref) = ''_GLOBAL_OFFSET_TABLE_''
           then relocR_ARM_BASE_PREL loc reloc (getGOTSymAddr env) A
           else (\<lambda>m. Inl (reloc_message ''Segment-base relative addressing is not supported'')))
      | R_ARM_ALU_PC_G0_NC \<Rightarrow> relocR_ARM_ALU_PC_G0_NC loc reloc tgt A
      | R_ARM_ALU_PC_G1_NC \<Rightarrow> relocR_ARM_ALU_PC_G1_NC loc reloc tgt A
      | R_ARM_LDR_PC_G2 \<Rightarrow> relocR_ARM_LDR_PC_G2 loc reloc tgt A
      | R_ARM_JUMP_SLOT \<Rightarrow> Inr
      | R_ARM_GLOB_DAT \<Rightarrow> Inr
      | R_ARM_IRELATIVE \<Rightarrow> Inr
      | R_ARM_V4BX \<Rightarrow> Inr
      | R_ARM_other \<Rightarrow> (\<lambda>m. Inl unhandled_reloc))"

definition arm_applyRelocation :: "arm_env \<Rightarrow> atom_layout \<Rightarrow> reference \<Rightarrow> patch" where
  "arm_applyRelocation env ai ref m =
     (let loc = reloc_loc ai ref; tgt = addressOfAtom env (target ref); reloc = reloc_addr ai ref;
          k = kindOf env (kindValue ref); at = atom_at (arm_objects env) (target ref);
          thumb = (is_DefinedAtom at \<and> isThumbCode (codeModel (the_defined at)));
          fixup = (if tgt = 0 then fixupUnresolvedWeakCall k loc else None) in
      if kindNamespace ref \<noteq> ns_ELF then Inr m
      else if kindArch ref \<noteq> arch_ARM then Inl (reloc_assertion ''kindArch'')
      else case fixup of
             Some f \<Rightarrow> f m
           | None \<Rightarrow> arm_dispatch env ref loc reloc tgt thumb (readAddend k m loc + addend ref) m)"

section \<open>The bytes a relocation touches\<close>

fun arm_width :: "arm_reloc \<Rightarrow> nat" where
  "arm_width R_ARM_THM_JUMP11 = 2"
| "arm_width k =
     (if k \<in> {R_ARM_NONE, R_ARM_JUMP_SLOT, R_ARM_GLOB_DAT, R_ARM_IRELATIVE, R_ARM_V4BX, R_ARM_other} then 0 else 4)"

definition arm_touched :: "arm_env \<Rightarrow> atom_layout \<Rightarrow> reference \<Rightarrow> nat set" where
  "arm_touched env ai ref = {reloc_loc ai ref..<reloc_loc ai ref + arm_width (kindOf env (kindValue ref))}"

lemma applyArmReloc_keeps [keeps_to_intros]: "{l..<l + 4} \<subseteq> X \<Longrightarrow> keeps_to X (applyArmReloc l r mk)"
  unfolding applyArmReloc_def [abs_def]
  by (intro keeps_to_if keeps_to_error keeps_to_mono [OF keeps_to_patch32 [OF refl]])

lemma applyThumb16Reloc_keeps [keeps_to_intros]: "{l..<l + 2} \<subseteq> X \<Longrightarrow> keeps_to X (applyThumb16Reloc l r mk)"
  unfolding applyThumb16Reloc_def [abs_def]
  by (intro keeps_to_if keeps_to_error keeps_to_mono [OF keeps_to_patch16 [OF refl]])

lemma applyThumb32Reloc_keeps [keeps_to_intros]:
  assumes "{l..<l + 4} \<subseteq> X"
  shows "keeps_to X (applyThumb32Reloc l rh rl mh ml)"
proof -
  have "keeps_to X (\<lambda>m. bind_res (Inr (write16le m l ((read16le m l AND NOT mh) OR (rh AND mh))))
      (\<lambda>m. Inr (write16le m (l + 2) ((read16le m (l + 2) AND NOT ml) OR (rl AND ml)))))"
    by (rule keeps_to_bind; rule keeps_to_mono [OF keeps_to_patch16 [OF refl]]) (use assms in auto)
  then show ?thesis
    unfolding applyThumb32Reloc_def [abs_def] Let_def by (auto intro!: keeps_to_intros)
qed

lemma Inr_keeps [keeps_to_intros]: "keeps_to X Inr"
  using keeps_to_skip by (simp add: keeps_to_def)

lemmas arm_data_defs = relocR_ARM_ABS32_def relocR_ARM_REL32_def relocR_ARM_THM_JUMP24_def
  relocR_ARM_BASE_PREL_def relocR_ARM_GOT_BREL_def relocR_ARM_MOVW_ABS_NC_def relocR_ARM_MOVT_ABS_def
  relocR_ARM_THM_MOVW_ABS_NC_def relocR_ARM_THM_MOVT_ABS_def relocR_ARM_TLS_IE32_def relocR_ARM_TLS_LE32_def
  relocR_ARM_TLS_TPOFF32_def relocR_ARM_MOV_def relocR_ARM_THM_MOV_def relocR_ARM_ALU_PC_GN_NC_def

lemmas arm_checked_defs = relocR_ARM_PREL31_def [abs_def] relocR_ARM_THM_B_L_def [abs_def]
  relocR_ARM_THM_CALL_def [abs_def] relocR_ARM_THM_JUMP11_def [abs_def] relocR_ARM_CALL_def [abs_def]
  relocR_ARM_JUMP24_def [abs_def] relocR_ARM_ALU_PC_G0_NC_def [abs_def] relocR_ARM_ALU_PC_G1_NC_def [abs_def]
  relocR_ARM_LDR_PC_G2_def [abs_def]

lemma arm_dispatch_keeps:
  "keeps_to {l..<l + arm_width (kindOf env (kindValue ref))} (arm_dispatch env ref l P S T A)"
  unfolding arm_dispatch_def arm_data_defs arm_checked_defs Let_def
  by (cases "kindOf env (kindValue ref)") (auto intro!: keeps_to_intros split: option.split)

lemma arm_fixup_keeps:
  "fixupUnresolvedWeakCall k l = Some f \<Longrightarrow> keeps_to {l..<l + arm_width k} f"
  by (cases k) (auto intro!: keeps_to_intros)

lemma readAddend_local:
  "\<forall>a \<in> {l..<l + arm_width k}. m1 a = m2 a \<Longrightarrow> readAddend k m1 l = readAddend k m2 l"
  by (cases k) (auto simp: read32le_def read16le_def readAddend_THM_MOV_def readAddend_ARM_MOV_def
      readAddend_THM_CALL_def readAddend_ARM_CALL_def readAddend_THM_JUMP11_def)

lemma arm_keeps: "keeps_to (arm_touched env ai ref) (arm_applyRelocation env ai ref)"
proof -
  let ?k = "kindOf env (kindValue ref)" and ?l = "reloc_loc ai ref"
  have "keeps_to {?l..<?l + arm_width ?k}
      (\<lambda>m. arm_dispatch env ref ?l P S T (readAddend ?k m ?l + A) m)" for P S T A
    by (rule keeps_to_read [where f = "\<lambda>v. arm_dispatch env ref ?l P S T (v + A)"])
      (auto intro: readAddend_local arm_dispatch_keeps)
  then show ?thesis
    unfolding arm_applyRelocation_def [abs_def] Let_def arm_touched_def
    by (intro keeps_to_if keeps_to_error keeps_to_skip keeps_to_option)
      (auto intro: arm_fixup_keeps split: if_splits)
qed

interpretation arm: reloc_handler "arm_applyRelocation env" "arm_touched env" for env
  by unfold_locales (rule arm_keeps)

section \<open>What the patched instructions hold\<close>

lemma arm_masks:
  "(0xF :: 'a::len word) = mask 4" "(0xFF :: 'a word) = mask 8"
  "(0x3FF :: 'a word) = mask 10" "(0x7FF :: 'a word) = mask 11" "(0xFFFFFF :: 'a word) = mask 24"
  "(0x0000FFFF :: 'a word) = mask 16" "(0xFFFF0000 :: 'a word) = push_bit 16 (mask 16)"
  "(0xF0FFF :: 'a word) = push_bit 16 (mask 4) OR mask 12"
  "(0x01FFFFFE :: 'a word) = push_bit 1 (mask 24)" "(0x03FFFFFC :: 'a word) = push_bit 2 (mask 24)"
  "(0x40F :: 'a word) = push_bit 10 (mask 1) OR mask 4"
  "(0x70FF :: 'a word) = push_bit 12 (mask 3) OR mask 8"
  "(0x2FFF :: 'a word) = push_bit 13 (mask 1) OR mask 12"
  "(0xF0000000 :: 'a word) = push_bit 28 (mask 4)" "(0x1000000 :: 'a word) = push_bit 24 (mask 1)"
  "(0xFF000000 :: 'a word) = push_bit 24 (mask 8)"
  "(0x0FFE :: 'a word) = push_bit 1 (mask 11)"
  by (simp_all add: mask_eq_exp_minus_1 push_bit_eq_mult)

lemma bit_flag:
  "bit (push_bit k (y AND 1) :: 'a::len word) n \<longleftrightarrow> n = k \<and> k < LENGTH('a) \<and> bit y 0"
  by (auto simp: bit_simps)

lemma ucast_ucast_down: "ucast (ucast (r :: u32) :: u64) = (ucast r :: 'a::len word)"
  by (rule bit_word_eqI) (auto simp: bit_simps dest: bit_imp_le_length)

lemma applyArmReloc_ok:
  "r AND NOT mk = 0 \<Longrightarrow> applyArmReloc l r mk m = Inr (write32le m l ((read32le m l AND NOT mk) OR r))"
proof -
  assume "r AND NOT mk = 0"
  then have "r AND mk = r"
    by (intro bit_word_eqI) (use no_bit [of r "NOT mk"] in \<open>auto simp: bit_simps\<close>)
  with \<open>r AND NOT mk = 0\<close> show ?thesis by (simp add: applyArmReloc_def)
qed

lemma arm_mov_roundtrip:
  "\<exists>m'. relocR_ARM_MOV l r m = Inr m' \<and> readAddend_ARM_MOV m' l = take_bit 16 (ucast r) \<and>
     (\<forall>a. a \<notin> {l..<l + 4} \<longrightarrow> m' a = m a)"
proof -
  let ?f = "push_bit 16 (drop_bit 12 r AND 0xF) OR (r AND 0xFFF)"
  have f: "?f AND NOT 0xF0FFF = 0"
    by (rule bit_word_eqI) (auto simp: arm_masks mask_bits bit_simps)
  have "readAddend_ARM_MOV (write32le m l ((read32le m l AND NOT 0xF0FFF) OR ?f)) l = take_bit 16 (ucast r)"
    by (rule bit_word_eqI) (auto simp: readAddend_ARM_MOV_def Let_def arm_masks mask_bits bit_simps min_def)
  with applyArmReloc_ok [OF f] show ?thesis
    unfolding relocR_ARM_MOV_def Let_def by (auto intro!: exI write32le_other)
qed

lemma applyThumb32Reloc_reads:
  assumes "rh AND NOT mh = 0" and "rl AND NOT ml = 0"
  shows "\<exists>m'. applyThumb32Reloc l rh rl mh ml m = Inr m' \<and>
    read16le m' l = (read16le m l AND NOT mh) OR rh \<and>
    read16le m' (l + 2) = (read16le m (l + 2) AND NOT ml) OR rl \<and>
    (\<forall>a. a \<notin> {l..<l + 4} \<longrightarrow> m' a = m a)"
proof -
  have m: "rh AND mh = rh" "rl AND ml = rl"
    by (rule bit_word_eqI, use assms no_bit [of rh "NOT mh"] no_bit [of rl "NOT ml"] in \<open>auto simp: bit_simps\<close>)+
  define m1 where "m1 = write16le m l ((read16le m l AND NOT mh) OR rh)"
  define m2 where "m2 = write16le m1 (l + 2) ((read16le m1 (l + 2) AND NOT ml) OR rl)"
  have "applyThumb32Reloc l rh rl mh ml m = Inr m2"
    using assms by (simp add: applyThumb32Reloc_def Let_def m m1_def m2_def)
  moreover have "read16le m1 (l + 2) = read16le m (l + 2)"
    by (simp add: m1_def read16le_write16le_other)
  moreover have "read16le m2 l = read16le m1 l"
    by (simp add: m2_def read16le_write16le_other)
  moreover have "m2 a = m a" if "a \<notin> {l..<l + 4}" for a
  proof -
    have "a \<notin> {l..<l + 2}" "a \<notin> {l + 2..<l + 2 + 2}" using that by auto
    then show ?thesis by (simp only: m1_def m2_def write16le_other not_False_eq_True)
  qed
  ultimately show ?thesis by (intro exI [of _ m2]) (simp add: m1_def m2_def)
qed

lemma thumb_mov_roundtrip:
  "\<exists>m'. relocR_ARM_THM_MOV l r m = Inr m' \<and> readAddend_THM_MOV m' l = signExtend 16 (ucast r) \<and>
     (\<forall>a. a \<notin> {l..<l + 4} \<longrightarrow> m' a = m a)"
proof -
  let ?lo = "push_bit 12 (ucast (drop_bit 8 r) AND 0x7) OR (ucast r AND 0xFF) :: u16"
  let ?hi = "push_bit 10 (ucast (drop_bit 11 r) AND 0x1) OR (ucast (drop_bit 12 r) AND 0xF) :: u16"
  have "?hi AND NOT 0x40F = 0" "?lo AND NOT 0x70FF = 0"
    by (rule bit_word_eqI, auto simp: arm_masks mask_bits bit_simps)+
  from applyThumb32Reloc_reads [OF this, of l m] obtain m' where m':
    "relocR_ARM_THM_MOV l r m = Inr m'"
    "read16le m' l = (read16le m l AND NOT 0x40F) OR ?hi"
    "read16le m' (l + 2) = (read16le m (l + 2) AND NOT 0x70FF) OR ?lo"
    "\<forall>a. a \<notin> {l..<l + 4} \<longrightarrow> m' a = m a"
    by (auto simp: relocR_ARM_THM_MOV_def Let_def)
  have lo: "read16le m' (l + 2) AND 0xFF = ucast r AND 0xFF"
    "drop_bit 12 (read16le m' (l + 2)) AND 0x7 = ucast (drop_bit 8 r) AND 0x7"
    unfolding m'(3) by (rule bit_word_eqI, auto simp: arm_masks mask_bits bit_simps)+
  have hi: "read16le m' l AND 0xF = ucast (drop_bit 12 r) AND 0xF"
    "drop_bit 10 (read16le m' l) AND 0x1 = ucast (drop_bit 11 r) AND 0x1"
    unfolding m'(2) by (rule bit_word_eqI, auto simp: arm_masks mask_bits bit_simps)+
  have "push_bit 12 (ucast (drop_bit 12 r) AND 0xF) OR push_bit 11 (ucast (drop_bit 11 r) AND 0x1) OR
      push_bit 8 (ucast (drop_bit 8 r) AND 0x7) OR (ucast r AND 0xFF) = (ucast r :: u16)"
  proof (rule bit_word_eqI)
    fix n
    assume "n < LENGTH(16)"
    then consider "n < 8" | "8 \<le> n" "n < 11" | "n = 11" | "12 \<le> n" "n < 16" by force
    then show "bit (push_bit 12 (ucast (drop_bit 12 r) AND 0xF) OR push_bit 11 (ucast (drop_bit 11 r) AND 0x1) OR
      push_bit 8 (ucast (drop_bit 8 r) AND 0x7) OR (ucast r AND 0xFF) :: u16) n = bit (ucast r :: u16) n"
      by cases (auto simp: arm_masks mask_bits bit_flag bit_simps simp del: push_bit_and)
  qed
  then have "readAddend_THM_MOV m' l = scast (ucast r :: u16)"
    unfolding readAddend_THM_MOV_def Let_def lo hi by simp
  then have "readAddend_THM_MOV m' l = signExtend 16 (ucast r)"
    using scast_ucast_signExtend [where 'a = 16, of "ucast r"] by (simp add: ucast_ucast_down)
  with m' show ?thesis by auto
qed

lemma thumb_call_roundtrip:
  assumes "isInt 25 (scast r)"
  shows "\<exists>m'. relocR_ARM_THM_B_L l r True m = Inr m' \<and> readAddend_THM_CALL m' l = scast r AND NOT 1 \<and>
     read16le m' l AND NOT 0x7FF = read16le m l AND NOT 0x7FF \<and>
     read16le m' (l + 2) AND NOT 0x2FFF = read16le m (l + 2) AND NOT 0x2FFF \<and>
     (\<forall>a. a \<notin> {l..<l + 4} \<longrightarrow> m' a = m a)"
proof -
  define q where "q = drop_bit 1 (r AND 0x01FFFFFE)"
  define s where "s = (ucast (drop_bit 23 q) AND 0x1 :: u16)"
  define i1 where "i1 = NOT ((ucast (drop_bit 22 q) AND 0x1) XOR s) AND (0x1 :: u16)"
  define i2 where "i2 = NOT ((ucast (drop_bit 21 q) AND 0x1) XOR s) AND (0x1 :: u16)"
  let ?hi = "push_bit 10 s OR (ucast (drop_bit 11 q) AND 0x3FF) :: u16"
  let ?lo = "push_bit 13 i1 OR push_bit 11 i2 OR (ucast q AND 0x7FF) :: u16"
  have "?hi AND NOT 0x7FF = 0" "?lo AND NOT 0x2FFF = 0"
    by (rule bit_word_eqI, auto simp: arm_masks mask_bits s_def i1_def i2_def bit_flag bit_simps simp del: push_bit_and)+
  from applyThumb32Reloc_reads [OF this, of l m] obtain m' where m':
    "applyThumb32Reloc l ?hi ?lo 0x7FF 0x2FFF m = Inr m'"
    "read16le m' l = (read16le m l AND NOT 0x7FF) OR ?hi"
    "read16le m' (l + 2) = (read16le m (l + 2) AND NOT 0x2FFF) OR ?lo"
    "\<forall>a. a \<notin> {l..<l + 4} \<longrightarrow> m' a = m a"
    by auto
  have a: "relocR_ARM_THM_B_L l r True m = Inr m'"
    using m'(1) assms by (simp add: relocR_ARM_THM_B_L_def Let_def q_def s_def i1_def i2_def)
  have hi: "read16le m' l AND 0x3FF = ucast (drop_bit 11 q) AND 0x3FF" "drop_bit 10 (read16le m' l) AND 0x1 = s"
    unfolding m'(2)
    by (rule bit_word_eqI, auto simp: arm_masks mask_bits s_def bit_simps)+
  have lo: "read16le m' (l + 2) AND 0x7FF = ucast q AND 0x7FF"
    "drop_bit 11 (read16le m' (l + 2)) AND 0x1 = i2" "drop_bit 13 (read16le m' (l + 2)) AND 0x1 = i1"
    unfolding m'(3)
    by (rule bit_word_eqI, auto simp: arm_masks mask_bits i1_def i2_def bit_simps)+
  have j: "NOT (i1 XOR s) AND 0x1 = ucast (drop_bit 22 q) AND 0x1" "NOT (i2 XOR s) AND 0x1 = ucast (drop_bit 21 q) AND 0x1"
    by (rule bit_word_eqI, auto simp: i1_def i2_def s_def bit_simps)+
  have rest: "read16le m' (l + 2) AND NOT 0x2FFF = read16le m (l + 2) AND NOT 0x2FFF"
    unfolding m'(3) by (rule bit_word_eqI) (auto simp: arm_masks mask_bits i1_def i2_def bit_flag bit_simps simp del: push_bit_and)
  have opcode: "read16le m' l AND NOT 0x7FF = read16le m l AND NOT 0x7FF"
    unfolding m'(2) by (rule bit_word_eqI) (auto simp: arm_masks mask_bits s_def bit_flag bit_simps simp del: push_bit_and)
  have "readAddend_THM_CALL m' l = scast r AND NOT 1"
  proof -
    have "push_bit 24 (ucast s) OR push_bit 23 (ucast (ucast (drop_bit 22 q) AND 0x1 :: u16)) OR
        push_bit 22 (ucast (ucast (drop_bit 21 q) AND 0x1 :: u16)) OR
        push_bit 12 (ucast (ucast (drop_bit 11 q) AND 0x3FF :: u16)) OR
        push_bit 1 (ucast (ucast q AND 0x7FF :: u16)) = r AND 0x01FFFFFE" (is "?R = _")
    proof (rule bit_word_eqI)
      fix n
      assume "n < LENGTH(32)"
      then consider "n = 0" | "1 \<le> n" "n < 12" | "12 \<le> n" "n < 22" | "n = 22" | "n = 23" | "n = 24" | "25 \<le> n" "n < 32"
        by force
      then show "bit ?R n = bit (r AND 0x01FFFFFE) n"
        by cases (auto simp: arm_masks mask_bits s_def q_def bit_flag bit_simps simp del: push_bit_and push_bit_Suc One_nat_def)
    qed
    then have "readAddend_THM_CALL m' l = signExtend 25 (scast (r AND 0x01FFFFFE))"
      unfolding readAddend_THM_CALL_def Let_def hi lo j by simp
    also have "\<dots> = signExtend 25 (scast r) AND NOT 1"
      by (rule bit_word_eqI) (auto simp: signExtend_def arm_masks bit_simps min_def simp del: push_bit_Suc One_nat_def)
    also have "\<dots> = scast r AND NOT 1" using isInt_signExtend [OF assms] by simp
    finally show ?thesis .
  qed
  with a m'(4) opcode rest show ?thesis by blast
qed

section \<open>Branches\<close>

definition arm_ref :: "arm_env \<Rightarrow> reference \<Rightarrow> arm_reloc \<Rightarrow> bool" where
  "arm_ref env ref k \<longleftrightarrow>
     kindNamespace ref = ns_ELF \<and> kindArch ref = arch_ARM \<and> kindOf env (kindValue ref) = k"

lemma arm_ref_simps [simp]:
  "arm_ref env ref k \<Longrightarrow> kindNamespace ref = ns_ELF"
  "arm_ref env ref k \<Longrightarrow> kindArch ref = arch_ARM"
  "arm_ref env ref k \<Longrightarrow> kindOf env (kindValue ref) = k"
  by (simp_all add: arm_ref_def)

definition thumb_target :: "arm_env \<Rightarrow> reference \<Rightarrow> bool" where
  "thumb_target env ref =
     (let at = atom_at (arm_objects env) (target ref) in is_DefinedAtom at \<and> isThumbCode (codeModel (the_defined at)))"

text \<open>The offset a branch of kind \<open>k\<close> has to cover, from the addend in the instruction and the reference.\<close>

definition branch_offset :: "arm_env \<Rightarrow> atom_layout \<Rightarrow> reference \<Rightarrow> mem \<Rightarrow> u32" where
  "branch_offset env ai ref m =
     ucast (((addressOfAtom env (target ref) + (readAddend (kindOf env (kindValue ref)) m (reloc_loc ai ref) + addend ref))
        OR of_bool (thumb_target env ref)) - reloc_addr ai ref)"

lemma arm_apply_strong:
  "arm_ref env ref k \<Longrightarrow> addressOfAtom env (target ref) \<noteq> 0 \<Longrightarrow>
   arm_applyRelocation env ai ref m =
     arm_dispatch env ref (reloc_loc ai ref) (reloc_addr ai ref) (addressOfAtom env (target ref)) (thumb_target env ref)
       (readAddend k m (reloc_loc ai ref) + addend ref) m"
  by (simp add: arm_applyRelocation_def Let_def thumb_target_def)

text \<open>C19: A Thumb branch to Thumb code is relocated exactly: reading the displacement back from the two
  halfwords, with the J bits, gives the offset without its Thumb bit, when it fits 25 signed bits; other
  offsets are refused. Only the displacement fields change: the top five bits of the first halfword and bits 15,
  14 and 12 of the second, which hold the opcode, are kept, and so are all other bytes. (The target has a
  non-zero address; a branch to ARM code is another property.)\<close>

theorem thumb_branch_lands:
  assumes "arm_ref env ref R_ARM_THM_JUMP24 \<or> arm_ref env ref R_ARM_THM_CALL \<and> thumb_target env ref"
    and "addressOfAtom env (target ref) \<noteq> 0"
  shows "if isInt 25 (scast (branch_offset env ai ref m))
     then \<exists>m'. arm_applyRelocation env ai ref m = Inr m' \<and>
       readAddend_THM_CALL m' (reloc_loc ai ref) = scast (branch_offset env ai ref m) AND NOT 1 \<and>
       read16le m' (reloc_loc ai ref) AND NOT 0x7FF = read16le m (reloc_loc ai ref) AND NOT 0x7FF \<and>
       read16le m' (reloc_loc ai ref + 2) AND NOT 0x2FFF = read16le m (reloc_loc ai ref + 2) AND NOT 0x2FFF \<and>
       (\<forall>a. a \<notin> {reloc_loc ai ref..<reloc_loc ai ref + 4} \<longrightarrow> m' a = m a)
     else arm_applyRelocation env ai ref m = Inl out_of_range_reloc"
proof -
  have "arm_applyRelocation env ai ref m = relocR_ARM_THM_B_L (reloc_loc ai ref) (branch_offset env ai ref m) True m"
    using assms(1)
  proof
    assume k: "arm_ref env ref R_ARM_THM_JUMP24"
    then show ?thesis
      using arm_apply_strong [OF k assms(2), of ai m]
      by (simp add: arm_dispatch_def relocR_ARM_THM_JUMP24_def branch_offset_def)
  next
    assume "arm_ref env ref R_ARM_THM_CALL \<and> thumb_target env ref"
    then have k: "arm_ref env ref R_ARM_THM_CALL" and t: "thumb_target env ref" by simp_all
    then show ?thesis
      using arm_apply_strong [OF k assms(2), of ai m]
      by (cases "relocR_ARM_THM_B_L (reloc_loc ai ref) (branch_offset env ai ref m) True m")
        (simp_all add: arm_dispatch_def relocR_ARM_THM_CALL_def branch_offset_def Let_def)
  qed
  then show ?thesis
    using thumb_call_roundtrip [of "branch_offset env ai ref m" "reloc_loc ai ref" m]
    by (cases "isInt 25 (scast (branch_offset env ai ref m))") (auto simp: relocR_ARM_THM_B_L_def)
qed

lemma arm_call_roundtrip:
  assumes "isInt 26 (scast r)" and "read32le m l AND 0xF0000000 \<noteq> 0xF0000000"
  shows "\<exists>m'. applyArmReloc l (drop_bit 2 (r AND 0x03FFFFFC)) 0xFFFFFF m = Inr m' \<and>
     readAddend_ARM_CALL m' l = scast r AND NOT 3 \<and>
     read32le m' l AND 0xFF000000 = read32le m l AND 0xFF000000 \<and> (\<forall>a. a \<notin> {l..<l + 4} \<longrightarrow> m' a = m a)"
proof -
  let ?f = "drop_bit 2 (r AND 0x03FFFFFC)"
  have f: "?f AND NOT 0xFFFFFF = 0"
    by (rule bit_word_eqI) (auto simp: arm_masks bit_simps)
  define w where "w = (read32le m l AND NOT 0xFFFFFF) OR ?f"
  have "w AND 0xF0000000 = read32le m l AND 0xF0000000"
    by (rule bit_word_eqI) (auto simp: w_def arm_masks bit_simps)
  then have "readAddend_ARM_CALL (write32le m l w) l = signExtend 26 (scast (push_bit 2 (w AND 0xFFFFFF)))"
    using assms(2) by (simp add: readAddend_ARM_CALL_def Let_def)
  also have "push_bit 2 (w AND 0xFFFFFF) = r AND 0x03FFFFFC"
    by (rule bit_word_eqI) (auto simp: w_def arm_masks bit_simps Suc_diff_2)
  also have "signExtend 26 (scast (r AND 0x03FFFFFC)) = signExtend 26 (scast r) AND NOT 3"
    by (rule bit_word_eqI) (auto simp: signExtend_def arm_masks mask_bits bit_simps min_def)
  also have "\<dots> = scast r AND NOT 3" using isInt_signExtend [OF assms(1)] by simp
  finally have "readAddend_ARM_CALL (write32le m l w) l = scast r AND NOT 3" .
  moreover have "w AND 0xFF000000 = read32le m l AND 0xFF000000"
    by (rule bit_word_eqI) (auto simp: w_def arm_masks bit_simps)
  ultimately show ?thesis
    using applyArmReloc_ok [OF f, of l m] unfolding w_def by (auto intro!: exI write32le_other)
qed

lemma blx_masks:
  "(0xFA :: 'a::len word) = push_bit 3 (mask 5) OR 2"   "(0x3FFFFFE :: 'a word) = push_bit 1 (mask 25)"
  by (simp_all add: mask_eq_exp_minus_1 push_bit_eq_mult)

text \<open>The opcode of BLX with an immediate: bits 31 to 25 are 1111 101.\<close>

definition blx_opcode :: "u32 \<Rightarrow> bool" where
  "blx_opcode w \<longleftrightarrow> (\<forall>n \<in> {25..<32}. bit w n \<longleftrightarrow> n \<noteq> 26)"

lemma arm_blx_roundtrip:
  assumes "isInt 26 (scast r)"
  shows "\<exists>m'. bind_res (applyArmReloc l (drop_bit 2 (r AND 0x03FFFFFC)) 0xFFFFFF m)
       (applyArmReloc l (push_bit 24 (0xFA OR drop_bit 1 (r AND 0x2))) 0xFF000000) = Inr m' \<and>
     readAddend_ARM_CALL m' l = scast r AND NOT 1 \<and>
     blx_opcode (read32le m' l) \<and> (\<forall>a. a \<notin> {l..<l + 4} \<longrightarrow> m' a = m a)"
proof -
  let ?f = "drop_bit 2 (r AND 0x03FFFFFC)"
  define b where "b = drop_bit 1 (r AND 0x2)"
  let ?g = "push_bit 24 (0xFA OR b) :: u32"
  have b: "bit b n \<longleftrightarrow> n = 0 \<and> bit r 1" for n
    by (auto simp: b_def bit_simps bit_2_iff simp del: One_nat_def)
  have fg: "?f AND NOT 0xFFFFFF = 0" "?g AND NOT 0xFF000000 = 0"
    by (rule bit_word_eqI, auto simp: arm_masks blx_masks b bit_simps bit_2_iff simp del: push_bit_or)+
  define w where "w = (read32le m l AND NOT 0xFFFFFF) OR ?f"
  define v where "v = (w AND NOT 0xFF000000) OR ?g"
  have "applyArmReloc l ?f 0xFFFFFF m = Inr (write32le m l w)"
    unfolding w_def by (rule applyArmReloc_ok [OF fg(1)])
  moreover have "applyArmReloc l ?g 0xFF000000 (write32le m l w) = Inr (write32le (write32le m l w) l v)"
    using applyArmReloc_ok [OF fg(2), of l "write32le m l w"] unfolding v_def read32le_write32le .
  ultimately have run: "bind_res (applyArmReloc l ?f 0xFFFFFF m) (applyArmReloc l ?g 0xFF000000) =
      Inr (write32le (write32le m l w) l v)"
    by (simp only: bind_res_simps)
  have top: "blx_opcode v"
    by (auto simp: blx_opcode_def v_def arm_masks blx_masks b bit_simps bit_2_iff simp del: push_bit_or One_nat_def)
  have "v AND 0xF0000000 = 0xF0000000"
    by (rule bit_word_eqI)
      (use top in \<open>auto simp: blx_opcode_def arm_masks bit_simps\<close>)
  moreover have "push_bit 2 (v AND 0xFFFFFF) OR push_bit 1 (drop_bit 24 (v AND 0x1000000)) = r AND 0x3FFFFFE" (is "?R = _")
  proof (rule bit_word_eqI)
    fix n
    assume "n < LENGTH(32)"
    then consider "n = 0" | "n = 1" | "2 \<le> n" "n < 26" | "26 \<le> n" "n < 32" by force
    then show "bit ?R n = bit (r AND 0x3FFFFFE) n"
      by cases (auto simp: v_def w_def arm_masks blx_masks b bit_simps bit_2_iff Suc_diff_2
          simp del: push_bit_or push_bit_Suc One_nat_def)
  qed
  ultimately have "readAddend_ARM_CALL (write32le (write32le m l w) l v) l = signExtend 26 (scast (r AND 0x3FFFFFE))"
    unfolding readAddend_ARM_CALL_def Let_def read32le_write32le by (simp only: simp_thms if_True)
  also have "\<dots> = signExtend 26 (scast r) AND NOT 1"
    by (rule bit_word_eqI) (auto simp: signExtend_def blx_masks bit_simps min_def simp del: push_bit_Suc One_nat_def)
  also have "\<dots> = scast r AND NOT 1" using isInt_signExtend [OF assms] by simp
  finally have "readAddend_ARM_CALL (write32le (write32le m l w) l v) l = scast r AND NOT 1" .
  moreover have "a \<notin> {l..<l + 4} \<Longrightarrow> write32le (write32le m l w) l v a = m a" for a
    by (simp only: write32le_other not_False_eq_True)
  ultimately show ?thesis
    using run top unfolding b_def by (intro exI [of _ "write32le (write32le m l w) l v"]) simp
qed

text \<open>C18: BL in ARM state: towards ARM code the displacement is exact and the condition and opcode stay;
  towards Thumb code the instruction becomes BLX and the displacement is exact to the halfword, through
  the H bit; a displacement that does not fit 26 signed bits is refused.\<close>

theorem arm_call_lands:
  assumes "arm_ref env ref R_ARM_CALL" and "addressOfAtom env (target ref) \<noteq> 0"
    and "read32le m (reloc_loc ai ref) AND 0xF0000000 \<noteq> 0xF0000000"
  shows "if isInt 26 (scast (branch_offset env ai ref m))
     then \<exists>m'. arm_applyRelocation env ai ref m = Inr m' \<and>
       (if thumb_target env ref
        then blx_opcode (read32le m' (reloc_loc ai ref)) \<and>
             readAddend_ARM_CALL m' (reloc_loc ai ref) = scast (branch_offset env ai ref m) AND NOT 1
        else read32le m' (reloc_loc ai ref) AND 0xFF000000 = read32le m (reloc_loc ai ref) AND 0xFF000000 \<and>
             readAddend_ARM_CALL m' (reloc_loc ai ref) = scast (branch_offset env ai ref m) AND NOT 3) \<and>
       (\<forall>a. a \<notin> {reloc_loc ai ref..<reloc_loc ai ref + 4} \<longrightarrow> m' a = m a)
     else arm_applyRelocation env ai ref m = Inl out_of_range_reloc"
proof -
  let ?r = "branch_offset env ai ref m" and ?l = "reloc_loc ai ref"
  have "arm_applyRelocation env ai ref m =
      relocR_ARM_CALL ?l (reloc_addr ai ref) (addressOfAtom env (target ref))
        (readAddend R_ARM_CALL m ?l + addend ref) (thumb_target env ref) m"
    using arm_apply_strong [OF assms(1,2), of ai m] assms(1) by (simp add: arm_dispatch_def)
  then have a: "arm_applyRelocation env ai ref m = (if \<not> isInt 26 (scast ?r) then Inl out_of_range_reloc
      else bind_res (applyArmReloc ?l (drop_bit 2 (?r AND 0x03FFFFFC)) 0xFFFFFF m) (\<lambda>m1.
        if thumb_target env ref
        then applyArmReloc ?l (push_bit 24 (0xFA OR drop_bit 1 (?r AND 0x2))) 0xFF000000 m1 else Inr m1))"
    using assms(1) unfolding relocR_ARM_CALL_def Let_def branch_offset_def by (simp only: arm_ref_simps(3))
  show ?thesis
  proof (cases "isInt 26 (scast ?r)")
    case False
    with a show ?thesis by simp
  next
    case fits: True
    show ?thesis
    proof (cases "thumb_target env ref")
      case True
      with a fits have "arm_applyRelocation env ai ref m =
          bind_res (applyArmReloc ?l (drop_bit 2 (?r AND 0x03FFFFFC)) 0xFFFFFF m)
            (applyArmReloc ?l (push_bit 24 (0xFA OR drop_bit 1 (?r AND 0x2))) 0xFF000000)"
        by (simp only: if_True not_True_eq_False if_False)
      with arm_blx_roundtrip [OF fits, of ?l m] True fits show ?thesis by (simp only: if_True) blast
    next
      case False
      with a fits arm_call_roundtrip [OF fits assms(3)] show ?thesis by auto
    qed
  qed
qed

section \<open>MOVW and MOVT\<close>

lemma arm_mov_apply:
  "arm_ref env ref R_ARM_MOVW_ABS_NC \<Longrightarrow> arm_applyRelocation env ai ref m =
     relocR_ARM_MOV (reloc_loc ai ref) (ucast ((addressOfAtom env (target ref) +
       (readAddend_ARM_MOV m (reloc_loc ai ref) + addend ref)) OR of_bool (thumb_target env ref)) AND 0xFFFF) m"
  "arm_ref env ref R_ARM_MOVT_ABS \<Longrightarrow> arm_applyRelocation env ai ref m =
     relocR_ARM_MOV (reloc_loc ai ref) (drop_bit 16 (ucast (addressOfAtom env (target ref) +
       (readAddend_ARM_MOV m (reloc_loc ai ref) + addend ref)) AND 0xFFFF0000)) m"
  "arm_ref env ref R_ARM_THM_MOVW_ABS_NC \<Longrightarrow> arm_applyRelocation env ai ref m =
     relocR_ARM_THM_MOV (reloc_loc ai ref) (ucast ((addressOfAtom env (target ref) +
       (readAddend_THM_MOV m (reloc_loc ai ref) + addend ref)) OR of_bool (thumb_target env ref)) AND 0xFFFF) m"
  "arm_ref env ref R_ARM_THM_MOVT_ABS \<Longrightarrow> arm_applyRelocation env ai ref m =
     relocR_ARM_THM_MOV (reloc_loc ai ref) (drop_bit 16 (ucast (addressOfAtom env (target ref) +
       (readAddend_THM_MOV m (reloc_loc ai ref) + addend ref)) AND 0xFFFF0000)) m"
  by (simp_all only: arm_applyRelocation_def Let_def arm_ref_simps simp_thms if_False if_True
      fixupUnresolvedWeakCall.simps if_cancel option.case arm_dispatch_def arm_reloc.case readAddend.simps
      relocR_ARM_MOVW_ABS_NC_def relocR_ARM_MOVT_ABS_def relocR_ARM_THM_MOVW_ABS_NC_def
      relocR_ARM_THM_MOVT_ABS_def thumb_target_def)

lemma mov_local:
  "(\<And>b. b \<in> {l..<l + 4} \<Longrightarrow> m1 b = m2 b) \<Longrightarrow> readAddend_ARM_MOV m1 l = readAddend_ARM_MOV m2 l"
  "(\<And>b. b \<in> {l..<l + 4} \<Longrightarrow> m1 b = m2 b) \<Longrightarrow> readAddend_THM_MOV m1 l = readAddend_THM_MOV m2 l"
  using readAddend_local [of l R_ARM_MOVW_ABS_NC m1 m2] readAddend_local [of l R_ARM_THM_MOVW_ABS_NC m1 m2]
  by simp_all

text \<open>The two halves of an address.\<close>

lemma mov_halves:
  "push_bit 16 (take_bit 16 (ucast (drop_bit 16 (ucast x AND 0xFFFF0000 :: u32)))) OR
   take_bit 16 (ucast (ucast (x OR of_bool T) AND 0xFFFF :: u32)) = take_bit 32 (x OR of_bool T :: u64)"
  by (rule bit_word_eqI) (cases T; auto simp: arm_masks bit_simps)

text \<open>A MOVW/MOVT pair in ARM state loads the address it is relocated for: the two halves read back are
  the low 32 bits of the target's address plus the addends, with the Thumb bit. The addend held by the
  instructions counts as the unsigned 16-bit number they encode.\<close>

theorem arm_mov_pair_lands:
  assumes "arm_ref env r1 R_ARM_MOVW_ABS_NC" and "arm_ref env r2 R_ARM_MOVT_ABS"
    and "target r1 = target r2" and "addend r1 = addend r2"
    and "readAddend_ARM_MOV m (reloc_loc ai r2) = readAddend_ARM_MOV m (reloc_loc ai r1)"
    and "reloc_loc ai r1 + 4 \<le> reloc_loc ai r2 \<or> reloc_loc ai r2 + 4 \<le> reloc_loc ai r1"
  shows "\<exists>m1 m2. arm_applyRelocation env ai r1 m = Inr m1 \<and> arm_applyRelocation env ai r2 m1 = Inr m2 \<and>
    push_bit 16 (readAddend_ARM_MOV m2 (reloc_loc ai r2)) OR readAddend_ARM_MOV m2 (reloc_loc ai r1) =
      take_bit 32 ((addressOfAtom env (target r1) +
        (take_bit 16 (readAddend_ARM_MOV m (reloc_loc ai r1)) + addend r1)) OR of_bool (thumb_target env r1))"
proof -
  let ?l1 = "reloc_loc ai r1" and ?l2 = "reloc_loc ai r2"
  define x where "x = addressOfAtom env (target r1) + (readAddend_ARM_MOV m ?l1 + addend r1)"
  have u: "take_bit 16 (readAddend_ARM_MOV m ?l1) = readAddend_ARM_MOV m ?l1"
    by (rule bit_word_eqI) (auto simp: readAddend_ARM_MOV_def Let_def arm_masks mask_bits bit_simps min_def)
  from arm_mov_roundtrip [of ?l1 "ucast (x OR of_bool (thumb_target env r1)) AND 0xFFFF" m] obtain m1 where m1:
    "arm_applyRelocation env ai r1 m = Inr m1"
    "readAddend_ARM_MOV m1 ?l1 = take_bit 16 (ucast (ucast (x OR of_bool (thumb_target env r1)) AND 0xFFFF :: u32))"
    "\<forall>a. a \<notin> {?l1..<?l1 + 4} \<longrightarrow> m1 a = m a"
    unfolding arm_mov_apply(1) [OF assms(1)] x_def by blast
  have l2: "readAddend_ARM_MOV m1 ?l2 = readAddend_ARM_MOV m ?l1"
    using mov_local(1) [of ?l2 m1 m] m1(3) assms(5,6) by force
  from arm_mov_roundtrip [of ?l2 "drop_bit 16 (ucast x AND 0xFFFF0000)" m1] obtain m2 where m2:
    "arm_applyRelocation env ai r2 m1 = Inr m2"
    "readAddend_ARM_MOV m2 ?l2 = take_bit 16 (ucast (drop_bit 16 (ucast x AND 0xFFFF0000 :: u32)))"
    "\<forall>a. a \<notin> {?l2..<?l2 + 4} \<longrightarrow> m2 a = m1 a"
    unfolding arm_mov_apply(2) [OF assms(2)] l2 x_def assms(3,4) by blast
  have "readAddend_ARM_MOV m2 ?l1 = readAddend_ARM_MOV m1 ?l1"
    using mov_local(1) [of ?l1 m2 m1] m2(3) assms(6) by force
  with m1(1,2) m2(1,2) mov_halves [of x "thumb_target env r1"] show ?thesis
    unfolding u x_def [symmetric] by auto
qed

text \<open>The Thumb pair does the same, with the addend in the instructions read as a signed 16-bit number:
  the two states differ by 2^16 on a negative addend.\<close>

theorem thumb_mov_pair_lands:
  assumes "arm_ref env r1 R_ARM_THM_MOVW_ABS_NC" and "arm_ref env r2 R_ARM_THM_MOVT_ABS"
    and "target r1 = target r2" and "addend r1 = addend r2"
    and "readAddend_THM_MOV m (reloc_loc ai r2) = readAddend_THM_MOV m (reloc_loc ai r1)"
    and "reloc_loc ai r1 + 4 \<le> reloc_loc ai r2 \<or> reloc_loc ai r2 + 4 \<le> reloc_loc ai r1"
  shows "\<exists>m1 m2. arm_applyRelocation env ai r1 m = Inr m1 \<and> arm_applyRelocation env ai r2 m1 = Inr m2 \<and>
    push_bit 16 (take_bit 16 (readAddend_THM_MOV m2 (reloc_loc ai r2))) OR
      take_bit 16 (readAddend_THM_MOV m2 (reloc_loc ai r1)) =
      take_bit 32 ((addressOfAtom env (target r1) +
        (signExtend 16 (readAddend_THM_MOV m (reloc_loc ai r1)) + addend r1)) OR of_bool (thumb_target env r1))"
proof -
  let ?l1 = "reloc_loc ai r1" and ?l2 = "reloc_loc ai r2"
  define x where "x = addressOfAtom env (target r1) + (readAddend_THM_MOV m ?l1 + addend r1)"
  have u: "signExtend 16 (readAddend_THM_MOV m ?l1) = readAddend_THM_MOV m ?l1"
    by (rule bit_word_eqI) (auto simp: readAddend_THM_MOV_def Let_def signExtend_def bit_simps min_def)
  have t: "take_bit 16 (signExtend 16 w) = take_bit 16 w" for w
    by (simp add: signExtend_def take_bit_signed_take_bit)
  from thumb_mov_roundtrip [of ?l1 "ucast (x OR of_bool (thumb_target env r1)) AND 0xFFFF" m] obtain m1 where m1:
    "arm_applyRelocation env ai r1 m = Inr m1"
    "readAddend_THM_MOV m1 ?l1 = signExtend 16 (ucast (ucast (x OR of_bool (thumb_target env r1)) AND 0xFFFF :: u32))"
    "\<forall>a. a \<notin> {?l1..<?l1 + 4} \<longrightarrow> m1 a = m a"
    unfolding arm_mov_apply(3) [OF assms(1)] x_def by blast
  have l2: "readAddend_THM_MOV m1 ?l2 = readAddend_THM_MOV m ?l1"
    using mov_local(2) [of ?l2 m1 m] m1(3) assms(5,6) by force
  from thumb_mov_roundtrip [of ?l2 "drop_bit 16 (ucast x AND 0xFFFF0000)" m1] obtain m2 where m2:
    "arm_applyRelocation env ai r2 m1 = Inr m2"
    "readAddend_THM_MOV m2 ?l2 = signExtend 16 (ucast (drop_bit 16 (ucast x AND 0xFFFF0000 :: u32)))"
    "\<forall>a. a \<notin> {?l2..<?l2 + 4} \<longrightarrow> m2 a = m1 a"
    unfolding arm_mov_apply(4) [OF assms(2)] l2 x_def assms(3,4) by blast
  have "readAddend_THM_MOV m2 ?l1 = readAddend_THM_MOV m1 ?l1"
    using mov_local(2) [of ?l1 m2 m1] m2(3) assms(6) by force
  with m1(1,2) m2(1,2) mov_halves [of x "thumb_target env r1"] show ?thesis
    unfolding u x_def [symmetric] by (intro exI [of _ m1] exI [of _ m2]) (simp only: t simp_thms)
qed

section \<open>Group relocations\<close>

text \<open>What an ADD with a rotated immediate adds: eight bits rotated right by twice the four-bit count.\<close>

definition alu_imm :: "u32 \<Rightarrow> u32" where
  "alu_imm w = word_rotr (2 * unat (drop_bit 8 w AND 0xF)) (w AND 0xFF)"

definition group_offset :: "arm_env \<Rightarrow> atom_layout \<Rightarrow> reference \<Rightarrow> u32" where
  "group_offset env ai ref = ucast (addressOfAtom env (target ref) + addend ref - reloc_addr ai ref)"

lemma alu_fields:
  "drop_bit 8 ((w AND NOT 0xFFF) OR ((x AND 0xFF) OR push_bit 8 y)) AND 0xF = y AND (0xF :: u32)"
  "((w AND NOT 0xFFF) OR ((x AND 0xFF) OR push_bit 8 y)) AND 0xFF = x AND (0xFF :: u32)"
  by (rule bit_word_eqI, auto simp: arm_masks mask_bits bit_simps)+

lemma rotr_byte:
  "word_rotr 12 (drop_bit 20 r AND 0xFF) = r AND push_bit 20 (0xFF :: u32)"
  "word_rotr 20 (drop_bit 12 r AND 0xFF) = r AND push_bit 12 (0xFF :: u32)"
proof -
  have "bit (word_rotr 12 (drop_bit 20 r AND 0xFF)) n = bit (r AND push_bit 20 (0xFF :: u32)) n" if "n < 32" for n
    using that by (cases "n < 20") (auto simp: arm_masks bit_word_rotr_iff bit_simps mod_if)
  then show "word_rotr 12 (drop_bit 20 r AND 0xFF) = r AND push_bit 20 (0xFF :: u32)"
    by (intro bit_word_eqI) simp
  have "bit (word_rotr 20 (drop_bit 12 r AND 0xFF)) n = bit (r AND push_bit 12 (0xFF :: u32)) n" if "n < 32" for n
    using that by (cases "n < 12") (auto simp: arm_masks bit_word_rotr_iff bit_simps mod_if)
  then show "word_rotr 20 (drop_bit 12 r AND 0xFF) = r AND push_bit 12 (0xFF :: u32)"
    by (intro bit_word_eqI) simp
qed

lemma alu_patch:
  assumes "y AND 0xF = (y :: u32)"
  shows "\<exists>m'. applyArmReloc l ((x AND 0xFF) OR push_bit 8 y) 0xFFF m = Inr m' \<and>
     alu_imm (read32le m' l) = word_rotr (2 * unat y) (x AND 0xFF) \<and> (\<forall>a. a \<notin> {l..<l + 4} \<longrightarrow> m' a = m a)"
proof -
  have y: "bit y n \<Longrightarrow> n < 4" for n
    using arg_cong [OF assms, of "\<lambda>w. bit w n"] by (auto simp: arm_masks bit_simps)
  have "((x AND 0xFF) OR push_bit 8 y) AND NOT 0xFFF = 0"
    by (rule bit_word_eqI) (auto simp: arm_masks mask_bits bit_simps dest!: y)
  from applyArmReloc_ok [OF this, of l m] show ?thesis
    by (intro exI conjI, assumption)
      (simp only: alu_imm_def read32le_write32le alu_fields assms, blast intro: write32le_other)
qed


lemma arm_plt_apply:
  assumes "0 \<le> sint (group_offset env ai ref)"
  shows "arm_ref env ref R_ARM_ALU_PC_G0_NC \<Longrightarrow> arm_applyRelocation env ai ref =
      applyArmReloc (reloc_loc ai ref) ((drop_bit 20 (group_offset env ai ref) AND 0xFF) OR push_bit 8 6) 0xFFF"
    "arm_ref env ref R_ARM_ALU_PC_G1_NC \<Longrightarrow> arm_applyRelocation env ai ref =
      applyArmReloc (reloc_loc ai ref) ((drop_bit 12 (group_offset env ai ref) AND 0xFF) OR push_bit 8 10) 0xFFF"
    "arm_ref env ref R_ARM_LDR_PC_G2 \<Longrightarrow> arm_applyRelocation env ai ref =
      applyArmReloc (reloc_loc ai ref) (group_offset env ai ref AND 0xFFF) 0xFFF"
  using assms
  by (auto intro!: ext simp: arm_applyRelocation_def Let_def arm_dispatch_def relocR_ARM_ALU_PC_G0_NC_def
      relocR_ARM_ALU_PC_G1_NC_def relocR_ARM_LDR_PC_G2_def relocR_ARM_ALU_PC_GN_NC_def group_offset_def)

lemma arm_plt_negative:
  "arm_ref env ref R_ARM_ALU_PC_G0_NC \<Longrightarrow> sint (group_offset env ai ref) < 0 \<Longrightarrow>
    arm_applyRelocation env ai ref m = Inl unsupported_range_group"
  by (auto simp: arm_applyRelocation_def Let_def arm_dispatch_def relocR_ARM_ALU_PC_G0_NC_def group_offset_def)

lemma mask_28: "(0xFFFFFFF :: u32) = mask 28"
  by (simp add: mask_eq_exp_minus_1)

lemma plt_sum:
  "(d AND push_bit 20 0xFF) + ((d AND push_bit 12 0xFF) + (d AND 0xFFF)) = d AND (0xFFFFFFF :: u32)"
proof -
  have "(d AND push_bit 12 0xFF) + (d AND 0xFFF) = (d AND push_bit 12 0xFF) OR (d AND 0xFFF)"
    by (rule disjunctive_add) (auto simp: arm_masks mask_bits bit_simps)
  moreover have "(d AND push_bit 20 0xFF) + ((d AND push_bit 12 0xFF) OR (d AND 0xFFF)) =
      (d AND push_bit 20 0xFF) OR ((d AND push_bit 12 0xFF) OR (d AND 0xFFF))"
    by (rule disjunctive_add) (auto simp: arm_masks mask_bits bit_simps)
  moreover have "(d AND push_bit 20 0xFF) OR ((d AND push_bit 12 0xFF) OR (d AND 0xFFF)) = d AND 0xFFFFFFF"
    by (rule bit_word_eqI) (auto simp: arm_masks mask_bits bit_simps mask_28)
  ultimately show ?thesis by (simp only:)
qed

text \<open>The three instructions of an ARM PLT entry (ADD, ADD, LDR) between them add the low 28 bits of a
  displacement that is not negative to the program counter: the eight bits of each rotated immediate and the
  twelve of the load do not overlap. So displacements of 2^28 and more lose their top bits without an error, while
  a negative one is refused. (The three references are those of one entry: their displacement is the same and they
  patch consecutive words.)\<close>

theorem arm_plt_group:
  assumes "arm_ref env r0 R_ARM_ALU_PC_G0_NC" and "arm_ref env r1 R_ARM_ALU_PC_G1_NC"
    and "arm_ref env r2 R_ARM_LDR_PC_G2"
    and "group_offset env ai r0 = d" and "group_offset env ai r1 = d" and "group_offset env ai r2 = d"
    and "reloc_loc ai r1 = reloc_loc ai r0 + 4" and "reloc_loc ai r2 = reloc_loc ai r0 + 8"
  shows "if 0 \<le> sint d
     then \<exists>m'. fold_res (arm_applyRelocation env ai) [r0, r1, r2] m = Inr m' \<and>
       alu_imm (read32le m' (reloc_loc ai r0)) + (alu_imm (read32le m' (reloc_loc ai r1)) +
         (read32le m' (reloc_loc ai r2) AND 0xFFF)) = d AND 0xFFFFFFF
     else fold_res (arm_applyRelocation env ai) [r0, r1, r2] m = Inl unsupported_range_group"
proof (cases "0 \<le> sint d")
  case False
  then have "arm_applyRelocation env ai r0 m = Inl unsupported_range_group"
    using arm_plt_negative [OF assms(1)] assms(4) by simp
  with False show ?thesis by simp
next
  case True
  note assms = assms(1-6) True assms(7,8)
  let ?l = "reloc_loc ai r0"
  note run = arm_plt_apply(1) [of env ai r0, OF _ assms(1)] arm_plt_apply(2) [of env ai r1, OF _ assms(2)]
    arm_plt_apply(3) [of env ai r2, OF _ assms(3)]
  from alu_patch [of 6 ?l "drop_bit 20 d" m] obtain m0 where m0: "arm_applyRelocation env ai r0 m = Inr m0"
      "alu_imm (read32le m0 ?l) = d AND push_bit 20 0xFF"
    using run(1) assms(4,7) by (auto simp: rotr_byte)
  from alu_patch [of 10 "?l + 4" "drop_bit 12 d" m0] obtain m1 where m1: "arm_applyRelocation env ai r1 m0 = Inr m1"
      "alu_imm (read32le m1 (?l + 4)) = d AND push_bit 12 0xFF" "\<forall>a. a \<notin> {?l + 4..<?l + 4 + 4} \<longrightarrow> m1 a = m0 a"
    using run(2) assms(5,7,8) by (auto simp: rotr_byte)
  have z: "(d AND 0xFFF) AND NOT 0xFFF = 0" by (rule bit_word_eqI) (auto simp: bit_simps)
  define m2 where "m2 = write32le m1 (?l + 8) ((read32le m1 (?l + 8) AND NOT 0xFFF) OR (d AND 0xFFF))"
  have m2: "arm_applyRelocation env ai r2 m1 = Inr m2"
    using run(3) assms(6,7,9) applyArmReloc_ok [OF z, of "?l + 8" m1] by (simp add: m2_def)
  have "read32le m2 (?l + 8) AND 0xFFF = d AND 0xFFF"
    unfolding m2_def read32le_write32le by (rule bit_word_eqI) (auto simp: bit_simps)
  moreover have "read32le m2 ?l = read32le m0 ?l" "read32le m2 (?l + 4) = read32le m1 (?l + 4)"
    by (rule read32le_local; use m1(3) in \<open>auto simp: m2_def write32le_other\<close>)+
  ultimately show ?thesis
    using m0 m1(1,2) m2 assms(7-9) plt_sum [of d] by simp
qed

section \<open>A sample atom\<close>

definition arm_sample_atom :: "code_model \<Rightarrow> atom_layout" where
  "arm_sample_atom cm = \<lparr>layout_atom = \<lparr>ordinal = 0, da_size = 12, sectionSize = 0, scope = scopeGlobal,
       interpose = interposeNo, merge_of = mergeNo, contentType = typeCode, alignment = (4, 0),
       sectionChoice = sectionBasedOnContent, customSectionName = [], deadStrip_of = deadStripNormal,
       dynamicExport = dynamicExportNormal, codeModel = cm, permissions_of = permR_X,
       rawContent = replicate 12 0, refs = []\<rparr>,
     fileOffset = 0, virtualAddr = 0x8000\<rparr>"

text \<open>Atom 7 is ARM code and atom 8 Thumb code, both laid out at 0x12344.\<close>

definition arm_sample :: arm_env where
  "arm_sample = \<lparr>kindOf = (\<lambda>v. [R_ARM_NONE, R_ARM_THM_JUMP24, R_ARM_CALL, R_ARM_MOVW_ABS_NC, R_ARM_MOVT_ABS,
       R_ARM_THM_MOVW_ABS_NC, R_ARM_THM_MOVT_ABS, R_ARM_ALU_PC_G0_NC, R_ARM_ALU_PC_G1_NC, R_ARM_LDR_PC_G2] ! unat v),
     addressOfAtom = (\<lambda>_. 0x12344), programHeader = [],
     arm_objects = \<lparr>atom_at = (\<lambda>a. DefinedAtom ''f'' 0
         (layout_atom (arm_sample_atom (if a = 8 then codeARMThumb else codeNA)))),
       file_kind_of = (\<lambda>_. kindObject)\<rparr>,
     target1Rel = False, getGOTSymAddr = 0\<rparr>"

definition arm_sample_ref :: "u16 \<Rightarrow> u64 \<Rightarrow> i64 \<Rightarrow> atom_id \<Rightarrow> reference" where
  "arm_sample_ref k off a t = \<lparr>kindNamespace = ns_ELF, kindArch = arch_ARM, kindValue = k, offsetInAtom = off,
     target = t, addend = a, tag = 0\<rparr>"

lemmas arm_samples = arm_sample_def arm_sample_ref_def arm_sample_atom_def

lemma arm_sample_views [simp]:
  "arm_ref arm_sample (arm_sample_ref k off a t) K \<longleftrightarrow> kindOf arm_sample k = K"
  "addressOfAtom arm_sample t = 0x12344"
  "target (arm_sample_ref k off a t) = t" "addend (arm_sample_ref k off a t) = a"
  "reloc_loc (arm_sample_atom cm) (arm_sample_ref k off a t) = unat off"
  "reloc_addr (arm_sample_atom cm) (arm_sample_ref k off a t) = 0x8000 + off"
  "kindValue (arm_sample_ref k off a t) = k"
  "kindOf arm_sample 1 = R_ARM_THM_JUMP24" "kindOf arm_sample 2 = R_ARM_CALL" "kindOf arm_sample 3 = R_ARM_MOVW_ABS_NC"
  "kindOf arm_sample 4 = R_ARM_MOVT_ABS" "kindOf arm_sample 5 = R_ARM_THM_MOVW_ABS_NC"
  "kindOf arm_sample 6 = R_ARM_THM_MOVT_ABS" "kindOf arm_sample 7 = R_ARM_ALU_PC_G0_NC"
  "kindOf arm_sample 8 = R_ARM_ALU_PC_G1_NC" "kindOf arm_sample 9 = R_ARM_LDR_PC_G2"
  "thumb_target arm_sample (arm_sample_ref k off a t) = (t = 8)"
  by (simp_all add: arm_samples arm_ref_def reloc_loc_def reloc_addr_def thumb_target_def)

lemma arm_addend_zero:
  "readAddend_THM_CALL (\<lambda>_. 0) l = 0xC00000" "readAddend_ARM_CALL (\<lambda>_. 0) l = 0"
  "readAddend_ARM_MOV (\<lambda>_. 0) l = 0" "readAddend_THM_MOV (\<lambda>_. 0) l = 0"
  by (simp_all add: readAddend_THM_CALL_def readAddend_ARM_CALL_def readAddend_ARM_MOV_def readAddend_THM_MOV_def
      read32le_def read16le_def signExtend_def)

theorem thumb_branch_lands_witness:
  "\<exists>m'. arm_applyRelocation arm_sample (arm_sample_atom codeNA) (arm_sample_ref 1 0 0 8) (\<lambda>_. 0) = Inr m' \<and>
     readAddend_THM_CALL m' 0 = 0xC0A344"
  using thumb_branch_lands [of arm_sample "arm_sample_ref 1 0 0 8" "arm_sample_atom codeNA" "\<lambda>_. 0"]
  by (simp add: branch_offset_def arm_addend_zero isInt_def) blast

theorem arm_call_lands_witness:
  "\<exists>m'. arm_applyRelocation arm_sample (arm_sample_atom codeNA) (arm_sample_ref 2 0 2 8) (\<lambda>_. 0) = Inr m' \<and>
     blx_opcode (read32le m' 0) \<and> readAddend_ARM_CALL m' 0 = 0xA346"
  using arm_call_lands [of arm_sample "arm_sample_ref 2 0 2 8" "\<lambda>_. 0" "arm_sample_atom codeNA"]
  by (simp add: branch_offset_def arm_addend_zero isInt_def read_zero) blast

theorem arm_mov_pair_lands_witness:
  "\<exists>m1 m2. arm_applyRelocation arm_sample (arm_sample_atom codeNA) (arm_sample_ref 3 0 0 7) (\<lambda>_. 0) = Inr m1 \<and>
     arm_applyRelocation arm_sample (arm_sample_atom codeNA) (arm_sample_ref 4 4 0 7) m1 = Inr m2 \<and>
     push_bit 16 (readAddend_ARM_MOV m2 4) OR readAddend_ARM_MOV m2 0 = 0x12344"
  using arm_mov_pair_lands [of arm_sample "arm_sample_ref 3 0 0 7" "arm_sample_ref 4 4 0 7" "\<lambda>_. 0" "arm_sample_atom codeNA"]
  by (simp add: arm_addend_zero)

theorem thumb_mov_pair_lands_witness:
  "\<exists>m1 m2. arm_applyRelocation arm_sample (arm_sample_atom codeNA) (arm_sample_ref 5 0 0 8) (\<lambda>_. 0) = Inr m1 \<and>
     arm_applyRelocation arm_sample (arm_sample_atom codeNA) (arm_sample_ref 6 4 0 8) m1 = Inr m2 \<and>
     push_bit 16 (take_bit 16 (readAddend_THM_MOV m2 4)) OR take_bit 16 (readAddend_THM_MOV m2 0) = 0x12345"
  using thumb_mov_pair_lands [of arm_sample "arm_sample_ref 5 0 0 8" "arm_sample_ref 6 4 0 8" "\<lambda>_. 0" "arm_sample_atom codeNA"]
  by (simp add: arm_addend_zero signExtend_def)

theorem arm_plt_group_witness:
  "\<exists>m'. fold_res (arm_applyRelocation arm_sample (arm_sample_atom codeNA))
       [arm_sample_ref 7 0 (- 8) 7, arm_sample_ref 8 4 (- 4) 7, arm_sample_ref 9 8 0 7] (\<lambda>_. 0) = Inr m' \<and>
     alu_imm (read32le m' 0) + (alu_imm (read32le m' 4) + (read32le m' 8 AND 0xFFF)) = 0xA33C"
  using arm_plt_group [of arm_sample "arm_sample_ref 7 0 (- 8) 7" "arm_sample_ref 8 4 (- 4) 7" "arm_sample_ref 9 8 0 7"
      "arm_sample_atom codeNA" "0xA33C" "\<lambda>_. 0"]
  by (simp add: group_offset_def)

end
