(* ===== verification/Reloc_Mips.thy ===== *)
theory Reloc_Mips
  imports Relocation
begin

text \<open>
  The relocation handler of the MIPS ELF targets
  (lib/ReaderWriter/ELF/Mips/MipsRelocationHandler.cpp). Each kind has parameters (width, field, shift,
  microMIPS halfword order, overflow check); up to three kinds are composed on one location, the result of
  each being the addend of the next.
\<close>

section \<open>Relocation kinds and their parameters\<close>

datatype (plugins only: size) mips_reloc =
    R_MIPS_NONE | R_MIPS_16 | R_MIPS_32 | R_MIPS_REL32 | R_MIPS_26 | R_MIPS_HI16 | R_MIPS_LO16 | R_MIPS_GPREL16
  | R_MIPS_LITERAL | R_MIPS_GOT16 | R_MIPS_PC16 | R_MIPS_CALL16 | R_MIPS_GPREL32 | R_MIPS_64 | R_MIPS_GOT_DISP
  | R_MIPS_GOT_PAGE | R_MIPS_GOT_OFST | R_MIPS_GOT_HI16 | R_MIPS_GOT_LO16 | R_MIPS_SUB | R_MIPS_HIGHER
  | R_MIPS_HIGHEST | R_MIPS_CALL_HI16 | R_MIPS_CALL_LO16 | R_MIPS_JALR | R_MIPS_TLS_DTPMOD32 | R_MIPS_TLS_DTPREL32
  | R_MIPS_TLS_DTPMOD64 | R_MIPS_TLS_DTPREL64 | R_MIPS_TLS_GD | R_MIPS_TLS_LDM | R_MIPS_TLS_DTPREL_HI16
  | R_MIPS_TLS_DTPREL_LO16 | R_MIPS_TLS_GOTTPREL | R_MIPS_TLS_TPREL32 | R_MIPS_TLS_TPREL64 | R_MIPS_TLS_TPREL_HI16
  | R_MIPS_TLS_TPREL_LO16 | R_MIPS_PC21_S2 | R_MIPS_PC26_S2 | R_MIPS_PC18_S3 | R_MIPS_PC19_S2 | R_MIPS_PCHI16
  | R_MIPS_PCLO16 | R_MIPS_COPY | R_MIPS_JUMP_SLOT | R_MIPS_PC32 | R_MIPS_EH
  | R_MICROMIPS_26_S1 | R_MICROMIPS_HI16 | R_MICROMIPS_LO16 | R_MICROMIPS_GPREL16 | R_MICROMIPS_LITERAL
  | R_MICROMIPS_GOT16 | R_MICROMIPS_PC7_S1 | R_MICROMIPS_PC10_S1 | R_MICROMIPS_PC16_S1 | R_MICROMIPS_CALL16
  | R_MICROMIPS_GOT_DISP | R_MICROMIPS_GOT_PAGE | R_MICROMIPS_GOT_OFST | R_MICROMIPS_GOT_HI16
  | R_MICROMIPS_GOT_LO16 | R_MICROMIPS_SUB | R_MICROMIPS_HIGHER | R_MICROMIPS_HIGHEST | R_MICROMIPS_CALL_HI16
  | R_MICROMIPS_CALL_LO16 | R_MICROMIPS_JALR | R_MICROMIPS_HI0_LO16 | R_MICROMIPS_TLS_GD | R_MICROMIPS_TLS_LDM
  | R_MICROMIPS_TLS_DTPREL_HI16 | R_MICROMIPS_TLS_DTPREL_LO16 | R_MICROMIPS_TLS_GOTTPREL
  | R_MICROMIPS_TLS_TPREL_HI16 | R_MICROMIPS_TLS_TPREL_LO16 | R_MICROMIPS_GPREL7_S2 | R_MICROMIPS_PC23_S2
  | R_MICROMIPS_PC21_S2 | R_MICROMIPS_PC26_S2 | R_MICROMIPS_PC18_S3 | R_MICROMIPS_PC19_S2
  | LLD_R_MIPS_GLOBAL_GOT | LLD_R_MIPS_32_HI16 | LLD_R_MIPS_64_HI16 | LLD_R_MIPS_GLOBAL_26
  | LLD_R_MICROMIPS_GLOBAL_26_S1 | LLD_R_MIPS_STO_PLT | R_MIPS_other

datatype overflow_checker = dummyCheck | signedCheck nat | gpDispCheck nat

fun check_overflow :: "overflow_checker \<Rightarrow> i64 \<Rightarrow> bool \<Rightarrow> bool" where
  "check_overflow dummyCheck res isGpDisp = True"
| "check_overflow (signedCheck bits) res isGpDisp = isInt bits res"
| "check_overflow (gpDispCheck bits) res isGpDisp = (\<not> isGpDisp \<or> isInt bits res)"

record reloc_params =
  p_size :: nat
  p_mask :: u64
  p_shift :: nat
  p_shuffle :: bool
  p_overflow :: overflow_checker

abbreviation mips_params :: "nat \<Rightarrow> u64 \<Rightarrow> nat \<Rightarrow> bool \<Rightarrow> overflow_checker \<Rightarrow> reloc_params option" where
  "mips_params sz mk sh shuf chk \<equiv> Some \<lparr>p_size = sz, p_mask = mk, p_shift = sh, p_shuffle = shuf, p_overflow = chk\<rparr>"

text \<open>\<open>None\<close> is \<open>llvm_unreachable\<close>.\<close>

definition getRelocationParams :: "mips_reloc \<Rightarrow> reloc_params option" where
  "getRelocationParams k =
     (if k = R_MIPS_NONE then mips_params 4 0 0 False dummyCheck
      else if k \<in> {R_MIPS_64, R_MIPS_SUB} then mips_params 8 0xffffffffffffffff 0 False dummyCheck
      else if k = R_MICROMIPS_SUB then mips_params 8 0xffffffffffffffff 0 True dummyCheck
      else if k \<in> {R_MIPS_32, R_MIPS_GPREL32, R_MIPS_REL32, R_MIPS_PC32, R_MIPS_EH}
        then mips_params 4 0xffffffff 0 False dummyCheck
      else if k = LLD_R_MIPS_32_HI16 then mips_params 4 0xffff0000 0 False dummyCheck
      else if k = LLD_R_MIPS_64_HI16 then mips_params 8 0xffffffffffff0000 0 False dummyCheck
      else if k \<in> {R_MIPS_26, LLD_R_MIPS_GLOBAL_26} then mips_params 4 0x3ffffff 2 False dummyCheck
      else if k = R_MIPS_PC16 then mips_params 4 0xffff 2 False (signedCheck 18)
      else if k = R_MIPS_PC18_S3 then mips_params 4 0x3ffff 3 False (signedCheck 21)
      else if k = R_MIPS_PC19_S2 then mips_params 4 0x7ffff 2 False (signedCheck 21)
      else if k = R_MIPS_PC21_S2 then mips_params 4 0x1fffff 2 False (signedCheck 23)
      else if k = R_MIPS_PC26_S2 then mips_params 4 0x3ffffff 2 False (signedCheck 28)
      else if k = R_MIPS_HI16 then mips_params 4 0xffff 0 False (gpDispCheck 16)
      else if k \<in> {R_MIPS_LO16, R_MIPS_HIGHER, R_MIPS_HIGHEST} then mips_params 4 0xffff 0 False dummyCheck
      else if k \<in> {R_MIPS_16, R_MIPS_PCHI16, R_MIPS_PCLO16, R_MIPS_GOT16, R_MIPS_CALL16, R_MIPS_GOT_DISP,
          R_MIPS_GOT_PAGE, R_MIPS_GOT_OFST, R_MIPS_GPREL16, R_MIPS_TLS_GD, R_MIPS_TLS_LDM, R_MIPS_TLS_GOTTPREL,
          R_MIPS_LITERAL} then mips_params 4 0xffff 0 False (signedCheck 16)
      else if k \<in> {R_MIPS_GOT_HI16, R_MIPS_GOT_LO16, R_MIPS_CALL_HI16, R_MIPS_CALL_LO16, R_MIPS_TLS_DTPREL_HI16,
          R_MIPS_TLS_DTPREL_LO16, R_MIPS_TLS_TPREL_HI16, R_MIPS_TLS_TPREL_LO16}
        then mips_params 4 0xffff 0 False dummyCheck
      else if k \<in> {R_MICROMIPS_GPREL16, R_MICROMIPS_LITERAL} then mips_params 4 0xffff 0 True (signedCheck 16)
      else if k = R_MICROMIPS_GPREL7_S2 then mips_params 4 0x7f 2 False (signedCheck 9)
      else if k \<in> {R_MICROMIPS_GOT_HI16, R_MICROMIPS_GOT_LO16, R_MICROMIPS_CALL_HI16, R_MICROMIPS_CALL_LO16,
          R_MICROMIPS_TLS_DTPREL_HI16, R_MICROMIPS_TLS_DTPREL_LO16, R_MICROMIPS_TLS_TPREL_HI16,
          R_MICROMIPS_TLS_TPREL_LO16} then mips_params 4 0xffff 0 True dummyCheck
      else if k \<in> {R_MICROMIPS_26_S1, LLD_R_MICROMIPS_GLOBAL_26_S1} then mips_params 4 0x3ffffff 1 True dummyCheck
      else if k = R_MICROMIPS_HI16 then mips_params 4 0xffff 0 True (gpDispCheck 16)
      else if k \<in> {R_MICROMIPS_LO16, R_MICROMIPS_HI0_LO16, R_MICROMIPS_HIGHER, R_MICROMIPS_HIGHEST}
        then mips_params 4 0xffff 0 True dummyCheck
      else if k = R_MICROMIPS_PC16_S1 then mips_params 4 0xffff 1 True (signedCheck 17)
      else if k = R_MICROMIPS_PC7_S1 then mips_params 4 0x7f 1 False (signedCheck 8)
      else if k = R_MICROMIPS_PC10_S1 then mips_params 4 0x3ff 1 False (signedCheck 11)
      else if k = R_MICROMIPS_PC23_S2 then mips_params 4 0x7fffff 2 True (signedCheck 25)
      else if k = R_MICROMIPS_PC18_S3 then mips_params 4 0x3ffff 3 True (signedCheck 21)
      else if k = R_MICROMIPS_PC19_S2 then mips_params 4 0x7ffff 2 True (signedCheck 21)
      else if k = R_MICROMIPS_PC21_S2 then mips_params 4 0x1fffff 2 True (signedCheck 23)
      else if k = R_MICROMIPS_PC26_S2 then mips_params 4 0x3ffffff 2 True (signedCheck 28)
      else if k \<in> {R_MICROMIPS_GOT16, R_MICROMIPS_CALL16, R_MICROMIPS_TLS_GD, R_MICROMIPS_TLS_LDM,
          R_MICROMIPS_TLS_GOTTPREL, R_MICROMIPS_GOT_DISP, R_MICROMIPS_GOT_PAGE, R_MICROMIPS_GOT_OFST}
        then mips_params 4 0xffff 0 True (signedCheck 16)
      else if k = R_MIPS_JALR then mips_params 4 0 0 False dummyCheck
      else if k = R_MICROMIPS_JALR then mips_params 4 0 0 True dummyCheck
      else if k \<in> {R_MIPS_JUMP_SLOT, R_MIPS_COPY, R_MIPS_TLS_DTPMOD32, R_MIPS_TLS_DTPREL32, R_MIPS_TLS_TPREL32}
        then mips_params 4 0xffffffff 0 False dummyCheck
      else if k \<in> {R_MIPS_TLS_DTPMOD64, R_MIPS_TLS_DTPREL64, R_MIPS_TLS_TPREL64}
        then mips_params 8 0xffffffffffffffff 0 False dummyCheck
      else if k \<in> {LLD_R_MIPS_GLOBAL_GOT, LLD_R_MIPS_STO_PLT} then mips_params 4 0 0 False dummyCheck
      else None)"

section \<open>The single computations\<close>

text \<open>\<open>SignExtend32\<close> gives an \<open>int32_t\<close> that is then extended to 64 bits: \<open>signExtend\<close> of the same width.\<close>

definition getHi16 :: "i64 \<Rightarrow> i64" where
  "getHi16 v = signed_drop_bit 16 (v + 0x8000) AND 0xffff"

definition getHigher16 :: "i64 \<Rightarrow> i64" where
  "getHigher16 v = drop_bit 32 (v + 0x80008000) AND 0xffff"

definition getHighest16 :: "i64 \<Rightarrow> i64" where
  "getHighest16 v = drop_bit 48 (v + 0x800080008000) AND 0xffff"

definition maskLow16 :: "i64 \<Rightarrow> i64" where
  "maskLow16 v = (v + 0x8000) AND NOT 0xffff"

text \<open>The functions that return \<open>int32_t\<close>: the result is truncated and extended again.\<close>

definition int32_result :: "u64 \<Rightarrow> i64" where
  "int32_result v = scast (ucast v :: i32)"

definition reloc26loc :: "u64 \<Rightarrow> u64 \<Rightarrow> i32 \<Rightarrow> nat \<Rightarrow> i64" where
  "reloc26loc P S A shift =
     int32_result ((scast A OR ((P + 4) AND ucast (push_bit shift (0xfc000000 :: u32)))) + S)"

definition reloc26ext :: "u64 \<Rightarrow> i32 \<Rightarrow> nat \<Rightarrow> i64" where
  "reloc26ext S A shift = int32_result (signExtend (if shift = 1 then 27 else 28) (scast A) + S)"

definition relocHi16 :: "u64 \<Rightarrow> u64 \<Rightarrow> i64 \<Rightarrow> bool \<Rightarrow> i64" where
  "relocHi16 P S AHL isGPDisp = int32_result (getHi16 (if isGPDisp then AHL + S - P else AHL + S))"

definition relocLo16 :: "u64 \<Rightarrow> u64 \<Rightarrow> i64 \<Rightarrow> bool \<Rightarrow> bool \<Rightarrow> i64" where
  "relocLo16 P S AHL isGPDisp micro =
     int32_result (if isGPDisp then AHL + S - P + (if micro then 3 else 4) else AHL + S)"

definition relocGOTOfst :: "u64 \<Rightarrow> i64 \<Rightarrow> i64" where
  "relocGOTOfst S A = (let page = maskLow16 (S + A) in int32_result (S + A - page))"

text \<open>The pc-relative branches: the addend is the field's, sign-extended, and the target has to be aligned.\<close>

definition pc_relative :: "nat \<Rightarrow> u64 \<Rightarrow> (u64 \<Rightarrow> u64) \<Rightarrow> u64 \<Rightarrow> u64 \<Rightarrow> i64 \<Rightarrow> reloc_error + i64" where
  "pc_relative bits unaligned base P S A =
     (let A' = signExtend bits A in
      if (S + A') AND unaligned \<noteq> 0 then Inl unaligned_range_reloc else Inr (S + A' - base P))"

definition relocPc16 :: "u64 \<Rightarrow> u64 \<Rightarrow> i64 \<Rightarrow> reloc_error + i64" where
  "relocPc16 = pc_relative 18 3 (\<lambda>P. P)"

definition relocPc18 :: "u64 \<Rightarrow> u64 \<Rightarrow> i64 \<Rightarrow> reloc_error + i64" where
  "relocPc18 = pc_relative 21 6 (\<lambda>P. (P OR 7) XOR 7)"

definition relocPc19 :: "u64 \<Rightarrow> u64 \<Rightarrow> i64 \<Rightarrow> reloc_error + i64" where
  "relocPc19 = pc_relative 21 2 (\<lambda>P. P)"

definition relocPc21 :: "u64 \<Rightarrow> u64 \<Rightarrow> i64 \<Rightarrow> reloc_error + i64" where
  "relocPc21 = pc_relative 23 2 (\<lambda>P. P)"

definition relocPc26 :: "u64 \<Rightarrow> u64 \<Rightarrow> i64 \<Rightarrow> reloc_error + i64" where
  "relocPc26 = pc_relative 28 2 (\<lambda>P. P)"

definition relocRel32 :: "i64 \<Rightarrow> i64" where
  "relocRel32 A = A"

definition calculateRelocation ::
  "mips_reloc \<Rightarrow> i64 \<Rightarrow> u64 \<Rightarrow> u64 \<Rightarrow> u64 \<Rightarrow> bool \<Rightarrow> bool \<Rightarrow> bool \<Rightarrow> reloc_error + i64" where
  "calculateRelocation k A tgtAddr relAddr gpAddr isGP isCrossJump isDynamic =
     (if k = R_MIPS_NONE then Inr 0
      else if k = R_MIPS_16 then Inr (tgtAddr + signExtend 16 A)
      else if k \<in> {R_MIPS_32, R_MIPS_64} then Inr (tgtAddr + A)
      else if k \<in> {R_MIPS_SUB, R_MICROMIPS_SUB} then Inr (tgtAddr - A)
      else if k = R_MIPS_26 then Inr (reloc26loc relAddr tgtAddr (ucast A) 2)
      else if k = R_MICROMIPS_26_S1
        then Inr (reloc26loc relAddr tgtAddr (ucast A) (if isCrossJump then 2 else 1))
      else if k \<in> {R_MIPS_HI16, R_MICROMIPS_HI16} then Inr (relocHi16 relAddr tgtAddr A isGP)
      else if k = R_MIPS_PCHI16 then Inr (getHi16 (tgtAddr + A - relAddr))
      else if k = R_MIPS_LO16 then Inr (relocLo16 relAddr tgtAddr A isGP False)
      else if k = R_MIPS_PCLO16 then Inr (tgtAddr + A - relAddr)
      else if k \<in> {R_MICROMIPS_LO16, R_MICROMIPS_HI0_LO16} then Inr (relocLo16 relAddr tgtAddr A isGP True)
      else if k \<in> {R_MIPS_GOT_LO16, R_MIPS_CALL_LO16, R_MICROMIPS_GOT_LO16, R_MICROMIPS_CALL_LO16}
        then Inr (tgtAddr - gpAddr)
      else if k \<in> {R_MIPS_GOT_HI16, R_MIPS_CALL_HI16, R_MICROMIPS_GOT_HI16, R_MICROMIPS_CALL_HI16}
        then Inr (getHi16 (tgtAddr - gpAddr))
      else if k \<in> {R_MIPS_HIGHER, R_MICROMIPS_HIGHER} then Inr (getHigher16 (tgtAddr + A))
      else if k \<in> {R_MIPS_HIGHEST, R_MICROMIPS_HIGHEST} then Inr (getHighest16 (tgtAddr + A))
      else if k \<in> {R_MIPS_EH, R_MIPS_GOT16, R_MIPS_CALL16, R_MIPS_GOT_DISP, R_MIPS_GOT_PAGE, R_MICROMIPS_GOT_DISP,
          R_MICROMIPS_GOT_PAGE, R_MICROMIPS_GOT16, R_MICROMIPS_CALL16, R_MIPS_TLS_GD, R_MIPS_TLS_LDM,
          R_MIPS_TLS_GOTTPREL, R_MICROMIPS_TLS_GD, R_MICROMIPS_TLS_LDM, R_MICROMIPS_TLS_GOTTPREL}
        then Inr (tgtAddr - gpAddr)
      else if k \<in> {R_MIPS_GOT_OFST, R_MICROMIPS_GOT_OFST} then Inr (relocGOTOfst tgtAddr A)
      else if k = R_MIPS_PC16 then relocPc16 relAddr tgtAddr A
      else if k \<in> {R_MIPS_PC18_S3, R_MICROMIPS_PC18_S3} then relocPc18 relAddr tgtAddr A
      else if k \<in> {R_MIPS_PC19_S2, R_MICROMIPS_PC19_S2} then relocPc19 relAddr tgtAddr A
      else if k \<in> {R_MIPS_PC21_S2, R_MICROMIPS_PC21_S2} then relocPc21 relAddr tgtAddr A
      else if k \<in> {R_MIPS_PC26_S2, R_MICROMIPS_PC26_S2} then relocPc26 relAddr tgtAddr A
      else if k \<in> {R_MICROMIPS_PC7_S1, R_MICROMIPS_PC10_S1, R_MICROMIPS_PC16_S1, R_MICROMIPS_PC23_S2}
        then Inr (tgtAddr + A - relAddr)
      else if k \<in> {R_MIPS_TLS_DTPREL_HI16, R_MIPS_TLS_TPREL_HI16, R_MICROMIPS_TLS_DTPREL_HI16,
          R_MICROMIPS_TLS_TPREL_HI16} then Inr (relocHi16 0 tgtAddr A False)
      else if k \<in> {R_MIPS_TLS_DTPREL_LO16, R_MIPS_TLS_TPREL_LO16} then Inr (relocLo16 0 tgtAddr A False False)
      else if k \<in> {R_MICROMIPS_TLS_DTPREL_LO16, R_MICROMIPS_TLS_TPREL_LO16}
        then Inr (relocLo16 0 tgtAddr A False True)
      else if k \<in> {R_MIPS_GPREL16, R_MIPS_GPREL32, R_MIPS_LITERAL, R_MICROMIPS_GPREL16, R_MICROMIPS_GPREL7_S2,
          R_MICROMIPS_LITERAL} then Inr (tgtAddr + A - gpAddr)
      else if k \<in> {R_MIPS_JALR, R_MICROMIPS_JALR} then Inr 0
      else if k = R_MIPS_REL32 then Inr (relocRel32 A)
      else if k \<in> {R_MIPS_JUMP_SLOT, R_MIPS_COPY} then Inr 0
      else if k \<in> {R_MIPS_TLS_DTPMOD32, R_MIPS_TLS_DTPMOD64} then Inr (if isDynamic then 0 else 1)
      else if k \<in> {R_MIPS_TLS_DTPREL32, R_MIPS_TLS_DTPREL64}
        then Inr (if isDynamic then 0 else tgtAddr + A - 0x8000)
      else if k \<in> {R_MIPS_TLS_TPREL32, R_MIPS_TLS_TPREL64}
        then Inr (if isDynamic then 0 else tgtAddr + A - 0x7000)
      else if k = R_MIPS_PC32 then Inr (tgtAddr + A - relAddr)
      else if k \<in> {LLD_R_MIPS_32_HI16, LLD_R_MIPS_64_HI16} then Inr (maskLow16 (tgtAddr + A))
      else if k = LLD_R_MIPS_GLOBAL_26 then Inr (reloc26ext tgtAddr (ucast A) 2)
      else if k = LLD_R_MICROMIPS_GLOBAL_26_S1
        then Inr (reloc26ext tgtAddr (ucast A) (if isCrossJump then 2 else 1))
      else if k \<in> {LLD_R_MIPS_STO_PLT, LLD_R_MIPS_GLOBAL_GOT} then Inr 0
      else Inl unhandled_reloc)"

section \<open>Jumps between instruction sets\<close>

datatype cross_jump_mode = NoCrossJump | ToRegular | ToMicro

definition adjustJumpOpCode :: "u64 \<Rightarrow> u64 \<Rightarrow> cross_jump_mode \<Rightarrow> reloc_error + u64" where
  "adjustJumpOpCode ins tgt mode =
     (if mode = NoCrossJump then Inr ins
      else let toMicro = (mode = ToMicro);
               opNative = (if toMicro then 0x03 else 0x3d);
               opCross = (if toMicro then 0x1d else 0x3c) :: u64;
               op = ucast (drop_bit 26 ins) :: u8 in
        if tgt AND 1 \<noteq> of_bool toMicro then Inl (reloc_message ''Incorrect bit 0 for the jalx target'')
        else if tgt AND 2 \<noteq> 0 then Inl (reloc_message ''The jalx target is not word-aligned'')
        else if op \<noteq> opNative \<and> op \<noteq> ucast opCross
        then Inl (reloc_message ''Unsupported jump opcode for ISA modes cross call'')
        else Inr ((ins AND 0x3ffffff) OR push_bit 26 opCross))"

definition isMicroMipsAtom :: "store \<Rightarrow> atom_id \<Rightarrow> bool" where
  "isMicroMipsAtom h a \<longleftrightarrow> is_defined_at h a \<and>
     codeModel (the_defined (atom_at h a)) \<in> {codeMipsMicro, codeMipsMicroPIC}"

definition getCrossJumpMode :: "store \<Rightarrow> atom_id \<Rightarrow> mips_reloc \<Rightarrow> cross_jump_mode" where
  "getCrossJumpMode h a k =
     (if \<not> is_defined_at h a then NoCrossJump
      else if k \<in> {R_MIPS_26, LLD_R_MIPS_GLOBAL_26} then if isMicroMipsAtom h a then ToMicro else NoCrossJump
      else if k \<in> {R_MICROMIPS_26_S1, LLD_R_MICROMIPS_GLOBAL_26_S1}
        then if isMicroMipsAtom h a then NoCrossJump else ToRegular
      else NoCrossJump)"

section \<open>Reading and writing the field\<close>

definition microShuffle :: "u64 \<Rightarrow> u64" where
  "microShuffle ins = (ins AND 0xffffffff00000000) OR push_bit 16 (ins AND 0xffff) OR
     drop_bit 16 (ins AND 0xffff0000)"

definition relocRead :: "reloc_params \<Rightarrow> mem \<Rightarrow> nat \<Rightarrow> u64" where
  "relocRead p m l =
     (let data = (if p_size p = 4 then ucast (read32le m l) else read64le m l)
      in if p_shuffle p then microShuffle data else data)"

definition relocWrite :: "u64 \<Rightarrow> reloc_params \<Rightarrow> nat \<Rightarrow> mem \<Rightarrow> mem" where
  "relocWrite data0 p l m =
     (let data = (if p_shuffle p then microShuffle data0 else data0)
      in if p_size p = 4 then write32le m l (ucast data) else write64le m l data)"

section \<open>Applying a relocation\<close>

record mips_env = "mips_reloc reloc_env" +
  mips_objects :: store
  getGPAddr :: u64
  isDynamicLink :: bool

definition getRelKind :: "mips_env \<Rightarrow> reference \<Rightarrow> nat \<Rightarrow> mips_reloc" where
  "getRelKind env ref num =
     (if num = 0 then kindOf env (kindValue ref)
      else if num > 2 then R_MIPS_NONE
      else kindOf env (ucast (drop_bit (8 * (num - 1)) (tag ref) AND 0xff)))"

definition getRelShift :: "mips_reloc \<Rightarrow> reloc_params \<Rightarrow> bool \<Rightarrow> nat" where
  "getRelShift k p isCrossJump =
     (if isCrossJump \<and> k \<in> {R_MICROMIPS_26_S1, LLD_R_MICROMIPS_GLOBAL_26_S1} then 2 else p_shift p)"

text \<open>The loop over the composed kinds, with the running \<open>res\<close>, \<open>sym\<close> (\<open>S\<close>), \<open>isGpDisp\<close>, \<open>isCrossJump\<close> and
  \<open>lastRel\<close>; the result is the last \<open>res\<close> and \<open>lastRel\<close>.\<close>

fun mips_chain ::
  "mips_env \<Rightarrow> u64 \<Rightarrow> mips_reloc list \<Rightarrow> i64 \<Rightarrow> u64 \<Rightarrow> bool \<Rightarrow> bool \<Rightarrow> mips_reloc \<Rightarrow> reloc_error + i64 \<times> mips_reloc" where
  "mips_chain env relAddr [] res S isGpDisp isCrossJump lastRel = Inr (res, lastRel)"
| "mips_chain env relAddr (k # ks) res S isGpDisp isCrossJump lastRel =
     (if k = R_MIPS_NONE then Inr (res, lastRel)
      else case getRelocationParams k of
             None \<Rightarrow> Inl (reloc_assertion ''Unknown relocation'')
           | Some p \<Rightarrow>
               bind_res (calculateRelocation k res S relAddr (getGPAddr env) isGpDisp isCrossJump (isDynamicLink env))
                 (\<lambda>r. if (ks = [] \<or> hd ks = R_MIPS_NONE) \<and> \<not> check_overflow (p_overflow p) r isGpDisp
                      then Inl out_of_range_reloc
                      else mips_chain env relAddr ks (signed_drop_bit (getRelShift k p isCrossJump) r) 0 False False k))"

definition mips_applyRelocation :: "mips_env \<Rightarrow> atom_layout \<Rightarrow> reference \<Rightarrow> patch" where
  "mips_applyRelocation env ai ref m =
     (let h = mips_objects env; k = kindOf env (kindValue ref);
          isGpDisp = (name_of h (target ref) = ''_gp_disp'');
          location = reloc_loc ai ref; relAddr = reloc_addr ai ref;
          tgtAddr = addressOfAtom env (target ref) OR of_bool (isMicroMipsAtom h (target ref));
          jumpMode = getCrossJumpMode h (target ref) k in
      if kindNamespace ref \<noteq> ns_ELF then Inr m
      else if kindArch ref \<noteq> arch_Mips then Inl (reloc_assertion ''kindArch'')
      else bind_res (mips_chain env relAddr (map (getRelKind env ref) [0, 1, 2]) (addend ref) tgtAddr isGpDisp
             (jumpMode \<noteq> NoCrossJump) R_MIPS_NONE) (\<lambda>(res, lastRel).
        case getRelocationParams lastRel of
          None \<Rightarrow> Inl (reloc_assertion ''Unknown relocation'')
        | Some p \<Rightarrow>
            bind_res (adjustJumpOpCode (relocRead p m location) tgtAddr jumpMode) (\<lambda>ins.
              Inr (relocWrite ((ins AND NOT (p_mask p)) OR (res AND p_mask p)) p location m))))"

definition readMipsRelocAddend :: "mips_reloc \<Rightarrow> mem \<Rightarrow> nat \<Rightarrow> i64 option" where
  "readMipsRelocAddend k m l =
     (case getRelocationParams k of
        None \<Rightarrow> None
      | Some p \<Rightarrow>
          let ins = relocRead p m l; res = push_bit (p_shift p) (ins AND p_mask p) in
          Some (if k \<in> {R_MIPS_GPREL16, R_MICROMIPS_GPREL16, R_MIPS_PCLO16, R_MIPS_LITERAL, R_MICROMIPS_LITERAL}
                  then signExtend 16 res
                else if k = R_MICROMIPS_GPREL7_S2 then signExtend 9 res
                else if k = R_MICROMIPS_PC7_S1 then signExtend 8 res
                else if k = R_MICROMIPS_PC10_S1 then signExtend 11 res
                else if k = R_MICROMIPS_PC16_S1 then signExtend 17 res
                else if k = R_MICROMIPS_PC23_S2 then signExtend 25 res
                else res))"

section \<open>The table of parameters\<close>

text \<open>A checked field of \<open>n\<close> bits after the shift is exactly the bits its mask keeps.\<close>

definition params_ok :: "reloc_params \<Rightarrow> bool" where
  "params_ok p \<longleftrightarrow> (p_size p = 4 \<or> p_size p = 8) \<and>
     (case p_overflow p of
        signedCheck n \<Rightarrow> p_size p = 4 \<and> p_mask p = mask (n - p_shift p) \<and> p_shift p < n \<and> n \<le> 28
      | _ \<Rightarrow> True)"

lemma mips_masks:
  "(0xffffffff00000000 :: u64) = push_bit 32 (mask 32)" "(0xffff :: u64) = mask 16" "(0xffff0000 :: u64) = push_bit 16 (mask 16)"
  by (simp_all add: mask_eq_exp_minus_1 push_bit_eq_mult)

lemma pred_option_if: "pred_option R x \<Longrightarrow> pred_option R y \<Longrightarrow> pred_option R (if c then x else y)"
  by simp

lemma getRelocationParams_ok: "pred_option params_ok (getRelocationParams k)"
  unfolding getRelocationParams_def
  by (intro pred_option_if) (simp_all add: params_ok_def mask_eq_exp_minus_1)

lemma params_size: "getRelocationParams k = Some p \<Longrightarrow> p_size p = 4 \<or> p_size p = 8"
  using getRelocationParams_ok [of k] by (simp add: params_ok_def)

lemma params_signed:
  "getRelocationParams k = Some p \<Longrightarrow> p_overflow p = signedCheck n \<Longrightarrow>
   p_size p = 4 \<and> p_mask p = mask (n - p_shift p) \<and> p_shift p < n \<and> n \<le> 28"
  using getRelocationParams_ok [of k] by (simp add: params_ok_def)

section \<open>The bytes a relocation touches\<close>

fun mips_last :: "mips_reloc list \<Rightarrow> mips_reloc \<Rightarrow> mips_reloc" where
  "mips_last [] l = l"
| "mips_last (k # ks) l = (if k = R_MIPS_NONE then l else mips_last ks k)"

lemma mips_chain_last: "mips_chain env P ks res S gp cj l = Inr (r, k) \<Longrightarrow> k = mips_last ks l"
proof (induction ks arbitrary: res S gp cj l)
  case (Cons a ks)
  then show ?case by (auto simp: bind_res_def split: if_splits option.splits sum.splits)
qed simp

definition mips_touched :: "mips_env \<Rightarrow> atom_layout \<Rightarrow> reference \<Rightarrow> nat set" where
  "mips_touched env ai ref =
     (case getRelocationParams (mips_last (map (getRelKind env ref) [0, 1, 2]) R_MIPS_NONE) of
        None \<Rightarrow> {}
      | Some p \<Rightarrow> {reloc_loc ai ref..<reloc_loc ai ref + p_size p})"

lemma relocRead_local:
  "p_size p = 4 \<or> p_size p = 8 \<Longrightarrow> (\<And>b. b \<in> {l..<l + p_size p} \<Longrightarrow> m1 b = m2 b) \<Longrightarrow> relocRead p m1 l = relocRead p m2 l"
  using read32le_local [of l m1 m2] read64le_local [of l m1 m2] by (auto simp: relocRead_def)

lemma relocWrite_keeps:
  assumes "p_size p = 4 \<or> p_size p = 8"
  shows "keeps_to {l..<l + p_size p} (\<lambda>m. Inr (relocWrite v p l m))"
  using assms keeps_to_patch32 [OF refl, of l "\<lambda>_. ucast (if p_shuffle p then microShuffle v else v)"]
    keeps_to_patch64 [OF refl, of l "\<lambda>_. if p_shuffle p then microShuffle v else v"]
  by (auto simp: relocWrite_def Let_def)

lemma mips_keeps: "keeps_to (mips_touched env ai ref) (mips_applyRelocation env ai ref)"
proof -
  let ?X = "mips_touched env ai ref"
  have "keeps_to ?X (\<lambda>m. bind_res (mips_chain env P (map (getRelKind env ref) [0, 1, 2]) A S gp cj R_MIPS_NONE)
      (\<lambda>(res, lastRel). case getRelocationParams lastRel of
          None \<Rightarrow> Inl (reloc_assertion ''Unknown relocation'')
        | Some p \<Rightarrow> bind_res (adjustJumpOpCode (relocRead p m (reloc_loc ai ref)) S mode) (\<lambda>ins.
              Inr (relocWrite ((ins AND NOT (p_mask p)) OR (res AND p_mask p)) p (reloc_loc ai ref) m))))"
      (is "keeps_to _ (\<lambda>m. bind_res ?c (?rest m))") for P A S gp cj mode
  proof (cases ?c)
    case (Inl e)
    then show ?thesis by (simp only: bind_res_simps) (rule keeps_to_error)
  next
    case (Inr rk)
    obtain r k where rk: "rk = (r, k)" by force
    with Inr have k: "k = mips_last (map (getRelKind env ref) [0, 1, 2]) R_MIPS_NONE"
      using mips_chain_last by blast
    show ?thesis
    proof (cases "getRelocationParams k")
      case None
      then show ?thesis unfolding Inr rk bind_res_simps case_prod_conv by (simp only: option.case keeps_to_error)
    next
      case (Some p)
      then have X: "?X = {reloc_loc ai ref..<reloc_loc ai ref + p_size p}"
        using k by (simp add: mips_touched_def)
      let ?w = "\<lambda>ins m. relocWrite ((ins AND NOT (p_mask p)) OR (r AND p_mask p)) p (reloc_loc ai ref) m"
      have w: "keeps_to ?X (\<lambda>m. bind_res (adjustJumpOpCode v S mode) (\<lambda>ins. Inr (?w ins m)))" for v
        unfolding X by (cases "adjustJumpOpCode v S mode")
          (simp_all only: bind_res_simps keeps_to_error relocWrite_keeps params_size [OF Some])
      have "keeps_to ?X (\<lambda>m. bind_res (adjustJumpOpCode (relocRead p m (reloc_loc ai ref)) S mode)
          (\<lambda>ins. Inr (?w ins m)))"
        by (rule keeps_to_read [where rd = "\<lambda>m. relocRead p m (reloc_loc ai ref)"
              and f = "\<lambda>v m. bind_res (adjustJumpOpCode v S mode) (\<lambda>ins. Inr (?w ins m))", OF _ w])
          (rule relocRead_local [OF params_size [OF Some]], simp add: X)
      then show ?thesis
        unfolding Inr rk bind_res_simps case_prod_conv by (simp only: Some option.case)
    qed
  qed
  then show ?thesis
    unfolding mips_applyRelocation_def [abs_def] Let_def
    by (intro keeps_to_if keeps_to_error keeps_to_skip)
qed

interpretation mips: reloc_handler "mips_applyRelocation env" "mips_touched env" for env
  by unfold_locales (rule mips_keeps)

section \<open>Reading back what was written\<close>

lemma microShuffle_twice: "microShuffle (microShuffle w) = w"
proof (rule bit_word_eqI)
  fix n
  assume "n < LENGTH(64)"
  then consider "n < 16" | "16 \<le> n" "n < 32" | "32 \<le> n" "n < 64" by force
  then show "bit (microShuffle (microShuffle w)) n = bit w n"
    by cases (auto simp: microShuffle_def mips_masks bit_simps)
qed

lemma microShuffle_low: "microShuffle (take_bit 32 w) = take_bit 32 (microShuffle w)"
  by (rule bit_word_eqI) (auto simp: microShuffle_def mips_masks bit_simps)

lemma ucast_ucast_take: "ucast (ucast w :: u32) = (take_bit 32 w :: u64)"
  by (rule bit_word_eqI) (auto simp: bit_simps)

lemma relocRead_relocWrite:
  "p_size p = 4 \<Longrightarrow> relocRead p (relocWrite d p l m) l = take_bit 32 d"
  "p_size p = 8 \<Longrightarrow> relocRead p (relocWrite d p l m) l = d"
  by (simp_all add: relocRead_def relocWrite_def microShuffle_twice microShuffle_low ucast_ucast_take)

section \<open>One relocation at a location\<close>

definition mips_ref :: "mips_env \<Rightarrow> reference \<Rightarrow> mips_reloc \<Rightarrow> bool" where
  "mips_ref env ref k \<longleftrightarrow> kindNamespace ref = ns_ELF \<and> kindArch ref = arch_Mips \<and>
     kindOf env (kindValue ref) = k \<and> k \<noteq> R_MIPS_NONE \<and> getRelKind env ref 1 = R_MIPS_NONE"

text \<open>The address of the target, with the ISA bit of microMIPS code.\<close>

definition mips_target :: "mips_env \<Rightarrow> reference \<Rightarrow> u64" where
  "mips_target env ref = addressOfAtom env (target ref) OR of_bool (isMicroMipsAtom (mips_objects env) (target ref))"

definition is_gp_disp :: "mips_env \<Rightarrow> reference \<Rightarrow> bool" where
  "is_gp_disp env ref \<longleftrightarrow> name_of (mips_objects env) (target ref) = ''_gp_disp''"

definition jump_mode :: "mips_env \<Rightarrow> reference \<Rightarrow> cross_jump_mode" where
  "jump_mode env ref = getCrossJumpMode (mips_objects env) (target ref) (kindOf env (kindValue ref))"

text \<open>The value the single relocation \<open>k\<close> computes.\<close>

definition mips_value :: "mips_env \<Rightarrow> atom_layout \<Rightarrow> reference \<Rightarrow> mips_reloc \<Rightarrow> reloc_error + i64" where
  "mips_value env ai ref k = calculateRelocation k (addend ref) (mips_target env ref) (reloc_addr ai ref) (getGPAddr env)
     (is_gp_disp env ref) (jump_mode env ref \<noteq> NoCrossJump) (isDynamicLink env)"

lemma mips_single:
  assumes "mips_ref env ref k" and "getRelocationParams k = Some p"
  shows "mips_applyRelocation env ai ref m = bind_res (mips_value env ai ref k) (\<lambda>r.
     if \<not> check_overflow (p_overflow p) r (is_gp_disp env ref) then Inl out_of_range_reloc
     else bind_res (adjustJumpOpCode (relocRead p m (reloc_loc ai ref)) (mips_target env ref) (jump_mode env ref)) (\<lambda>ins.
       Inr (relocWrite ((ins AND NOT (p_mask p)) OR
         (signed_drop_bit (getRelShift k p (jump_mode env ref \<noteq> NoCrossJump)) r AND p_mask p)) p (reloc_loc ai ref) m)))"
proof -
  have r: "kindNamespace ref = ns_ELF" "kindArch ref = arch_Mips" "kindOf env (kindValue ref) = k" "k \<noteq> R_MIPS_NONE"
    using assms(1) by (simp_all add: mips_ref_def)
  have "map (getRelKind env ref) [0, 1, 2] = [k, R_MIPS_NONE, getRelKind env ref 2]"
    using assms(1) by (simp add: mips_ref_def getRelKind_def)
  then have "mips_applyRelocation env ai ref m = bind_res (bind_res (mips_value env ai ref k)
      (\<lambda>r. if \<not> check_overflow (p_overflow p) r (is_gp_disp env ref) then Inl out_of_range_reloc
        else Inr (signed_drop_bit (getRelShift k p (jump_mode env ref \<noteq> NoCrossJump)) r, k)))
      (\<lambda>(res, lastRel). case getRelocationParams lastRel of
          None \<Rightarrow> Inl (reloc_assertion ''Unknown relocation'')
        | Some p \<Rightarrow> bind_res (adjustJumpOpCode (relocRead p m (reloc_loc ai ref)) (mips_target env ref) (jump_mode env ref))
            (\<lambda>ins. Inr (relocWrite ((ins AND NOT (p_mask p)) OR (res AND p_mask p)) p (reloc_loc ai ref) m)))"
    unfolding mips_applyRelocation_def Let_def mips_target_def is_gp_disp_def jump_mode_def mips_value_def
    by (simp only: r assms(2) mips_chain.simps option.case simp_thms if_True if_False list.sel)
  then show ?thesis
    by (cases "mips_value env ai ref k") (simp_all add: assms(2))
qed

lemma no_cross_jump:
  "getRelocationParams k = Some p \<Longrightarrow> p_overflow p = signedCheck n \<Longrightarrow> mips_ref env ref k \<Longrightarrow> jump_mode env ref = NoCrossJump"
  by (auto simp: jump_mode_def mips_ref_def getCrossJumpMode_def getRelocationParams_def)

text \<open>The value a field of \<open>k\<close> holds: the bits under the mask, shifted and sign-extended.\<close>

definition mips_field :: "nat \<Rightarrow> reloc_params \<Rightarrow> mem \<Rightarrow> nat \<Rightarrow> i64" where
  "mips_field n p m l = signExtend n (push_bit (p_shift p) (relocRead p m l AND p_mask p))"

lemma bit_signed_drop: "i < 64 \<Longrightarrow> bit (signed_drop_bit s (r :: i64)) i \<longleftrightarrow> bit r (min (i + s) 63)"
  by (auto simp: bit_signed_drop_bit_iff min_def) (metis add.commute)+

lemma field_bits:
  assumes "k \<le> 28" and "k + s \<le> 28"
  shows "push_bit s (take_bit 32 ((w AND NOT (mask k)) OR (signed_drop_bit s r AND mask k)) AND mask k)
    = take_bit (k + s) (r :: i64) AND NOT (mask s)"
proof (rule bit_word_eqI)
  fix i
  assume "i < LENGTH(64)"
  with assms show "bit (push_bit s (take_bit 32 ((w AND NOT (mask k)) OR (signed_drop_bit s r AND mask k)) AND mask k)) i
      = bit (take_bit (k + s) r AND NOT (mask s)) i"
    by (cases "s \<le> i \<and> i < k + s")
      (auto simp: bit_push_bit_iff bit_take_bit_iff bit_and_iff bit_or_iff bit_not_iff bit_mask_iff bit_signed_drop)
qed

lemma signExtend_masked:
  "s < n \<Longrightarrow> n \<le> 28 \<Longrightarrow> signExtend n (take_bit n r AND NOT (mask s)) = signExtend n r AND NOT (mask s)"
  by (rule bit_word_eqI)
    (simp add: signExtend_def bit_signed_take_bit_iff bit_take_bit_iff bit_and_iff bit_not_iff bit_mask_iff min_def, linarith)

lemma field_value:
  assumes "isInt n r" and "s < n" and "n \<le> 28"
  shows "signExtend n (push_bit s (take_bit 32 ((w AND NOT (mask (n - s))) OR (signed_drop_bit s r AND mask (n - s))) AND mask (n - s)))
    = r AND NOT (mask s)"
  using field_bits [of "n - s" s w r] signExtend_masked [of s n r] isInt_signExtend [OF assms(1)] assms(2,3) by simp

lemma relocWrite_frame: "p_size p = 4 \<or> p_size p = 8 \<Longrightarrow> a \<notin> {l..<l + p_size p} \<Longrightarrow> relocWrite d p l m a = m a"
  using keeps_to_frame [OF relocWrite_keeps [of p l d], of m _ a] by blast

text \<open>C30: Every checked field of the MIPS handler is exact: for each kind whose parameters ask for \<open>n\<close> signed
  bits, the relocation succeeds just when the computed value fits them; the field then reads back as that
  value without the bits the shift drops, and nothing outside the field changes.\<close>

theorem mips_checked_field:
  assumes "mips_ref env ref k" and "getRelocationParams k = Some p" and "p_overflow p = signedCheck n"
    and "mips_value env ai ref k = Inr r"
  shows "if isInt n r
     then \<exists>m'. mips_applyRelocation env ai ref m = Inr m' \<and>
       mips_field n p m' (reloc_loc ai ref) = r AND NOT (mask (p_shift p)) \<and>
       relocRead p m' (reloc_loc ai ref) AND NOT (p_mask p) = relocRead p m (reloc_loc ai ref) AND NOT (p_mask p) AND mask 32 \<and>
       (\<forall>a. a \<notin> {reloc_loc ai ref..<reloc_loc ai ref + 4} \<longrightarrow> m' a = m a)
     else mips_applyRelocation env ai ref m = Inl out_of_range_reloc"
proof (cases "isInt n r")
  case False
  with mips_single [OF assms(1,2), of ai m] assms(3,4) show ?thesis by simp
next
  case True
  let ?l = "reloc_loc ai ref"
  from params_signed [OF assms(2,3)] have p: "p_size p = 4" "p_mask p = mask (n - p_shift p)" "p_shift p < n" "n \<le> 28" by auto
  have j: "jump_mode env ref = NoCrossJump" by (rule no_cross_jump [OF assms(2,3,1)])
  define d where "d = (relocRead p m ?l AND NOT (p_mask p)) OR (signed_drop_bit (p_shift p) r AND p_mask p)"
  have a: "mips_applyRelocation env ai ref m = Inr (relocWrite d p ?l m)"
    using mips_single [OF assms(1,2), of ai m] assms(3,4) True j
    by (simp add: adjustJumpOpCode_def getRelShift_def d_def)
  have "mips_field n p (relocWrite d p ?l m) ?l = r AND NOT (mask (p_shift p))"
    using field_value [OF True p(3,4)] by (simp add: mips_field_def relocRead_relocWrite p d_def)
  moreover have "relocRead p (relocWrite d p ?l m) ?l AND NOT (p_mask p) = relocRead p m ?l AND NOT (p_mask p) AND mask 32"
    unfolding relocRead_relocWrite(1) [OF p(1)] d_def by (rule bit_word_eqI) (auto simp: bit_simps)
  ultimately show ?thesis
    using a True relocWrite_frame [of p _ ?l d m] p(1) by (intro if_P [THEN iffD2]) auto
qed

text \<open>C33: The addend read back from a relocated field is the value that was written, for the fields the
  reader sign-extends.\<close>

theorem mips_addend_roundtrip:
  assumes "mips_ref env ref k" and "mips_value env ai ref k = Inr r" and "mips_applyRelocation env ai ref m = Inr m'"
    and "k \<in> {R_MIPS_GPREL16, R_MICROMIPS_GPREL16, R_MIPS_PCLO16, R_MIPS_LITERAL, R_MICROMIPS_LITERAL,
      R_MICROMIPS_GPREL7_S2, R_MICROMIPS_PC7_S1, R_MICROMIPS_PC10_S1, R_MICROMIPS_PC16_S1, R_MICROMIPS_PC23_S2}"
  shows "\<exists>p. getRelocationParams k = Some p \<and>
    readMipsRelocAddend k m' (reloc_loc ai ref) = Some (r AND NOT (mask (p_shift p)))"
proof -
  let ?l = "reloc_loc ai ref"
  have "\<exists>p n. getRelocationParams k = Some p \<and> p_overflow p = signedCheck n \<and>
      readMipsRelocAddend k m' ?l = Some (mips_field n p m' ?l)"
    using assms(4)
    by (elim insertE emptyE; simp only: readMipsRelocAddend_def getRelocationParams_def)
      (simp_all add: mips_field_def Let_def)
  then obtain p n where p: "getRelocationParams k = Some p" "p_overflow p = signedCheck n"
    "readMipsRelocAddend k m' ?l = Some (mips_field n p m' ?l)" by blast
  show ?thesis
  proof (cases "isInt n r")
    case False
    with mips_single [OF assms(1) p(1), of ai m] p(2) assms(2,3) show ?thesis by simp
  next
    case True
    from params_signed [OF p(1,2)] have f: "p_size p = 4" "p_mask p = mask (n - p_shift p)" "p_shift p < n" "n \<le> 28" by auto
    have "m' = relocWrite ((relocRead p m ?l AND NOT (p_mask p)) OR (signed_drop_bit (p_shift p) r AND p_mask p)) p ?l m"
      using mips_single [OF assms(1) p(1), of ai m] p(2) assms(2,3) True no_cross_jump [OF p(1,2) assms(1)]
      by (simp add: adjustJumpOpCode_def getRelShift_def)
    then have "mips_field n p m' ?l = r AND NOT (mask (p_shift p))"
      using field_value [OF True f(3,4)] by (simp add: mips_field_def relocRead_relocWrite f)
    with p show ?thesis by simp
  qed
qed

section \<open>Halves of an address\<close>

lemma take_bit_inner:
  assumes "m \<le> n"
  shows "take_bit m (take_bit n a + b) = take_bit m (a + b :: int)"
    and "take_bit m (take_bit n a - take_bit n b) = take_bit m (a - b :: int)"
proof -
  have "take_bit m (take_bit m (take_bit n a) + take_bit m b) = take_bit m (take_bit m a + take_bit m b)"
    using assms by (simp add: min_def)
  then show "take_bit m (take_bit n a + b) = take_bit m (a + b)" by (simp only: take_bit_add)
  have "take_bit m (take_bit m (take_bit n a) - take_bit m (take_bit n b)) = take_bit m (take_bit m a - take_bit m b)"
    using assms by (simp add: min_def)
  then show "take_bit m (take_bit n a - take_bit n b) = take_bit m (a - b)" by (simp only: take_bit_diff)
qed

lemma ucast_down_minus: "(ucast (a - b :: u64) :: u32) = ucast a - ucast b"
  by transfer (simp add: take_bit_inner)

lemma ucast_down_add: "(ucast (a + b :: u64) :: u32) = ucast a + ucast b"
  using ucast_down_minus [of "a + b" b] by simp

lemma signExtend16: "signExtend 16 (v :: u64) = take_bit 16 (v + 0x8000) - 0x8000"
  unfolding signExtend_def
  by transfer (simp add: signed_take_bit_eq_take_bit_shift take_bit_inner)

text \<open>A LUI and a sign-extending add put the two halves together again.\<close>

lemma hi_lo_join:
  "(ucast (push_bit 16 (getHi16 v) + signExtend 16 v) :: u32) = ucast v"
proof -
  let ?w = "v + 0x8000"
  have "push_bit 16 (getHi16 v) + take_bit 16 ?w = push_bit 16 (getHi16 v) OR take_bit 16 ?w"
    by (rule disjunctive_add) (auto simp: bit_simps)
  also have "\<dots> = take_bit 32 ?w"
    by (rule bit_word_eqI) (auto simp: getHi16_def mips_masks bit_simps min_def)
  finally have "push_bit 16 (getHi16 v) + signExtend 16 v = take_bit 32 ?w - 0x8000"
    unfolding signExtend16 by (simp add: algebra_simps)
  moreover have "(ucast (take_bit 32 ?w) :: u32) = ucast ?w"
    by (rule bit_word_eqI) (auto simp: bit_simps)
  ultimately show ?thesis by (simp add: ucast_down_minus ucast_down_add)
qed

lemma getHi16_range: "getHi16 v AND 0xffff = getHi16 v" "int32_result (getHi16 v) = getHi16 v"
  by (rule bit_word_eqI, auto simp: getHi16_def int32_result_def mips_masks bit_simps min_def)+

lemma lo16_truncated: "signExtend 16 (int32_result v AND 0xffff) = signExtend 16 v"
  by (rule bit_word_eqI) (auto simp: signExtend_def int32_result_def mips_masks bit_simps min_def)

text \<open>What a LUI and the following ADDIU or load between them add, from the fields at \<open>lh\<close> and \<open>ll\<close>.\<close>

definition hi_lo_value :: "reloc_params \<Rightarrow> mem \<Rightarrow> nat \<Rightarrow> nat \<Rightarrow> u32" where
  "hi_lo_value p m lh ll = ucast (push_bit 16 (relocRead p m lh AND 0xffff) + signExtend 16 (relocRead p m ll AND 0xffff))"

lemma field16_written:
  assumes "p_size p = 4" and "p_mask p = 0xffff"
    and "m' = relocWrite ((relocRead p m l AND NOT (p_mask p)) OR (r AND p_mask p)) p l m"
  shows "relocRead p m' l AND 0xffff = r AND 0xffff" and "a \<notin> {l..<l + 4} \<Longrightarrow> m' a = m a"
  using assms relocWrite_frame [of p a l _ m]
  by (auto simp: relocRead_relocWrite intro!: bit_word_eqI) (auto simp: bit_simps mips_masks)

text \<open>Writing the two halves of \<open>v\<close>, one after the other, into fields that do not overlap.\<close>

lemma hi_lo_written:
  assumes p: "p_size p = 4" "p_mask p = 0xffff"
    and "m1 = relocWrite ((relocRead p m lh AND NOT (p_mask p)) OR (getHi16 v AND p_mask p)) p lh m"
    and "m2 = relocWrite ((relocRead p m1 ll AND NOT (p_mask p)) OR (int32_result v AND p_mask p)) p ll m1"
    and d: "lh + 4 \<le> ll \<or> ll + 4 \<le> lh"
  shows "hi_lo_value p m2 lh ll = ucast v"
proof -
  have "relocRead p m2 lh = relocRead p m1 lh"
    by (rule relocRead_local) (use p d field16_written(2) [OF p assms(4)] in auto)
  then have "hi_lo_value p m2 lh ll = ucast (push_bit 16 (getHi16 v) + signExtend 16 v)"
    unfolding hi_lo_value_def field16_written(1) [OF p assms(4)]
    by (simp add: field16_written(1) [OF p assms(3)] getHi16_range lo16_truncated)
  then show ?thesis by (simp only: hi_lo_join)
qed

lemma half_params:
  "k \<in> {R_MIPS_HI16, R_MIPS_LO16, R_MICROMIPS_HI16, R_MICROMIPS_LO16} \<Longrightarrow>
     \<exists>p. getRelocationParams k = Some p \<and> p_size p = 4 \<and> p_mask p = 0xffff \<and> p_shift p = 0 \<and>
       p_shuffle p = (k \<in> {R_MICROMIPS_HI16, R_MICROMIPS_LO16}) \<and>
       p_overflow p = (if k \<in> {R_MIPS_HI16, R_MICROMIPS_HI16} then gpDispCheck 16 else dummyCheck)"
  by (elim insertE emptyE; simp add: getRelocationParams_def)

text \<open>The parameters that decide how a field is read.\<close>

definition field16 :: "bool \<Rightarrow> reloc_params" where
  "field16 micro = \<lparr>p_size = 4, p_mask = 0xffff, p_shift = 0, p_shuffle = micro, p_overflow = dummyCheck\<rparr>"

lemma relocRead_field16: "p_size p = 4 \<Longrightarrow> relocRead p = relocRead (field16 (p_shuffle p))"
  by (rule ext)+ (simp add: relocRead_def field16_def)

lemma relocWrite_field16: "p_size p = 4 \<Longrightarrow> relocWrite d p = relocWrite d (field16 (p_shuffle p))"
  by (rule ext)+ (simp add: relocWrite_def field16_def)

lemma calculate_half:
  "calculateRelocation R_MIPS_HI16 A S P gp g cj d = Inr (relocHi16 P S A g)"
  "calculateRelocation R_MICROMIPS_HI16 A S P gp g cj d = Inr (relocHi16 P S A g)"
  "calculateRelocation R_MIPS_LO16 A S P gp g cj d = Inr (relocLo16 P S A g False)"
  "calculateRelocation R_MICROMIPS_LO16 A S P gp g cj d = Inr (relocLo16 P S A g True)"
  "calculateRelocation R_MIPS_GPREL16 A S P gp g cj d = Inr (S + A - gp)"
  "calculateRelocation R_MIPS_SUB A S P gp g cj d = Inr (S - A)"
  "calculateRelocation R_MIPS_26 A S P gp g cj d = Inr (reloc26loc P S (ucast A) 2)"
  by (simp_all add: calculateRelocation_def)

text \<open>What a HI16 or LO16 relocation splits: target plus addend, or for \<open>_gp_disp\<close> the distance to it.\<close>

definition half_sum :: "mips_env \<Rightarrow> atom_layout \<Rightarrow> reference \<Rightarrow> mips_reloc \<Rightarrow> u64" where
  "half_sum env ai ref k =
     (if is_gp_disp env ref
      then addend ref + mips_target env ref - reloc_addr ai ref +
           (if k = R_MIPS_LO16 then 4 else if k = R_MICROMIPS_LO16 then 3 else 0)
      else addend ref + mips_target env ref)"

definition half_of :: "mips_reloc \<Rightarrow> u64 \<Rightarrow> u64" where
  "half_of k v = (if k \<in> {R_MIPS_HI16, R_MICROMIPS_HI16} then getHi16 v else int32_result v)"

lemma mips_half_run:
  assumes "mips_ref env ref k" and k: "k \<in> {R_MIPS_HI16, R_MIPS_LO16, R_MICROMIPS_HI16, R_MICROMIPS_LO16}"
    and "is_gp_disp env ref \<and> k \<in> {R_MIPS_HI16, R_MICROMIPS_HI16} \<Longrightarrow> isInt 16 (getHi16 (half_sum env ai ref k))"
    and "p = field16 (k \<in> {R_MICROMIPS_HI16, R_MICROMIPS_LO16})" and "l = reloc_loc ai ref"
  shows "mips_applyRelocation env ai ref m = Inr (relocWrite
    ((relocRead p m l AND NOT (p_mask p)) OR (half_of k (half_sum env ai ref k) AND p_mask p)) p l m)"
proof -
  from half_params [OF k] obtain q where q: "getRelocationParams k = Some q" "p_size q = 4" "p_mask q = 0xffff" "p_shift q = 0"
    "p_shuffle q = (k \<in> {R_MICROMIPS_HI16, R_MICROMIPS_LO16})"
    "p_overflow q = (if k \<in> {R_MIPS_HI16, R_MICROMIPS_HI16} then gpDispCheck 16 else dummyCheck)" by blast
  have "jump_mode env ref = NoCrossJump"
    using assms(1) k by (elim insertE emptyE) (simp_all add: jump_mode_def mips_ref_def getCrossJumpMode_def)
  moreover have "mips_value env ai ref k = Inr (half_of k (half_sum env ai ref k))"
    using k by (elim insertE emptyE)
      (simp_all add: mips_value_def calculate_half relocHi16_def relocLo16_def getHi16_range half_of_def half_sum_def)
  moreover have "check_overflow (p_overflow q) (half_of k (half_sum env ai ref k)) (is_gp_disp env ref)"
    using assms(3) by (simp add: q(6) half_of_def)
  ultimately show ?thesis
    using mips_single [OF assms(1) q(1), of ai m] q(3,4) assms(4,5)
    by (simp add: adjustJumpOpCode_def getRelShift_def relocRead_field16 [OF q(2)] relocWrite_field16 [OF q(2)] q(5) field16_def)
qed

lemma hi_lo_runs:
  assumes "p = field16 micro" and "l1 = reloc_loc ai r1" and "l2 = reloc_loc ai r2"
    and "\<And>m. mips_applyRelocation env ai r1 m =
      Inr (relocWrite ((relocRead p m l1 AND NOT (p_mask p)) OR (getHi16 v AND p_mask p)) p l1 m)"
    and "\<And>m. mips_applyRelocation env ai r2 m =
      Inr (relocWrite ((relocRead p m l2 AND NOT (p_mask p)) OR (int32_result v AND p_mask p)) p l2 m)"
    and "l1 + 4 \<le> l2 \<or> l2 + 4 \<le> l1"
  shows "\<exists>m'. fold_res (mips_applyRelocation env ai) [r1, r2] m = Inr m' \<and> hi_lo_value p m' l1 l2 = ucast v"
  using hi_lo_written [OF _ _ refl refl assms(6)] assms(1) by (simp add: assms(4,5) field16_def)

lemma hi_lo_run:
  assumes "mips_ref env r1 (if micro then R_MICROMIPS_HI16 else R_MIPS_HI16)"
    and "mips_ref env r2 (if micro then R_MICROMIPS_LO16 else R_MIPS_LO16)"
    and "half_sum env ai r1 (if micro then R_MICROMIPS_HI16 else R_MIPS_HI16) = v"
    and "half_sum env ai r2 (if micro then R_MICROMIPS_LO16 else R_MIPS_LO16) = v"
    and "is_gp_disp env r1 \<Longrightarrow> isInt 16 (getHi16 v)"
    and "reloc_loc ai r1 + 4 \<le> reloc_loc ai r2 \<or> reloc_loc ai r2 + 4 \<le> reloc_loc ai r1"
  shows "\<exists>m'. fold_res (mips_applyRelocation env ai) [r1, r2] m = Inr m' \<and>
    hi_lo_value (field16 micro) m' (reloc_loc ai r1) (reloc_loc ai r2) = ucast v"
proof (rule hi_lo_runs [OF refl refl refl _ _ assms(6)])
  show "mips_applyRelocation env ai r1 m = Inr (relocWrite ((relocRead (field16 micro) m (reloc_loc ai r1) AND
      NOT (p_mask (field16 micro))) OR (getHi16 v AND p_mask (field16 micro))) (field16 micro) (reloc_loc ai r1) m)" for m
    using mips_half_run [OF assms(1) _ _ refl refl, of ai m] assms(3,5) by (cases micro) (simp_all add: half_of_def)
  show "mips_applyRelocation env ai r2 m = Inr (relocWrite ((relocRead (field16 micro) m (reloc_loc ai r2) AND
      NOT (p_mask (field16 micro))) OR (int32_result v AND p_mask (field16 micro))) (field16 micro) (reloc_loc ai r2) m)" for m
    using mips_half_run [OF assms(2) _ _ refl refl, of ai m] assms(4) by (cases micro) (simp_all add: half_of_def)
qed

text \<open>C31: A HI16/LO16 pair against a symbol other than \<open>_gp_disp\<close> (that pair is computed from the distance to the
  instruction, theorem \<open>mips_gp_disp_lands\<close>) loads the address it is relocated for: when both references have the same
  target and addend and patch different words, the upper half, rounded for the sign of the lower one, and the lower
  half add up to the low 32 bits of target plus addend, in MIPS and in microMIPS code.\<close>

theorem mips_hi_lo_lands:
  assumes "mips_ref env r1 (if micro then R_MICROMIPS_HI16 else R_MIPS_HI16)"
    and "mips_ref env r2 (if micro then R_MICROMIPS_LO16 else R_MIPS_LO16)"
    and "target r1 = target r2" and "addend r1 = addend r2" and "\<not> is_gp_disp env r1"
    and "reloc_loc ai r1 + 4 \<le> reloc_loc ai r2 \<or> reloc_loc ai r2 + 4 \<le> reloc_loc ai r1"
  shows "\<exists>m'. fold_res (mips_applyRelocation env ai) [r1, r2] m = Inr m' \<and>
    hi_lo_value (field16 micro) m' (reloc_loc ai r1) (reloc_loc ai r2) = ucast (mips_target env r1 + addend r1)"
  by (rule hi_lo_run [OF assms(1,2) _ _ _ assms(6)])
    (use assms(3-5) in \<open>simp_all add: half_sum_def is_gp_disp_def mips_target_def add.commute\<close>)

text \<open>The pair that computes \<open>_gp_disp\<close> in a function's prologue, LUI at \<open>P\<close> and ADDIU after it, adds up to
  the distance of \<open>_gp_disp\<close> from \<open>P\<close>. A distance whose upper half is \<open>0x8000\<close> or more, that is every negative
  one, is refused.\<close>

theorem mips_gp_disp_lands:
  assumes "mips_ref env r1 R_MIPS_HI16" and "mips_ref env r2 R_MIPS_LO16" and "is_gp_disp env r1"
    and "target r1 = target r2" and "addend r1 = addend r2" and "offsetInAtom r2 = offsetInAtom r1 + 4"
    and "reloc_loc ai r2 = reloc_loc ai r1 + 4"
  shows "if isInt 16 (getHi16 (addend r1 + mips_target env r1 - reloc_addr ai r1))
     then \<exists>m'. fold_res (mips_applyRelocation env ai) [r1, r2] m = Inr m' \<and>
       hi_lo_value (field16 False) m' (reloc_loc ai r1) (reloc_loc ai r2) =
         ucast (addend r1 + mips_target env r1 - reloc_addr ai r1)
     else mips_applyRelocation env ai r1 m = Inl out_of_range_reloc"
proof (cases "isInt 16 (getHi16 (addend r1 + mips_target env r1 - reloc_addr ai r1))")
  case True
  let ?v = "addend r1 + mips_target env r1 - reloc_addr ai r1"
  have g: "is_gp_disp env r2" and t: "mips_target env r2 = mips_target env r1"
    using assms(3,4) by (simp_all add: is_gp_disp_def mips_target_def)
  have "half_sum env ai r1 R_MIPS_HI16 = ?v" "half_sum env ai r2 R_MIPS_LO16 = ?v"
    using g t assms(3,5,6) by (simp_all add: half_sum_def reloc_addr_def)
  with True hi_lo_run [of env r1 False r2 ai ?v m] assms(1,2,7) show ?thesis by simp
next
  case False
  obtain p where p: "getRelocationParams R_MIPS_HI16 = Some p" "p_overflow p = gpDispCheck 16"
    using half_params [of R_MIPS_HI16] by auto
  have "mips_value env ai r1 R_MIPS_HI16 = Inr (getHi16 (addend r1 + mips_target env r1 - reloc_addr ai r1))"
    using assms(3) by (simp add: mips_value_def calculate_half relocHi16_def getHi16_range)
  with False mips_single [OF assms(1) p(1), of ai m] p(2) assms(3) show ?thesis by simp
qed

section \<open>Composed relocations\<close>

definition mips_refs :: "mips_env \<Rightarrow> reference \<Rightarrow> mips_reloc list \<Rightarrow> bool" where
  "mips_refs env ref ks \<longleftrightarrow> kindNamespace ref = ns_ELF \<and> kindArch ref = arch_Mips \<and>
     map (getRelKind env ref) [0, 1, 2] = ks"

lemma mips_gpsetup_run:
  assumes "mips_refs env ref [R_MIPS_GPREL16, R_MIPS_SUB, k]" and k: "k \<in> {R_MIPS_HI16, R_MIPS_LO16}"
    and "p = field16 False" and "l = reloc_loc ai ref"
  shows "mips_applyRelocation env ai ref m = Inr (relocWrite
    ((relocRead p m l AND NOT (p_mask p)) OR
     (half_of k (getGPAddr env - (mips_target env ref + addend ref)) AND p_mask p)) p l m)"
proof -
  let ?r = "getGPAddr env - (mips_target env ref + addend ref)"
  from half_params [of k] k obtain q where q: "getRelocationParams k = Some q" "p_size q = 4" "p_mask q = 0xffff" "p_shift q = 0"
    "\<not> p_shuffle q" "p_overflow q = gpDispCheck 16 \<or> p_overflow q = dummyCheck" by auto
  obtain g where g: "getRelocationParams R_MIPS_GPREL16 = Some g" "p_shift g = 0" by (simp add: getRelocationParams_def)
  obtain s where s: "getRelocationParams R_MIPS_SUB = Some s" "p_shift s = 0" by (simp add: getRelocationParams_def)
  have c: "calculateRelocation k ?r 0 P gp False False d = Inr (half_of k ?r)" for P gp d
    using k by (elim insertE emptyE) (simp_all add: calculate_half relocHi16_def relocLo16_def getHi16_range half_of_def)
  have ch: "check_overflow (p_overflow q) v False" for v using q(6) by auto
  have kn: "k \<noteq> R_MIPS_NONE" using k by auto
  have chain: "mips_chain env P [R_MIPS_GPREL16, R_MIPS_SUB, k] (addend ref) (mips_target env ref) gpd False R_MIPS_NONE
      = Inr (half_of k ?r, k)" for P gpd
    by (simp add: g s q(1,4) calculate_half c ch kn getRelShift_def)
  have r: "map (getRelKind env ref) [0, 1, 2] = [R_MIPS_GPREL16, R_MIPS_SUB, k]" "kindOf env (kindValue ref) = R_MIPS_GPREL16"
    using assms(1) by (auto simp: mips_refs_def getRelKind_def)
  have j: "getCrossJumpMode (mips_objects env) (target ref) R_MIPS_GPREL16 = NoCrossJump"
    by (simp add: getCrossJumpMode_def)
  show ?thesis
    using assms(1) chain unfolding mips_applyRelocation_def Let_def r mips_target_def [symmetric] j mips_refs_def assms(3,4)
    by (simp add: q(1) adjustJumpOpCode_def relocRead_field16 [OF q(2)] relocWrite_field16 [OF q(2)] q(3,5))
      (simp add: field16_def)
qed

text \<open>The N64 prologue, where GPREL16, SUB and HI16 or LO16 are composed on one instruction: the pair adds up to
  the distance from the function to \<open>gp\<close>, the addend of each step being the result of the one before.\<close>

theorem mips_gpsetup_lands:
  assumes "mips_refs env r1 [R_MIPS_GPREL16, R_MIPS_SUB, R_MIPS_HI16]"
    and "mips_refs env r2 [R_MIPS_GPREL16, R_MIPS_SUB, R_MIPS_LO16]"
    and "target r1 = target r2" and "addend r1 = addend r2"
    and "reloc_loc ai r1 + 4 \<le> reloc_loc ai r2 \<or> reloc_loc ai r2 + 4 \<le> reloc_loc ai r1"
  shows "\<exists>m'. fold_res (mips_applyRelocation env ai) [r1, r2] m = Inr m' \<and>
    hi_lo_value (field16 False) m' (reloc_loc ai r1) (reloc_loc ai r2) =
      ucast (getGPAddr env - (mips_target env r1 + addend r1))"
proof -
  have "mips_target env r2 = mips_target env r1" using assms(3) by (simp add: mips_target_def)
  then show ?thesis
    using mips_gpsetup_run [OF assms(1) _ refl refl] mips_gpsetup_run [OF assms(2) _ refl refl] assms(4)
    by (intro hi_lo_runs [OF refl refl refl _ _ assms(5)]) (simp_all add: half_of_def)
qed

section \<open>Jumps\<close>

text \<open>Where JAL or JALX at \<open>P\<close> goes: the field replaces the low 28 bits of the address of the delay slot.\<close>

definition jump_to :: "u64 \<Rightarrow> u32 \<Rightarrow> u64" where
  "jump_to P w = ((P + 4) AND NOT (mask 28)) OR push_bit 2 (ucast (w AND 0x3ffffff))"

lemma jump_masks:
  "(0x3ffffff :: 'a::len word) = mask 26" "(0xfc000000 :: 'a word) = push_bit 26 (mask 6)"
  by (simp_all add: mask_eq_exp_minus_1 push_bit_eq_mult)

lemma take_bit_sum:
  assumes "take_bit 28 a = take_bit 28 (b :: u64)"
  shows "take_bit 28 (a + c) = take_bit 28 (b + c)"
proof -
  have low: "take_bit 28 (x + c) = take_bit 28 (take_bit 28 x + c)" for x :: u64
    by transfer (simp add: take_bit_inner min_def)
  show ?thesis using assms low [of a] low [of b] by simp
qed

lemma int32_low: "take_bit 28 (int32_result x) = take_bit 28 x"
  by (rule bit_word_eqI) (auto simp: int32_result_def bit_simps min_def)

lemma reloc26loc_low: "take_bit 28 (reloc26loc P S (ucast A) 2) = take_bit 28 (S + A)"
proof -
  have "take_bit 28 (scast (ucast A :: i32) OR ((P + 4) AND ucast (push_bit 2 (0xfc000000 :: u32)))) = take_bit 28 (A :: u64)"
    by (rule bit_word_eqI) (auto simp: jump_masks bit_simps min_def)
  from take_bit_sum [OF this, of S] show ?thesis
    unfolding reloc26loc_def int32_low by (simp only: add.commute)
qed

definition jump_params :: reloc_params where
  "jump_params = \<lparr>p_size = 4, p_mask = 0x3ffffff, p_shift = 2, p_shuffle = False, p_overflow = dummyCheck\<rparr>"

text \<open>The jump instruction and its target after the field got \<open>r\<close> and the opcode \<open>op\<close>.\<close>

lemma jump_field:
  assumes "take_bit 28 r = take_bit 28 v"
  shows "jump_to P (ucast ((ins AND NOT 0x3ffffff) OR (signed_drop_bit 2 r AND 0x3ffffff))) =
    ((P + 4) AND NOT (mask 28)) OR (v AND mask 28 AND NOT 3)"
proof -
  have "push_bit 2 (ucast (ucast ((ins AND NOT 0x3ffffff) OR (signed_drop_bit 2 r AND 0x3ffffff)) AND 0x3ffffff :: u32)) =
      take_bit 28 r AND NOT (3 :: u64)"
    by (rule bit_word_eqI) (auto simp: jump_masks mask_bits bit_simps min_def Suc_diff_2)
  then show ?thesis unfolding jump_to_def assms by (simp add: take_bit_eq_mask ac_simps)
qed

lemma same_region:
  "((p AND NOT (mask 28)) OR (v AND mask 28 AND NOT 3) = v AND NOT (3 :: u64)) = (p AND NOT (mask 28) = v AND NOT (mask 28))"
proof
  assume *: "(p AND NOT (mask 28)) OR (v AND mask 28 AND NOT 3) = v AND NOT 3"
  show "p AND NOT (mask 28) = v AND NOT (mask 28)"
  proof (rule bit_word_eqI)
    fix n
    assume "n < LENGTH(64)"
    with arg_cong [OF *, of "\<lambda>w. bit w n"] show "bit (p AND NOT (mask 28)) n = bit (v AND NOT (mask 28)) n"
      by (auto simp: mask_bits bit_simps)
  qed
next
  assume *: "p AND NOT (mask 28) = v AND NOT (mask 28)"
  show "(p AND NOT (mask 28)) OR (v AND mask 28 AND NOT 3) = v AND NOT 3"
    unfolding * by (rule bit_word_eqI) (auto simp: mask_bits bit_simps)
qed

lemma eval3: "ucast (3 :: u8) = (3 :: u32)" "ucast (3 :: u32) = (3 :: u8)" "ucast (29 :: u8) = (29 :: u32)" "ucast (29 :: u32) = (29 :: u8)"
  by simp_all

lemma jump_op:
  "(ucast (drop_bit 26 (ucast w :: u64)) :: u8) = ucast (drop_bit 26 (w :: u32))"
  "(ucast (drop_bit 26 w) :: u8) = 3 \<longleftrightarrow> drop_bit 26 (w :: u32) = 3"
  "(ucast (drop_bit 26 w) :: u8) = 29 \<longleftrightarrow> drop_bit 26 (w :: u32) = 29"
proof -
  show "(ucast (drop_bit 26 (ucast w :: u64)) :: u8) = ucast (drop_bit 26 w)"
    by (rule bit_word_eqI) (auto simp: bit_simps)
  have d: "drop_bit 26 w = ucast (ucast (drop_bit 26 w) :: u8)"
    by (rule bit_word_eqI) (auto simp: bit_simps dest: bit_imp_le_length)
  show "(ucast (drop_bit 26 w) :: u8) = 3 \<longleftrightarrow> drop_bit 26 w = 3"
    by (metis d eval3(1,2))
  show "(ucast (drop_bit 26 w) :: u8) = 29 \<longleftrightarrow> drop_bit 26 w = 29"
    by (metis d eval3(3,4))
qed

lemma jump_word:
  "drop_bit 26 (ucast ((ins AND NOT 0x3ffffff) OR (r AND 0x3ffffff)) :: u32) = drop_bit 26 (ucast (ins :: u64))"
  by (rule bit_word_eqI) (auto simp: mask_bits bit_simps)

lemma jalx_word:
  "drop_bit 26 (ucast ((ins AND 0x3ffffff) OR push_bit 26 0x1d :: u64) :: u32) = 0x1d"
proof -
  have "drop_bit 26 (ucast ((ins AND 0x3ffffff) OR push_bit 26 c :: u64) :: u32) = ucast (take_bit 6 c)" for c
    by (rule bit_word_eqI) (auto simp: jump_masks bit_simps)
  from this [of "0x1d"] show ?thesis by (simp add: take_bit_eq_mask mask_eq_exp_minus_1)
qed

text \<open>C32: JAL: the instruction jumps to target plus addend exactly when these lie in the 256 MB region of the
  delay slot, which is not checked. Towards microMIPS code it becomes JALX, provided that the target is word
  aligned and the instruction was a JAL or JALX; otherwise the relocation fails.\<close>

theorem mips_jal_lands:
  assumes "mips_ref env ref R_MIPS_26"
  shows "if jump_mode env ref = NoCrossJump \<or>
      mips_target env ref AND 2 = 0 \<and> drop_bit 26 (read32le m (reloc_loc ai ref)) \<in> {0x03, 0x1d}
    then \<exists>m'. mips_applyRelocation env ai ref m = Inr m' \<and>
      (jump_to (reloc_addr ai ref) (read32le m' (reloc_loc ai ref)) = (mips_target env ref + addend ref) AND NOT 3 \<longleftrightarrow>
       (reloc_addr ai ref + 4) AND NOT (mask 28) = (mips_target env ref + addend ref) AND NOT (mask 28)) \<and>
      drop_bit 26 (read32le m' (reloc_loc ai ref)) =
        (if jump_mode env ref = NoCrossJump then drop_bit 26 (read32le m (reloc_loc ai ref)) else 0x1d) \<and>
      (\<forall>a. a \<notin> {reloc_loc ai ref..<reloc_loc ai ref + 4} \<longrightarrow> m' a = m a)
    else \<exists>msg. mips_applyRelocation env ai ref m = Inl (reloc_message msg)"
proof -
  let ?l = "reloc_loc ai ref" and ?T = "mips_target env ref" and ?P = "reloc_addr ai ref"
  let ?r = "reloc26loc ?P ?T (ucast (addend ref)) 2"
  define w where "w = read32le m ?l"
  define ins where "ins = (if jump_mode env ref = NoCrossJump then ucast w else (ucast w AND 0x3ffffff) OR push_bit 26 0x1d :: u64)"
  define d where "d = (ins AND NOT 0x3ffffff) OR (signed_drop_bit 2 ?r AND 0x3ffffff)"
  have p: "getRelocationParams R_MIPS_26 = Some jump_params" by (simp add: getRelocationParams_def jump_params_def)
  have k: "kindOf env (kindValue ref) = R_MIPS_26" using assms by (simp add: mips_ref_def)
  have mode: "jump_mode env ref = (if isMicroMipsAtom (mips_objects env) (target ref) then ToMicro else NoCrossJump)"
    by (auto simp: jump_mode_def k getCrossJumpMode_def isMicroMipsAtom_def)
  have bit0: "jump_mode env ref \<noteq> NoCrossJump \<Longrightarrow> ?T AND 1 = 1"
    by (rule bit_word_eqI) (auto simp: mode mips_target_def bit_simps split: if_splits)
  have run: "mips_applyRelocation env ai ref m =
      bind_res (adjustJumpOpCode (ucast w) ?T (jump_mode env ref)) (\<lambda>ins.
        Inr (write32le m ?l (ucast ((ins AND NOT 0x3ffffff) OR (signed_drop_bit 2 ?r AND 0x3ffffff)))))"
    using mips_single [OF assms p, of ai m]
    by (simp add: mips_value_def calculate_half jump_params_def getRelShift_def relocRead_def relocWrite_def w_def)
  have wid: "ucast (ucast w :: u64) = w" by (rule bit_word_eqI) (auto simp: bit_simps)
  show ?thesis
  proof (cases "jump_mode env ref = NoCrossJump \<or> ?T AND 2 = 0 \<and> drop_bit 26 w \<in> {0x03, 0x1d}")
    case True
    then have "adjustJumpOpCode (ucast w) ?T (jump_mode env ref) = Inr ins"
      using bit0 mode by (auto simp: adjustJumpOpCode_def ins_def Let_def jump_op split: if_splits)
    then have "mips_applyRelocation env ai ref m = Inr (write32le m ?l (ucast d))" unfolding run by (simp add: d_def)
    moreover have "jump_to ?P (ucast d) = (?T + addend ref) AND NOT 3 \<longleftrightarrow>
        (?P + 4) AND NOT (mask 28) = (?T + addend ref) AND NOT (mask 28)"
      unfolding d_def jump_field [OF reloc26loc_low] by (rule same_region)
    moreover have "drop_bit 26 (ucast d :: u32) = (if jump_mode env ref = NoCrossJump then drop_bit 26 w else 0x1d)"
      unfolding d_def jump_word ins_def
      by (cases "jump_mode env ref = NoCrossJump") (simp_all only: jalx_word wid simp_thms if_True if_False)
    ultimately show ?thesis
      using True write32le_other [of _ ?l m "ucast d"] unfolding w_def by (intro if_P [THEN iffD2]) auto
  next
    case False
    then show ?thesis
      using bit0 mode unfolding run w_def [symmetric] by (auto simp: adjustJumpOpCode_def Let_def jump_op)
  qed
qed

section \<open>A sample atom\<close>

definition mips_sample_atom :: "code_model \<Rightarrow> atom_layout" where
  "mips_sample_atom cm = \<lparr>layout_atom = \<lparr>ordinal = 0, da_size = 8, sectionSize = 0, scope = scopeGlobal,
       interpose = interposeNo, merge_of = mergeNo, contentType = typeCode, alignment = (4, 0),
       sectionChoice = sectionBasedOnContent, customSectionName = [], deadStrip_of = deadStripNormal,
       dynamicExport = dynamicExportNormal, codeModel = cm, permissions_of = permR_X,
       rawContent = replicate 8 0, refs = []\<rparr>,
     fileOffset = 0, virtualAddr = 0x400000\<rparr>"

text \<open>Atom 7 is a function at 0x418ABC, atom 9 is \<open>_gp_disp\<close>.\<close>

definition mips_sample :: mips_env where
  "mips_sample = \<lparr>kindOf = (\<lambda>v. if v = 1 then R_MIPS_HI16 else if v = 2 then R_MIPS_LO16 else if v = 3 then R_MIPS_PC21_S2
       else if v = 4 then R_MIPS_26 else if v = 5 then R_MIPS_GPREL16 else if v = 6 then R_MIPS_SUB else R_MIPS_NONE),
     addressOfAtom = (\<lambda>_. 0x418ABC), programHeader = [],
     mips_objects = \<lparr>atom_at = (\<lambda>a. DefinedAtom (if a = 9 then ''_gp_disp'' else ''f'') 0 (layout_atom (mips_sample_atom codeNA))),
       file_kind_of = (\<lambda>_. kindObject)\<rparr>,
     getGPAddr = 0x420000, isDynamicLink = False\<rparr>"

definition mips_sample_ref :: "u16 \<Rightarrow> u64 \<Rightarrow> atom_id \<Rightarrow> u32 \<Rightarrow> reference" where
  "mips_sample_ref k off t tg = \<lparr>kindNamespace = ns_ELF, kindArch = arch_Mips, kindValue = k, offsetInAtom = off,
     target = t, addend = 0, tag = tg\<rparr>"

lemma mips_sample_views [simp]:
  "mips_ref mips_sample (mips_sample_ref k off t 0) K \<longleftrightarrow> kindOf mips_sample k = K \<and> K \<noteq> R_MIPS_NONE"
  "mips_refs mips_sample (mips_sample_ref k off t tg) [k1, k2, k3] \<longleftrightarrow> kindOf mips_sample k = k1 \<and>
     kindOf mips_sample (ucast (tg AND 0xff)) = k2 \<and> kindOf mips_sample (ucast (drop_bit 8 tg AND 0xff)) = k3"
  "target (mips_sample_ref k off t tg) = t" "addend (mips_sample_ref k off t tg) = 0"
  "kindValue (mips_sample_ref k off t tg) = k" "offsetInAtom (mips_sample_ref k off t tg) = off"
  "reloc_loc (mips_sample_atom cm) (mips_sample_ref k off t tg) = unat off"
  "reloc_addr (mips_sample_atom cm) (mips_sample_ref k off t tg) = 0x400000 + off"
  "mips_target mips_sample (mips_sample_ref k off t tg) = 0x418ABC"
  "is_gp_disp mips_sample (mips_sample_ref k off t tg) \<longleftrightarrow> t = 9"
  "jump_mode mips_sample (mips_sample_ref k off t tg) = NoCrossJump"
  "kindOf mips_sample 0 = R_MIPS_NONE" "kindOf mips_sample 1 = R_MIPS_HI16" "kindOf mips_sample 2 = R_MIPS_LO16"
  "kindOf mips_sample 3 = R_MIPS_PC21_S2" "kindOf mips_sample 4 = R_MIPS_26" "kindOf mips_sample 5 = R_MIPS_GPREL16"
  "kindOf mips_sample 6 = R_MIPS_SUB" "getGPAddr mips_sample = 0x420000"
  by (simp_all add: mips_sample_def mips_sample_ref_def mips_sample_atom_def mips_ref_def mips_refs_def reloc_loc_def
      reloc_addr_def mips_target_def isMicroMipsAtom_def is_gp_disp_def jump_mode_def getCrossJumpMode_def getRelKind_def)

lemma mips_sample_branch:
  "getRelocationParams R_MIPS_PC21_S2 =
     Some \<lparr>p_size = 4, p_mask = 0x1fffff, p_shift = 2, p_shuffle = False, p_overflow = signedCheck 23\<rparr>"
  "mips_value mips_sample (mips_sample_atom codeNA) (mips_sample_ref 3 0 7 0) R_MIPS_PC21_S2 = Inr 0x18ABC"
  by (simp_all add: getRelocationParams_def mips_value_def calculateRelocation_def relocPc21_def pc_relative_def
      signExtend_def)

theorem mips_checked_field_witness:
  "\<exists>m'. mips_applyRelocation mips_sample (mips_sample_atom codeNA) (mips_sample_ref 3 0 7 0) (\<lambda>_. 0) = Inr m' \<and>
     mips_field 23 (the (getRelocationParams R_MIPS_PC21_S2)) m' 0 = 0x18ABC"
proof -
  have "mips_ref mips_sample (mips_sample_ref 3 0 7 0) R_MIPS_PC21_S2" by simp
  from mips_checked_field [OF this mips_sample_branch(1) _ mips_sample_branch(2), of 23 "\<lambda>_. 0"]
  show ?thesis unfolding mips_sample_branch(1) by (auto simp: isInt_def mask_eq_exp_minus_1)
qed

theorem mips_hi_lo_lands_witness:
  "\<exists>m'. fold_res (mips_applyRelocation mips_sample (mips_sample_atom codeNA))
       [mips_sample_ref 1 0 7 0, mips_sample_ref 2 4 7 0] (\<lambda>_. 0) = Inr m' \<and>
     hi_lo_value (field16 False) m' 0 4 = 0x418ABC"
  using mips_hi_lo_lands [of mips_sample "mips_sample_ref 1 0 7 0" False "mips_sample_ref 2 4 7 0" "mips_sample_atom codeNA" "\<lambda>_. 0"]
  by simp

theorem mips_gp_disp_lands_witness:
  "\<exists>m'. fold_res (mips_applyRelocation mips_sample (mips_sample_atom codeNA))
       [mips_sample_ref 1 0 9 0, mips_sample_ref 2 4 9 0] (\<lambda>_. 0) = Inr m' \<and>
     hi_lo_value (field16 False) m' 0 4 = 0x18ABC"
  using mips_gp_disp_lands [of mips_sample "mips_sample_ref 1 0 9 0" "mips_sample_ref 2 4 9 0" "mips_sample_atom codeNA" "\<lambda>_. 0"]
  by (simp add: getHi16_def isInt_def)

theorem mips_gpsetup_lands_witness:
  "\<exists>m'. fold_res (mips_applyRelocation mips_sample (mips_sample_atom codeNA))
       [mips_sample_ref 5 0 7 0x106, mips_sample_ref 5 4 7 0x206] (\<lambda>_. 0) = Inr m' \<and>
     hi_lo_value (field16 False) m' 0 4 = 0x7544"
  using mips_gpsetup_lands [of mips_sample "mips_sample_ref 5 0 7 0x106" "mips_sample_ref 5 4 7 0x206" "mips_sample_atom codeNA" "\<lambda>_. 0"]
  by simp

theorem mips_jal_lands_witness:
  "\<exists>m'. mips_applyRelocation mips_sample (mips_sample_atom codeNA) (mips_sample_ref 4 0 7 0) (\<lambda>_. 0) = Inr m' \<and>
     jump_to 0x400000 (read32le m' 0) = 0x418ABC"
proof -
  have r: "(0x400004 AND NOT (mask 28) :: u64) = 0x418ABC AND NOT (mask 28)" "(0x418ABC AND NOT 3 :: u64) = 0x418ABC"
    by (simp_all add: mask_eq_exp_minus_1)
  from mips_jal_lands [of mips_sample "mips_sample_ref 4 0 7 0" "\<lambda>_. 0" "mips_sample_atom codeNA"] r
  show ?thesis by auto
qed

lemma mips_sample_gprel:
  "\<exists>m'. mips_applyRelocation mips_sample (mips_sample_atom codeNA) (mips_sample_ref 5 0 7 0) (\<lambda>_. 0) = Inr m'"
  using mips_single [of mips_sample "mips_sample_ref 5 0 7 0" R_MIPS_GPREL16 _ "mips_sample_atom codeNA" "\<lambda>_. 0"]
  by (simp add: getRelocationParams_def mips_value_def calculateRelocation_def isInt_def adjustJumpOpCode_def)

theorem mips_addend_roundtrip_witness:
  "\<exists>m'. mips_applyRelocation mips_sample (mips_sample_atom codeNA) (mips_sample_ref 5 0 7 0) (\<lambda>_. 0) = Inr m' \<and>
     readMipsRelocAddend R_MIPS_GPREL16 m' 0 = Some (- 0x7544)"
proof -
  from mips_sample_gprel obtain m' where
    m: "mips_applyRelocation mips_sample (mips_sample_atom codeNA) (mips_sample_ref 5 0 7 0) (\<lambda>_. 0) = Inr m'" ..
  have "mips_value mips_sample (mips_sample_atom codeNA) (mips_sample_ref 5 0 7 0) R_MIPS_GPREL16 = Inr (- 0x7544)"
    by (simp add: mips_value_def calculateRelocation_def)
  from mips_addend_roundtrip [OF _ this m] m show ?thesis by (auto simp: getRelocationParams_def)
qed

end
