(* ===== verification/Reloc_Pass.thy ===== *)
theory Reloc_Pass
  imports Atoms "HOL-Library.Monad_Syntax"
begin

text \<open>
  What the relocation passes of the ELF targets share (lib/ReaderWriter/ELF/Atoms.h, lib/ReaderWriter/ELF/*/*RelocationPass.cpp,
  include/lld/Core/Simple.h): atoms that a pass makes, references added to them and redirected to them, and the loop over all
  references. The contract \<open>reloc_pass\<close> says what the loop relies on; it is interpreted for each pass. Names that only
  a debug build gives to atoms are left out.
\<close>

section \<open>Atoms that a pass makes\<close>

text \<open>The objects, the next address of the allocator and the file of the pass; each pass adds its own members.\<close>

record pass_base =
  pt_store :: store
  pt_next :: atom_id
  pt_file :: file_id

text \<open>The virtual functions of \<open>SimpleDefinedAtom\<close>; the ordinal is set at the end of a pass.\<close>

definition SimpleDefinedAtom :: "content_type \<Rightarrow> defined_atom" where
  "SimpleDefinedAtom ct =
     \<lparr>ordinal = 0, da_size = 0, sectionSize = 0, scope = scopeLinkageUnit, interpose = interposeNo, merge_of = mergeNo,
      contentType = ct, alignment = (1, 0), sectionChoice = sectionBasedOnContent, customSectionName = [],
      deadStrip_of = deadStripNormal, dynamicExport = dynamicExportNormal, codeModel = codeNA,
      permissions_of = permissions ct, rawContent = [], refs = []\<rparr>"

definition GOTAtom :: "string \<Rightarrow> u8 list \<Rightarrow> defined_atom" where
  "GOTAtom sec content =
     (SimpleDefinedAtom typeGOT)\<lparr>scope := scopeTranslationUnit, sectionChoice := sectionCustomRequired, customSectionName := sec,
       da_size := of_nat (length content), permissions_of := permRW, alignment := (8, 0), rawContent := content\<rparr>"

definition PLTAtom :: "string \<Rightarrow> u8 list \<Rightarrow> defined_atom" where
  "PLTAtom sec content =
     (SimpleDefinedAtom typeStub)\<lparr>scope := scopeTranslationUnit, sectionChoice := sectionCustomRequired, customSectionName := sec,
       da_size := of_nat (length content), permissions_of := permR_X, alignment := (16, 0), rawContent := content\<rparr>"

definition PLT0Atom :: "u8 list \<Rightarrow> defined_atom" where
  "PLT0Atom content = PLTAtom ''.plt'' content"

definition ObjectAtom :: "u64 \<Rightarrow> defined_atom" where
  "ObjectAtom bytes =
     (SimpleDefinedAtom typeZeroFill)\<lparr>scope := scopeGlobal, da_size := bytes, dynamicExport := dynamicExportAlways,
       permissions_of := permRW, alignment := (8, 0)\<rparr>"

text \<open>Types of shared library symbols (SharedLibraryAtom.h).\<close>

datatype shl_type = shl_Unknown | shl_Code | shl_Data

fun map_defined :: "(defined_atom \<Rightarrow> defined_atom) \<Rightarrow> atom \<Rightarrow> atom" where
  "map_defined f (DefinedAtom nm fl d) = DefinedAtom nm fl (f d)"
| "map_defined f x = x"

definition update_atom :: "(defined_atom \<Rightarrow> defined_atom) \<Rightarrow> atom_id \<Rightarrow> 'a pass_base_scheme \<Rightarrow> 'a pass_base_scheme" where
  "update_atom f a p =
     p\<lparr>pt_store := (pt_store p)\<lparr>atom_at := (atom_at (pt_store p))(a := map_defined f (atom_at (pt_store p) a))\<rparr>\<rparr>"

definition new_atom :: "string \<Rightarrow> defined_atom \<Rightarrow> 'a pass_base_scheme \<Rightarrow> atom_id \<times> 'a pass_base_scheme" where
  "new_atom nm d p =
     (pt_next p,
      p\<lparr>pt_store := (pt_store p)\<lparr>atom_at := (atom_at (pt_store p))(pt_next p := DefinedAtom nm (pt_file p) d)\<rparr>,
        pt_next := Suc (pt_next p)\<rparr>)"

definition elf_reference :: "kind_arch \<Rightarrow> u16 \<Rightarrow> u64 \<Rightarrow> atom_id \<Rightarrow> i64 \<Rightarrow> reference" where
  "elf_reference arch kind off t a =
     \<lparr>kindNamespace = ns_ELF, kindArch = arch, kindValue = kind, offsetInAtom = off, target = t, addend = a, tag = 0\<rparr>"

definition addReferenceELF ::
  "kind_arch \<Rightarrow> u16 \<Rightarrow> u64 \<Rightarrow> atom_id \<Rightarrow> i64 \<Rightarrow> atom_id \<Rightarrow> 'a pass_base_scheme \<Rightarrow> 'a pass_base_scheme" where
  "addReferenceELF arch kind off t a = update_atom (\<lambda>d. d\<lparr>refs := refs d @ [elf_reference arch kind off t a]\<rparr>)"

definition put_reference :: "atom_id \<Rightarrow> nat \<Rightarrow> reference \<Rightarrow> 'a pass_base_scheme \<Rightarrow> 'a pass_base_scheme" where
  "put_reference a j r = update_atom (\<lambda>d. d\<lparr>refs := (refs d)[j := r]\<rparr>) a"

definition setAtomOrdinal :: "u64 \<Rightarrow> atom_id \<Rightarrow> 'a pass_base_scheme \<Rightarrow> 'a pass_base_scheme" where
  "setAtomOrdinal k = update_atom (\<lambda>d. d\<lparr>ordinal := k\<rparr>)"

section \<open>The loop over the references\<close>

abbreviation refs_at :: "store \<Rightarrow> atom_id \<Rightarrow> reference list" where
  "refs_at h a \<equiv> refs (the_defined (atom_at h a))"

text \<open>\<open>handle\<close> is the pass's \<open>handleReference\<close>; \<open>None\<close> is a failing assertion in it.\<close>

fun handle_references ::
  "(atom_id \<Rightarrow> reference \<Rightarrow> 'a pass_base_scheme \<Rightarrow> (reference \<times> 'a pass_base_scheme) option) \<Rightarrow> atom_id \<Rightarrow> nat list \<Rightarrow>
    'a pass_base_scheme \<Rightarrow> 'a pass_base_scheme option" where
  "handle_references handle a [] p = Some p"
| "handle_references handle a (j # js) p =
     do { (r, p) \<leftarrow> handle a (refs_at (pt_store p) a ! j) p;
          handle_references handle a js (put_reference a j r p) }"

fun handle_atoms ::
  "(atom_id \<Rightarrow> reference \<Rightarrow> 'a pass_base_scheme \<Rightarrow> (reference \<times> 'a pass_base_scheme) option) \<Rightarrow> atom_id list \<Rightarrow>
    'a pass_base_scheme \<Rightarrow> 'a pass_base_scheme option" where
  "handle_atoms handle [] p = Some p"
| "handle_atoms handle (a # as) p =
     do { p \<leftarrow> handle_references handle a [0..<length (refs_at (pt_store p) a)] p; handle_atoms handle as p }"

text \<open>The atoms of the pass get their ordinals and are added to the file: \<open>made\<close> lists them in the order of the code.\<close>

definition set_ordinals :: "atom_id list \<Rightarrow> 'a pass_base_scheme \<Rightarrow> 'a pass_base_scheme" where
  "set_ordinals as p = fold (\<lambda>(k, a). setAtomOrdinal (of_nat k) a) (enumerate 0 as) p"

definition perform_pass ::
  "(atom_id \<Rightarrow> reference \<Rightarrow> 'a pass_base_scheme \<Rightarrow> (reference \<times> 'a pass_base_scheme) option) \<Rightarrow> ('a pass_base_scheme \<Rightarrow> atom_id list) \<Rightarrow>
    atom_id list \<Rightarrow> 'a pass_base_scheme \<Rightarrow> (atom_id list \<times> 'a pass_base_scheme) option" where
  "perform_pass handle made as p =
     do { p \<leftarrow> handle_atoms handle as p; Some (as @ made p, set_ordinals (made p) p) }"

section \<open>What stays\<close>

lemma pass_sel [simp]:
  "pt_next (update_atom f a p) = pt_next p" "pt_file (update_atom f a p) = pt_file p"
  "atom_at (pt_store (update_atom f a p)) x = (if x = a then map_defined f (atom_at (pt_store p) a) else atom_at (pt_store p) x)"
  "pass_base.more (update_atom f a p) = pass_base.more p"
  by (simp_all add: update_atom_def)

lemma new_atom_sel [simp]:
  "fst (new_atom nm d p) = pt_next p" "pt_next (snd (new_atom nm d p)) = Suc (pt_next p)"
  "pt_file (snd (new_atom nm d p)) = pt_file p" "pass_base.more (snd (new_atom nm d p)) = pass_base.more p"
  "atom_at (pt_store (snd (new_atom nm d p))) x = (if x = pt_next p then DefinedAtom nm (pt_file p) d else atom_at (pt_store p) x)"
  by (simp_all add: new_atom_def)

lemma map_defined_is [simp]: "is_DefinedAtom (map_defined f x) = is_DefinedAtom x" "is_UndefinedAtom (map_defined f x) = is_UndefinedAtom x"
  "is_SharedLibraryAtom (map_defined f x) = is_SharedLibraryAtom x" "atom_name (map_defined f x) = atom_name x"
  by (cases x; simp)+

lemma the_defined_map [simp]: "is_DefinedAtom x \<Longrightarrow> the_defined (map_defined f x) = f (the_defined x)"
  by (cases x) simp_all

text \<open>An atom without its ordinal and an atom without its references.\<close>

definition no_ordinal :: "atom \<Rightarrow> atom" where
  "no_ordinal = map_defined (\<lambda>d. d\<lparr>ordinal := 0\<rparr>)"

definition shape :: "atom \<Rightarrow> atom" where
  "shape = map_defined (\<lambda>d. d\<lparr>refs := []\<rparr>)"

lemma shape_put: "shape (map_defined (\<lambda>d. d\<lparr>refs := f d\<rparr>) x) = shape x"
  by (cases x) (simp_all add: shape_def)

lemma map_defined_eq:
  assumes "map_defined f x = map_defined f y"
  shows "is_DefinedAtom x = is_DefinedAtom y" "is_UndefinedAtom x = is_UndefinedAtom y" "is_SharedLibraryAtom x = is_SharedLibraryAtom y"
    "atom_name x = atom_name y" "is_DefinedAtom x \<Longrightarrow> f (the_defined x) = f (the_defined y)"
  using arg_cong [OF assms, of is_DefinedAtom] arg_cong [OF assms, of is_UndefinedAtom] arg_cong [OF assms, of is_SharedLibraryAtom]
    arg_cong [OF assms, of atom_name] arg_cong [OF assms, of the_defined] by simp_all

lemma shape_eq:
  assumes "shape x = shape y"
  shows "is_DefinedAtom x = is_DefinedAtom y" "is_UndefinedAtom x = is_UndefinedAtom y" "is_SharedLibraryAtom x = is_SharedLibraryAtom y"
    "atom_name x = atom_name y"
    and "is_DefinedAtom x \<Longrightarrow> contentType (the_defined x) = contentType (the_defined y)"
    and "is_DefinedAtom x \<Longrightarrow> codeModel (the_defined x) = codeModel (the_defined y)"
proof -
  note e = map_defined_eq [OF assms [unfolded shape_def]]
  show "is_DefinedAtom x = is_DefinedAtom y" "is_UndefinedAtom x = is_UndefinedAtom y" "is_SharedLibraryAtom x = is_SharedLibraryAtom y"
    "atom_name x = atom_name y" by (rule e(1-4))+
  show "contentType (the_defined x) = contentType (the_defined y)" if "is_DefinedAtom x"
    using arg_cong [OF e(5) [OF that], of contentType] by simp
  show "codeModel (the_defined x) = codeModel (the_defined y)" if "is_DefinedAtom x"
    using arg_cong [OF e(5) [OF that], of codeModel] by simp
qed

lemma no_ordinal_eq:
  assumes "no_ordinal x = no_ordinal y" "is_DefinedAtom x"
  shows "is_DefinedAtom y" "atom_name x = atom_name y" "contentType (the_defined x) = contentType (the_defined y)"
    "refs (the_defined x) = refs (the_defined y)" "da_size (the_defined x) = da_size (the_defined y)"
proof -
  note e = map_defined_eq [OF assms(1) [unfolded no_ordinal_def]]
  show "is_DefinedAtom y" "atom_name x = atom_name y" using e(1,4) assms(2) by simp_all
  show "contentType (the_defined x) = contentType (the_defined y)" using arg_cong [OF e(5) [OF assms(2)], of contentType] by simp
  show "refs (the_defined x) = refs (the_defined y)" using arg_cong [OF e(5) [OF assms(2)], of refs] by simp
  show "da_size (the_defined x) = da_size (the_defined y)" using arg_cong [OF e(5) [OF assms(2)], of da_size] by simp
qed

text \<open>The atoms from \<open>n\<close> on are those of the pass.\<close>

definition untouched :: "nat \<Rightarrow> 'a pass_base_scheme \<Rightarrow> 'b pass_base_scheme \<Rightarrow> bool" where
  "untouched n p q \<longleftrightarrow> (\<forall>x < n. atom_at (pt_store q) x = atom_at (pt_store p) x)"

definition kept :: "nat \<Rightarrow> 'a pass_base_scheme \<Rightarrow> 'b pass_base_scheme \<Rightarrow> bool" where
  "kept n p q \<longleftrightarrow> pt_next p \<le> pt_next q \<and>
     (\<forall>x. n \<le> x \<and> x < pt_next p \<longrightarrow> no_ordinal (atom_at (pt_store q) x) = no_ordinal (atom_at (pt_store p) x))"

definition same_atoms :: "store \<Rightarrow> nat \<Rightarrow> 'a pass_base_scheme \<Rightarrow> bool" where
  "same_atoms h n p \<longleftrightarrow> n \<le> pt_next p \<and> (\<forall>x < n. shape (atom_at (pt_store p) x) = shape (atom_at h x))"

lemma untouched_refl [simp]: "untouched n p p" and kept_refl [simp]: "kept n p p"
  by (simp_all add: untouched_def kept_def)

lemma untouched_trans: "untouched n p q \<Longrightarrow> untouched n q r \<Longrightarrow> untouched n p r"
  by (simp add: untouched_def)

lemma kept_trans: "kept n p q \<Longrightarrow> kept n q r \<Longrightarrow> kept n p r"
  by (simp add: kept_def)

lemma untouched_same: "untouched n p q \<Longrightarrow> same_atoms h n p \<Longrightarrow> pt_next p \<le> pt_next q \<Longrightarrow> same_atoms h n q"
  by (simp add: untouched_def same_atoms_def)

lemma put_same: "same_atoms h n p \<Longrightarrow> same_atoms h n (put_reference a j r p)"
  by (simp add: same_atoms_def put_reference_def shape_put)

lemma put_kept: "a < n \<Longrightarrow> kept n p (put_reference a j r p)"
  by (auto simp: kept_def put_reference_def)

lemma ordinal_kept: "kept n p (setAtomOrdinal k a p)"
proof -
  have "no_ordinal (map_defined (\<lambda>d. d\<lparr>ordinal := k\<rparr>) x) = no_ordinal x" for x
    by (cases x) (simp_all add: no_ordinal_def)
  then show ?thesis by (simp add: kept_def setAtomOrdinal_def)
qed

lemma ordinal_untouched: "n \<le> a \<Longrightarrow> untouched n p (setAtomOrdinal k a p)"
  by (simp add: untouched_def setAtomOrdinal_def)

lemma new_kept: "n \<le> pt_next p \<Longrightarrow> kept n p (snd (new_atom nm d p))" and new_untouched: "n \<le> pt_next p \<Longrightarrow> untouched n p (snd (new_atom nm d p))"
  by (simp_all add: kept_def untouched_def)

section \<open>The contract of a pass\<close>

text \<open>
  \<open>ok h n p\<close>: the state is well formed, when the pass began with the objects \<open>h\<close>, of which \<open>n\<close> was the first free one.
  \<open>later\<close>: the entries of a state are in the other. \<open>implements h p n r r'\<close>: what became of a reference stands for the
  same, by the entries of \<open>p\<close>.
\<close>

locale reloc_pass =
  fixes handle :: "atom_id \<Rightarrow> reference \<Rightarrow> 'a pass_base_scheme \<Rightarrow> (reference \<times> 'a pass_base_scheme) option"
    and ok :: "store \<Rightarrow> nat \<Rightarrow> 'a pass_base_scheme \<Rightarrow> bool"
    and later :: "nat \<Rightarrow> 'a pass_base_scheme \<Rightarrow> 'a pass_base_scheme \<Rightarrow> bool"
    and fits :: "store \<Rightarrow> atom_id \<Rightarrow> reference \<Rightarrow> bool"
    and implements :: "store \<Rightarrow> 'a pass_base_scheme \<Rightarrow> nat \<Rightarrow> atom_id \<Rightarrow> reference \<Rightarrow> reference \<Rightarrow> bool"
  assumes handled: "ok h n p \<Longrightarrow> a < n \<Longrightarrow> fits h a r \<Longrightarrow> target r < n \<Longrightarrow>
      \<exists>r' q. handle a r p = Some (r', q) \<and> ok h n q \<and> later n p q \<and> untouched n p q \<and> implements h q n a r r'"
    and ok_put: "ok h n p \<Longrightarrow> a < n \<Longrightarrow> ok h n (put_reference a j r p)"
    and entries_refl: "later n p p"
    and entries_trans: "later n p q \<Longrightarrow> later n q s \<Longrightarrow> later n p s"
    and entries_put: "a < n \<Longrightarrow> later n p (put_reference a j r p)"
    and entries_ordinal: "later n p (setAtomOrdinal k a p)"
    and implements_stays: "implements h p n a r r' \<Longrightarrow> later n p q \<Longrightarrow> implements h q n a r r'"
begin

lemma references_handled:
  assumes "ok h n p" "a < n" "is_defined_at (pt_store p) a" "distinct js"
    and "\<forall>j \<in> set js. j < length (refs_at (pt_store p) a) \<and> fits h a (refs_at (pt_store p) a ! j) \<and> target (refs_at (pt_store p) a ! j) < n"
  shows "\<exists>q. handle_references handle a js p = Some q \<and> ok h n q \<and> later n p q \<and>
    (\<forall>x < n. x \<noteq> a \<longrightarrow> atom_at (pt_store q) x = atom_at (pt_store p) x) \<and> is_defined_at (pt_store q) a \<and>
    length (refs_at (pt_store q) a) = length (refs_at (pt_store p) a) \<and>
    (\<forall>j < length (refs_at (pt_store p) a). if j \<in> set js then implements h q n a (refs_at (pt_store p) a ! j) (refs_at (pt_store q) a ! j)
       else refs_at (pt_store q) a ! j = refs_at (pt_store p) a ! j)"
  using assms
proof (induction js arbitrary: p)
  case Nil
  then show ?case by (simp add: entries_refl)
next
  case (Cons j js)
  let ?rs = "refs_at (pt_store p) a"
  from Cons.prems handled [of h n p a "?rs ! j"] obtain r' q where q: "handle a (?rs ! j) p = Some (r', q)" "ok h n q" "later n p q"
    "untouched n p q" "implements h q n a (?rs ! j) r'" by auto
  let ?u = "put_reference a j r' q"
  have at: "atom_at (pt_store q) a = atom_at (pt_store p) a" using q(4) Cons.prems(2) by (simp add: untouched_def)
  then have u: "is_defined_at (pt_store ?u) a" "refs_at (pt_store ?u) a = ?rs[j := r']"
    using Cons.prems(3) by (simp_all add: put_reference_def)
  have "\<forall>i \<in> set js. i < length (refs_at (pt_store ?u) a) \<and> fits h a (refs_at (pt_store ?u) a ! i) \<and> target (refs_at (pt_store ?u) a ! i) < n"
    using Cons.prems(4,5) u by (auto simp: nth_list_update)
  with Cons.IH [of ?u] ok_put [OF q(2) Cons.prems(2)] Cons.prems(2,4) u(1) obtain s where
    s: "handle_references handle a js ?u = Some s" "ok h n s" "later n ?u s"
    "\<forall>x < n. x \<noteq> a \<longrightarrow> atom_at (pt_store s) x = atom_at (pt_store ?u) x" "is_defined_at (pt_store s) a"
    "length (refs_at (pt_store s) a) = length (refs_at (pt_store ?u) a)"
    "\<forall>i < length (refs_at (pt_store ?u) a). if i \<in> set js then implements h s n a (refs_at (pt_store ?u) a ! i) (refs_at (pt_store s) a ! i)
       else refs_at (pt_store s) a ! i = refs_at (pt_store ?u) a ! i"
    by auto
  have us: "later n q s" using entries_put [OF Cons.prems(2)] s(3) by (rule entries_trans)
  have "later n p s" using q(3) us by (rule entries_trans)
  moreover have "atom_at (pt_store s) x = atom_at (pt_store p) x" if x: "x < n" "x \<noteq> a" for x
    using s(4) q(4) x by (simp add: untouched_def put_reference_def)
  moreover have "if i \<in> set (j # js) then implements h s n a (?rs ! i) (refs_at (pt_store s) a ! i) else refs_at (pt_store s) a ! i = ?rs ! i"
    if i: "i < length ?rs" for i
    using s(7) i u(2) Cons.prems(4) implements_stays [OF q(5) us] by (cases "i = j") (auto simp: nth_list_update)
  ultimately show ?case using s q(1) u(2) by auto
qed

lemma atoms_handled:
  assumes "ok h n p" "distinct as" "\<forall>a \<in> set as. a < n \<and> is_defined_at h a \<and> atom_at (pt_store p) a = atom_at h a \<and>
    (\<forall>r \<in> set (refs_at h a). fits h a r \<and> target r < n)"
  shows "\<exists>q. handle_atoms handle as p = Some q \<and> ok h n q \<and> later n p q \<and>
    (\<forall>x < n. x \<notin> set as \<longrightarrow> atom_at (pt_store q) x = atom_at (pt_store p) x) \<and>
    (\<forall>a \<in> set as. is_defined_at (pt_store q) a \<and> list_all2 (implements h q n a) (refs_at h a) (refs_at (pt_store q) a))"
  using assms
proof (induction as arbitrary: p)
  case Nil
  then show ?case by (simp add: entries_refl)
next
  case (Cons a as)
  have a: "a < n" "atom_at (pt_store p) a = atom_at h a" "is_defined_at h a" using Cons.prems(3) by simp_all
  then have "\<exists>q. handle_references handle a [0..<length (refs_at (pt_store p) a)] p = Some q \<and> ok h n q \<and> later n p q \<and>
    (\<forall>x < n. x \<noteq> a \<longrightarrow> atom_at (pt_store q) x = atom_at (pt_store p) x) \<and> is_defined_at (pt_store q) a \<and>
    length (refs_at (pt_store q) a) = length (refs_at (pt_store p) a) \<and>
    (\<forall>j < length (refs_at (pt_store p) a). if j \<in> set [0..<length (refs_at (pt_store p) a)]
       then implements h q n a (refs_at (pt_store p) a ! j) (refs_at (pt_store q) a ! j)
       else refs_at (pt_store q) a ! j = refs_at (pt_store p) a ! j)"
    using Cons.prems by (intro references_handled) auto
  then obtain q where q: "handle_references handle a [0..<length (refs_at (pt_store p) a)] p = Some q" "ok h n q" "later n p q"
    "\<forall>x < n. x \<noteq> a \<longrightarrow> atom_at (pt_store q) x = atom_at (pt_store p) x" "is_defined_at (pt_store q) a"
    and l: "length (refs_at (pt_store q) a) = length (refs_at h a)"
    "\<forall>j < length (refs_at h a). implements h q n a (refs_at h a ! j) (refs_at (pt_store q) a ! j)"
    unfolding a(2) by auto
  have q6: "list_all2 (implements h q n a) (refs_at h a) (refs_at (pt_store q) a)"
    using l by (simp add: list_all2_conv_all_nth)
  have "\<forall>b \<in> set as. b < n \<and> is_defined_at h b \<and> atom_at (pt_store q) b = atom_at h b \<and> (\<forall>r \<in> set (refs_at h b). fits h b r \<and> target r < n)"
    using Cons.prems(2,3) q(4) by auto
  with Cons.IH [OF q(2)] Cons.prems(2) obtain s where s: "handle_atoms handle as q = Some s" "ok h n s" "later n q s"
    "\<forall>x < n. x \<notin> set as \<longrightarrow> atom_at (pt_store s) x = atom_at (pt_store q) x"
    "\<forall>a \<in> set as. is_defined_at (pt_store s) a \<and> list_all2 (implements h s n a) (refs_at h a) (refs_at (pt_store s) a)" by auto
  have "list_all2 (implements h s n a) (refs_at h a) (refs_at (pt_store q) a)"
    using q6 by (rule list_all2_mono) (rule implements_stays [OF _ s(3)])
  moreover have "atom_at (pt_store s) a = atom_at (pt_store q) a" using s(4) a(1) Cons.prems(2) by simp
  ultimately show ?case using q s entries_trans [OF q(3) s(3)] by auto
qed

lemma ordinals_later: "later n p (set_ordinals as p)"
proof -
  have "later n p (fold (\<lambda>(k, a). setAtomOrdinal (of_nat k) a) xs p)" for xs
    using entries_refl entries_trans entries_ordinal by (induction xs arbitrary: p) (auto, metis)
  then show ?thesis by (simp add: set_ordinals_def)
qed

lemma ordinals_untouched: "\<forall>a \<in> set as. n \<le> a \<Longrightarrow> untouched n p (set_ordinals as p)"
proof -
  have "\<forall>x \<in> set xs. n \<le> snd x \<Longrightarrow> untouched n p (fold (\<lambda>(k, a). setAtomOrdinal (of_nat k) a) xs p)" for xs :: "(nat \<times> atom_id) list"
  proof (induction xs arbitrary: p)
    case (Cons x xs)
    obtain k a where x: "x = (k, a)" by (cases x)
    with Cons.prems have "n \<le> a" by simp
    from untouched_trans [OF ordinal_untouched [OF this] Cons.IH] Cons.prems show ?case by (simp add: x)
  qed simp
  moreover assume "\<forall>a \<in> set as. n \<le> a"
  then have "\<forall>x \<in> set (enumerate 0 as). n \<le> snd x" by (auto simp: in_set_enumerate_eq)
  ultimately show ?thesis by (simp add: set_ordinals_def)
qed

lemma performed:
  assumes "ok h n p" "distinct as" "\<forall>a \<in> set as. a < n \<and> is_defined_at h a \<and> atom_at (pt_store p) a = atom_at h a \<and>
    (\<forall>r \<in> set (refs_at h a). fits h a r \<and> target r < n)"
    and "\<And>q. ok h n q \<Longrightarrow> \<forall>a \<in> set (made q). n \<le> a"
  shows "\<exists>s q. perform_pass handle made as p = Some (as @ made s, q) \<and> ok h n s \<and> later n s q \<and> q = set_ordinals (made s) s \<and>
    (\<forall>x < n. x \<notin> set as \<longrightarrow> atom_at (pt_store q) x = atom_at (pt_store p) x) \<and>
    (\<forall>a \<in> set as. is_defined_at (pt_store q) a \<and> list_all2 (implements h q n a) (refs_at h a) (refs_at (pt_store q) a))"
proof -
  obtain s where s: "handle_atoms handle as p = Some s" "ok h n s"
    "\<forall>x < n. x \<notin> set as \<longrightarrow> atom_at (pt_store s) x = atom_at (pt_store p) x"
    "\<forall>a \<in> set as. is_defined_at (pt_store s) a \<and> list_all2 (implements h s n a) (refs_at h a) (refs_at (pt_store s) a)"
    using atoms_handled [OF assms(1-3)] by blast
  let ?q = "set_ordinals (made s) s"
  have q: "later n s ?q" "untouched n s ?q" using ordinals_later ordinals_untouched assms(4) [OF s(2)] by blast+
  from q(2) have at: "\<forall>x < n. atom_at (pt_store ?q) x = atom_at (pt_store s) x" by (simp add: untouched_def)
  have "list_all2 (implements h ?q n a) (refs_at h a) (refs_at (pt_store s) a)" if a: "a \<in> set as" for a
    using s(4) a by (auto intro: list_all2_mono implements_stays [OF _ q(1)])
  then have "\<forall>a \<in> set as. is_defined_at (pt_store ?q) a \<and> list_all2 (implements h ?q n a) (refs_at h a) (refs_at (pt_store ?q) a)"
    using at s(4) assms(3) by simp
  moreover have "\<forall>x < n. x \<notin> set as \<longrightarrow> atom_at (pt_store ?q) x = atom_at (pt_store p) x" using s(3) at by simp
  moreover have "perform_pass handle made as p = Some (as @ made s, ?q)" using s(1) by (simp add: perform_pass_def)
  ultimately show ?thesis using s(2) q(1) by blast
qed

end

end
