(* ===== verification/Got_Plt.thy ===== *)
theory Got_Plt
  imports Reloc_Pass
begin

text \<open>
  The tables of the relocation passes of x86-64 and AArch64, which keep the same members (X86_64RelocationPass.cpp,
  AArch64RelocationPass.cpp): the entries of the GOT and the PLT and the copies of objects, with the maps that find them.
\<close>

record got_plt = pass_base +
  gotMap :: "atom_id \<rightharpoonup> atom_id"
  pltMap :: "atom_id \<rightharpoonup> atom_id"
  tlsMap :: "atom_id \<rightharpoonup> atom_id"
  objectMap :: "atom_id \<rightharpoonup> atom_id"
  gotVector :: "atom_id list"
  pltVector :: "atom_id list"
  tlsVector :: "atom_id list"
  objectVector :: "atom_id list"
  null_got :: "atom_id option"
  plt0 :: "(atom_id \<times> atom_id \<times> atom_id) option"

definition no_entries :: "store \<Rightarrow> nat \<Rightarrow> file_id \<Rightarrow> got_plt" where
  "no_entries h n f =
     \<lparr>pt_store = h, pt_next = n, pt_file = f, gotMap = Map.empty, pltMap = Map.empty, tlsMap = Map.empty, objectMap = Map.empty,
      gotVector = [], pltVector = [], tlsVector = [], objectVector = [], null_got = None, plt0 = None\<rparr>"

text \<open>What the passes ask of the atoms of shared libraries, and the numbers of the relocations.\<close>

record 'k pass_env =
  kind_of :: "u16 \<Rightarrow> 'k"
  number :: "'k \<Rightarrow> u16"
  shl_type_of :: "atom_id \<Rightarrow> shl_type"
  shl_size :: "atom_id \<Rightarrow> u64"

text \<open>The atoms that \<open>perform\<close> adds to the file, in its order.\<close>

definition made :: "got_plt \<Rightarrow> atom_id list" where
  "made p =
     (case plt0 p of None \<Rightarrow> [] | Some (e, g0, g1) \<Rightarrow> [e]) @ pltVector p @ (case null_got p of None \<Rightarrow> [] | Some g \<Rightarrow> [g]) @
     (case plt0 p of None \<Rightarrow> [] | Some (e, g0, g1) \<Rightarrow> [g0, g1]) @ gotVector p @ tlsVector p @ objectVector p"

definition is_resolver :: "store \<Rightarrow> atom_id \<Rightarrow> bool" where
  "is_resolver h a \<longleftrightarrow> is_defined_at h a \<and> contentType (the_defined (atom_at h a)) = typeResolver"

section \<open>Entries\<close>

text \<open>
  \<open>entry\<close>: an atom of the pass that goes into the file. A GOT entry begins with one of the references \<open>rs\<close>, which fills it; a
  PLT entry begins with the reference \<open>jump\<close> to such an entry.
\<close>

definition entry :: "nat \<Rightarrow> got_plt \<Rightarrow> content_type \<Rightarrow> atom_id \<Rightarrow> bool" where
  "entry n p ct g \<longleftrightarrow> n \<le> g \<and> g < pt_next p \<and> g \<in> set (made p) \<and> is_defined_at (pt_store p) g \<and>
     contentType (the_defined (atom_at (pt_store p) g)) = ct"

definition got_entry :: "nat \<Rightarrow> got_plt \<Rightarrow> reference set \<Rightarrow> atom_id \<Rightarrow> bool" where
  "got_entry n p rs g \<longleftrightarrow> entry n p typeGOT g \<and> (\<exists>r rest. refs_at (pt_store p) g = r # rest \<and> r \<in> rs)"

definition plt_entry :: "nat \<Rightarrow> got_plt \<Rightarrow> (atom_id \<Rightarrow> reference) \<Rightarrow> reference set \<Rightarrow> atom_id \<Rightarrow> bool" where
  "plt_entry n p jump rs q \<longleftrightarrow> entry n p typeStub q \<and>
     (\<exists>g rest. refs_at (pt_store p) q = jump g # rest \<and> got_entry n p rs g)"

definition null_entry :: "nat \<Rightarrow> got_plt \<Rightarrow> atom_id \<Rightarrow> bool" where
  "null_entry n p g \<longleftrightarrow> entry n p typeGOT g \<and> refs_at (pt_store p) g = []"

definition copy_entry :: "nat \<Rightarrow> got_plt \<Rightarrow> (atom_id \<Rightarrow> reference) \<Rightarrow> string \<Rightarrow> u64 \<Rightarrow> atom_id \<Rightarrow> bool" where
  "copy_entry n p copy nm bytes q \<longleftrightarrow> entry n p typeZeroFill q \<and> refs_at (pt_store p) q = [copy q] \<and>
     name_of (pt_store p) q = nm \<and> da_size (the_defined (atom_at (pt_store p) q)) = bytes"

definition later :: "nat \<Rightarrow> got_plt \<Rightarrow> got_plt \<Rightarrow> bool" where
  "later n p q \<longleftrightarrow> kept n p q \<and> set (made p) \<subseteq> set (made q) \<and> pltMap p \<subseteq>\<^sub>m pltMap q \<and> tlsMap p \<subseteq>\<^sub>m tlsMap q \<and>
     objectMap p \<subseteq>\<^sub>m objectMap q \<and> (\<forall>g. null_got p = Some g \<longrightarrow> null_got q = Some g)"

lemma later_refl: "later n p p"
  by (simp add: later_def)

lemma later_trans: "later n p q \<Longrightarrow> later n q s \<Longrightarrow> later n p s"
  unfolding later_def by (meson kept_trans map_le_trans subset_trans)

lemma later_no_ordinal:
  assumes "later n p q" "n \<le> g" "g < pt_next p"
  shows "no_ordinal (atom_at (pt_store p) g) = no_ordinal (atom_at (pt_store q) g)"
  using assms by (simp add: later_def kept_def)

lemma entry_later:
  assumes "entry n p ct g" "later n p q"
  shows "entry n q ct g" "refs_at (pt_store q) g = refs_at (pt_store p) g" "name_of (pt_store q) g = name_of (pt_store p) g"
    "da_size (the_defined (atom_at (pt_store q) g)) = da_size (the_defined (atom_at (pt_store p) g))"
proof -
  have "no_ordinal (atom_at (pt_store p) g) = no_ordinal (atom_at (pt_store q) g)"
    using assms by (auto simp: entry_def intro: later_no_ordinal)
  moreover have "is_defined_at (pt_store p) g" using assms(1) by (simp add: entry_def)
  ultimately have e: "is_defined_at (pt_store q) g" "name_of (pt_store p) g = name_of (pt_store q) g"
    "contentType (the_defined (atom_at (pt_store p) g)) = contentType (the_defined (atom_at (pt_store q) g))"
    "refs_at (pt_store p) g = refs_at (pt_store q) g"
    "da_size (the_defined (atom_at (pt_store p) g)) = da_size (the_defined (atom_at (pt_store q) g))"
    by (rule no_ordinal_eq)+
  show "refs_at (pt_store q) g = refs_at (pt_store p) g" "name_of (pt_store q) g = name_of (pt_store p) g"
    "da_size (the_defined (atom_at (pt_store q) g)) = da_size (the_defined (atom_at (pt_store p) g))" using e by simp_all
  show "entry n q ct g" using assms e(1,3) by (auto simp: entry_def later_def kept_def)
qed

lemma entries_later:
  assumes "later n p q"
  shows "got_entry n p rs g \<Longrightarrow> got_entry n q rs g" "plt_entry n p jump rs g \<Longrightarrow> plt_entry n q jump rs g"
    "null_entry n p g \<Longrightarrow> null_entry n q g" "copy_entry n p copy nm bytes g \<Longrightarrow> copy_entry n q copy nm bytes g"
proof -
  show got: "got_entry n p rs g \<Longrightarrow> got_entry n q rs g" for g
    unfolding got_entry_def using entry_later [OF _ assms] by metis
  show "plt_entry n p jump rs g \<Longrightarrow> plt_entry n q jump rs g"
    unfolding plt_entry_def using entry_later [OF _ assms] got by metis
  show "null_entry n p g \<Longrightarrow> null_entry n q g"
    unfolding null_entry_def using entry_later [OF _ assms] by metis
  show "copy_entry n p copy nm bytes g \<Longrightarrow> copy_entry n q copy nm bytes g"
    unfolding copy_entry_def using entry_later [OF _ assms] by metis
qed

text \<open>The base of a state does not touch the maps.\<close>

lemma got_plt_update [simp]:
  "gotMap (update_atom f a p) = gotMap p" "pltMap (update_atom f a p) = pltMap p" "tlsMap (update_atom f a p) = tlsMap p"
  "objectMap (update_atom f a p) = objectMap p" "gotVector (update_atom f a p) = gotVector p" "pltVector (update_atom f a p) = pltVector p"
  "tlsVector (update_atom f a p) = tlsVector p" "objectVector (update_atom f a p) = objectVector p" "null_got (update_atom f a p) = null_got p"
  "plt0 (update_atom f a p) = plt0 p" "made (update_atom f a p) = made p"
  by (simp_all add: update_atom_def made_def)

lemma got_plt_new [simp]:
  "gotMap (snd (new_atom nm d p)) = gotMap p" "pltMap (snd (new_atom nm d p)) = pltMap p" "tlsMap (snd (new_atom nm d p)) = tlsMap p"
  "objectMap (snd (new_atom nm d p)) = objectMap p" "gotVector (snd (new_atom nm d p)) = gotVector p"
  "pltVector (snd (new_atom nm d p)) = pltVector p" "tlsVector (snd (new_atom nm d p)) = tlsVector p"
  "objectVector (snd (new_atom nm d p)) = objectVector p" "null_got (snd (new_atom nm d p)) = null_got p" "plt0 (snd (new_atom nm d p)) = plt0 p"
  by (simp_all add: new_atom_def)

lemma later_update: "kept n p (update_atom f a p) \<Longrightarrow> later n p (update_atom f a p)"
  by (simp add: later_def)

lemma later_put: "a < n \<Longrightarrow> later n p (put_reference a j r p)" and later_ordinal: "later n p (setAtomOrdinal k a p)"
  using put_kept [of a n p j r] ordinal_kept [of n p k a] by (simp_all add: put_reference_def setAtomOrdinal_def later_update)

section \<open>Well-formed tables\<close>

text \<open>
  The tables are well formed when every entry is what its map says and no atom is there twice. The references that fill the
  entries of an atom are parameters: \<open>got\<close> and \<open>slot\<close>; \<open>tls\<close> are those of the pass's own TLS entries.
\<close>

record entry_refs =
  er_got :: "store \<Rightarrow> atom_id \<Rightarrow> reference set"
  er_slot :: "store \<Rightarrow> atom_id \<Rightarrow> reference set"
  er_tls :: "atom_id \<Rightarrow> reference set"
  er_jump :: "store \<Rightarrow> atom_id \<Rightarrow> atom_id \<Rightarrow> reference"
  er_copy :: "atom_id \<Rightarrow> reference"
  er_size :: "atom_id \<Rightarrow> u64"

definition entries_ok :: "entry_refs \<Rightarrow> store \<Rightarrow> nat \<Rightarrow> got_plt \<Rightarrow> bool" where
  "entries_ok R h n p \<longleftrightarrow> same_atoms h n p \<and> distinct (made p) \<and> (\<forall>g \<in> set (made p). n \<le> g \<and> g < pt_next p) \<and>
     (\<forall>t g. gotMap p t = Some g \<longrightarrow> got_entry n p (er_got R h t) g) \<and>
     (\<forall>t g. pltMap p t = Some g \<longrightarrow> plt_entry n p (er_jump R h t) (er_slot R h t) g) \<and>
     (\<forall>t g. tlsMap p t = Some g \<longrightarrow> got_entry n p (er_tls R t) g) \<and>
     (\<forall>t g. objectMap p t = Some g \<longrightarrow> copy_entry n p (er_copy R) (name_of h t) (er_size R t) g) \<and>
     (\<forall>g. null_got p = Some g \<longrightarrow> null_entry n p g)"

lemma tables_start: "entries_ok R h n (no_entries h n f)"
  by (simp add: entries_ok_def no_entries_def same_atoms_def made_def)

lemma tables_grow:
  assumes "entries_ok R h n p" "later n p q" "untouched n p q" "distinct (made q)" "\<forall>g \<in> set (made q). n \<le> g \<and> g < pt_next q"
    and "\<And>t g. gotMap q t = Some g \<Longrightarrow> gotMap p t = Some g \<or> got_entry n q (er_got R h t) g"
    and "\<And>t g. pltMap q t = Some g \<Longrightarrow> pltMap p t = Some g \<or> plt_entry n q (er_jump R h t) (er_slot R h t) g"
    and "\<And>t g. tlsMap q t = Some g \<Longrightarrow> tlsMap p t = Some g \<or> got_entry n q (er_tls R t) g"
    and "\<And>t g. objectMap q t = Some g \<Longrightarrow> objectMap p t = Some g \<or> copy_entry n q (er_copy R) (name_of h t) (er_size R t) g"
    and "\<And>g. null_got q = Some g \<Longrightarrow> null_got p = Some g \<or> null_entry n q g"
  shows "entries_ok R h n q"
proof -
  note e = entries_later [OF assms(2)]
  have "pt_next p \<le> pt_next q" using assms(2) by (simp add: later_def kept_def)
  then have "same_atoms h n q" using assms(1,3) untouched_same by (auto simp: entries_ok_def)
  moreover have "got_entry n q (er_got R h t) g" if "gotMap q t = Some g" for t g
    using assms(1) assms(6) [OF that] e(1) by (auto simp: entries_ok_def)
  moreover have "plt_entry n q (er_jump R h t) (er_slot R h t) g" if "pltMap q t = Some g" for t g
    using assms(1) assms(7) [OF that] e(2) by (auto simp: entries_ok_def)
  moreover have "got_entry n q (er_tls R t) g" if "tlsMap q t = Some g" for t g
    using assms(1) assms(8) [OF that] e(1) by (auto simp: entries_ok_def)
  moreover have "copy_entry n q (er_copy R) (name_of h t) (er_size R t) g" if "objectMap q t = Some g" for t g
    using assms(1) assms(9) [OF that] e(4) by (auto simp: entries_ok_def)
  moreover have "null_entry n q g" if "null_got q = Some g" for g
    using assms(1) assms(10) [OF that] e(3) by (auto simp: entries_ok_def)
  ultimately show ?thesis using assms(4,5) by (simp add: entries_ok_def)
qed

lemma tables_put: "entries_ok R h n p \<Longrightarrow> a < n \<Longrightarrow> entries_ok R h n (put_reference a j r p)"
proof -
  assume t: "entries_ok R h n p" and a: "a < n"
  note e = entries_later [OF later_put [OF a]]
  have "same_atoms h n (put_reference a j r p)" using t put_same by (auto simp: entries_ok_def)
  with t e show ?thesis unfolding entries_ok_def by (simp add: put_reference_def)
qed

end
