(* ===== verification/X86_64_Pass.thy ===== *)
theory X86_64_Pass
  imports Got_Plt
begin

text \<open>
  The relocation pass of x86-64 (lib/ReaderWriter/ELF/X86_64/X86_64RelocationPass.cpp): it makes the entries of the GOT and the
  PLT that references need and redirects the references to them.
\<close>

section \<open>Relocations and contents\<close>

datatype x86_64_kind =
    R_X86_64_NONE | R_X86_64_16 | R_X86_64_32 | R_X86_64_32S | R_X86_64_64 | R_X86_64_PC16 | R_X86_64_PC32 | R_X86_64_PC64
  | R_X86_64_PLT32 | R_X86_64_GOT32 | R_X86_64_GOTPC32 | R_X86_64_GOTPCREL | R_X86_64_GOTOFF64 | R_X86_64_GOTTPOFF
  | R_X86_64_TLSGD | R_X86_64_COPY | R_X86_64_GLOB_DAT | R_X86_64_JUMP_SLOT | R_X86_64_IRELATIVE | R_X86_64_TPOFF64
  | R_X86_64_DTPMOD64 | R_X86_64_DTPOFF64 | LLD_R_X86_64_GOTRELINDEX | R_X86_64_unlisted

definition x86_64GotAtomContent :: "u8 list" where
  "x86_64GotAtomContent = replicate 8 0"

definition x86_64Plt0AtomContent :: "u8 list" where
  "x86_64Plt0AtomContent =
     [0xff, 0x35, 0x00, 0x00, 0x00, 0x00, 0xff, 0x25, 0x00, 0x00, 0x00, 0x00, 0x90, 0x90, 0x90, 0x90]"

definition x86_64PltAtomContent :: "u8 list" where
  "x86_64PltAtomContent =
     [0xff, 0x25, 0x00, 0x00, 0x00, 0x00, 0x68, 0x00, 0x00, 0x00, 0x00, 0xe9, 0x00, 0x00, 0x00, 0x00]"

definition x86_64GotTlsGdAtomContent :: "u8 list" where
  "x86_64GotTlsGdAtomContent = replicate 16 0"

type_synonym x86_64_pass_env = "x86_64_kind pass_env"

definition X86_64GOTAtom :: "string \<Rightarrow> defined_atom" where
  "X86_64GOTAtom sec = GOTAtom sec x86_64GotAtomContent"

definition X86_64PLTAtom :: "string \<Rightarrow> defined_atom" where
  "X86_64PLTAtom sec = PLTAtom sec x86_64PltAtomContent"

definition addReferenceELF_x86_64 ::
  "x86_64_pass_env \<Rightarrow> x86_64_kind \<Rightarrow> u64 \<Rightarrow> atom_id \<Rightarrow> i64 \<Rightarrow> atom_id \<Rightarrow> got_plt \<Rightarrow> got_plt" where
  "addReferenceELF_x86_64 env k off t a = addReferenceELF arch_x86_64 (number env k) off t a"

section \<open>Making entries\<close>

definition getIFUNCPLTEntry :: "x86_64_pass_env \<Rightarrow> atom_id \<Rightarrow> got_plt \<Rightarrow> atom_id \<times> got_plt" where
  "getIFUNCPLTEntry env da p =
     (case pltMap p da of
        Some q \<Rightarrow> (q, p)
      | None \<Rightarrow>
          let (ga, p) = new_atom [] (X86_64GOTAtom ''.got.plt'') p;
              p = addReferenceELF_x86_64 env R_X86_64_IRELATIVE 0 da 0 ga p;
              (pa, p) = new_atom [] (X86_64PLTAtom ''.plt'') p;
              p = addReferenceELF_x86_64 env R_X86_64_PC32 2 ga (-4) pa p
          in (pa, p\<lparr>gotMap := (gotMap p)(da \<mapsto> ga), pltMap := (pltMap p)(da \<mapsto> pa),
                    gotVector := gotVector p @ [ga], pltVector := pltVector p @ [pa]\<rparr>))"

text \<open>\<open>getGOTTPOFF\<close>, \<open>getGOT\<close> and \<open>getSharedGOT\<close> differ in the relocation only.\<close>

definition got_for :: "x86_64_pass_env \<Rightarrow> x86_64_kind \<Rightarrow> atom_id \<Rightarrow> got_plt \<Rightarrow> atom_id \<times> got_plt" where
  "got_for env k a p =
     (case gotMap p a of
        Some g \<Rightarrow> (g, p)
      | None \<Rightarrow>
          let (g, p) = new_atom [] (X86_64GOTAtom ''.got'') p;
              p = addReferenceELF_x86_64 env k 0 a 0 g p
          in (g, p\<lparr>gotMap := (gotMap p)(a \<mapsto> g), gotVector := gotVector p @ [g]\<rparr>))"

definition getGOTTPOFF :: "x86_64_pass_env \<Rightarrow> atom_id \<Rightarrow> got_plt \<Rightarrow> atom_id \<times> got_plt" where
  "getGOTTPOFF env = got_for env R_X86_64_TPOFF64"

definition getGOT :: "x86_64_pass_env \<Rightarrow> atom_id \<Rightarrow> got_plt \<Rightarrow> atom_id \<times> got_plt" where
  "getGOT env = got_for env R_X86_64_64"

definition getSharedGOT :: "x86_64_pass_env \<Rightarrow> atom_id \<Rightarrow> got_plt \<Rightarrow> atom_id \<times> got_plt" where
  "getSharedGOT env = got_for env R_X86_64_GLOB_DAT"

definition getNullGOT :: "got_plt \<Rightarrow> atom_id \<times> got_plt" where
  "getNullGOT p =
     (case null_got p of
        Some g \<Rightarrow> (g, p)
      | None \<Rightarrow> let (g, p) = new_atom [] (X86_64GOTAtom ''.got.plt'') p in (g, p\<lparr>null_got := Some g\<rparr>))"

definition getTLSGdGOTEntry :: "x86_64_pass_env \<Rightarrow> atom_id \<Rightarrow> got_plt \<Rightarrow> atom_id \<times> got_plt" where
  "getTLSGdGOTEntry env a p =
     (case tlsMap p a of
        Some g \<Rightarrow> (g, p)
      | None \<Rightarrow>
          let (ga, p) = new_atom [] (GOTAtom ''.got'' x86_64GotTlsGdAtomContent) p;
              p = p\<lparr>tlsMap := (tlsMap p)(a \<mapsto> ga), tlsVector := tlsVector p @ [ga]\<rparr>;
              p = addReferenceELF_x86_64 env R_X86_64_DTPMOD64 0 a 0 ga p
          in (ga, addReferenceELF_x86_64 env R_X86_64_DTPOFF64 8 a 0 ga p))"

definition getPLT0 :: "x86_64_pass_env \<Rightarrow> got_plt \<Rightarrow> atom_id \<times> got_plt" where
  "getPLT0 env p =
     (case plt0 p of
        Some (e, _, _) \<Rightarrow> (e, p)
      | None \<Rightarrow>
          let (_, p) = getNullGOT p;
              (e, p) = new_atom [] (PLT0Atom x86_64Plt0AtomContent) p;
              (g0, p) = new_atom [] (X86_64GOTAtom ''.got.plt'') p;
              (g1, p) = new_atom [] (X86_64GOTAtom ''.got.plt'') p;
              p = addReferenceELF_x86_64 env R_X86_64_PC32 2 g0 (-4) e p;
              p = addReferenceELF_x86_64 env R_X86_64_PC32 8 g1 (-4) e p
          in (e, p\<lparr>plt0 := Some (e, g0, g1)\<rparr>))"

definition getPLTEntry :: "x86_64_pass_env \<Rightarrow> atom_id \<Rightarrow> got_plt \<Rightarrow> atom_id \<times> got_plt" where
  "getPLTEntry env a p =
     (case pltMap p a of
        Some q \<Rightarrow> (q, p)
      | None \<Rightarrow>
          let (ga, p) = new_atom [] (X86_64GOTAtom ''.got.plt'') p;
              p = addReferenceELF_x86_64 env R_X86_64_JUMP_SLOT 0 a 0 ga p;
              (pa, p) = new_atom [] (X86_64PLTAtom ''.plt'') p;
              p = addReferenceELF_x86_64 env R_X86_64_PC32 2 ga (-4) pa p;
              p = addReferenceELF_x86_64 env LLD_R_X86_64_GOTRELINDEX 7 ga 0 pa p;
              (e, p) = getPLT0 env p;
              p = addReferenceELF_x86_64 env R_X86_64_PC32 12 e (-4) pa p;
              p = addReferenceELF_x86_64 env R_X86_64_64 0 pa 6 ga p
          in (pa, p\<lparr>gotMap := (gotMap p)(a \<mapsto> ga), pltMap := (pltMap p)(a \<mapsto> pa),
                    gotVector := gotVector p @ [ga], pltVector := pltVector p @ [pa]\<rparr>))"

definition getObjectEntry :: "x86_64_pass_env \<Rightarrow> atom_id \<Rightarrow> got_plt \<Rightarrow> atom_id \<times> got_plt" where
  "getObjectEntry env a p =
     (case objectMap p a of
        Some q \<Rightarrow> (q, p)
      | None \<Rightarrow>
          let nm = name_of (pt_store p) a; (oa, p) = new_atom nm (ObjectAtom (shl_size env a)) p;
              p = addReferenceELF_x86_64 env R_X86_64_COPY 0 oa 0 oa p
          in (oa, p\<lparr>objectMap := (objectMap p)(a \<mapsto> oa), objectVector := objectVector p @ [oa]\<rparr>))"

section \<open>Handling references\<close>

definition redirect_to :: "reference \<Rightarrow> atom_id \<times> got_plt \<Rightarrow> reference \<times> got_plt" where
  "redirect_to r gp = (r\<lparr>target := fst gp\<rparr>, snd gp)"

definition handleIFUNC :: "x86_64_pass_env \<Rightarrow> reference \<Rightarrow> got_plt \<Rightarrow> reference \<times> got_plt" where
  "handleIFUNC env r p =
     (if is_resolver (pt_store p) (target r) then redirect_to r (getIFUNCPLTEntry env (target r) p) else (r, p))"

definition handleGOTTPOFF :: "x86_64_pass_env \<Rightarrow> reference \<Rightarrow> got_plt \<Rightarrow> reference \<times> got_plt" where
  "handleGOTTPOFF env r p =
     (if is_defined_at (pt_store p) (target r) then redirect_to r (getGOTTPOFF env (target r) p) else (r, p))"

definition handleTLSGd :: "x86_64_pass_env \<Rightarrow> reference \<Rightarrow> got_plt \<Rightarrow> reference \<times> got_plt" where
  "handleTLSGd env r p = redirect_to r (getTLSGdGOTEntry env (target r) p)"

text \<open>What the static and the dynamic pass do differently: \<open>handlePlain\<close>, \<open>handlePLT32\<close> and \<open>handleGOT\<close>.\<close>

type_synonym handler = "x86_64_pass_env \<Rightarrow> reference \<Rightarrow> got_plt \<Rightarrow> reference \<times> got_plt"

definition static_handlePLT32 :: handler where
  "static_handlePLT32 env r p =
     (if name_of (pt_store p) (target r) = ''__tls_get_addr'' then (r\<lparr>kindValue := number env R_X86_64_NONE\<rparr>, p)
      else let r = r\<lparr>kindValue := number env R_X86_64_PC32\<rparr>
           in if is_resolver (pt_store p) (target r) then handleIFUNC env r p else (r, p))"

definition static_handleGOT :: handler where
  "static_handleGOT env r p =
     (if is_undefined_at (pt_store p) (target r) then redirect_to r (getNullGOT p)
      else if is_defined_at (pt_store p) (target r) then redirect_to r (getGOT env (target r) p)
      else (r, p))"

definition dynamic_handlePlain :: handler where
  "dynamic_handlePlain env r p =
     (if is_SharedLibraryAtom (atom_at (pt_store p) (target r)) then
        (case shl_type_of env (target r) of
           shl_Data \<Rightarrow> redirect_to r (getObjectEntry env (target r) p)
         | shl_Code \<Rightarrow> redirect_to r (getPLTEntry env (target r) p)
         | shl_Unknown \<Rightarrow> (r, p))
      else handleIFUNC env r p)"

definition dynamic_handlePLT32 :: handler where
  "dynamic_handlePLT32 env r p =
     (let r = r\<lparr>kindValue := number env R_X86_64_PC32\<rparr>; x = atom_at (pt_store p) (target r) in
      if is_resolver (pt_store p) (target r) then handleIFUNC env r p
      else if is_SharedLibraryAtom x \<or> is_UndefinedAtom x then redirect_to r (getPLTEntry env (target r) p)
      else (r, p))"

definition dynamic_handleGOT :: handler where
  "dynamic_handleGOT env r p =
     (let x = atom_at (pt_store p) (target r) in
      if is_DefinedAtom x then redirect_to r (getGOT env (target r) p)
      else if is_SharedLibraryAtom x \<or> is_UndefinedAtom x then redirect_to r (getSharedGOT env (target r) p)
      else (r, p))"

text \<open>\<open>None\<close> is the failing assertion that an ELF reference is one of x86-64.\<close>

definition handleReference ::
  "handler \<Rightarrow> handler \<Rightarrow> handler \<Rightarrow> x86_64_pass_env \<Rightarrow> atom_id \<Rightarrow> reference \<Rightarrow> got_plt \<Rightarrow> (reference \<times> got_plt) option" where
  "handleReference handlePlain handlePLT32 handleGOT env a r p =
     (if kindNamespace r \<noteq> ns_ELF then Some (r, p)
      else if kindArch r \<noteq> arch_x86_64 then None
      else let k = kind_of env (kindValue r) in
        Some (if k \<in> {R_X86_64_16, R_X86_64_32, R_X86_64_32S, R_X86_64_64, R_X86_64_PC16, R_X86_64_PC32, R_X86_64_PC64}
                then handlePlain env r p
              else if k = R_X86_64_PLT32 then handlePLT32 env r p
              else if k \<in> {R_X86_64_GOT32, R_X86_64_GOTPC32, R_X86_64_GOTPCREL, R_X86_64_GOTOFF64} then handleGOT env r p
              else if k = R_X86_64_GOTTPOFF then handleGOTTPOFF env r p
              else if k = R_X86_64_TLSGD then handleTLSGd env r p
              else (r, p)))"

definition StaticRelocationPass where
  "StaticRelocationPass = handleReference handleIFUNC static_handlePLT32 static_handleGOT"

definition DynamicRelocationPass where
  "DynamicRelocationPass = handleReference dynamic_handlePlain dynamic_handlePLT32 dynamic_handleGOT"

text \<open>Both passes over the atoms \<open>as\<close> of the merged file \<open>h\<close>, with \<open>n\<close> the first free address.\<close>

definition static_perform :: "x86_64_pass_env \<Rightarrow> store \<Rightarrow> nat \<Rightarrow> file_id \<Rightarrow> atom_id list \<Rightarrow> (atom_id list \<times> got_plt) option" where
  "static_perform env h n f as = perform_pass (StaticRelocationPass env) made as (no_entries h n f)"

definition dynamic_perform :: "x86_64_pass_env \<Rightarrow> store \<Rightarrow> nat \<Rightarrow> file_id \<Rightarrow> atom_id list \<Rightarrow> (atom_id list \<times> got_plt) option" where
  "dynamic_perform env h n f as = perform_pass (DynamicRelocationPass env) made as (no_entries h n f)"

end
