(* ===== verification/X86_64_Redirects.thy ===== *)
theory X86_64_Redirects
  imports X86_64_Pass
begin

text \<open>
  The relocation pass of x86-64 keeps the meaning of every reference: the entries it makes are what their maps say
  (\<open>entries_ok\<close>), each handler sends its reference to such an entry, and with the contract of Reloc_Pass this holds for
  the whole file.
\<close>

section \<open>Every entry is what it is for\<close>

definition x86_64_ref :: "x86_64_pass_env \<Rightarrow> x86_64_kind \<Rightarrow> u64 \<Rightarrow> atom_id \<Rightarrow> i64 \<Rightarrow> reference" where
  "x86_64_ref env k = elf_reference arch_x86_64 (number env k)"

text \<open>What fills a GOT entry of an atom and the slot of its PLT entry.\<close>

definition got_kinds :: "store \<Rightarrow> atom_id \<Rightarrow> x86_64_kind set" where
  "got_kinds h t =
     (if is_defined_at h t then {R_X86_64_64, R_X86_64_TPOFF64} \<union> (if is_resolver h t then {R_X86_64_IRELATIVE} else {})
      else {R_X86_64_GLOB_DAT, R_X86_64_JUMP_SLOT})"

definition slot_kind :: "store \<Rightarrow> atom_id \<Rightarrow> x86_64_kind" where
  "slot_kind h t = (if is_resolver h t then R_X86_64_IRELATIVE else R_X86_64_JUMP_SLOT)"

definition x86_64_entries :: "x86_64_pass_env \<Rightarrow> entry_refs" where
  "x86_64_entries env =
     \<lparr>er_got = (\<lambda>h t. (\<lambda>k. x86_64_ref env k 0 t 0) ` got_kinds h t), er_slot = (\<lambda>h t. {x86_64_ref env (slot_kind h t) 0 t 0}),
      er_tls = (\<lambda>t. {x86_64_ref env R_X86_64_DTPMOD64 0 t 0}), er_jump = (\<lambda>h t g. x86_64_ref env R_X86_64_PC32 2 g (-4)),
      er_copy = (\<lambda>g. x86_64_ref env R_X86_64_COPY 0 g 0), er_size = shl_size env\<rparr>"

abbreviation grows :: "x86_64_pass_env \<Rightarrow> store \<Rightarrow> nat \<Rightarrow> got_plt \<Rightarrow> got_plt \<Rightarrow> bool" where
  "grows env h n p q \<equiv> entries_ok (x86_64_entries env) h n q \<and> later n p q \<and> untouched n p q"

lemma tables_next: "entries_ok R h n p \<Longrightarrow> n \<le> pt_next p" and tables_made: "entries_ok R h n p \<Longrightarrow> g \<in> set (made p) \<Longrightarrow> g < pt_next p"
  by (auto simp: entries_ok_def same_atoms_def)

lemma fresh_later:
  assumes "n \<le> pt_next p" "pt_next p \<le> pt_next q" "\<And>x. x < pt_next p \<Longrightarrow> atom_at (pt_store q) x = atom_at (pt_store p) x"
    and "set (made p) \<subseteq> set (made q)" "pltMap p \<subseteq>\<^sub>m pltMap q" "tlsMap p \<subseteq>\<^sub>m tlsMap q" "objectMap p \<subseteq>\<^sub>m objectMap q"
    "\<And>g. null_got p = Some g \<Longrightarrow> null_got q = Some g"
  shows "later n p q \<and> untouched n p q"
  using assms by (auto simp: later_def untouched_def kept_def)

lemmas pass_defs = Let_def split_beta addReferenceELF_x86_64_def addReferenceELF_def

lemma tables_vectors:
  assumes "entries_ok R h n p" "pt_next p \<le> x"
  shows "x \<notin> set (gotVector p)" "x \<notin> set (pltVector p)" "x \<notin> set (tlsVector p)" "x \<notin> set (objectVector p)" "null_got p \<noteq> Some x"
    "\<And>e g0 g1. plt0 p = Some (e, g0, g1) \<Longrightarrow> x \<noteq> e \<and> x \<noteq> g0 \<and> x \<noteq> g1"
  using tables_made [OF assms(1), of x] assms(2) by (auto simp: made_def)

lemma got_for_step:
  assumes ok: "entries_ok (x86_64_entries env) h n p" and k: "k \<in> got_kinds h t" and r: "got_for env k t p = (g, q)"
  shows "grows env h n p q \<and> got_entry n q (er_got (x86_64_entries env) h t) g"
proof (cases "gotMap p t")
  case (Some g')
  then have "g' = g" "p = q" using r by (simp_all add: got_for_def)
  with ok Some show ?thesis by (auto simp: later_refl entries_ok_def)
next
  case None
  let ?x = "pt_next p" and ?R = "x86_64_entries env"
  have q: "g = ?x" "pt_next q = Suc ?x" "gotMap q = (gotMap p)(t \<mapsto> ?x)" "gotVector q = gotVector p @ [?x]" "pltMap q = pltMap p"
    "tlsMap q = tlsMap p" "objectMap q = objectMap p" "pltVector q = pltVector p" "tlsVector q = tlsVector p" "objectVector q = objectVector p"
    "null_got q = null_got p" "plt0 q = plt0 p" "\<And>y. y < ?x \<Longrightarrow> atom_at (pt_store q) y = atom_at (pt_store p) y"
    "atom_at (pt_store q) ?x = DefinedAtom [] (pt_file p) ((X86_64GOTAtom ''.got'')\<lparr>refs := [x86_64_ref env k 0 t 0]\<rparr>)"
    using r None by (auto simp: got_for_def pass_defs x86_64_ref_def X86_64GOTAtom_def GOTAtom_def SimpleDefinedAtom_def)
  have s: "set (made q) = insert ?x (set (made p))" by (auto simp: made_def q)
  have "later n p q \<and> untouched n p q" by (rule fresh_later) (simp_all add: q tables_next [OF ok] s subset_insertI)
  then have later: "later n p q" "untouched n p q" by simp_all
  have e: "got_entry n q (er_got ?R h t) ?x"
    using k tables_next [OF ok] s
    by (auto simp: got_entry_def entry_def q(2,14) X86_64GOTAtom_def GOTAtom_def SimpleDefinedAtom_def x86_64_entries_def)
  have "distinct (made q)"
    using ok tables_vectors [OF ok, of ?x] unfolding entries_ok_def made_def q by (auto split: option.splits)
  moreover have "\<forall>g \<in> set (made q). n \<le> g \<and> g < pt_next q"
    using ok tables_next [OF ok] unfolding entries_ok_def s q(2) by auto
  ultimately have "entries_ok ?R h n q"
    using e by (intro tables_grow [OF ok later]) (auto simp: q(3,5-7,11) split: if_splits)
  with later e q(1) show ?thesis by simp
qed

lemma made_members: "set (made p) = set (gotVector p) \<union> set (pltVector p) \<union> set (tlsVector p) \<union> set (objectVector p) \<union> set_option (null_got p) \<union>
    (case plt0 p of None \<Rightarrow> {} | Some (e, g0, g1) \<Rightarrow> {e, g0, g1})"
  by (auto simp: made_def split: option.splits)

lemma map_le_new: "m t = None \<Longrightarrow> m \<subseteq>\<^sub>m m(t \<mapsto> x)"
  by (auto simp: map_le_def)

text \<open>Entries that no map finds do no harm.\<close>

lemma tables_same_maps:
  assumes "entries_ok R h n p" "later n p q" "untouched n p q" "distinct (made q)" "\<forall>g \<in> set (made q). n \<le> g \<and> g < pt_next q"
    and "gotMap q = gotMap p" "pltMap q = pltMap p" "tlsMap q = tlsMap p" "objectMap q = objectMap p"
    and "\<And>g. null_got q = Some g \<Longrightarrow> null_got p = Some g \<or> null_entry n q g"
  shows "entries_ok R h n q"
  by (rule tables_grow [OF assms(1-5)]) (simp_all add: assms(6-10))

lemma null_step:
  assumes ok: "entries_ok R h n p" and r: "getNullGOT p = (g, q)"
  shows "entries_ok R h n q \<and> later n p q \<and> untouched n p q \<and> null_got q = Some g \<and> null_entry n q g \<and> gotMap q = gotMap p \<and> pltMap q = pltMap p \<and>
    tlsMap q = tlsMap p \<and> objectMap q = objectMap p \<and> gotVector q = gotVector p \<and> pltVector q = pltVector p \<and> plt0 q = plt0 p \<and>
    pt_next p \<le> pt_next q \<and> (\<forall>x < pt_next p. atom_at (pt_store q) x = atom_at (pt_store p) x)"
proof (cases "null_got p")
  case (Some g')
  then have "g' = g" "p = q" using r by (simp_all add: getNullGOT_def)
  with ok Some show ?thesis by (auto simp: later_refl entries_ok_def)
next
  case None
  let ?x = "pt_next p"
  have q: "g = ?x" "pt_next q = Suc ?x" "gotMap q = gotMap p" "gotVector q = gotVector p" "pltMap q = pltMap p"
    "tlsMap q = tlsMap p" "objectMap q = objectMap p" "pltVector q = pltVector p" "tlsVector q = tlsVector p" "objectVector q = objectVector p"
    "null_got q = Some ?x" "plt0 q = plt0 p" "\<And>y. y < ?x \<Longrightarrow> atom_at (pt_store q) y = atom_at (pt_store p) y"
    "atom_at (pt_store q) ?x = DefinedAtom [] (pt_file p) (X86_64GOTAtom ''.got.plt'')"
    using r None by (auto simp: getNullGOT_def pass_defs)
  have s: "set (made q) = insert ?x (set (made p))" by (auto simp: made_members q None)
  have "later n p q \<and> untouched n p q"
    by (rule fresh_later) (simp_all add: q tables_next [OF ok] s None subset_insertI)
  then have later: "later n p q" "untouched n p q" by simp_all
  have e: "null_entry n q ?x"
    using tables_next [OF ok] s
    by (auto simp: null_entry_def entry_def q(2,14) X86_64GOTAtom_def GOTAtom_def SimpleDefinedAtom_def)
  have "distinct (made q)"
    using ok tables_vectors [OF ok, of ?x] None unfolding entries_ok_def made_def q by (auto split: option.splits)
  moreover have "\<forall>g \<in> set (made q). n \<le> g \<and> g < pt_next q"
    using ok tables_next [OF ok] unfolding entries_ok_def s q(2) by auto
  ultimately have "entries_ok R h n q"
    using e by (intro tables_same_maps [OF ok later]) (auto simp: q(3,5-7,11))
  with later e q show ?thesis by simp
qed

lemma tls_step:
  assumes ok: "entries_ok (x86_64_entries env) h n p" and r: "getTLSGdGOTEntry env t p = (g, q)"
  shows "grows env h n p q \<and> tlsMap q t = Some g"
proof (cases "tlsMap p t")
  case (Some g')
  then have "g' = g" "p = q" using r by (simp_all add: getTLSGdGOTEntry_def)
  with ok Some show ?thesis by (auto simp: later_refl)
next
  case None
  let ?x = "pt_next p" and ?R = "x86_64_entries env"
  have q: "g = ?x" "pt_next q = Suc ?x" "gotMap q = gotMap p" "gotVector q = gotVector p" "pltMap q = pltMap p"
    "tlsMap q = (tlsMap p)(t \<mapsto> ?x)" "objectMap q = objectMap p" "pltVector q = pltVector p" "tlsVector q = tlsVector p @ [?x]"
    "objectVector q = objectVector p"
    "null_got q = null_got p" "plt0 q = plt0 p" "\<And>y. y < ?x \<Longrightarrow> atom_at (pt_store q) y = atom_at (pt_store p) y"
    "atom_at (pt_store q) ?x = DefinedAtom [] (pt_file p) ((GOTAtom ''.got'' x86_64GotTlsGdAtomContent)\<lparr>refs :=
       [x86_64_ref env R_X86_64_DTPMOD64 0 t 0, x86_64_ref env R_X86_64_DTPOFF64 8 t 0]\<rparr>)"
    using r None by (auto simp: getTLSGdGOTEntry_def pass_defs x86_64_ref_def GOTAtom_def SimpleDefinedAtom_def)
  have s: "set (made q) = insert ?x (set (made p))" by (auto simp: made_members q)
  have "later n p q \<and> untouched n p q"
    by (rule fresh_later) (simp_all add: q tables_next [OF ok] s None subset_insertI map_le_new)
  then have later: "later n p q" "untouched n p q" by simp_all
  have e: "got_entry n q (er_tls ?R t) ?x"
    using tables_next [OF ok] s
    by (auto simp: got_entry_def entry_def q(2,14) GOTAtom_def SimpleDefinedAtom_def x86_64_entries_def)
  have "distinct (made q)"
    using ok tables_vectors [OF ok, of ?x] unfolding entries_ok_def made_def q by (auto split: option.splits)
  moreover have "\<forall>g \<in> set (made q). n \<le> g \<and> g < pt_next q"
    using ok tables_next [OF ok] unfolding entries_ok_def s q(2) by auto
  ultimately have "entries_ok ?R h n q"
    using e by (intro tables_grow [OF ok later]) (auto simp: q(3,5-7,11) split: if_splits)
  with later e q show ?thesis by simp
qed


text \<open>A PLT entry \<open>pa\<close> and its slot \<open>ga\<close>, once they are in the tables.\<close>

lemma plt_pair:
  fixes env h
  defines "R \<equiv> x86_64_entries env"
  assumes ok: "entries_ok R h n p" and new: "pt_next p \<le> ga" "pt_next p \<le> pa" "ga \<noteq> pa" "ga < pt_next q" "pa < pt_next q"
    and v: "gotVector q = gotVector u @ [ga]" "pltVector q = pltVector u @ [pa]" "tlsVector q = tlsVector u" "objectVector q = objectVector u"
      "null_got q = null_got u" "plt0 q = plt0 u" "gotMap q = (gotMap p)(t \<mapsto> ga)" "pltMap q = (pltMap p)(t \<mapsto> pa)"
      "tlsMap q = tlsMap p" "objectMap q = objectMap p" "pltMap p t = None"
    and u: "distinct (made u)" "\<forall>g \<in> set (made u). n \<le> g \<and> g < pt_next q \<and> g \<noteq> ga \<and> g \<noteq> pa" "set (made p) \<subseteq> set (made u)"
      "\<And>g. null_got p = Some g \<Longrightarrow> null_got u = Some g" "\<And>g. null_got u = Some g \<Longrightarrow> null_got p = Some g \<or> null_entry n q g"
    and at: "\<And>x. x < pt_next p \<Longrightarrow> atom_at (pt_store q) x = atom_at (pt_store p) x" "pt_next p \<le> pt_next q"
    and k: "slot_kind h t \<in> got_kinds h t"
    and g: "atom_at (pt_store q) ga = DefinedAtom [] f ((X86_64GOTAtom ''.got.plt'')\<lparr>refs := x86_64_ref env (slot_kind h t) 0 t 0 # rs\<rparr>)"
    and e: "atom_at (pt_store q) pa = DefinedAtom [] f ((X86_64PLTAtom ''.plt'')\<lparr>refs := x86_64_ref env R_X86_64_PC32 2 ga (-4) # rs'\<rparr>)"
  shows "entries_ok R h n q \<and> later n p q \<and> untouched n p q \<and> pltMap q t = Some pa"
proof -
  have s: "set (made q) = insert ga (insert pa (set (made u)))" by (auto simp: made_members v)
  have n: "n \<le> pt_next p" using ok tables_next by blast
  have "set (made p) \<subseteq> set (made q)" using u(3) by (auto simp: s)
  then have L: "later n p q \<and> untouched n p q"
    by (intro fresh_later n at) (simp_all add: v u(4) map_le_new)
  have later: "later n p q" "untouched n p q"
    using L by simp_all
  have ge: "entry n q typeGOT ga" "refs_at (pt_store q) ga = x86_64_ref env (slot_kind h t) 0 t 0 # rs"
    using g new n s by (auto simp: entry_def X86_64GOTAtom_def GOTAtom_def SimpleDefinedAtom_def)
  have pe: "entry n q typeStub pa" "refs_at (pt_store q) pa = x86_64_ref env R_X86_64_PC32 2 ga (-4) # rs'"
    using e new n s by (auto simp: entry_def X86_64PLTAtom_def PLTAtom_def SimpleDefinedAtom_def)
  have got: "got_entry n q (er_got R h t) ga" and slot: "got_entry n q (er_slot R h t) ga"
    using ge k by (auto simp: got_entry_def R_def x86_64_entries_def)
  have plt: "plt_entry n q (er_jump R h t) (er_slot R h t) pa"
    using pe slot by (auto simp: plt_entry_def R_def x86_64_entries_def)
  have "ga \<notin> set (made u)" "pa \<notin> set (made u)" using u(2) by auto
  then have "distinct (made q)"
    using u(1) new(3) unfolding made_def v by (auto split: option.splits)
  moreover have "\<forall>g \<in> set (made q). n \<le> g \<and> g < pt_next q" using s u(2) new n by auto
  ultimately have "entries_ok R h n q"
    using got plt u(5) by (intro tables_grow [OF ok later]) (auto simp: v(5,7-10) split: if_splits)
  with later v show ?thesis by simp
qed

lemma ifunc_step:
  assumes ok: "entries_ok (x86_64_entries env) h n p" and t: "is_resolver h t" and r: "getIFUNCPLTEntry env t p = (g, q)"
  shows "grows env h n p q \<and> pltMap q t = Some g"
proof (cases "pltMap p t")
  case (Some g')
  then have "g' = g" "p = q" using r by (simp_all add: getIFUNCPLTEntry_def)
  with ok Some show ?thesis by (auto simp: later_refl)
next
  case None
  let ?x = "pt_next p"
  have q: "g = Suc ?x" "pt_next q = Suc (Suc ?x)" "gotMap q = (gotMap p)(t \<mapsto> ?x)" "gotVector q = gotVector p @ [?x]"
    "pltMap q = (pltMap p)(t \<mapsto> Suc ?x)" "tlsMap q = tlsMap p" "objectMap q = objectMap p" "pltVector q = pltVector p @ [Suc ?x]"
    "tlsVector q = tlsVector p" "objectVector q = objectVector p" "null_got q = null_got p" "plt0 q = plt0 p"
    "\<And>y. y < ?x \<Longrightarrow> atom_at (pt_store q) y = atom_at (pt_store p) y"
    "atom_at (pt_store q) ?x = DefinedAtom [] (pt_file p) ((X86_64GOTAtom ''.got.plt'')\<lparr>refs := [x86_64_ref env R_X86_64_IRELATIVE 0 t 0]\<rparr>)"
    "atom_at (pt_store q) (Suc ?x) = DefinedAtom [] (pt_file p) ((X86_64PLTAtom ''.plt'')\<lparr>refs := [x86_64_ref env R_X86_64_PC32 2 ?x (-4)]\<rparr>)"
    using r None
    by (auto simp: getIFUNCPLTEntry_def pass_defs x86_64_ref_def X86_64GOTAtom_def GOTAtom_def X86_64PLTAtom_def PLTAtom_def SimpleDefinedAtom_def)
  have k: "slot_kind h t = R_X86_64_IRELATIVE" "slot_kind h t \<in> got_kinds h t"
    using t by (simp_all add: slot_kind_def got_kinds_def is_resolver_def)
  have "entries_ok (x86_64_entries env) h n q \<and> later n p q \<and> untouched n p q \<and> pltMap q t = Some (Suc ?x)"
  proof (rule plt_pair [OF ok])
    show "distinct (made p)" using ok by (simp add: entries_ok_def)
    show "\<forall>g \<in> set (made p). n \<le> g \<and> g < pt_next q \<and> g \<noteq> ?x \<and> g \<noteq> Suc ?x" using ok by (force simp: entries_ok_def q(2))
  qed (use q k None in simp_all)
  with q(1) show ?thesis by simp
qed



section \<open>What becomes of a reference\<close>

text \<open>
  The stub of a function, through which it is called; the slot of the GOT that the loader fills with its address (or
  the linker, for a defined atom); the slots of a module and an offset; the copy of an object of a shared library.
\<close>

definition stub :: "x86_64_pass_env \<Rightarrow> store \<Rightarrow> nat \<Rightarrow> got_plt \<Rightarrow> atom_id \<Rightarrow> atom_id \<Rightarrow> bool" where
  "stub env h n p t q \<longleftrightarrow> pltMap p t = Some q \<and>
     plt_entry n p (\<lambda>g. x86_64_ref env R_X86_64_PC32 2 g (-4)) {x86_64_ref env (slot_kind h t) 0 t 0} q"

definition got_slot :: "x86_64_pass_env \<Rightarrow> store \<Rightarrow> nat \<Rightarrow> got_plt \<Rightarrow> atom_id \<Rightarrow> atom_id \<Rightarrow> bool" where
  "got_slot env h n p t g \<longleftrightarrow> got_entry n p ((\<lambda>k. x86_64_ref env k 0 t 0) ` got_kinds h t) g"

definition module_slot :: "x86_64_pass_env \<Rightarrow> nat \<Rightarrow> got_plt \<Rightarrow> atom_id \<Rightarrow> atom_id \<Rightarrow> bool" where
  "module_slot env n p t g \<longleftrightarrow> tlsMap p t = Some g \<and> got_entry n p {x86_64_ref env R_X86_64_DTPMOD64 0 t 0} g"

definition copy_of :: "x86_64_pass_env \<Rightarrow> store \<Rightarrow> nat \<Rightarrow> got_plt \<Rightarrow> atom_id \<Rightarrow> atom_id \<Rightarrow> bool" where
  "copy_of env h n p t q \<longleftrightarrow> objectMap p t = Some q \<and>
     copy_entry n p (\<lambda>q. x86_64_ref env R_X86_64_COPY 0 q 0) (name_of h t) (shl_size env t) q"

definition zero_slot :: "nat \<Rightarrow> got_plt \<Rightarrow> atom_id \<Rightarrow> bool" where
  "zero_slot n p g \<longleftrightarrow> null_got p = Some g \<and> null_entry n p g"

definition x86_64_plain :: "x86_64_kind set" where
  "x86_64_plain = {R_X86_64_16, R_X86_64_32, R_X86_64_32S, R_X86_64_64, R_X86_64_PC16, R_X86_64_PC32, R_X86_64_PC64}"

definition x86_64_got_loads :: "x86_64_kind set" where
  "x86_64_got_loads = {R_X86_64_GOT32, R_X86_64_GOTPC32, R_X86_64_GOTPCREL, R_X86_64_GOTOFF64}"

text \<open>A reference with a new target, which has a property, and otherwise as it was.\<close>

definition moved :: "(atom_id \<Rightarrow> bool) \<Rightarrow> reference \<Rightarrow> reference \<Rightarrow> bool" where
  "moved P r r' \<longleftrightarrow> (\<exists>g. P g \<and> r' = r\<lparr>target := g\<rparr>)"

definition tls_implements :: "x86_64_pass_env \<Rightarrow> store \<Rightarrow> nat \<Rightarrow> got_plt \<Rightarrow> reference \<Rightarrow> reference \<Rightarrow> bool" where
  "tls_implements env h n p r r' \<longleftrightarrow>
     (let k = kind_of env (kindValue r); t = target r in
      if k = R_X86_64_GOTTPOFF \<and> is_defined_at h t then moved (got_slot env h n p t) r r'
      else if k = R_X86_64_TLSGD then moved (module_slot env n p t) r r'
      else r' = r)"

definition static_implements :: "x86_64_pass_env \<Rightarrow> store \<Rightarrow> got_plt \<Rightarrow> nat \<Rightarrow> atom_id \<Rightarrow> reference \<Rightarrow> reference \<Rightarrow> bool" where
  "static_implements env h p n a r r' \<longleftrightarrow>
     (let k = kind_of env (kindValue r); t = target r; call = r\<lparr>kindValue := number env R_X86_64_PC32\<rparr> in
      if kindNamespace r \<noteq> ns_ELF then r' = r
      else if k \<in> x86_64_plain then (if is_resolver h t then moved (stub env h n p t) r r' else r' = r)
      else if k = R_X86_64_PLT32 then
        (if name_of h t = ''__tls_get_addr'' then r' = r\<lparr>kindValue := number env R_X86_64_NONE\<rparr>
         else if is_resolver h t then moved (stub env h n p t) call r' else r' = call)
      else if k \<in> x86_64_got_loads then
        (if is_undefined_at h t then moved (zero_slot n p) r r'
         else if is_defined_at h t then moved (got_slot env h n p t) r r' else r' = r)
      else tls_implements env h n p r r')"

definition dynamic_implements :: "x86_64_pass_env \<Rightarrow> store \<Rightarrow> got_plt \<Rightarrow> nat \<Rightarrow> atom_id \<Rightarrow> reference \<Rightarrow> reference \<Rightarrow> bool" where
  "dynamic_implements env h p n a r r' \<longleftrightarrow>
     (let k = kind_of env (kindValue r); t = target r; call = r\<lparr>kindValue := number env R_X86_64_PC32\<rparr>;
          shared = is_SharedLibraryAtom (atom_at h t) in
      if kindNamespace r \<noteq> ns_ELF then r' = r
      else if k \<in> x86_64_plain then
        (if shared \<and> shl_type_of env t = shl_Data then moved (copy_of env h n p t) r r'
         else if shared \<and> shl_type_of env t = shl_Code \<or> is_resolver h t then moved (stub env h n p t) r r'
         else r' = r)
      else if k = R_X86_64_PLT32 then
        (if shared \<or> is_undefined_at h t \<or> is_resolver h t then moved (stub env h n p t) call r' else r' = call)
      else if k \<in> x86_64_got_loads then
        (if shared \<or> is_undefined_at h t \<or> is_defined_at h t then moved (got_slot env h n p t) r r' else r' = r)
      else tls_implements env h n p r r')"

lemma slots_later:
  assumes "later n p q"
  shows "stub env h n p t g \<Longrightarrow> stub env h n q t g" "got_slot env h n p t g \<Longrightarrow> got_slot env h n q t g"
    "module_slot env n p t g \<Longrightarrow> module_slot env n q t g" "copy_of env h n p t g \<Longrightarrow> copy_of env h n q t g"
    "zero_slot n p g \<Longrightarrow> zero_slot n q g"
  using entries_later [OF assms] assms
  by (auto simp: stub_def got_slot_def module_slot_def copy_of_def zero_slot_def later_def map_le_def dom_def)

lemma moved_later: "moved P r r' \<Longrightarrow> (\<And>g. P g \<Longrightarrow> Q g) \<Longrightarrow> moved Q r r'"
  by (auto simp: moved_def)

lemmas moved_slots = moved_later [OF _ slots_later(1)] moved_later [OF _ slots_later(2)] moved_later [OF _ slots_later(3)]
  moved_later [OF _ slots_later(4)] moved_later [OF _ slots_later(5)]

lemma implements_later:
  assumes "later n p q"
  shows "static_implements env h p n a r r' \<Longrightarrow> static_implements env h q n a r r'"
    "dynamic_implements env h p n a r r' \<Longrightarrow> dynamic_implements env h q n a r r'"
proof -
  note m = moved_slots [OF _ assms]
  have tls: "tls_implements env h n p r r' \<Longrightarrow> tls_implements env h n q r r'"
    unfolding tls_implements_def Let_def by (auto split: if_splits intro: m)
  show "static_implements env h p n a r r' \<Longrightarrow> static_implements env h q n a r r'"
    unfolding static_implements_def Let_def by (auto split: if_splits intro: m tls)
  show "dynamic_implements env h p n a r r' \<Longrightarrow> dynamic_implements env h q n a r r'"
    unfolding dynamic_implements_def Let_def by (auto split: if_splits intro: m tls)
qed

section \<open>Handlers\<close>

definition x86_64_fits :: "store \<Rightarrow> atom_id \<Rightarrow> reference \<Rightarrow> bool" where
  "x86_64_fits h a r \<longleftrightarrow> (kindNamespace r = ns_ELF \<longrightarrow> kindArch r = arch_x86_64)"

lemma tables_shape: "entries_ok R h n p \<Longrightarrow> t < n \<Longrightarrow> shape (atom_at (pt_store p) t) = shape (atom_at h t)"
  by (simp add: entries_ok_def same_atoms_def)

lemma kinds_at:
  assumes "entries_ok R h n p" "t < n"
  shows "is_resolver (pt_store p) t = is_resolver h t" "is_defined_at (pt_store p) t = is_defined_at h t"
    "is_undefined_at (pt_store p) t = is_undefined_at h t" "name_of (pt_store p) t = name_of h t"
    "is_SharedLibraryAtom (atom_at (pt_store p) t) = is_SharedLibraryAtom (atom_at h t)"
  using shape_eq [OF tables_shape [OF assms]] by (auto simp: is_resolver_def)


lemma stub_made:
  assumes "entries_ok (x86_64_entries env) h n p"
  shows "pltMap p t = Some g \<Longrightarrow> stub env h n p t g" "tlsMap p t = Some g \<Longrightarrow> module_slot env n p t g"
    "objectMap p t = Some g \<Longrightarrow> copy_of env h n p t g"
  using assms by (auto simp: entries_ok_def x86_64_entries_def stub_def module_slot_def copy_of_def)

text \<open>Redirecting a reference to an entry that was made for it.\<close>

lemma redirect_moved:
  assumes "redirect_to r gp = (r', q)" "\<And>g. gp = (g, q) \<Longrightarrow> G \<and> P g"
  shows "G \<and> moved P r r'"
  using assms by (cases gp) (auto simp: redirect_to_def moved_def)

lemma ifunc_moved:
  assumes ok: "entries_ok (x86_64_entries env) h n p" and t: "target r < n" and r: "handleIFUNC env r p = (r', q)"
  shows "grows env h n p q \<and> (if is_resolver h (target r) then moved (stub env h n q (target r)) r r' else r' = r)"
proof (cases "is_resolver h (target r)")
  case True
  then have r: "redirect_to r (getIFUNCPLTEntry env (target r) p) = (r', q)"
    using r kinds_at(1) [OF ok t] by (simp add: handleIFUNC_def)
  have "grows env h n p q \<and> moved (stub env h n q (target r)) r r'"
    using r by (rule redirect_moved) (use ifunc_step [OF ok True] stub_made(1) in blast)
  with True show ?thesis by simp
next
  case False
  then show ?thesis using r kinds_at(1) [OF ok t] ok by (simp add: handleIFUNC_def later_refl)
qed

lemma got_moved:
  assumes ok: "entries_ok (x86_64_entries env) h n p" and k: "k \<in> got_kinds h (target r)"
    and r: "redirect_to r (got_for env k (target r) p) = (r', q)"
  shows "grows env h n p q \<and> moved (got_slot env h n q (target r)) r r'"
proof (rule redirect_moved [OF r])
  fix g assume "got_for env k (target r) p = (g, q)"
  from got_for_step [OF ok k this] show "grows env h n p q \<and> got_slot env h n q (target r) g"
    by (simp add: got_slot_def x86_64_entries_def)
qed



lemma tls_moved:
  assumes ok: "entries_ok (x86_64_entries env) h n p" and r: "redirect_to r (getTLSGdGOTEntry env (target r) p) = (r', q)"
  shows "grows env h n p q \<and> moved (module_slot env n q (target r)) r r'"
  by (rule redirect_moved [OF r]) (use tls_step [OF ok] stub_made(2) in blast)

lemma null_moved:
  assumes ok: "entries_ok (x86_64_entries env) h n p" and r: "redirect_to r (getNullGOT p) = (r', q)"
  shows "grows env h n p q \<and> moved (zero_slot n q) r r'"
  by (rule redirect_moved [OF r]) (use null_step [OF ok] in \<open>auto simp: zero_slot_def\<close>)


lemma static_PLT32_moved:
  assumes ok: "entries_ok (x86_64_entries env) h n p" and t: "target r < n" and r: "static_handlePLT32 env r p = (r', q)"
  shows "grows env h n p q \<and> (let call = r\<lparr>kindValue := number env R_X86_64_PC32\<rparr>; t = target r in
      if name_of h t = ''__tls_get_addr'' then r' = r\<lparr>kindValue := number env R_X86_64_NONE\<rparr>
      else if is_resolver h t then moved (stub env h n q t) call r' else r' = call)"
proof -
  let ?call = "r\<lparr>kindValue := number env R_X86_64_PC32\<rparr>"
  note k = kinds_at [OF ok t]
  show ?thesis
    using r ok ifunc_moved [OF ok, of ?call r' q] t
    by (cases "is_resolver h (target r)") (auto simp: static_handlePLT32_def Let_def k later_refl split: if_splits)
qed

lemma static_GOT_moved:
  assumes ok: "entries_ok (x86_64_entries env) h n p" and t: "target r < n" and r: "static_handleGOT env r p = (r', q)"
  shows "grows env h n p q \<and> (if is_undefined_at h (target r) then moved (zero_slot n q) r r'
     else if is_defined_at h (target r) then moved (got_slot env h n q (target r)) r r' else r' = r)"
proof -
  note k = kinds_at [OF ok t]
  have g: "is_defined_at h (target r) \<Longrightarrow> R_X86_64_64 \<in> got_kinds h (target r)" by (simp add: got_kinds_def)
  show ?thesis
    using r ok null_moved [OF ok, of r r' q] got_moved [OF ok g, of r' q]
    by (auto simp: static_handleGOT_def k later_refl getGOT_def split: if_splits)
qed




lemma tls_handled:
  assumes ok: "entries_ok (x86_64_entries env) h n p" and t: "target r < n"
    and r: "(if kind_of env (kindValue r) = R_X86_64_GOTTPOFF then handleGOTTPOFF env r p
      else if kind_of env (kindValue r) = R_X86_64_TLSGD then handleTLSGd env r p else (r, p)) = (r', q)"
  shows "grows env h n p q \<and> tls_implements env h n q r r'"
proof -
  note k = kinds_at [OF ok t]
  have g: "is_defined_at h (target r) \<Longrightarrow> R_X86_64_TPOFF64 \<in> got_kinds h (target r)" by (simp add: got_kinds_def)
  show ?thesis
    using r ok got_moved [OF ok g, of r' q] tls_moved [OF ok, of r r' q]
    by (auto simp: handleGOTTPOFF_def handleTLSGd_def getGOTTPOFF_def tls_implements_def k later_refl split: if_splits)
qed

lemma static_handled:
  assumes ok: "entries_ok (x86_64_entries env) h n p" and t: "target r < n" and f: "x86_64_fits h a r"
  shows "\<exists>r' q. StaticRelocationPass env a r p = Some (r', q) \<and> entries_ok (x86_64_entries env) h n q \<and> later n p q \<and> untouched n p q \<and>
    static_implements env h q n a r r'"
proof (cases "kindNamespace r = ns_ELF")
  case False
  with ok show ?thesis by (simp add: StaticRelocationPass_def handleReference_def static_implements_def later_refl)
next
  case True
  let ?k = "kind_of env (kindValue r)"
  let ?step = "if ?k \<in> x86_64_plain then handleIFUNC env r p else if ?k = R_X86_64_PLT32 then static_handlePLT32 env r p
      else if ?k \<in> x86_64_got_loads then static_handleGOT env r p
      else (if ?k = R_X86_64_GOTTPOFF then handleGOTTPOFF env r p else if ?k = R_X86_64_TLSGD then handleTLSGd env r p else (r, p))"
  obtain r' q where s: "?step = (r', q)" by (cases ?step)
  have "StaticRelocationPass env a r p = Some (r', q)"
    unfolding s [symmetric] using True f
    by (simp add: StaticRelocationPass_def handleReference_def x86_64_fits_def x86_64_plain_def x86_64_got_loads_def Let_def)
  moreover have "grows env h n p q \<and> static_implements env h q n a r r'"
  proof -
    consider "?k \<in> x86_64_plain" | "?k \<notin> x86_64_plain" "?k = R_X86_64_PLT32" | "?k \<notin> x86_64_plain" "?k \<noteq> R_X86_64_PLT32" "?k \<in> x86_64_got_loads"
      | "?k \<notin> x86_64_plain" "?k \<noteq> R_X86_64_PLT32" "?k \<notin> x86_64_got_loads" by blast
    then show ?thesis
    proof cases
      case 1 with s True ifunc_moved [OF ok t, of r' q] show ?thesis by (simp add: static_implements_def Let_def)
    next
      case 2 with s True static_PLT32_moved [OF ok t, of r' q] show ?thesis by (simp add: static_implements_def Let_def)
    next
      case 3 with s True static_GOT_moved [OF ok t, of r' q] show ?thesis by (simp add: static_implements_def Let_def)
    next
      case 4 with s True tls_handled [OF ok t, of r' q] show ?thesis by (simp add: static_implements_def Let_def)
    qed
  qed
  ultimately show ?thesis by blast
qed


section \<open>The passes keep the contract\<close>

interpretation x86_64_static: reloc_pass "StaticRelocationPass env" "entries_ok (x86_64_entries env)" later x86_64_fits "static_implements env"
  for env
  by unfold_locales (assumption | rule later_refl later_ordinal static_handled tables_put later_put implements_later(1) | erule (1) later_trans)+


lemma made_from: "entries_ok R h n q \<Longrightarrow> \<forall>a \<in> set (made q). n \<le> a"
  by (simp add: entries_ok_def)

lemma made_set_ordinals: "made (set_ordinals as p) = made p"
proof -
  have "made (fold (\<lambda>(k, a). setAtomOrdinal (of_nat k) a) xs p) = made p" for xs
    by (induction xs arbitrary: p) (auto simp: setAtomOrdinal_def)
  then show ?thesis by (simp add: set_ordinals_def)
qed

text \<open>The merged file of a link: its atoms \<open>as\<close> and all their targets are below \<open>n\<close>, the first free address.\<close>

definition merged_file :: "store \<Rightarrow> nat \<Rightarrow> atom_id list \<Rightarrow> bool" where
  "merged_file h n as \<longleftrightarrow> distinct as \<and> (\<forall>a \<in> set as. a < n \<and> is_defined_at h a \<and>
     (\<forall>r \<in> set (refs_at h a). target r < n \<and> (kindNamespace r = ns_ELF \<longrightarrow> kindArch r = arch_x86_64)))"


text \<open>The static pass of x86-64 redirects every reference to what stands for its target. It always succeeds; the file
  keeps its atoms and gets new ones, each once; calls become direct ones, indirect functions are reached through a
  PLT entry whose slot has an IRELATIVE relocation, a call of the TLS resolver is dropped, loads of an undefined weak
  symbol through the GOT find the entry that is zero, those of a defined atom an entry for it.\<close>

theorem x86_64_static_pass:
  assumes "merged_file h n as"
  shows "\<exists>q. static_perform env h n f as = Some (as @ made q, q) \<and> distinct (as @ made q) \<and>
    (\<forall>x < n. x \<notin> set as \<longrightarrow> atom_at (pt_store q) x = atom_at h x) \<and>
    (\<forall>a \<in> set as. list_all2 (static_implements env h q n a) (refs_at h a) (refs_at (pt_store q) a))"
proof -
  let ?p = "no_entries h n f"
  have "\<forall>a \<in> set as. a < n \<and> is_defined_at h a \<and> atom_at (pt_store ?p) a = atom_at h a \<and> (\<forall>r \<in> set (refs_at h a). x86_64_fits h a r \<and> target r < n)"
    using assms by (auto simp: merged_file_def x86_64_fits_def no_entries_def)
  note fits = this
  have m: "\<And>q. entries_ok (x86_64_entries env) h n q \<Longrightarrow> \<forall>a \<in> set (made q). n \<le> a" by (rule made_from)
  from x86_64_static.performed [where made = made and env = env, OF tables_start [where f = f] _ fits m] assms
  obtain s q where r: "perform_pass (StaticRelocationPass env) made as ?p = Some (as @ made s, q)"
    and s: "entries_ok (x86_64_entries env) h n s" "q = set_ordinals (made s) s"
    and q: "\<forall>x < n. x \<notin> set as \<longrightarrow> atom_at (pt_store q) x = atom_at (pt_store ?p) x"
      "\<forall>a \<in> set as. list_all2 (static_implements env h q n a) (refs_at h a) (refs_at (pt_store q) a)"
    by (auto simp: merged_file_def)
  have "made q = made s" using s(2) made_set_ordinals by simp
  moreover have "distinct (as @ made s)" using assms s(1) by (force simp: merged_file_def entries_ok_def)
  ultimately show ?thesis using r q by (auto simp: static_perform_def no_entries_def)
qed

section \<open>A small file\<close>

text \<open>
  The atom 0 refers to the function 1 of a shared library, to the indirect function 2 and, through the GOT, to it
  again. The numbers of the relocations are those of the ABI.
\<close>

definition small_kinds :: "(x86_64_kind \<times> u16) list" where
  "small_kinds = [(R_X86_64_64, 1), (R_X86_64_PC32, 2), (R_X86_64_PLT32, 4), (R_X86_64_COPY, 5), (R_X86_64_GLOB_DAT, 6),
     (R_X86_64_JUMP_SLOT, 7), (R_X86_64_GOTPCREL, 9), (R_X86_64_IRELATIVE, 37), (LLD_R_X86_64_GOTRELINDEX, 1024)]"

definition small_pass_env :: x86_64_pass_env where
  "small_pass_env =
     \<lparr>kind_of = (\<lambda>v. case map_of (map prod.swap small_kinds) v of Some k \<Rightarrow> k | None \<Rightarrow> R_X86_64_unlisted),
      number = (\<lambda>k. case map_of small_kinds k of Some v \<Rightarrow> v | None \<Rightarrow> 0), shl_type_of = (\<lambda>_. shl_Code), shl_size = (\<lambda>_. 0)\<rparr>"

definition small_file :: "reference list \<Rightarrow> store" where
  "small_file rs =
     \<lparr>atom_at = (\<lambda>a. if a = 0 then DefinedAtom ''main'' 0 ((SimpleDefinedAtom typeCode)\<lparr>refs := rs\<rparr>)
        else if a = 1 then SharedLibraryAtom ''puts'' 0 ''libc.so'' False else DefinedAtom ''memcpy'' 0 (SimpleDefinedAtom typeResolver)),
      file_kind_of = (\<lambda>_. kindObject)\<rparr>"

definition call_puts :: reference where "call_puts = elf_reference arch_x86_64 4 1 1 (-4)"
definition call_memcpy :: reference where "call_memcpy = elf_reference arch_x86_64 4 6 2 (-4)"
definition load_memcpy :: reference where "load_memcpy = elf_reference arch_x86_64 9 13 2 (-4)"

lemma small_merged: "set rs \<subseteq> {call_puts, call_memcpy, load_memcpy} \<Longrightarrow> merged_file (small_file rs) 3 [0]"
  by (auto simp: merged_file_def small_file_def call_puts_def call_memcpy_def load_memcpy_def elf_reference_def SimpleDefinedAtom_def)


theorem x86_64_static_pass_witness:
  "\<exists>q g. static_perform small_pass_env (small_file [call_memcpy]) 3 7 [0] = Some (0 # made q, q) \<and>
    refs_at (pt_store q) 0 = [call_memcpy\<lparr>kindValue := 2, target := g\<rparr>] \<and> g \<in> set (made q)"
proof -
  let ?h = "small_file [call_memcpy]"
  from x86_64_static_pass [OF small_merged, of "[call_memcpy]" small_pass_env 7] obtain q where
    q: "static_perform small_pass_env ?h 3 7 [0] = Some (0 # made q, q)"
    "list_all2 (static_implements small_pass_env ?h q 3 0) (refs_at ?h 0) (refs_at (pt_store q) 0)" by auto
  have "refs_at ?h 0 = [call_memcpy]" by (simp add: small_file_def)
  with q(2) obtain r' where r': "refs_at (pt_store q) 0 = [r']" "static_implements small_pass_env ?h q 3 0 call_memcpy r'"
    by (auto simp: list_all2_Cons1)
  have "kind_of small_pass_env (kindValue call_memcpy) = R_X86_64_PLT32"
    by (simp add: small_pass_env_def small_kinds_def call_memcpy_def elf_reference_def)
  moreover have "kindNamespace call_memcpy = ns_ELF" "is_resolver ?h (target call_memcpy)" "name_of ?h (target call_memcpy) = ''memcpy''"
    by (simp_all add: call_memcpy_def elf_reference_def small_file_def is_resolver_def SimpleDefinedAtom_def)
  ultimately have "moved (stub small_pass_env ?h 3 q 2) (call_memcpy\<lparr>kindValue := number small_pass_env R_X86_64_PC32\<rparr>) r'"
    using r'(2) by (simp add: static_implements_def Let_def x86_64_plain_def call_memcpy_def elf_reference_def)
  then obtain g where "r' = call_memcpy\<lparr>kindValue := 2, target := g\<rparr>" "stub small_pass_env ?h 3 q 2 g"
    by (auto simp: moved_def small_pass_env_def small_kinds_def)
  moreover from this(2) have "g \<in> set (made q)" by (simp add: stub_def plt_entry_def entry_def)
  ultimately show ?thesis using q(1) r'(1) by blast
qed

text \<open>
  The entry of the GOT for an indirect function depends on the order of the references: after a call it is the slot of the
  PLT entry, which the resolver fills; before the first call it has the address of the resolver itself.
\<close>

lemma ifunc_address_depends_on_order:
  "map_option (\<lambda>(as, q). refs_at (pt_store q) (target (refs_at (pt_store q) 0 ! 1)))
     (static_perform small_pass_env (small_file [call_memcpy, load_memcpy]) 3 7 [0]) = Some [x86_64_ref small_pass_env R_X86_64_IRELATIVE 0 2 0]"
  "map_option (\<lambda>(as, q). refs_at (pt_store q) (target (refs_at (pt_store q) 0 ! 0)))
     (static_perform small_pass_env (small_file [load_memcpy, call_memcpy]) 3 7 [0]) = Some [x86_64_ref small_pass_env R_X86_64_64 0 2 0]"
  by code_simp+

end
