(* ===== verification/Atom_Section.thy ===== *)
theory Atom_Section
  imports Relocation
begin

text \<open>
  Sections of the ELF output (lib/ReaderWriter/ELF/Chunk.h, SectionChunks.h, SectionChunks.cpp): the type and
  flags of a section of atoms, the placement of its atoms, and the output sections that collect them. The
  numbers of types and flags are those of the ELF specification.
\<close>

section \<open>Sections\<close>

definition SHT_NULL :: u32 where "SHT_NULL = 0"
definition SHT_PROGBITS :: u32 where "SHT_PROGBITS = 1"
definition SHT_NOTE :: u32 where "SHT_NOTE = 7"
definition SHT_NOBITS :: u32 where "SHT_NOBITS = 8"

definition SHF_WRITE :: u64 where "SHF_WRITE = 0x1"
definition SHF_ALLOC :: u64 where "SHF_ALLOC = 0x2"
definition SHF_EXECINSTR :: u64 where "SHF_EXECINSTR = 0x4"
definition SHF_TLS :: u64 where "SHF_TLS = 0x400"

lemmas elf_numbers = SHT_NULL_def SHT_PROGBITS_def SHT_NOTE_def SHT_NOBITS_def SHF_WRITE_def SHF_ALLOC_def
  SHF_EXECINSTR_def SHF_TLS_def

text \<open>The members of \<open>Chunk\<close> and \<open>Section\<close>, with their initial values.\<close>

record elf_section =
  sec_order :: u32
  sec_type :: u32
  sec_flags :: u64
  sec_align :: u64
  sec_fsize :: u64
  sec_msize :: u64
  sec_entSize :: u64
  sec_link :: u32
  sec_info :: u32

definition new_section :: elf_section where
  "new_section = \<lparr>sec_order = 0, sec_type = SHT_NULL, sec_flags = 0, sec_align = 1, sec_fsize = 0, sec_msize = 0,
     sec_entSize = 0, sec_link = 0, sec_info = 0\<rparr>"

datatype chunk_content = Unknown_content | Header_content | Code_content | Data_content | Note_content | TLS_content

definition getContentType :: "'a elf_section_scheme \<Rightarrow> chunk_content" where
  "getContentType s =
     (if sec_flags s AND SHF_EXECINSTR \<noteq> 0 then Code_content
      else if sec_flags s AND SHF_WRITE \<noteq> 0 then Data_content
      else if sec_flags s AND SHF_ALLOC \<noteq> 0 then Code_content
      else Unknown_content)"

section \<open>Sections of atoms\<close>

text \<open>\<open>AtomLayout\<close>: an atom, the offset it got and its address.\<close>

record placed_atom =
  pl_name :: string
  pl_atom :: defined_atom
  pl_offset :: u64
  pl_addr :: u64

record atom_section = elf_section +
  as_contentType :: content_type
  as_permissions :: content_permissions
  isLoadedInMemory :: bool
  placed :: "placed_atom list"

definition section_type_of :: "content_type \<Rightarrow> u32" where
  "section_type_of ct =
     (if ct \<in> {typeCode, typeDataFast, typeData, typeConstant, typeGOT, typeStub, typeResolver, typeThreadData, typeNoAlloc}
      then SHT_PROGBITS
      else if ct \<in> {typeThreadZeroFill, typeZeroFillFast, typeZeroFill} then SHT_NOBITS
      else if ct \<in> {typeRONote, typeRWNote} then SHT_NOTE
      else SHT_NULL)"

definition section_flags_of :: "content_type \<Rightarrow> content_permissions \<Rightarrow> u64" where
  "section_flags_of ct p =
     (case p of
        permR \<Rightarrow> SHF_ALLOC
      | permR_X \<Rightarrow> SHF_ALLOC OR SHF_EXECINSTR
      | permRW \<Rightarrow> (SHF_ALLOC OR SHF_WRITE) OR (if ct \<in> {typeThreadData, typeThreadZeroFill} then SHF_TLS else 0)
      | permRW_L \<Rightarrow> (SHF_ALLOC OR SHF_WRITE) OR (if ct \<in> {typeThreadData, typeThreadZeroFill} then SHF_TLS else 0)
      | permRWX \<Rightarrow> SHF_ALLOC OR SHF_WRITE OR SHF_EXECINSTR
      | perm_None \<Rightarrow> 0
      | permUnknown \<Rightarrow> 0)"

text \<open>The constructor of \<open>AtomSection\<close>.\<close>

definition new_atom_section :: "content_type \<Rightarrow> content_permissions \<Rightarrow> u32 \<Rightarrow> atom_section" where
  "new_atom_section ct p order =
     elf_section.extend (new_section\<lparr>sec_order := order, sec_type := section_type_of ct, sec_flags := section_flags_of ct p\<rparr>)
       (atom_section.fields ct p (ct \<noteq> typeNoAlloc) [])"

definition alignOffset :: "u64 \<Rightarrow> u16 \<times> u16 \<Rightarrow> u64" where
  "alignOffset offset atomAlign =
     (let requiredModulus = ucast (snd atomAlign); align = ucast (fst atomAlign); currentModulus = offset mod align in
      if currentModulus \<noteq> requiredModulus
      then if requiredModulus > currentModulus then offset + (requiredModulus - currentModulus)
           else offset + (align + requiredModulus - currentModulus)
      else offset)"

text \<open>\<open>appendAtom\<close>; \<open>None\<close> is the unreachable default of the switch.\<close>

definition in_file :: "content_type set" where
  "in_file = {typeCode, typeConstant, typeData, typeDataFast, typeZeroFillFast, typeGOT, typeStub, typeResolver,
     typeThreadData, typeRONote, typeRWNote}"

definition appendAtom :: "string \<times> defined_atom \<Rightarrow> atom_section \<Rightarrow> atom_section option" where
  "appendAtom at s =
     (let d = snd at; align = ucast (fst (alignment d));
          fOffset = alignOffset (sec_fsize s) (alignment d); mOffset = alignOffset (sec_msize s) (alignment d);
          place = (\<lambda>off s. s\<lparr>placed := placed s @ [\<lparr>pl_name = fst at, pl_atom = d, pl_offset = off, pl_addr = 0\<rparr>]\<rparr>);
          grow = (\<lambda>s. if sec_align s < align then s\<lparr>sec_align := align\<rparr> else s) in
      if contentType d \<in> in_file
      then Some (grow ((place fOffset s)\<lparr>sec_fsize := fOffset + da_size d, sec_msize := mOffset + da_size d\<rparr>))
      else if contentType d = typeNoAlloc
      then Some (grow ((place fOffset s)\<lparr>sec_fsize := fOffset + da_size d\<rparr>))
      else if contentType d \<in> {typeThreadZeroFill, typeZeroFill}
      then Some (grow ((place mOffset s)\<lparr>sec_msize := mOffset + da_size d\<rparr>))
      else None)"

fun appendAtoms :: "(string \<times> defined_atom) list \<Rightarrow> atom_section \<Rightarrow> atom_section option" where
  "appendAtoms [] s = Some s"
| "appendAtoms (a # as) s = Option.bind (appendAtom a s) (appendAtoms as)"

text \<open>The offset of an atom is within its section until \<open>assignFileOffsets\<close> adds the section's.\<close>

definition as_assignVirtualAddress :: "u64 \<Rightarrow> atom_section \<Rightarrow> atom_section" where
  "as_assignVirtualAddress addr s = s\<lparr>placed := map (\<lambda>p. p\<lparr>pl_addr := addr + pl_offset p\<rparr>) (placed s)\<rparr>"

definition as_assignFileOffsets :: "u64 \<Rightarrow> atom_section \<Rightarrow> atom_section" where
  "as_assignFileOffsets offset s = s\<lparr>placed := map (\<lambda>p. p\<lparr>pl_offset := offset + pl_offset p\<rparr>) (placed s)\<rparr>"

definition as_findAtomLayoutByName :: "string \<Rightarrow> atom_section \<Rightarrow> placed_atom option" where
  "as_findAtomLayoutByName nm s = find (\<lambda>p. pl_name p = nm) (placed s)"

section \<open>Output sections\<close>

record output_section =
  os_align :: u64
  os_link :: u64
  os_info :: u64
  os_entSize :: u64
  os_type :: u32
  os_flags :: u64
  os_sections :: "elf_section list"

definition new_output_section :: output_section where
  "new_output_section = \<lparr>os_align = 1, os_link = 0, os_info = 0, os_entSize = 0, os_type = 0, os_flags = 0, os_sections = []\<rparr>"

text \<open>\<open>None\<close> is the assertion that the output section has no link yet.\<close>

definition os_appendSection :: "elf_section \<Rightarrow> output_section \<Rightarrow> output_section option" where
  "os_appendSection s os =
     (if os_link os \<noteq> 0 then None
      else Some (os\<lparr>os_align := (if sec_align s > os_align os then sec_align s else os_align os),
          os_link := ucast (sec_link s), os_info := ucast (sec_info s), os_entSize := sec_entSize s,
          os_type := sec_type s, os_flags := (if os_flags os < sec_flags s then sec_flags s else os_flags os),
          os_sections := os_sections os @ [s]\<rparr>))"

section \<open>Alignment of an offset\<close>

lemma mod_shift:
  fixes o' a m :: nat
  assumes "m < a"
  shows "(o' + (a + m - o' mod a)) mod a = m" and "o' mod a < m \<Longrightarrow> (o' + (m - o' mod a)) mod a = m"
proof -
  have "o' + (a + m - o' mod a) = o' div a * a + (a + m)"
    using mod_less_divisor [of a o'] assms by (metis Nat.add_diff_assoc div_mult_mod_eq le_trans less_imp_le_nat
      add.commute add.left_commute diff_add_inverse le_add1 mod_le_divisor gr_zeroI not_less_zero)
  then show "(o' + (a + m - o' mod a)) mod a = m" using assms by simp
  assume "o' mod a < m"
  then have "o' + (m - o' mod a) = o' div a * a + m"
    by (metis div_mult_mod_eq add.assoc le_add_diff_inverse less_imp_le_nat)
  then show "(o' + (m - o' mod a)) mod a = m" using assms by simp
qed

lemma unat_u16: "unat (ucast (x :: u16) :: u64) = unat x"
proof -
  have "unat x < 2 ^ 16" using unsigned_less [of x] by simp
  then have "unat x < 2 ^ 64" by (rule less_le_trans) simp
  then show ?thesis by (simp add: unsigned_ucast_eq take_bit_nat_eq_self)
qed

lemma alignOffset_ok:
  assumes "snd al < fst al" and "unat off + unat (fst al) < 2 ^ 64"
  shows "unat (alignOffset off al) mod unat (fst al) = unat (snd al)"
    and "unat off \<le> unat (alignOffset off al)"
    and "unat (alignOffset off al) < unat off + unat (fst al)"
proof -
  define a where "a = unat (fst al)"
  define m where "m = unat (snd al)"
  define c where "c = unat off mod a"
  note a_m_c_def = a_def m_def c_def
  have m: "m < a" using assms(1) by (simp add: a_m_c_def word_less_nat_alt)
  have c: "c < a" using m by (simp add: a_m_c_def)
  have ua: "unat (ucast (fst al) :: u64) = a" "unat (ucast (snd al) :: u64) = m" by (simp_all add: a_m_c_def unat_u16)
  have cw: "unat (off mod ucast (fst al)) = c" by (simp add: unat_mod ua a_m_c_def)
  have *: "unat (alignOffset off al) = (if c = m then unat off else if c < m then unat off + (m - c) else unat off + (a + m - c))"
  proof -
    have eq: "off mod ucast (fst al) = ucast (snd al) \<longleftrightarrow> c = m"
      using cw ua(2) by (metis unsigned_word_eqI)
    have lt: "ucast (snd al) > off mod ucast (fst al) \<longleftrightarrow> c < m"
      by (simp add: word_less_nat_alt cw ua)
    have "unat (off + (ucast (snd al) - off mod ucast (fst al))) = unat off + (m - c)" if "c < m"
    proof -
      have "unat (ucast (snd al) - off mod ucast (fst al)) = m - c"
        using that by (simp add: unat_sub word_le_nat_alt cw ua)
      then show ?thesis using assms(2) m by (subst unat_add_lem [THEN iffD1]) (simp_all add: a_m_c_def)
    qed
    moreover have "unat (off + (ucast (fst al) + ucast (snd al) - off mod ucast (fst al))) = unat off + (a + m - c)" if "m < c"
    proof -
      have "a < 2 ^ 16" "m < 2 ^ 16" using unsigned_less [of "fst al"] unsigned_less [of "snd al"] by (simp_all add: a_def m_def)
      then have s: "unat (ucast (fst al) + ucast (snd al) :: u64) = a + m"
        by (subst unat_add_lem [THEN iffD1]) (simp_all add: ua)
      have "unat (ucast (fst al) + ucast (snd al) - off mod ucast (fst al)) = a + m - c"
        using c by (subst unat_sub) (simp_all add: word_le_nat_alt cw s)
      then show ?thesis using assms(2) that c by (subst unat_add_lem [THEN iffD1]) (simp_all add: a_def)
    qed
    ultimately show ?thesis unfolding alignOffset_def Let_def using eq lt by auto
  qed
  show "unat (alignOffset off al) mod unat (fst al) = unat (snd al)"
    unfolding * using mod_shift [OF m, of "unat off"] by (auto simp: a_m_c_def)
  show "unat off \<le> unat (alignOffset off al)" unfolding * by auto
  show "unat (alignOffset off al) < unat off + unat (fst al)" unfolding * using m c by (auto simp: a_m_c_def)
qed

section \<open>The layout of a section\<close>

definition atom_end :: "placed_atom \<Rightarrow> nat" where
  "atom_end p = unat (pl_offset p) + unat (da_size (pl_atom p))"

definition well_aligned :: "placed_atom \<Rightarrow> bool" where
  "well_aligned p \<longleftrightarrow>
     unat (pl_offset p) mod unat (fst (alignment (pl_atom p))) = unat (snd (alignment (pl_atom p)))"

text \<open>A section holds atoms that are all in the file or all zero fill; what it grows by.\<close>

definition kinds_of :: "bool \<Rightarrow> content_type set" where
  "kinds_of zerofill = (if zerofill then {typeThreadZeroFill, typeZeroFill} else insert typeNoAlloc in_file)"

definition extent :: "bool \<Rightarrow> atom_section \<Rightarrow> u64" where
  "extent zerofill s = (if zerofill then sec_msize s else sec_fsize s)"

definition atom_room :: "string \<times> defined_atom \<Rightarrow> nat" where
  "atom_room at = unat (da_size (snd at)) + unat (fst (alignment (snd at)))"

definition laid_out :: "bool \<Rightarrow> atom_section \<Rightarrow> bool" where
  "laid_out zf s \<longleftrightarrow> sorted_wrt (\<lambda>p q. atom_end p \<le> unat (pl_offset q)) (placed s) \<and>
     (\<forall>p \<in> set (placed s). well_aligned p \<and> atom_end p \<le> unat (extent zf s) \<and>
        unat (fst (alignment (pl_atom p))) \<le> unat (sec_align s))"

lemma appendAtom_step:
  assumes "contentType (snd at) \<in> kinds_of zf" and "snd (alignment (snd at)) < fst (alignment (snd at))"
    and "unat (extent zf s) + atom_room at < 2 ^ 64" and "laid_out zf s"
  shows "\<exists>t p. appendAtom at s = Some t \<and> placed t = placed s @ [p] \<and> pl_name p = fst at \<and> pl_atom p = snd at \<and>
    laid_out zf t \<and> unat (extent zf t) \<le> unat (extent zf s) + atom_room at"
proof -
  let ?d = "snd at" and ?al = "alignment (snd at)"
  define off where "off = alignOffset (extent zf s) ?al"
  note al = alignOffset_ok [OF assms(2), of "extent zf s", folded off_def]
  have room: "unat (extent zf s) + unat (fst ?al) < 2 ^ 64" using assms(3) by (simp add: atom_room_def)
  define p where "p = \<lparr>pl_name = fst at, pl_atom = ?d, pl_offset = off, pl_addr = 0\<rparr>"
  obtain t where t: "appendAtom at s = Some t" "placed t = placed s @ [p]" "extent zf t = off + da_size ?d"
    "sec_align t = (if sec_align s < ucast (fst ?al) then ucast (fst ?al) else sec_align s)"
    using assms(1) unfolding appendAtom_def Let_def p_def off_def extent_def kinds_of_def
    by (auto simp: in_file_def split: if_splits)
  have u: "unat (off + da_size ?d) = unat off + unat (da_size ?d)"
    using al(3) [OF room] assms(3) by (intro unat_add_lem [THEN iffD1]) (simp add: atom_room_def)
  have a: "unat (sec_align s) \<le> unat (sec_align t)" "unat (fst ?al) \<le> unat (sec_align t)"
    using unat_u16 [of "fst ?al"] by (auto simp: t(4) word_less_nat_alt)
  have "laid_out zf t"
    using assms(4) al(1,2) [OF room] u a unfolding laid_out_def t(2,3)
    by (auto simp: sorted_wrt_append p_def atom_end_def well_aligned_def intro: order_trans)
  then show ?thesis
    using t(1,2,3) u al(3) [OF room] by (intro exI [of _ t] exI [of _ p]) (simp add: p_def atom_room_def)
qed

lemma appendAtoms_layout:
  assumes "\<forall>at \<in> set as. contentType (snd at) \<in> kinds_of zf \<and> snd (alignment (snd at)) < fst (alignment (snd at))"
    and "unat (extent zf s) + sum_list (map atom_room as) < 2 ^ 64" and "laid_out zf s"
  shows "\<exists>t ps. appendAtoms as s = Some t \<and> placed t = placed s @ ps \<and> map (\<lambda>p. (pl_name p, pl_atom p)) ps = as \<and>
    laid_out zf t"
  using assms
proof (induction as arbitrary: s)
  case Nil
  then show ?case by simp
next
  case (Cons at as)
  from appendAtom_step [of at zf s] Cons.prems obtain t p where t: "appendAtom at s = Some t" "placed t = placed s @ [p]"
    "pl_name p = fst at" "pl_atom p = snd at" "laid_out zf t" "unat (extent zf t) \<le> unat (extent zf s) + atom_room at"
    by auto
  have "unat (extent zf t) + sum_list (map atom_room as) < 2 ^ 64" using t(6) Cons.prems(2) by simp
  with Cons.IH [of t] Cons.prems(1) t(5) obtain u ps where
    "appendAtoms as t = Some u" "placed u = placed t @ ps" "map (\<lambda>p. (pl_name p, pl_atom p)) ps = as" "laid_out zf u"
    by auto
  then show ?case using t(1-4) by (intro exI [of _ u] exI [of _ "p # ps"]) simp
qed

definition pow2 :: "nat \<Rightarrow> bool" where
  "pow2 n \<longleftrightarrow> (\<exists>k. n = 2 ^ k)"

lemma pow2_one: "pow2 (Suc 0)"
  unfolding pow2_def by (rule exI [of _ 0]) simp

lemma pow2_le_dvd: "pow2 a \<Longrightarrow> pow2 b \<Longrightarrow> a \<le> b \<Longrightarrow> a dvd b"
  by (auto simp: pow2_def le_imp_power_dvd)

lemma appendAtom_align:
  "appendAtom at s = Some t \<Longrightarrow> sec_align t = sec_align s \<or> sec_align t = ucast (fst (alignment (snd at)))"
  by (auto simp: appendAtom_def Let_def split: if_splits)

lemma appendAtoms_align:
  "appendAtoms as s = Some t \<Longrightarrow> \<forall>at \<in> set as. pow2 (unat (fst (alignment (snd at)))) \<Longrightarrow>
   pow2 (unat (sec_align s)) \<Longrightarrow> pow2 (unat (sec_align t))"
proof (induction as arbitrary: s)
  case (Cons at as)
  then obtain u where u: "appendAtom at s = Some u" "appendAtoms as u = Some t"
    by (auto simp: bind_eq_Some_conv)
  then have "pow2 (unat (sec_align u))"
    using appendAtom_align [OF u(1)] Cons.prems(2,3) by (auto simp: unat_u16)
  then show ?case using Cons.IH [OF u(2)] Cons.prems(2) by simp
qed simp

definition addr_end :: "placed_atom \<Rightarrow> nat" where
  "addr_end p = unat (pl_addr p) + unat (da_size (pl_atom p))"

text \<open>A section at an address that does not run past the end of the address space: the addresses of its atoms follow
  their offsets.\<close>

lemma laid_out_addresses:
  assumes "laid_out zf s" and "unat addr + unat (extent zf s) < 2 ^ 64"
  defines "ps \<equiv> placed (as_assignVirtualAddress addr s)"
  shows "\<forall>q \<in> set ps. unat (pl_addr q) = unat addr + unat (pl_offset q) \<and> addr_end q \<le> unat addr + unat (extent zf s)"
    and "sorted_wrt (\<lambda>p q. addr_end p \<le> unat (pl_addr q)) ps"
proof -
  have at: "unat (addr + pl_offset p) = unat addr + unat (pl_offset p)" if "p \<in> set (placed s)" for p
  proof -
    have "unat (pl_offset p) \<le> unat (extent zf s)" using assms(1) that by (auto simp: laid_out_def atom_end_def)
    then show ?thesis using assms(2) by (intro unat_add_lem [THEN iffD1]) simp
  qed
  then show "\<forall>q \<in> set ps. unat (pl_addr q) = unat addr + unat (pl_offset q) \<and> addr_end q \<le> unat addr + unat (extent zf s)"
    using assms(1) by (auto simp: ps_def as_assignVirtualAddress_def addr_end_def laid_out_def atom_end_def)
  have "sorted_wrt (\<lambda>p q. atom_end p \<le> unat (pl_offset q)) (placed s)" using assms(1) by (simp add: laid_out_def)
  then show "sorted_wrt (\<lambda>p q. addr_end p \<le> unat (pl_addr q)) ps"
    unfolding ps_def as_assignVirtualAddress_def
    by (simp add: sorted_wrt_map)
      (rule sorted_wrt_mono_rel [of "placed s"], auto simp: at addr_end_def atom_end_def)
qed

text \<open>C34: The atoms appended to an empty section, all of them in the file or all of them zero fill, get offsets in
  the order of appending that do not overlap, lie within the section and are the required remainder modulo
  the atom's alignment. The alignments are powers of two, the remainders are smaller than them, and the sizes with
  the padding add up to less than 2^64. When moreover the section's address is a multiple of its alignment and the
  section ends before 2^64, the atoms' addresses are its address plus their offsets: they too are in order, do not
  overlap, lie within the section and are the required remainder.\<close>

theorem section_layout:
  assumes "\<forall>at \<in> set as. contentType (snd at) \<in> kinds_of zf \<and>
      snd (alignment (snd at)) < fst (alignment (snd at)) \<and> pow2 (unat (fst (alignment (snd at))))"
    and "sum_list (map atom_room as) < 2 ^ 64"
  shows "\<exists>s. appendAtoms as (new_atom_section ct perm order) = Some s \<and>
    map (\<lambda>p. (pl_name p, pl_atom p)) (placed s) = as \<and>
    sorted_wrt (\<lambda>p q. atom_end p \<le> unat (pl_offset q)) (placed s) \<and>
    (\<forall>p \<in> set (placed s). well_aligned p \<and> atom_end p \<le> unat (extent zf s)) \<and>
    (\<forall>addr. unat (sec_align s) dvd unat addr \<and> unat addr + unat (extent zf s) < 2 ^ 64 \<longrightarrow>
      sorted_wrt (\<lambda>p q. addr_end p \<le> unat (pl_addr q)) (placed (as_assignVirtualAddress addr s)) \<and>
      (\<forall>p \<in> set (placed (as_assignVirtualAddress addr s)).
         unat (pl_addr p) = unat addr + unat (pl_offset p) \<and> addr_end p \<le> unat addr + unat (extent zf s) \<and>
         unat (pl_addr p) mod unat (fst (alignment (pl_atom p))) = unat (snd (alignment (pl_atom p)))))"
proof -
  let ?s0 = "new_atom_section ct perm order"
  have s0: "placed ?s0 = []" "unat (extent zf ?s0) = 0" "unat (sec_align ?s0) = 1" "laid_out zf ?s0"
    by (simp_all add: new_atom_section_def new_section_def elf_section.extend_def atom_section.fields_def extent_def laid_out_def)
  from appendAtoms_layout [of as zf ?s0] s0 assms obtain s where s: "appendAtoms as ?s0 = Some s"
    "map (\<lambda>p. (pl_name p, pl_atom p)) (placed s) = as" "laid_out zf s" by auto
  have p2: "pow2 (unat (sec_align s))"
    using appendAtoms_align [OF s(1)] assms(1) s0(3) by (simp add: pow2_one)
  have "unat (pl_addr q) mod unat (fst (alignment (pl_atom q))) = unat (snd (alignment (pl_atom q)))"
    if addr: "unat (sec_align s) dvd unat addr" "unat addr + unat (extent zf s) < 2 ^ 64"
      and q: "q \<in> set (placed (as_assignVirtualAddress addr s))" for addr q
  proof -
    obtain p where p: "p \<in> set (placed s)" "pl_atom q = pl_atom p" "pl_offset q = pl_offset p"
      using q by (auto simp: as_assignVirtualAddress_def)
    have "(pl_name p, pl_atom p) \<in> set as" using p(1) by (subst s(2) [symmetric]) force
    then have "pow2 (unat (fst (alignment (pl_atom p))))" using assms(1) by force
    then have "unat (fst (alignment (pl_atom p))) dvd unat (sec_align s)"
      using pow2_le_dvd [OF _ p2] s(3) p(1) by (auto simp: laid_out_def)
    then have d: "unat (fst (alignment (pl_atom p))) dvd unat addr" using addr(1) dvd_trans by blast
    have "unat (pl_addr q) = unat addr + unat (pl_offset p)"
      using laid_out_addresses(1) [OF s(3) addr(2)] q p(3) by simp
    moreover have "unat (pl_offset p) mod unat (fst (alignment (pl_atom p))) = unat (snd (alignment (pl_atom p)))"
      using s(3) p(1) by (auto simp: laid_out_def well_aligned_def)
    ultimately show ?thesis using d p(2) by (auto elim!: dvdE)
  qed
  moreover note laid_out_addresses [OF s(3)]
  ultimately show ?thesis using s unfolding laid_out_def by (intro exI [of _ s] conjI allI impI ballI) blast+
qed

section \<open>A sample section\<close>

definition sec_atom :: "u64 \<Rightarrow> u16 \<times> u16 \<Rightarrow> defined_atom" where
  "sec_atom sz al = \<lparr>ordinal = 0, da_size = sz, sectionSize = 0, scope = scopeGlobal,
       interpose = interposeNo, merge_of = mergeNo, contentType = typeCode, alignment = al,
       sectionChoice = sectionBasedOnContent, customSectionName = [], deadStrip_of = deadStripNormal,
       dynamicExport = dynamicExportNormal, codeModel = codeNA, permissions_of = permR_X,
       rawContent = [], refs = []\<rparr>"

lemma pow2_4: "pow2 4" and pow2_8: "pow2 8" and pow2_16: "pow2 16"
  unfolding pow2_def by (rule exI [of _ 2], simp, rule exI [of _ 3], simp, rule exI [of _ 4], simp)

definition section_sample :: "(string \<times> defined_atom) list" where
  "section_sample = [(''a'', sec_atom 5 (4, 0)), (''b'', sec_atom 8 (16, 4)), (''c'', sec_atom 1 (8, 0))]"

theorem section_layout_witness:
  "\<exists>s. appendAtoms section_sample (new_atom_section typeCode permR_X 0) = Some s \<and>
     map (\<lambda>p. (pl_name p, pl_atom p)) (placed s) = section_sample"
  using section_layout [of section_sample False typeCode permR_X 0]
  by (auto simp: section_sample_def sec_atom_def kinds_of_def in_file_def atom_room_def pow2_4 pow2_8 pow2_16)

end
