(* ===== verification/Elf_Tables.thy ===== *)
theory Elf_Tables
  imports Atom_Section
begin

text \<open>
  The tables of the ELF output that lld makes itself (lib/ReaderWriter/ELF/SectionChunks.h, SectionChunks.cpp):
  the string table and the symbol table.
\<close>

section \<open>String table\<close>

record string_table =
  str_strings :: "string list"
  str_map :: "(string \<times> u64) list"
  str_fsize :: u64
  str_msize :: u64
  str_alloc :: bool

definition new_string_table :: "bool \<Rightarrow> string_table" where
  "new_string_table dynamic =
     \<lparr>str_strings = [''''], str_map = [], str_fsize = 1, str_msize = (if dynamic then 1 else 0), str_alloc = dynamic\<rparr>"

text \<open>A new string goes to the end. \<open>None\<close>: a name equal to the tombstone of the hash map, a single blank, fails
  an assertion of \<open>DenseMap\<close>.\<close>

definition pushString :: "string \<Rightarrow> string_table \<Rightarrow> string_table" where
  "pushString symname t =
     (let offset = str_fsize t; fsize = offset + (of_nat (length symname) + 1) in
      t\<lparr>str_strings := str_strings t @ [symname], str_map := (symname, offset) # str_map t, str_fsize := fsize,
        str_msize := (if str_alloc t then fsize else str_msize t)\<rparr>)"

definition addString :: "string \<Rightarrow> string_table \<Rightarrow> (u64 \<times> string_table) option" where
  "addString symname t =
     (if symname = [] then Some (0, t)
      else if symname = '' '' then None
      else case map_of (str_map t) symname of
             Some off \<Rightarrow> Some (off, t)
           | None \<Rightarrow> Some (str_fsize t, pushString symname t))"

definition bytes_of :: "string \<Rightarrow> u8 list" where
  "bytes_of s = map of_char s"

text \<open>\<open>StringTable::write\<close>: each string, then a zero byte.\<close>

fun write_strings :: "string list \<Rightarrow> nat \<Rightarrow> mem \<Rightarrow> mem" where
  "write_strings [] dest m = m"
| "write_strings (s # ss) dest m =
     write_strings ss (dest + length s + 1) (memcpy (memcpy m dest (bytes_of s)) (dest + length s) [0])"

definition string_table_write :: "string_table \<Rightarrow> nat \<Rightarrow> mem \<Rightarrow> mem" where
  "string_table_write t fileoffset m = write_strings (str_strings t) fileoffset m"

section \<open>Symbol table\<close>

datatype stb = STB_LOCAL | STB_GLOBAL | STB_WEAK

datatype stt = STT_NOTYPE | STT_OBJECT | STT_FUNC | STT_SECTION | STT_TLS | STT_GNU_IFUNC

datatype stv = STV_DEFAULT | STV_HIDDEN

fun stb_value :: "stb \<Rightarrow> nat" where
  "stb_value STB_LOCAL = 0"
| "stb_value STB_GLOBAL = 1"
| "stb_value STB_WEAK = 2"

instantiation stb :: linorder
begin

definition less_eq_stb :: "stb \<Rightarrow> stb \<Rightarrow> bool" where
  "a \<le> b \<longleftrightarrow> stb_value a \<le> stb_value b"

definition less_stb :: "stb \<Rightarrow> stb \<Rightarrow> bool" where
  "a < b \<longleftrightarrow> stb_value a < stb_value b"

instance
proof
  fix x y z :: stb
  show "x < y \<longleftrightarrow> x \<le> y \<and> \<not> y \<le> x" by (auto simp: less_eq_stb_def less_stb_def)
  show "x \<le> x" by (simp add: less_eq_stb_def)
  show "x \<le> y \<Longrightarrow> y \<le> z \<Longrightarrow> x \<le> z" by (simp add: less_eq_stb_def)
  show "x \<le> y \<Longrightarrow> y \<le> x \<Longrightarrow> x = y" by (cases x; cases y) (simp_all add: less_eq_stb_def)
  show "x \<le> y \<or> y \<le> x" by (auto simp: less_eq_stb_def)
qed

end

record elf_sym =
  st_name :: u32
  st_value :: u64
  st_size :: u64
  st_shndx :: u16
  st_visibility :: stv
  st_binding :: stb
  st_type :: stt

definition SHN_UNDEF :: u16 where "SHN_UNDEF = 0"
definition SHN_ABS :: u16 where "SHN_ABS = 0xfff1"

record symbol_entry =
  se_atom :: "atom_id option"
  se_sym :: elf_sym
  se_layout :: "nat option"

text \<open>The options, the virtual \<open>type\<close> and \<open>size\<close> of shared library atoms, and the size of an entry.\<close>

record symbol_env =
  discardLocals :: bool
  discardTempLocals :: bool
  isDataSymbol :: "atom_id \<Rightarrow> bool"
  sharedSize :: "atom_id \<Rightarrow> u64"
  sizeof_sym :: u64

record elf_symtab =
  sym_entries :: "symbol_entry list"
  sym_strings :: string_table
  sym_fsize :: u64
  sym_msize :: u64
  sym_alloc :: bool
  sym_info :: u32

definition null_sym :: elf_sym where
  "null_sym = \<lparr>st_name = 0, st_value = 0, st_size = 0, st_shndx = 0, st_visibility = STV_DEFAULT,
     st_binding = STB_LOCAL, st_type = STT_NOTYPE\<rparr>"

definition new_elf_symtab :: "symbol_env \<Rightarrow> string_table \<Rightarrow> bool \<Rightarrow> elf_symtab" where
  "new_elf_symtab env strings dynamic =
     \<lparr>sym_entries = [\<lparr>se_atom = None, se_sym = null_sym, se_layout = None\<rparr>], sym_strings = strings,
      sym_fsize = sizeof_sym env, sym_msize = (if dynamic then sizeof_sym env else 0), sym_alloc = dynamic, sym_info = 0\<rparr>"

definition defined_sym_type :: "content_type \<Rightarrow> stt" where
  "defined_sym_type ct =
     (if ct \<in> {typeCode, typeStub} then STT_FUNC
      else if ct = typeResolver then STT_GNU_IFUNC
      else if ct \<in> {typeDataFast, typeData, typeConstant} then STT_OBJECT
      else if ct = typeGOT then STT_NOTYPE
      else if ct \<in> {typeZeroFill, typeZeroFillFast} then STT_OBJECT
      else if ct \<in> {typeThreadData, typeThreadZeroFill} then STT_TLS
      else STT_NOTYPE)"

text \<open>The types for which the address is stored.\<close>

definition sym_has_value :: "content_type \<Rightarrow> bool" where
  "sym_has_value ct \<longleftrightarrow> ct \<in> {typeCode, typeStub, typeResolver, typeDataFast, typeData, typeConstant, typeGOT,
     typeZeroFill, typeZeroFillFast, typeThreadData, typeThreadZeroFill}"

definition addDefinedAtom :: "string \<Rightarrow> defined_atom \<Rightarrow> u64 \<Rightarrow> elf_sym \<Rightarrow> elf_sym" where
  "addDefinedAtom nm da addr y =
     y\<lparr>st_size := da_size da,
         st_value := (if sym_has_value (contentType da) then addr else st_value y),
         st_binding := (if scope da = scopeTranslationUnit then STB_LOCAL else STB_GLOBAL),
         st_type := (if customSectionName da = nm then STT_SECTION else defined_sym_type (contentType da))\<rparr>"

definition addAbsoluteAtom :: "scope_t \<Rightarrow> u64 \<Rightarrow> elf_sym \<Rightarrow> elf_sym" where
  "addAbsoluteAtom sc addr y =
     y\<lparr>st_shndx := SHN_ABS,
         st_visibility := (if sc = scopeLinkageUnit then STV_HIDDEN else st_visibility y),
         st_binding := (if sc = scopeGlobal then STB_GLOBAL else STB_LOCAL),
         st_value := addr, st_type := STT_OBJECT\<rparr>"

definition addSharedLibAtom :: "bool \<Rightarrow> u64 \<Rightarrow> elf_sym \<Rightarrow> elf_sym" where
  "addSharedLibAtom isData sz y =
     y\<lparr>st_size := (if isData then sz else st_size y), st_shndx := SHN_UNDEF, st_binding := STB_GLOBAL,
         st_type := (if isData then STT_OBJECT else STT_FUNC)\<rparr>"

definition addUndefinedAtom :: "can_be_null \<Rightarrow> elf_sym \<Rightarrow> elf_sym" where
  "addUndefinedAtom cbn y =
     y\<lparr>st_value := 0, st_binding := (if can_be_null_value cbn \<noteq> 0 then STB_WEAK else STB_GLOBAL), st_type := STT_NOTYPE\<rparr>"

definition elf_symbol_of :: "symbol_env \<Rightarrow> store \<Rightarrow> atom_id \<Rightarrow> u64 \<Rightarrow> elf_sym \<Rightarrow> elf_sym" where
  "elf_symbol_of env h a addr y =
     (case atom_at h a of
        DefinedAtom nm _ da \<Rightarrow> addDefinedAtom nm da addr y
      | AbsoluteAtom _ _ _ sc \<Rightarrow> addAbsoluteAtom sc addr y
      | SharedLibraryAtom _ _ _ _ \<Rightarrow> addSharedLibAtom (isDataSymbol env a) (sharedSize env a) y
      | UndefinedAtom _ _ cbn _ \<Rightarrow> addUndefinedAtom cbn y)"

definition addSymbol ::
  "symbol_env \<Rightarrow> store \<Rightarrow> atom_id \<Rightarrow> u16 \<Rightarrow> u64 \<Rightarrow> nat option \<Rightarrow> elf_symtab \<Rightarrow> elf_symtab option" where
  "addSymbol env h a sectionIndex addr layout t =
     (let nm = name_of h a in
      if nm = [] then Some t
      else case addString nm (sym_strings t) of
             None \<Rightarrow> None
           | Some (off, strings) \<Rightarrow>
               let t1 = t\<lparr>sym_strings := strings\<rparr>;
                   y = elf_symbol_of env h a addr
                     \<lparr>st_name = ucast off, st_value = 0, st_size = 0, st_shndx = sectionIndex,
                      st_visibility = STV_DEFAULT, st_binding = STB_LOCAL, st_type = STT_NOTYPE\<rparr> in
               if discardLocals env \<and> st_binding y = STB_LOCAL then Some t1
               else if discardTempLocals env \<and> take 2 nm = ''.L'' then Some t1
               else Some (t1\<lparr>sym_entries := sym_entries t1 @ [\<lparr>se_atom = Some a, se_sym = y, se_layout = layout\<rparr>],
                      sym_fsize := sym_fsize t1 + sizeof_sym env,
                      sym_msize := (if sym_alloc t1 then sym_fsize t1 + sizeof_sym env else sym_msize t1)\<rparr>))"

definition sortSymbols :: "symbol_entry list \<Rightarrow> symbol_entry list" where
  "sortSymbols = sort_key (\<lambda>e. st_binding (se_sym e))"

text \<open>\<open>finalize\<close>; the count of locals is an \<open>uint16_t\<close>.\<close>

definition local_prefix :: "symbol_entry list \<Rightarrow> u16" where
  "local_prefix es = of_nat (length (takeWhile (\<lambda>e. st_binding (se_sym e) = STB_LOCAL) es))"

definition symtab_finalize :: "bool \<Rightarrow> elf_symtab \<Rightarrow> elf_symtab" where
  "symtab_finalize sort_them t =
     (let es = (if sort_them then sortSymbols (sym_entries t) else sym_entries t)
      in t\<lparr>sym_entries := es, sym_info := ucast (local_prefix es)\<rparr>)"

text \<open>\<open>getSymbolTableIndex\<close>, with \<open>STN_UNDEF\<close> for an atom that is not there.\<close>

fun first_index :: "('a \<Rightarrow> bool) \<Rightarrow> 'a list \<Rightarrow> nat option" where
  "first_index P [] = None"
| "first_index P (x # xs) = (if P x then Some 0 else map_option Suc (first_index P xs))"

definition getSymbolTableIndex :: "elf_symtab \<Rightarrow> atom_id \<Rightarrow> u32" where
  "getSymbolTableIndex t a =
     (case first_index (\<lambda>e. se_atom e = Some a) (sym_entries t) of None \<Rightarrow> 0 | Some i \<Rightarrow> of_nat i)"

text \<open>\<open>SymbolTable::write\<close>; the bytes of an entry are those of \<open>Elf_Sym\<close>.\<close>

fun write_entries :: "u8 list list \<Rightarrow> nat \<Rightarrow> mem \<Rightarrow> mem" where
  "write_entries [] dest m = m"
| "write_entries (b # bs) dest m = write_entries bs (dest + length b) (memcpy m dest b)"

definition symtab_write :: "(elf_sym \<Rightarrow> u8 list) \<Rightarrow> elf_symtab \<Rightarrow> nat \<Rightarrow> mem \<Rightarrow> mem" where
  "symtab_write enc t fileoffset m = write_entries (map (\<lambda>e. enc (se_sym e)) (sym_entries t)) fileoffset m"

text \<open>\<open>DynamicSymbolTable::finalize\<close>: the addresses assigned since the symbols were added.\<close>

definition dynsym_finalize :: "(nat \<Rightarrow> u64) \<Rightarrow> elf_symtab \<Rightarrow> elf_symtab" where
  "dynsym_finalize address_of t =
     symtab_finalize False (t\<lparr>sym_entries := map (\<lambda>e. case se_layout e of
          None \<Rightarrow> e
        | Some l \<Rightarrow> e\<lparr>se_sym := (se_sym e)\<lparr>st_value := address_of l\<rparr>\<rparr>) (sym_entries t)\<rparr>)"

text \<open>The name of an entry; the null entry has none.\<close>

definition entry_name :: "store \<Rightarrow> symbol_entry \<Rightarrow> string" where
  "entry_name h e = (case se_atom e of None \<Rightarrow> [] | Some a \<Rightarrow> name_of h a)"

section \<open>Bytes of the string table\<close>

definition strings_size :: "string list \<Rightarrow> nat" where
  "strings_size ss = (\<Sum>s\<leftarrow>ss. length s + 1)"

lemma strings_size_simps [simp]:
  "strings_size [] = 0" "strings_size (s # ss) = length s + 1 + strings_size ss"
  "strings_size (ss @ ts) = strings_size ss + strings_size ts"
  by (simp_all add: strings_size_def)

lemma length_bytes_of [simp]: "length (bytes_of s) = length s"
  by (simp add: bytes_of_def)

lemma memcpy_outside: "a < dest \<or> dest + length bs \<le> a \<Longrightarrow> memcpy m dest bs a = m a"
  by (auto simp: memcpy_def)

lemma memcpy_inside: "i < length bs \<Longrightarrow> memcpy m dest bs (dest + i) = bs ! i"
  by (simp add: memcpy_def)

lemma write_strings_outside:
  "a < dest \<or> dest + strings_size ss \<le> a \<Longrightarrow> write_strings ss dest m a = m a"
  by (induction ss dest m rule: write_strings.induct) (auto simp: memcpy_outside)

text \<open>\<open>holds m a s\<close>: the bytes at \<open>a\<close> are the characters of \<open>s\<close> and a zero.\<close>

definition holds :: "mem \<Rightarrow> nat \<Rightarrow> string \<Rightarrow> bool" where
  "holds m a s \<longleftrightarrow> (\<forall>i < length s. m (a + i) = of_char (s ! i)) \<and> m (a + length s) = 0"

lemma write_strings_holds:
  "holds (write_strings (pre @ s # suf) dest m) (dest + strings_size pre) s"
proof (induction pre arbitrary: dest m)
  case Nil
  have "memcpy (memcpy m dest (bytes_of s)) (dest + length s) [0] (dest + i) = of_char (s ! i)" if "i < length s" for i
    using that by (simp add: memcpy_outside memcpy_inside) (simp add: bytes_of_def)
  moreover have "memcpy (memcpy m dest (bytes_of s)) (dest + length s) [0] (dest + length s) = 0"
    using memcpy_inside [of 0 "[0]"] by simp
  ultimately show ?case by (simp add: holds_def write_strings_outside)
next
  case (Cons p pre)
  from Cons [of "dest + length p + 1"] show ?case by (simp add: add.assoc)
qed

text \<open>How the dynamic linker reads a name: the characters up to the first zero byte.\<close>

fun c_string :: "nat \<Rightarrow> mem \<Rightarrow> nat \<Rightarrow> u8 list" where
  "c_string 0 m a = []"
| "c_string (Suc n) m a = (if m a = 0 then [] else m a # c_string n m (a + 1))"

lemma of_char_0: "(of_char c :: u8) = 0 \<longleftrightarrow> c = CHR 0x00"
proof
  assume z: "(of_char c :: u8) = 0"
  have "bit (of_char c :: u8) i \<longleftrightarrow>
      i < 8 \<and> [digit0 c, digit1 c, digit2 c, digit3 c, digit4 c, digit5 c, digit6 c, digit7 c] ! i" for i
    unfolding of_char_def bit_horner_sum_bit_iff by auto
  then have "\<not> [digit0 c, digit1 c, digit2 c, digit3 c, digit4 c, digit5 c, digit6 c, digit7 c] ! i" if "i < 8" for i
    using that by (simp add: z)
  from this [of 0] this [of 1] this [of 2] this [of 3] this [of 4] this [of 5] this [of 6] this [of 7]
  show "c = CHR 0x00" by (cases c) simp
qed simp

lemma holds_c_string:
  "holds m a s \<Longrightarrow> CHR 0x00 \<notin> set s \<Longrightarrow> length s < n \<Longrightarrow> c_string n m a = bytes_of s"
proof (induction n arbitrary: a s)
  case 0
  then show ?case by simp
next
  case (Suc n)
  show ?case
  proof (cases s)
    case Nil
    then show ?thesis using Suc.prems(1) by (simp add: holds_def bytes_of_def)
  next
    case (Cons x xs)
    have "m a = of_char x" using Suc.prems(1) Cons unfolding holds_def by (metis Nat.add_0_right length_greater_0_conv list.distinct(1) nth_Cons_0)
    moreover have "holds m (a + 1) xs"
      using Suc.prems(1) Cons unfolding holds_def
      by auto
    ultimately show ?thesis
      using Suc.IH [of "a + 1" xs] Suc.prems(2,3) Cons by (auto simp: bytes_of_def of_char_0)
  qed
qed

section \<open>Names in the string table\<close>

definition name_at :: "string_table \<Rightarrow> nat \<Rightarrow> string \<Rightarrow> bool" where
  "name_at t off s \<longleftrightarrow> (\<exists>pre suf. str_strings t = pre @ s # suf \<and> off = strings_size pre)"

definition strtab_ok :: "string_table \<Rightarrow> bool" where
  "strtab_ok t \<longleftrightarrow> str_strings t = [] # rev (map fst (str_map t)) \<and> distinct (str_strings t) \<and>
     unat (str_fsize t) = strings_size (str_strings t) \<and>
     (\<forall>(s, off) \<in> set (str_map t). name_at t (unat off) s)"

lemma strtab_ok_new: "strtab_ok (new_string_table dynamic)"
  by (simp add: strtab_ok_def new_string_table_def name_at_def)

lemma strtab_ok_empty: "strtab_ok t \<Longrightarrow> name_at t 0 []"
  unfolding strtab_ok_def name_at_def by (metis append_Nil strings_size_simps(1))

lemma name_at_extend: "name_at t off s \<Longrightarrow> str_strings t' = str_strings t @ ext \<Longrightarrow> name_at t' off s"
  unfolding name_at_def by (metis append.assoc append_Cons)

lemma addString_cases:
  "addString s t = Some (off, t') \<Longrightarrow>
   s = [] \<and> off = 0 \<and> t' = t \<or> (s, off) \<in> set (str_map t) \<and> t' = t \<or>
   off = str_fsize t \<and> s \<noteq> [] \<and> map_of (str_map t) s = None \<and>
     t' = pushString s t"
  by (cases "s = []"; cases "s = '' ''"; cases "map_of (str_map t) s")
    (auto simp: addString_def dest: map_of_SomeD)

lemma addString_ok:
  assumes "addString s t = Some (off, t')" and "strtab_ok t" and "strings_size (str_strings t) + length s + 1 < 2 ^ 64"
  shows "strtab_ok t'" and "name_at t' (unat off) s" and "\<exists>ext. str_strings t' = str_strings t @ ext"
    and "strings_size (str_strings t') \<le> strings_size (str_strings t) + length s + 1"
proof -
  consider "s = []" "off = 0" "t' = t" | "(s, off) \<in> set (str_map t)" "t' = t"
    | "off = str_fsize t" "s \<noteq> []" "map_of (str_map t) s = None" "t' = pushString s t"
    using addString_cases [OF assms(1)] by metis
  then have "strtab_ok t' \<and> name_at t' (unat off) s \<and> (\<exists>ext. str_strings t' = str_strings t @ ext) \<and>
    strings_size (str_strings t') \<le> strings_size (str_strings t) + length s + 1"
  proof cases
    case 3
    have fresh: "s \<notin> set (str_strings t)"
      using assms(2) 3(2,3) by (simp add: strtab_ok_def map_of_eq_None_iff)
    have e: "str_strings t' = str_strings t @ [s]" using 3(4) by (simp add: pushString_def Let_def)
    have sz: "unat (str_fsize t) = strings_size (str_strings t)" using assms(2) unfolding strtab_ok_def by blast
    have n: "name_at t' (unat off) s"
      using sz 3(1) unfolding name_at_def e by auto
    have "length s + 1 < 2 ^ LENGTH(64)" using assms(3) by simp
    from unat_of_nat_id [OF this] have u: "unat (of_nat (length s) + 1 :: u64) = length s + 1"
      by (simp only: of_nat_Suc')
    have "unat (str_fsize t) + unat (of_nat (length s) + 1 :: u64) < 2 ^ LENGTH(64)"
      unfolding u sz using assms(3) by simp
    then have f: "unat (str_fsize t + (of_nat (length s) + 1)) = strings_size (str_strings t) + (length s + 1)"
      unfolding unat_add_lem by (simp only: u sz)
    have old: "name_at t (unat off') s'" if "(s', off') \<in> set (str_map t)" for s' off'
      using assms(2) that unfolding strtab_ok_def by blast
    have "strtab_ok t'"
      using assms(2) n f 3 fresh name_at_extend [OF old e] by (auto simp: strtab_ok_def pushString_def Let_def)
    then show ?thesis using n e by auto
  qed (use assms(2) strtab_ok_empty [of t] in \<open>auto simp: strtab_ok_def\<close>)
  then show "strtab_ok t'" "name_at t' (unat off) s" "\<exists>ext. str_strings t' = str_strings t @ ext"
    "strings_size (str_strings t') \<le> strings_size (str_strings t) + length s + 1" by blast+
qed

lemma addString_total: "s \<noteq> '' '' \<Longrightarrow> \<exists>off t'. addString s t = Some (off, t')"
  by (auto simp: addString_def Let_def split: option.splits)

lemma name_at_holds: "name_at t off s \<Longrightarrow> holds (string_table_write t dest m) (dest + off) s"
  unfolding name_at_def string_table_write_def by (auto intro: write_strings_holds)

lemma name_at_bound: "name_at t off s \<Longrightarrow> off + length s + 1 \<le> strings_size (str_strings t)"
  by (auto simp: name_at_def)

lemma strings_prefix: "pre @ s # suf = pre' @ s' # suf' \<Longrightarrow> strings_size pre = strings_size pre' \<Longrightarrow> s = s'"
proof (induction pre arbitrary: pre')
  case Nil
  then show ?case by (cases pre') auto
next
  case (Cons p pre)
  then show ?case by (cases pre') auto
qed

lemma name_at_unique: "name_at t off s \<Longrightarrow> name_at t off s' \<Longrightarrow> s = s'"
  unfolding name_at_def by (metis strings_prefix)

lemma name_at_once: "strtab_ok t \<Longrightarrow> name_at t off s \<Longrightarrow> name_at t off' s \<Longrightarrow> off = off'"
proof -
  have "xs = pre @ s # suf \<Longrightarrow> xs = pre' @ s # suf' \<Longrightarrow> distinct xs \<Longrightarrow> pre = pre'" for xs pre suf pre' suf'
    by (induction pre arbitrary: xs pre') (case_tac pre'; auto)+
  then show "strtab_ok t \<Longrightarrow> name_at t off s \<Longrightarrow> name_at t off' s \<Longrightarrow> off = off'"
    unfolding strtab_ok_def name_at_def by metis
qed

fun addStrings :: "string list \<Rightarrow> string_table \<Rightarrow> (u64 list \<times> string_table) option" where
  "addStrings [] t = Some ([], t)"
| "addStrings (s # ss) t =
     (case addString s t of None \<Rightarrow> None
      | Some (off, t1) \<Rightarrow>
          (case addStrings ss t1 of None \<Rightarrow> None | Some (offs, t2) \<Rightarrow> Some (off # offs, t2)))"

lemma addStrings_ok:
  assumes "strtab_ok t" and "strings_size (str_strings t) + strings_size ss < 2 ^ 64" and "'' '' \<notin> set ss"
  shows "\<exists>offs t'. addStrings ss t = Some (offs, t') \<and> strtab_ok t' \<and> length offs = length ss \<and>
    (\<exists>ext. str_strings t' = str_strings t @ ext) \<and> (\<forall>i < length ss. name_at t' (unat (offs ! i)) (ss ! i))"
  using assms
proof (induction ss arbitrary: t)
  case Nil
  then show ?case by simp
next
  case (Cons s ss)
  then obtain off t1 where a: "addString s t = Some (off, t1)" using addString_total [of s t] by auto
  have b: "strings_size (str_strings t) + length s + 1 < 2 ^ 64" using Cons.prems(2) by simp
  note t1 = addString_ok [OF a Cons.prems(1) b]
  obtain ext where ext: "str_strings t1 = str_strings t @ ext" using t1(3) by auto
  have "strings_size (str_strings t1) + strings_size ss < 2 ^ 64" using t1(4) Cons.prems(2) by simp
  then obtain offs t2 ext' where r: "addStrings ss t1 = Some (offs, t2)" "strtab_ok t2" "length offs = length ss"
    "str_strings t2 = str_strings t1 @ ext'" "\<forall>i < length ss. name_at t2 (unat (offs ! i)) (ss ! i)"
    using Cons.IH [OF t1(1)] Cons.prems(3) by auto
  have "name_at t2 (unat off) s" by (rule name_at_extend [OF t1(2) r(4)])
  then have "\<forall>i < length (s # ss). name_at t2 (unat ((off # offs) ! i)) ((s # ss) ! i)"
    using r(5) by (auto simp: less_Suc_eq_0_disj)
  then show ?case using a r ext by auto
qed

text \<open>C38: Names entered into the string table, none of them a single blank and their sizes below the range of
  offsets, get offsets within the section at which the written section holds the name and its terminator; a
  reader that stops at the first zero byte reads the name back, and two names share an offset exactly
  when they are equal.\<close>

theorem string_table_roundtrip:
  assumes "strings_size ss + 1 < 2 ^ 64" and "'' '' \<notin> set ss" and "\<forall>s \<in> set ss. CHR 0x00 \<notin> set s"
  shows "\<exists>offs t. addStrings ss (new_string_table dynamic) = Some (offs, t) \<and> length offs = length ss \<and>
    (\<forall>i < length ss. unat (offs ! i) + length (ss ! i) + 1 \<le> unat (str_fsize t) \<and>
       c_string (Suc (length (ss ! i))) (string_table_write t dest m) (dest + unat (offs ! i)) = bytes_of (ss ! i)) \<and>
    (\<forall>i < length ss. \<forall>j < length ss. offs ! i = offs ! j \<longleftrightarrow> ss ! i = ss ! j)"
proof -
  have "strings_size (str_strings (new_string_table dynamic)) = 1" by (simp add: new_string_table_def)
  then obtain offs t where r: "addStrings ss (new_string_table dynamic) = Some (offs, t)" "strtab_ok t"
    "length offs = length ss" "\<forall>i < length ss. name_at t (unat (offs ! i)) (ss ! i)"
    using addStrings_ok [OF strtab_ok_new, of dynamic ss] assms(1,2) by auto
  have "ss ! i = ss ! j \<Longrightarrow> offs ! i = offs ! j" if "i < length ss" "j < length ss" for i j
    using r(2,4) that name_at_once by (metis word_unat_eq_iff)
  moreover have "offs ! i = offs ! j \<Longrightarrow> ss ! i = ss ! j" if "i < length ss" "j < length ss" for i j
    using r(4) that name_at_unique by metis
  moreover have "c_string (Suc (length (ss ! i))) (string_table_write t dest m) (dest + unat (offs ! i)) = bytes_of (ss ! i)"
    if "i < length ss" for i
    using r(4) that assms(3) by (intro holds_c_string name_at_holds) auto
  moreover have "unat (offs ! i) + length (ss ! i) + 1 \<le> unat (str_fsize t)" if "i < length ss" for i
  proof -
    have "unat (str_fsize t) = strings_size (str_strings t)" using r(2) unfolding strtab_ok_def by blast
    then show ?thesis using r(4) that name_at_bound [of t "unat (offs ! i)" "ss ! i"] by simp
  qed
  ultimately show ?thesis using r(1,3) by blast
qed

section \<open>Order of the symbols\<close>

lemma takeWhile_split: "\<forall>x \<in> set xs. P x \<Longrightarrow> \<forall>y \<in> set ys. \<not> P y \<Longrightarrow> takeWhile P (xs @ ys) = xs"
  by (cases ys) (auto simp: takeWhile_append2)

text \<open>Finishing the symbol table puts the local symbols first, then the global, then the weak ones, each in the
  order they were added; \<open>sh_info\<close> is the number of local symbols cut to 16 bits, so it is wrong from 65536 local
  symbols on.\<close>

theorem symtab_finalize_order:
  "let t' = symtab_finalize True t; ofb = (\<lambda>b. filter (\<lambda>e. st_binding (se_sym e) = b) (sym_entries t)) in
   sym_entries t' = ofb STB_LOCAL @ ofb STB_GLOBAL @ ofb STB_WEAK \<and>
   unat (sym_info t') = length (ofb STB_LOCAL) mod 65536"
proof -
  let ?f = "\<lambda>e. st_binding (se_sym e)"
  let ?b = "\<lambda>b. filter (\<lambda>e. ?f e = b) (sym_entries t)"
  have all: "b = STB_LOCAL \<or> b = STB_GLOBAL \<or> b = STB_WEAK" for b by (cases b) auto
  have s: "sortSymbols (sym_entries t) = ?b STB_LOCAL @ ?b STB_GLOBAL @ ?b STB_WEAK"
    unfolding sortSymbols_def
  proof (rule properties_for_sort_key)
    show "mset (?b STB_LOCAL @ ?b STB_GLOBAL @ ?b STB_WEAK) = mset (sym_entries t)"
      using stb.exhaust by (intro multiset_eqI) (auto simp: all)
  next
    fix k
    show "filter (\<lambda>x. ?f k = ?f x) (?b STB_LOCAL @ ?b STB_GLOBAL @ ?b STB_WEAK) = filter (\<lambda>x. ?f k = ?f x) (sym_entries t)"
      using all [of "?f k"] by (elim disjE) (simp_all add: eq_commute [of "?f k"], (rule filter_cong, auto)+)
  next
    show "sorted (map ?f (?b STB_LOCAL @ ?b STB_GLOBAL @ ?b STB_WEAK))"
      by (auto simp: sorted_append less_eq_stb_def sorted_map_same [where g = "\<lambda>_. b" for b])
  qed
  have "takeWhile (\<lambda>e. ?f e = STB_LOCAL) (?b STB_LOCAL @ ?b STB_GLOBAL @ ?b STB_WEAK) = ?b STB_LOCAL"
    by (rule takeWhile_split) auto
  moreover have "unat (ucast (of_nat n :: u16) :: u32) = n mod 65536" for n :: nat
    using take_bit_nat_less_exp [of 16 n]
    by (simp add: unsigned_ucast_eq unsigned_of_nat take_bit_nat_eq_self) (simp add: take_bit_eq_mod)
  ultimately show ?thesis by (simp add: symtab_finalize_def Let_def s local_prefix_def)
qed

section \<open>Names of the symbols\<close>

fun addSymbols ::
  "symbol_env \<Rightarrow> store \<Rightarrow> (atom_id \<times> u16 \<times> u64 \<times> nat option) list \<Rightarrow> elf_symtab \<Rightarrow> elf_symtab option" where
  "addSymbols env h [] t = Some t"
| "addSymbols env h ((a, sectionIndex, addr, layout) # xs) t =
     (case addSymbol env h a sectionIndex addr layout t of None \<Rightarrow> None | Some t1 \<Rightarrow> addSymbols env h xs t1)"

text \<open>Which atoms get an entry, said without the table.\<close>

definition symbol_binding :: "store \<Rightarrow> atom_id \<Rightarrow> stb" where
  "symbol_binding h a =
     (case atom_at h a of
        DefinedAtom _ _ da \<Rightarrow> if scope da = scopeTranslationUnit then STB_LOCAL else STB_GLOBAL
      | AbsoluteAtom _ _ _ sc \<Rightarrow> if sc = scopeGlobal then STB_GLOBAL else STB_LOCAL
      | SharedLibraryAtom _ _ _ _ \<Rightarrow> STB_GLOBAL
      | UndefinedAtom _ _ cbn _ \<Rightarrow> if can_be_null_value cbn = 0 then STB_GLOBAL else STB_WEAK)"

definition symbol_kept :: "symbol_env \<Rightarrow> store \<Rightarrow> atom_id \<Rightarrow> bool" where
  "symbol_kept env h a \<longleftrightarrow> name_of h a \<noteq> [] \<and> \<not> (discardLocals env \<and> symbol_binding h a = STB_LOCAL) \<and>
     \<not> (discardTempLocals env \<and> take 2 (name_of h a) = ''.L'')"

lemma elf_symbol_of_fields [simp]:
  "st_binding (elf_symbol_of env h a addr y) = symbol_binding h a"
  "st_name (elf_symbol_of env h a addr y) = st_name y"
  by (auto simp: elf_symbol_of_def symbol_binding_def addDefinedAtom_def addAbsoluteAtom_def addSharedLibAtom_def
      addUndefinedAtom_def split: atom.split)

definition symtab_ok :: "symbol_env \<Rightarrow> store \<Rightarrow> elf_symtab \<Rightarrow> bool" where
  "symtab_ok env h t \<longleftrightarrow> strtab_ok (sym_strings t) \<and>
     sym_fsize t = of_nat (length (sym_entries t)) * sizeof_sym env \<and>
     (\<forall>e \<in> set (sym_entries t). name_at (sym_strings t) (unat (st_name (se_sym e))) (entry_name h e))"

lemma addSymbol_ok:
  assumes "symtab_ok env h t" and "strings_size (str_strings (sym_strings t)) + length (name_of h a) + 1 < 2 ^ 32"
    and "name_of h a \<noteq> '' ''"
  shows "\<exists>t'. addSymbol env h a ix addr l t = Some t' \<and> symtab_ok env h t' \<and>
    map se_atom (sym_entries t') = map se_atom (sym_entries t) @ (if symbol_kept env h a then [Some a] else []) \<and>
    strings_size (str_strings (sym_strings t')) \<le> strings_size (str_strings (sym_strings t)) + length (name_of h a) + 1"
proof (cases "name_of h a = []")
  case True
  then show ?thesis using assms(1) by (simp add: addSymbol_def symbol_kept_def)
next
  case False
  obtain off strs where s: "addString (name_of h a) (sym_strings t) = Some (off, strs)"
    using addString_total [OF assms(3)] by blast
  have ok: "strtab_ok (sym_strings t)" using assms(1) by (simp add: symtab_ok_def)
  have room: "strings_size (str_strings (sym_strings t)) + length (name_of h a) + 1 < 2 ^ 64" using assms(2) by simp
  note strs = addString_ok [OF s ok room]
  obtain ext where ext: "str_strings strs = str_strings (sym_strings t) @ ext" using strs(3) by blast
  have "unat off < 2 ^ 32" using name_at_bound [OF strs(2)] strs(4) assms(2) by simp
  then have off: "unat (ucast off :: u32) = unat off"
    by (simp add: unsigned_ucast_eq take_bit_nat_eq_self)
  have old: "name_at strs (unat (st_name (se_sym e))) (entry_name h e)" if "e \<in> set (sym_entries t)" for e
    using assms(1) that ext by (intro name_at_extend [OF _ ext]) (simp add: symtab_ok_def)
  show ?thesis
    using assms(1) False s strs(1,2,4) off old
    by (auto simp: addSymbol_def Let_def symbol_kept_def symtab_ok_def entry_name_def algebra_simps)
qed

lemma addSymbols_ok:
  assumes "symtab_ok env h t"
    and "strings_size (str_strings (sym_strings t)) + strings_size (map (\<lambda>x. name_of h (fst x)) xs) < 2 ^ 32"
    and "\<forall>x \<in> set xs. name_of h (fst x) \<noteq> '' ''"
  shows "\<exists>t'. addSymbols env h xs t = Some t' \<and> symtab_ok env h t' \<and>
    map se_atom (sym_entries t') = map se_atom (sym_entries t) @ map Some (filter (symbol_kept env h) (map fst xs))"
  using assms
proof (induction xs arbitrary: t)
  case Nil
  then show ?case by simp
next
  case (Cons x xs)
  obtain a ix addr l where x: "x = (a, ix, addr, l)" by (cases x)
  obtain t1 where t1: "addSymbol env h a ix addr l t = Some t1" "symtab_ok env h t1"
    "map se_atom (sym_entries t1) = map se_atom (sym_entries t) @ (if symbol_kept env h a then [Some a] else [])"
    "strings_size (str_strings (sym_strings t1)) \<le> strings_size (str_strings (sym_strings t)) + length (name_of h a) + 1"
    using addSymbol_ok [OF Cons.prems(1), of a ix addr l] Cons.prems(2,3) x by auto
  then show ?case using Cons.IH [OF t1(2)] Cons.prems(2,3) x by auto
qed

lemma finalize_entries:
  "set (sym_entries (symtab_finalize b t)) = set (sym_entries t)" "sym_strings (symtab_finalize b t) = sym_strings t"
  "length (sym_entries (symtab_finalize b t)) = length (sym_entries t)" "sym_fsize (symtab_finalize b t) = sym_fsize t"
  "mset (map se_atom (sym_entries (symtab_finalize b t))) = mset (map se_atom (sym_entries t))"
  by (simp_all add: symtab_finalize_def sortSymbols_def Let_def)

lemma first_index_Some: "x \<in> set xs \<Longrightarrow> P x \<Longrightarrow> \<exists>i. first_index P xs = Some i \<and> i < length xs \<and> P (xs ! i)"
  by (induction xs) fastforce+

text \<open>C37: A symbol table built from any atoms, none named by a single blank and their names below the range of
  \<open>st_name\<close>, has one entry per atom that is not discarded, after the null entry; its size is the number of entries
  times the size of one. After finishing it, sorted or not, the name of every entry is what a reader finds in the
  written string table at its \<open>st_name\<close>, and the index looked up for an atom with an entry is an entry of the atom.\<close>

theorem symbol_table_names:
  assumes "strings_size (map (\<lambda>x. name_of h (fst x)) xs) + 1 < 2 ^ 32"
    and "\<forall>x \<in> set xs. name_of h (fst x) \<noteq> '' '' \<and> CHR 0x00 \<notin> set (name_of h (fst x))"
  shows "\<exists>t. addSymbols env h xs (new_elf_symtab env (new_string_table dynamic) dynamic) = Some t \<and>
    map se_atom (sym_entries t) = None # map Some (filter (symbol_kept env h) (map fst xs)) \<and>
    (let t' = symtab_finalize sort_them t in
       sym_fsize t' = of_nat (length (sym_entries t')) * sizeof_sym env \<and>
       mset (map se_atom (sym_entries t')) = mset (map se_atom (sym_entries t)) \<and>
       (\<forall>e \<in> set (sym_entries t').
          c_string (Suc (length (entry_name h e))) (string_table_write (sym_strings t') dest m)
            (dest + unat (st_name (se_sym e))) = bytes_of (entry_name h e)) \<and>
       (\<forall>a. Some a \<in> set (map se_atom (sym_entries t')) \<and> length (sym_entries t') < 2 ^ 32 \<longrightarrow>
          se_atom (sym_entries t' ! unat (getSymbolTableIndex t' a)) = Some a))"
proof -
  let ?t0 = "new_elf_symtab env (new_string_table dynamic) dynamic"
  have "symtab_ok env h ?t0"
    using strtab_ok_new [of dynamic] strtab_ok_empty [OF strtab_ok_new, of dynamic]
    by (simp add: symtab_ok_def new_elf_symtab_def entry_name_def null_sym_def)
  moreover have "strings_size (str_strings (sym_strings ?t0)) = 1" by (simp add: new_elf_symtab_def new_string_table_def)
  ultimately obtain t where t: "addSymbols env h xs ?t0 = Some t" "symtab_ok env h t"
    "map se_atom (sym_entries t) = map se_atom (sym_entries ?t0) @ map Some (filter (symbol_kept env h) (map fst xs))"
    using addSymbols_ok [of env h ?t0 xs] assms by auto
  let ?t' = "symtab_finalize sort_them t"
  have t3: "map se_atom (sym_entries t) = None # map Some (filter (symbol_kept env h) (map fst xs))"
    using t(3) by (simp add: new_elf_symtab_def)
  have name: "c_string (Suc (length (entry_name h e))) (string_table_write (sym_strings t) dest m)
      (dest + unat (st_name (se_sym e))) = bytes_of (entry_name h e)" if e: "e \<in> set (sym_entries t)" for e
  proof -
    have "se_atom e \<in> set (map se_atom (sym_entries t))" using e by simp
    then have "CHR 0x00 \<notin> set (entry_name h e)"
      using assms(2) unfolding t3 by (auto simp: entry_name_def)
    then show ?thesis using t(2) e by (intro holds_c_string name_at_holds) (simp_all add: symtab_ok_def)
  qed
  have ix: "se_atom (sym_entries ?t' ! unat (getSymbolTableIndex ?t' a)) = Some a"
    if a: "Some a \<in> set (map se_atom (sym_entries ?t'))" "length (sym_entries ?t') < 2 ^ 32" for a
  proof -
    from a(1) obtain e where "e \<in> set (sym_entries ?t')" "se_atom e = Some a" by auto
    from first_index_Some [of e "sym_entries ?t'" "\<lambda>e. se_atom e = Some a", OF this] obtain i where
      i: "first_index (\<lambda>e. se_atom e = Some a) (sym_entries ?t') = Some i" "i < length (sym_entries ?t')"
      "se_atom (sym_entries ?t' ! i) = Some a" by auto
    have "unat (of_nat i :: u32) = i" using i(2) a(2) by (intro unat_of_nat_id) simp
    with i show ?thesis by (simp add: getSymbolTableIndex_def)
  qed
  have "sym_fsize ?t' = of_nat (length (sym_entries ?t')) * sizeof_sym env"
    using t(2) by (simp add: finalize_entries symtab_ok_def)
  moreover have "\<forall>e \<in> set (sym_entries ?t'). c_string (Suc (length (entry_name h e)))
      (string_table_write (sym_strings ?t') dest m) (dest + unat (st_name (se_sym e))) = bytes_of (entry_name h e)"
    using name by (simp only: finalize_entries) blast
  ultimately show ?thesis
    unfolding Let_def using t(1) t3 ix finalize_entries(5) [of sort_them t]
    by (intro exI [of _ t] conjI allI impI) (assumption | elim conjE)+
qed

section \<open>A sample\<close>

definition sample_names :: "string list" where
  "sample_names = [''main'', ''printf'', ''main'', [], ''x'']"

theorem string_table_roundtrip_witness:
  "\<exists>offs t. addStrings sample_names (new_string_table True) = Some (offs, t) \<and> length offs = 5 \<and> offs ! 0 = offs ! 2 \<and>
     c_string 7 (string_table_write t 100 (\<lambda>_. 1)) (100 + unat (offs ! 1)) = bytes_of ''printf''"
proof -
  from string_table_roundtrip [of sample_names True 100 "\<lambda>_. 1"] obtain offs t where
    r: "addStrings sample_names (new_string_table True) = Some (offs, t)" "length offs = 5"
    "\<forall>i < length sample_names. c_string (Suc (length (sample_names ! i))) (string_table_write t 100 (\<lambda>_. 1))
        (100 + unat (offs ! i)) = bytes_of (sample_names ! i)"
    "\<forall>i < length sample_names. \<forall>j < length sample_names. offs ! i = offs ! j \<longleftrightarrow> sample_names ! i = sample_names ! j"
    by (auto simp: sample_names_def)
  have "offs ! 0 = offs ! 2" using r(4) by (simp add: sample_names_def)
  moreover have "c_string 7 (string_table_write t 100 (\<lambda>_. 1)) (100 + unat (offs ! 1)) = bytes_of ''printf''"
    using r(3) [rule_format, of 1] by (simp add: sample_names_def eval_nat_numeral del: c_string.simps)
  ultimately show ?thesis using r(1,2) by blast
qed

definition symbols_sample :: store where
  "symbols_sample = \<lparr>atom_at = (\<lambda>a.
      if a = 0 then DefinedAtom ''main'' 0 (sec_atom 5 (4, 0))
      else if a = 1 then UndefinedAtom ''printf'' 0 canBeNullNever None
      else DefinedAtom ''.L1'' 0 ((sec_atom 8 (16, 4))\<lparr>scope := scopeTranslationUnit\<rparr>)),
    file_kind_of = (\<lambda>_. kindObject)\<rparr>"

definition symbols_env :: symbol_env where
  "symbols_env = \<lparr>discardLocals = False, discardTempLocals = True, isDataSymbol = (\<lambda>_. False), sharedSize = (\<lambda>_. 0),
     sizeof_sym = 24\<rparr>"

theorem symbol_table_names_witness:
  "\<exists>t. addSymbols symbols_env symbols_sample [(0, 1, 0x1000, None), (1, 0, 0, None), (2, 1, 0x1010, None)]
         (new_elf_symtab symbols_env (new_string_table False) False) = Some t \<and>
     map se_atom (sym_entries t) = [None, Some 0, Some 1]"
  using symbol_table_names [of symbols_sample "[(0, 1, 0x1000, None), (1, 0, 0, None), (2, 1, 0x1010, None)]" symbols_env
      False True 0 undefined]
  by (auto simp: symbols_sample_def symbols_env_def symbol_kept_def symbol_binding_def sec_atom_def)

end
