(* ===== verification/Elf_Hash.thy ===== *)
theory Elf_Hash
  imports Elf_Tables
begin

text \<open>
  The hash section of the dynamic linker (lib/ReaderWriter/ELF/SectionChunks.h, SectionChunks.cpp): how it is filled
  from the dynamic symbol table, and that the dynamic linker's search in it ends and finds the symbols. The hash
  function is LLVM's \<open>elf_hash\<close>, a parameter here.
\<close>

section \<open>Hash section\<close>

record hash_section =
  hs_entries :: "(string \<times> u32) list"
  hs_buckets :: "u32 list"
  hs_chains :: "u32 list"
  hs_fsize :: u64

definition new_hash_section :: hash_section where
  "new_hash_section = \<lparr>hs_entries = [], hs_buckets = [], hs_chains = [], hs_fsize = 0\<rparr>"

definition hash_addSymbol :: "string \<Rightarrow> u32 \<Rightarrow> hash_section \<Rightarrow> hash_section" where
  "hash_addSymbol nm index s = s\<lparr>hs_entries := hs_entries s @ [(nm, index)]\<rparr>"

text \<open>\<open>addSymbolsToHashTable\<close>: each entry of the dynamic symbol table with its index; the null entry has no name.\<close>

fun addSymbolsFrom :: "store \<Rightarrow> u32 \<Rightarrow> symbol_entry list \<Rightarrow> hash_section \<Rightarrow> hash_section" where
  "addSymbolsFrom h index [] s = s"
| "addSymbolsFrom h index (e # es) s = addSymbolsFrom h (index + 1) es (hash_addSymbol (entry_name h e) index s)"

definition addSymbolsToHashTable :: "store \<Rightarrow> elf_symtab \<Rightarrow> hash_section \<Rightarrow> hash_section" where
  "addSymbolsToHashTable h t s = addSymbolsFrom h 0 (sym_entries t) s"

definition hashBuckets :: "nat list" where
  "hashBuckets = [1, 3, 17, 37, 67, 97, 131, 197, 263, 521, 1031, 2053, 4099, 8209, 16411, 32771, 65537, 131101, 262147]"

fun bucketsFrom :: "nat \<Rightarrow> nat list \<Rightarrow> nat \<Rightarrow> nat" where
  "bucketsFrom n [] c = c"
| "bucketsFrom n (b # bs) c = (if n < b then c else bucketsFrom n bs b)"

definition bucketsCount :: "nat \<Rightarrow> nat" where
  "bucketsCount dynSymCount = bucketsFrom dynSymCount hashBuckets 0"

definition resize :: "nat \<Rightarrow> u32 list \<Rightarrow> u32 list" where
  "resize n xs = take n xs @ replicate (n - length xs) 0"

text \<open>One symbol enters its bucket; \<open>None\<close> is an index outside the chains, or no bucket.\<close>

definition hash_link :: "(string \<Rightarrow> u32) \<Rightarrow> string \<times> u32 \<Rightarrow> u32 list \<times> u32 list \<Rightarrow> (u32 list \<times> u32 list) option" where
  "hash_link elf_hash ai bc =
     (case bc of (buckets, chs) \<Rightarrow>
        let i = unat (snd ai); b = unat (elf_hash (fst ai)) mod length buckets in
        if buckets = [] \<or> \<not> i < length chs then None
        else Some (buckets[b := snd ai], chs[i := buckets ! b]))"

fun hash_link_all :: "(string \<Rightarrow> u32) \<Rightarrow> (string \<times> u32) list \<Rightarrow> u32 list \<times> u32 list \<Rightarrow> (u32 list \<times> u32 list) option" where
  "hash_link_all elf_hash [] bc = Some bc"
| "hash_link_all elf_hash (ai # as) bc =
     (case hash_link elf_hash ai bc of None \<Rightarrow> None | Some bc' \<Rightarrow> hash_link_all elf_hash as bc')"

definition hash_doPreFlight :: "(string \<Rightarrow> u32) \<Rightarrow> hash_section \<Rightarrow> hash_section option" where
  "hash_doPreFlight elf_hash s =
     (case hash_link_all elf_hash (hs_entries s)
         (resize (bucketsCount (length (hs_entries s))) (hs_buckets s), resize (length (hs_entries s)) (hs_chains s)) of
        None \<Rightarrow> None
      | Some (buckets, chs) \<Rightarrow>
          Some (s\<lparr>hs_buckets := buckets, hs_chains := chs,
            hs_fsize := (2 + of_nat (length chs) + of_nat (length buckets)) * 4\<rparr>))"

text \<open>\<open>HashSection::write\<close>, as the words it writes.\<close>

definition hash_words :: "hash_section \<Rightarrow> u32 list" where
  "hash_words s =
     [of_nat (length (hs_buckets s)), of_nat (length (hs_chains s))] @ hs_buckets s @ hs_chains s"

section \<open>Lookup in the hash section\<close>

text \<open>The search of the dynamic linker, as the comment of \<open>HashSection\<close> describes it: from the bucket of the
  name's hash along the chain until the name or the undefined symbol 0 is found. \<open>None\<close> is a search that
  does not end within the given number of steps.\<close>

fun chain_find :: "nat \<Rightarrow> string list \<Rightarrow> u32 list \<Rightarrow> string \<Rightarrow> u32 \<Rightarrow> u32 option" where
  "chain_find 0 names cs nm i = None"
| "chain_find (Suc n) names cs nm i =
     (if i = 0 then Some 0 else if names ! unat i = nm then Some i else chain_find n names cs nm (cs ! unat i))"

definition dyn_lookup :: "(string \<Rightarrow> u32) \<Rightarrow> string list \<Rightarrow> hash_section \<Rightarrow> string \<Rightarrow> u32 option" where
  "dyn_lookup elf_hash names s nm =
     chain_find (Suc (length (hs_chains s))) names (hs_chains s) nm
       (hs_buckets s ! (unat (elf_hash nm) mod length (hs_buckets s)))"

fun chain_is :: "u32 list \<Rightarrow> u32 \<Rightarrow> nat list \<Rightarrow> bool" where
  "chain_is cs i [] \<longleftrightarrow> i = 0"
| "chain_is cs i (j # js) \<longleftrightarrow> i = of_nat j \<and> 0 < j \<and> j < length cs \<and> chain_is cs (cs ! j) js"

lemma chain_is_update: "chain_is cs i js \<Longrightarrow> k \<notin> set js \<Longrightarrow> chain_is (cs[k := v]) i js"
  by (induction cs i js rule: chain_is.induct) auto

lemma chain_find_chain:
  "chain_is cs i js \<Longrightarrow> length js < n \<Longrightarrow> length cs < 2 ^ 32 \<Longrightarrow>
   chain_find n names cs nm i = Some (case filter (\<lambda>j. names ! j = nm) js of [] \<Rightarrow> 0 | j # _ \<Rightarrow> of_nat j)"
proof (induction js arbitrary: i n)
  case Nil
  then show ?case by (cases n) auto
next
  case (Cons j js)
  obtain n' where n: "n = Suc n'" using Cons.prems(2) by (cases n) auto
  have j: "i = of_nat j" "0 < j" "j < length cs" "chain_is cs (cs ! j) js" using Cons.prems(1) by auto
  have u: "unat (of_nat j :: u32) = j" using j(3) Cons.prems(3) by (intro unat_of_nat_id) simp
  then have "i \<noteq> 0" using j(1,2) by auto
  then show ?case using Cons.IH [OF j(4), of n'] Cons.prems(2,3) u j(1) n by auto
qed

text \<open>The indices of the first \<open>k\<close> names that a bucket holds.\<close>

definition bucket_of :: "(string \<Rightarrow> u32) \<Rightarrow> string list \<Rightarrow> nat \<Rightarrow> nat \<Rightarrow> nat \<Rightarrow> nat list" where
  "bucket_of elf_hash names nb b k = filter (\<lambda>i. 0 < i \<and> unat (elf_hash (names ! i)) mod nb = b) [0..<k]"

definition hash_inv :: "(string \<Rightarrow> u32) \<Rightarrow> string list \<Rightarrow> nat \<Rightarrow> nat \<Rightarrow> u32 list \<times> u32 list \<Rightarrow> bool" where
  "hash_inv elf_hash names nb k bc \<longleftrightarrow> length (fst bc) = nb \<and> length (snd bc) = length names \<and>
     (\<forall>b < nb. chain_is (snd bc) (fst bc ! b) (rev (bucket_of elf_hash names nb b k)))"

lemma hash_link_step:
  assumes "hash_inv elf_hash names nb k bc" and "k < length names" and "0 < nb" and "length names < 2 ^ 32"
  shows "\<exists>bc'. hash_link elf_hash (names ! k, of_nat k) bc = Some bc' \<and> hash_inv elf_hash names nb (Suc k) bc'"
proof -
  obtain bs cs where bc: "bc = (bs, cs)" by (cases bc)
  have len: "length bs = nb" "length cs = length names" using assms(1) bc by (auto simp: hash_inv_def)
  have u: "unat (of_nat k :: u32) = k" using assms(2,4) by (intro unat_of_nat_id) simp
  let ?b = "unat (elf_hash (names ! k)) mod nb"
  let ?bs = "bs[?b := of_nat k]" and ?cs = "cs[k := bs ! ?b]"
  have "hash_link elf_hash (names ! k, of_nat k) bc = Some (?bs, ?cs)"
    using assms(2,3) len by (auto simp: hash_link_def bc Let_def u)
  moreover have "chain_is ?cs (?bs ! b) (rev (bucket_of elf_hash names nb b (Suc k)))" if b: "b < nb" for b
  proof -
    have old: "chain_is cs (bs ! b) (rev (bucket_of elf_hash names nb b k))"
      using assms(1) bc b by (auto simp: hash_inv_def)
    then have keep: "chain_is ?cs (bs ! b) (rev (bucket_of elf_hash names nb b k))"
      by (rule chain_is_update) (simp add: bucket_of_def)
    show ?thesis
    proof (cases "?b = b")
      case True
      show ?thesis
      proof (cases "k = 0")
        case True
        then show ?thesis using \<open>?b = b\<close> b len by (simp add: bucket_of_def)
      next
        case False
        then have "rev (bucket_of elf_hash names nb b (Suc k)) = k # rev (bucket_of elf_hash names nb b k)"
          using True by (simp add: bucket_of_def)
        then show ?thesis using True False b len keep assms(2) by auto
      qed
    next
      case False
      then have "bucket_of elf_hash names nb b (Suc k) = bucket_of elf_hash names nb b k"
        by (simp add: bucket_of_def)
      then show ?thesis using keep False by simp
    qed
  qed
  ultimately show ?thesis using len by (auto simp: hash_inv_def)
qed

lemma hash_link_all_inv:
  assumes "hash_inv elf_hash names nb k bc" and "0 < nb" and "length names < 2 ^ 32"
    and "as = map (\<lambda>i. (names ! i, of_nat i)) [k..<length names]" and "k \<le> length names"
  shows "\<exists>bc'. hash_link_all elf_hash as bc = Some bc' \<and> hash_inv elf_hash names nb (length names) bc'"
  using assms
proof (induction as arbitrary: k bc)
  case Nil
  then show ?case by auto
next
  case (Cons a as)
  then have k: "k < length names" by (cases "k < length names") auto
  then have as: "a = (names ! k, of_nat k)" "as = map (\<lambda>i. (names ! i, of_nat i)) [Suc k..<length names]"
    using Cons.prems(4) by (auto simp: upt_conv_Cons)
  obtain bc1 where "hash_link elf_hash a bc = Some bc1" "hash_inv elf_hash names nb (Suc k) bc1"
    using hash_link_step [OF Cons.prems(1) k Cons.prems(2,3)] as(1) by blast
  then show ?case using Cons.IH [of "Suc k" bc1] Cons.prems(2,3) as(2) k by auto
qed

lemma addSymbolsFrom_entries:
  "hs_entries (addSymbolsFrom h i es s) =
     hs_entries s @ map (\<lambda>j. (entry_name h (es ! j), i + of_nat j)) [0..<length es]"
proof (induction es arbitrary: i s)
  case (Cons e es)
  have "[0..<length (e # es)] = 0 # map Suc [0..<length es]" by (simp add: upt_conv_Cons map_Suc_upt del: upt_Suc)
  then show ?case using Cons by (simp add: hash_addSymbol_def o_def add.assoc del: upt_Suc)
qed simp

lemma addSymbolsFrom_tables:
  "hs_buckets (addSymbolsFrom h i es s) = hs_buckets s" "hs_chains (addSymbolsFrom h i es s) = hs_chains s"
  by (induction es arbitrary: i s) (simp_all add: hash_addSymbol_def)

lemma bucketsFrom_pos: "0 < c \<Longrightarrow> \<forall>b \<in> set bs. 0 < b \<Longrightarrow> 0 < bucketsFrom n bs c"
  by (induction bs arbitrary: c) auto

lemma bucketsCount_pos: "0 < n \<Longrightarrow> 0 < bucketsCount n"
  by (auto simp: bucketsCount_def hashBuckets_def intro!: bucketsFrom_pos)

lemma last_filter_rev: "filter P (rev xs) = rev (filter P xs)"
  by (simp add: rev_filter)

text \<open>C35: After the hash section was filled from the dynamic symbol table, for any hash function, the dynamic
  linker's search ends for every name: it finds the last symbol of that name, or the undefined symbol when
  no symbol after the null entry has the name.\<close>

theorem hash_section_lookup:
  assumes "sym_entries t \<noteq> []" and "length (sym_entries t) < 2 ^ 32"
  shows "\<exists>s. hash_doPreFlight elf_hash (addSymbolsToHashTable h t new_hash_section) = Some s \<and>
    (\<forall>nm. dyn_lookup elf_hash (map (entry_name h) (sym_entries t)) s nm =
       Some (case rev (filter (\<lambda>i. entry_name h (sym_entries t ! i) = nm) [1..<length (sym_entries t)]) of
               [] \<Rightarrow> 0 | i # _ \<Rightarrow> of_nat i))"
proof -
  let ?names = "map (entry_name h) (sym_entries t)"
  let ?init = "addSymbolsToHashTable h t new_hash_section"
  let ?nb = "bucketsCount (length ?names)"
  have nb: "0 < ?nb" using assms(1) by (simp add: bucketsCount_pos)
  have es: "hs_entries ?init = map (\<lambda>i. (?names ! i, of_nat i)) [0..<length ?names]"
    by (simp add: addSymbolsToHashTable_def addSymbolsFrom_entries new_hash_section_def)
  have tb: "hs_buckets ?init = []" "hs_chains ?init = []"
    by (simp_all add: addSymbolsToHashTable_def addSymbolsFrom_tables new_hash_section_def)
  have "hash_inv elf_hash ?names ?nb 0 (replicate ?nb 0, replicate (length ?names) 0)"
    by (simp add: hash_inv_def bucket_of_def)
  from hash_link_all_inv [OF this nb _ es] assms(2) obtain bs cs where r: "hash_link_all elf_hash (hs_entries ?init) (replicate ?nb 0, replicate (length ?names) 0) = Some (bs, cs)"
    "hash_inv elf_hash ?names ?nb (length ?names) (bs, cs)"
    by (auto simp del: map_map)
  let ?fin = "?init\<lparr>hs_buckets := bs, hs_chains := cs, hs_fsize := (2 + of_nat (length cs) + of_nat (length bs)) * 4\<rparr>"
  have s: "hash_doPreFlight elf_hash ?init = Some ?fin"
    using r(1) es tb by (simp add: hash_doPreFlight_def resize_def)
  have "dyn_lookup elf_hash ?names ?fin nm =
       Some (case rev (filter (\<lambda>i. ?names ! i = nm) [1..<length ?names]) of [] \<Rightarrow> 0 | i # _ \<Rightarrow> of_nat i)" for nm
  proof -
    let ?b = "unat (elf_hash nm) mod ?nb"
    let ?js = "bucket_of elf_hash ?names ?nb ?b (length ?names)"
    have l: "length bs = ?nb" "length cs = length ?names" using r(2) by (auto simp: hash_inv_def)
    have "?b < ?nb" using nb by simp
    then have c: "chain_is cs (bs ! ?b) (rev ?js)" using r(2) unfolding hash_inv_def fst_conv snd_conv by blast
    have "length ?js \<le> length ?names"
      unfolding bucket_of_def by (rule order_trans [OF length_filter_le]) simp
    then have "chain_find (Suc (length cs)) ?names cs nm (bs ! ?b) =
        Some (case filter (\<lambda>j. ?names ! j = nm) (rev ?js) of [] \<Rightarrow> 0 | j # _ \<Rightarrow> of_nat j)"
      using chain_find_chain [OF c, of "Suc (length cs)" ?names nm] l assms(2) by simp
    moreover have "filter (\<lambda>j. ?names ! j = nm) ?js = filter (\<lambda>i. ?names ! i = nm) [1..<length ?names]"
    proof -
      have "[0..<length ?names] = 0 # [1..<length ?names]" using assms(1) by (simp add: upt_conv_Cons)
      then show ?thesis by (auto simp: bucket_of_def intro!: filter_cong)
    qed
    ultimately show ?thesis by (simp add: dyn_lookup_def l last_filter_rev)
  qed
  moreover have "filter (\<lambda>i. ?names ! i = nm) [1..<length ?names] =
      filter (\<lambda>i. entry_name h (sym_entries t ! i) = nm) [1..<length (sym_entries t)]" for nm
    unfolding length_map by (rule filter_cong) auto
  ultimately show ?thesis using s by (intro exI [of _ ?fin]) simp
qed

text \<open>A symbol table with two symbols of one name.\<close>

definition dynsym_sample :: elf_symtab where
  "dynsym_sample = (new_elf_symtab symbols_env (new_string_table True) True)
     \<lparr>sym_entries := [\<lparr>se_atom = None, se_sym = null_sym, se_layout = None\<rparr>,
        \<lparr>se_atom = Some 0, se_sym = null_sym, se_layout = None\<rparr>, \<lparr>se_atom = Some 1, se_sym = null_sym, se_layout = None\<rparr>,
        \<lparr>se_atom = Some 0, se_sym = null_sym, se_layout = None\<rparr>]\<rparr>"

theorem hash_section_lookup_witness:
  "\<exists>s. hash_doPreFlight (\<lambda>nm. of_nat (length nm)) (addSymbolsToHashTable symbols_sample dynsym_sample new_hash_section) = Some s \<and>
     dyn_lookup (\<lambda>nm. of_nat (length nm)) (map (entry_name symbols_sample) (sym_entries dynsym_sample)) s ''main'' = Some 3 \<and>
     dyn_lookup (\<lambda>nm. of_nat (length nm)) (map (entry_name symbols_sample) (sym_entries dynsym_sample)) s ''exit'' = Some 0"
proof -
  have "sym_entries dynsym_sample \<noteq> []" "length (sym_entries dynsym_sample) < 2 ^ 32" by (simp_all add: dynsym_sample_def)
  from hash_section_lookup [OF this, of "\<lambda>nm. of_nat (length nm)" symbols_sample] obtain s where
    s: "hash_doPreFlight (\<lambda>nm. of_nat (length nm)) (addSymbolsToHashTable symbols_sample dynsym_sample new_hash_section) = Some s"
    and l: "\<And>nm. dyn_lookup (\<lambda>nm. of_nat (length nm)) (map (entry_name symbols_sample) (sym_entries dynsym_sample)) s nm =
       Some (case rev (filter (\<lambda>i. entry_name symbols_sample (sym_entries dynsym_sample ! i) = nm)
           [1..<length (sym_entries dynsym_sample)]) of [] \<Rightarrow> 0 | i # _ \<Rightarrow> of_nat i)" by blast
  have "[1..<length (sym_entries dynsym_sample)] = [1, 2, 3]" by (simp add: dynsym_sample_def upt_conv_Cons)
  note found = l [unfolded this]
  have "filter (\<lambda>i. entry_name symbols_sample (sym_entries dynsym_sample ! i) = ''main'') [1, 2, 3] = [1, 3]"
    "filter (\<lambda>i. entry_name symbols_sample (sym_entries dynsym_sample ! i) = ''exit'') [1, 2, 3] = []"
    by (simp_all add: dynsym_sample_def entry_name_def symbols_sample_def)
  with s found [of "''main''"] found [of "''exit''"] show ?thesis by simp
qed

end
