(* ===== verification/Elf_Dynamic.thy ===== *)
theory Elf_Dynamic
  imports Elf_Hash
begin

text \<open>
  The dynamic relocations, the dynamic section and the header of the exception frames
  (lib/ReaderWriter/ELF/SectionChunks.h, SectionChunks.cpp). The entries of the dynamic section are made in two
  steps and filled in later through remembered indices; the theorem says what is written in the end.
\<close>

section \<open>Relocation table\<close>

text \<open>A reference is known by its address: the atom that owns it and its number there.\<close>

type_synonym ref_ptr = "atom_id \<times> nat"

record reloc_table =
  rt_relocs :: "(atom_id \<times> ref_ptr) list"
  rt_entSize :: u64
  rt_fsize :: u64
  rt_msize :: u64

definition new_reloc_table :: "bool \<Rightarrow> u64 \<Rightarrow> u64 \<Rightarrow> reloc_table" where
  "new_reloc_table isRela sizeof_rela sizeof_rel =
     \<lparr>rt_relocs = [], rt_entSize = (if isRela then sizeof_rela else sizeof_rel), rt_fsize = 0, rt_msize = 0\<rparr>"

definition addRelocation :: "atom_id \<Rightarrow> ref_ptr \<Rightarrow> reloc_table \<Rightarrow> u32 \<times> reloc_table" where
  "addRelocation da r t =
     (let rs = rt_relocs t @ [(da, r)]; fsize = of_nat (length rs) * rt_entSize t in
      (of_nat (length rs - 1), t\<lparr>rt_relocs := rs, rt_fsize := fsize, rt_msize := fsize\<rparr>))"

definition getRelocationIndex :: "ref_ptr \<Rightarrow> reloc_table \<Rightarrow> u32 option" where
  "getRelocationIndex r t = map_option of_nat (first_index (\<lambda>p. snd p = r) (rt_relocs t))"

definition canModifyReadonlySection :: "store \<Rightarrow> reloc_table \<Rightarrow> bool" where
  "canModifyReadonlySection h t \<longleftrightarrow>
     (\<exists>rel \<in> set (rt_relocs t).
        and (perm_value (permissions_of (the_defined (atom_at h (fst rel))))) (perm_value permRW)
          \<noteq> perm_value permRW)"

record elf_rela =
  r_offset :: u64
  r_sym :: u32
  r_type :: u16
  r_addend :: i64

text \<open>What the writer and the context answer; \<open>symbolIndex\<close> is \<open>getSymbolTableIndex\<close> of the dynamic symbol
  table, if there is one.\<close>

record rela_env =
  re_address :: "atom_id \<Rightarrow> u64"
  isRelativeReloc :: "reference \<Rightarrow> bool"
  dynsym :: "elf_symtab option"

definition getSymbolIndex :: "rela_env \<Rightarrow> atom_id \<Rightarrow> u32" where
  "getSymbolIndex env a = (case dynsym env of Some t \<Rightarrow> getSymbolTableIndex t a | None \<Rightarrow> 0)"

definition writeRela :: "rela_env \<Rightarrow> atom_id \<Rightarrow> reference \<Rightarrow> elf_rela" where
  "writeRela env atm ref =
     \<lparr>r_offset = re_address env atm + offsetInAtom ref, r_sym = getSymbolIndex env (target ref), r_type = kindValue ref,
      r_addend = (if isRelativeReloc env ref then re_address env (target ref) + addend ref else 0)\<rparr>"

text \<open>\<open>RelocationTable::write\<close>; an \<open>Elf_Rel\<close> is an \<open>Elf_Rela\<close> without the addend.\<close>

definition reloc_table_write ::
  "rela_env \<Rightarrow> (ref_ptr \<Rightarrow> reference) \<Rightarrow> (elf_rela \<Rightarrow> u8 list) \<Rightarrow> reloc_table \<Rightarrow> nat \<Rightarrow> mem \<Rightarrow> mem" where
  "reloc_table_write env deref enc t fileoffset m =
     write_entries (map (\<lambda>rel. enc (writeRela env (fst rel) (deref (snd rel)))) (rt_relocs t)) fileoffset m"

section \<open>Dynamic section\<close>

datatype (plugins only: size) dyn_tag =
    DT_NULL | DT_NEEDED | DT_PLTRELSZ | DT_PLTGOT | DT_HASH | DT_STRTAB | DT_SYMTAB | DT_RELA | DT_RELASZ | DT_RELAENT
  | DT_STRSZ | DT_SYMENT | DT_INIT | DT_FINI | DT_REL | DT_RELSZ | DT_RELENT | DT_PLTREL | DT_TEXTREL | DT_JMPREL
  | DT_INIT_ARRAY | DT_FINI_ARRAY | DT_INIT_ARRAYSZ | DT_FINI_ARRAYSZ | DT_other i64

text \<open>The members \<open>_dt_hash\<close> to \<open>_dt_fini\<close>, each the index of an entry; unset until \<open>addEntry\<close> returned it.\<close>

datatype (plugins only: size) dt_member =
    dt_hash | dt_strtab | dt_symtab | dt_rela | dt_relasz | dt_relaent | dt_strsz | dt_syment | dt_pltrelsz
  | dt_pltgot | dt_pltrel | dt_jmprel | dt_init_array | dt_init_arraysz | dt_fini_array | dt_fini_arraysz | dt_textrel
  | dt_init | dt_fini

record chunk_view =
  cv_addr :: u64
  cv_size :: u64
  cv_entsize :: u64

text \<open>What the layout and the other tables answer: the relocation tables, output sections and atoms that are
  there, with their addresses and sizes at the moment.\<close>

record dyn_layout =
  isRelaFormat :: bool
  gotPltTag :: dyn_tag
  hashChunk :: chunk_view
  dynstr :: chunk_view
  dynsymChunk :: chunk_view
  dynRel :: "chunk_view option"
  dynRelReadonly :: bool
  pltRel :: "chunk_view option"
  gotPlt :: "u64 option"
  initArray :: "chunk_view option"
  finiArray :: "chunk_view option"
  initAtom :: "u64 option"
  finiAtom :: "u64 option"

record dyn_table =
  dyn_entries :: "(dyn_tag \<times> u64) list"
  dt_at :: "dt_member \<Rightarrow> nat option"
  dyn_fsize :: u64

definition new_dyn_table :: "u64 \<Rightarrow> dyn_table" where
  "new_dyn_table sizeof_dyn = \<lparr>dyn_entries = [], dt_at = (\<lambda>_. None), dyn_fsize = sizeof_dyn\<rparr>"

definition addEntry :: "u64 \<Rightarrow> dyn_tag \<Rightarrow> u64 \<Rightarrow> dyn_table \<Rightarrow> nat \<times> dyn_table" where
  "addEntry sizeof_dyn t v d =
     (let es = dyn_entries d @ [(t, v)] in
      (length es - 1, d\<lparr>dyn_entries := es, dyn_fsize := of_nat (length es) * sizeof_dyn + sizeof_dyn\<rparr>))"

definition memberEntry :: "u64 \<Rightarrow> dt_member \<Rightarrow> dyn_tag \<Rightarrow> u64 \<Rightarrow> dyn_table \<Rightarrow> dyn_table" where
  "memberEntry sizeof_dyn mb t v d =
     (case addEntry sizeof_dyn t v d of (i, d') \<Rightarrow> d'\<lparr>dt_at := (dt_at d')(mb \<mapsto> i)\<rparr>)"

definition createDefaultEntries :: "u64 \<Rightarrow> dyn_layout \<Rightarrow> dyn_table \<Rightarrow> dyn_table" where
  "createDefaultEntries sz L d =
     (let add = memberEntry sz;
          d1 = add dt_syment DT_SYMENT 0 (add dt_strsz DT_STRSZ 0 (add dt_symtab DT_SYMTAB 0
                 (add dt_strtab DT_STRTAB 0 (add dt_hash DT_HASH 0 d))));
          d2 = (if dynRel L \<noteq> None
                then let r = add dt_relaent (if isRelaFormat L then DT_RELAENT else DT_RELENT) 0
                       (add dt_relasz (if isRelaFormat L then DT_RELASZ else DT_RELSZ) 0
                         (add dt_rela (if isRelaFormat L then DT_RELA else DT_REL) 0 d1))
                     in if dynRelReadonly L then add dt_textrel DT_TEXTREL 0 r else r
                else d1)
      in if pltRel L \<noteq> None
         then add dt_jmprel DT_JMPREL 0 (add dt_pltrel DT_PLTREL (if isRelaFormat L then 7 else 17)
                (add dt_pltgot (gotPltTag L) 0 (add dt_pltrelsz DT_PLTRELSZ 0 d2)))
         else d2)"

definition dyn_doPreFlight :: "u64 \<Rightarrow> dyn_layout \<Rightarrow> dyn_table \<Rightarrow> dyn_table" where
  "dyn_doPreFlight sz L d =
     (let add = memberEntry sz;
          d1 = (if initArray L \<noteq> None then add dt_init_arraysz DT_INIT_ARRAYSZ 0 (add dt_init_array DT_INIT_ARRAY 0 d) else d);
          d2 = (if finiArray L \<noteq> None then add dt_fini_arraysz DT_FINI_ARRAYSZ 0 (add dt_fini_array DT_FINI_ARRAY 0 d1) else d1);
          d3 = (if initAtom L \<noteq> None then add dt_init DT_INIT 0 d2 else d2)
      in if finiAtom L \<noteq> None then add dt_fini DT_FINI 0 d3 else d3)"

text \<open>An assignment \<open>_entries[_dt_x].d_un.d_val = v\<close>; \<open>None\<close> when the member was never set.\<close>

definition setEntry :: "dt_member \<times> u64 \<Rightarrow> dyn_table \<Rightarrow> dyn_table option" where
  "setEntry mv d =
     (case dt_at d (fst mv) of
        None \<Rightarrow> None
      | Some i \<Rightarrow> if i < length (dyn_entries d)
          then Some (d\<lparr>dyn_entries := (dyn_entries d)[i := (fst (dyn_entries d ! i), snd mv)]\<rparr>) else None)"

fun setEntries :: "(dt_member \<times> u64) list \<Rightarrow> dyn_table \<Rightarrow> dyn_table option" where
  "setEntries [] d = Some d"
| "setEntries (mv # mvs) d = (case setEntry mv d of None \<Rightarrow> None | Some d' \<Rightarrow> setEntries mvs d')"

text \<open>The assignments of \<open>updateDynamicTable\<close> in their order; without \<open>.got.plt\<close> it follows a null pointer.\<close>

definition array_updates :: "dt_member \<Rightarrow> dt_member \<Rightarrow> chunk_view option \<Rightarrow> (dt_member \<times> u64) list" where
  "array_updates a sz c = (case c of None \<Rightarrow> [] | Some v \<Rightarrow> [(a, cv_addr v), (sz, cv_size v)])"

definition atom_update :: "dt_member \<Rightarrow> u64 option \<Rightarrow> (dt_member \<times> u64) list" where
  "atom_update mb a = (case a of None \<Rightarrow> [] | Some v \<Rightarrow> [(mb, v)])"

definition updateDynamicTable :: "dyn_layout \<Rightarrow> dyn_table \<Rightarrow> dyn_table option" where
  "updateDynamicTable L d =
     (let us = [(dt_hash, cv_addr (hashChunk L)), (dt_strtab, cv_addr (dynstr L)), (dt_symtab, cv_addr (dynsymChunk L)),
                (dt_strsz, cv_size (dynstr L)), (dt_syment, cv_entsize (dynsymChunk L))]
            @ array_updates dt_init_array dt_init_arraysz (initArray L)
            @ array_updates dt_fini_array dt_fini_arraysz (finiArray L)
            @ atom_update dt_init (initAtom L) @ atom_update dt_fini (finiAtom L)
            @ (case dynRel L of None \<Rightarrow> []
               | Some r \<Rightarrow> [(dt_rela, cv_addr r), (dt_relasz, cv_size r), (dt_relaent, cv_entsize r)])
      in case pltRel L of
           None \<Rightarrow> setEntries us d
         | Some r \<Rightarrow>
             (case gotPlt L of None \<Rightarrow> None
              | Some g \<Rightarrow> setEntries (us @ [(dt_jmprel, cv_addr r), (dt_pltrelsz, cv_size r), (dt_pltgot, g)]) d))"

text \<open>\<open>DynamicTable::write\<close> ends the entries with \<open>DT_NULL\<close>.\<close>

definition dyn_written :: "dyn_table \<Rightarrow> (dyn_tag \<times> u64) list" where
  "dyn_written d = dyn_entries d @ [(DT_NULL, 0)]"

section \<open>Header of the exception frames\<close>

definition ehFrameOffset :: "u64 option \<Rightarrow> u64 option \<Rightarrow> i32" where
  "ehFrameOffset eh_frame eh_frame_hdr =
     (case (eh_frame, eh_frame_hdr) of (Some s, Some h) \<Rightarrow> ucast (s - (h + 4)) | _ \<Rightarrow> 0)"

definition ehFrameHeader_write :: "i32 \<Rightarrow> nat \<Rightarrow> mem \<Rightarrow> mem" where
  "ehFrameHeader_write off dest m =
     write32le (m(dest := 1, dest + 1 := 0x10 OR 0x0b, dest + 2 := 0xff, dest + 3 := 0xff)) (dest + 4) off"

lemma eh_frame_pointer:
  "isInt 32 (s - (h + 4)) \<Longrightarrow>
   h + 4 + scast (read32le (ehFrameHeader_write (ehFrameOffset (Some s) (Some h)) dest m) (dest + 4)) = s"
  by (simp add: ehFrameHeader_write_def ehFrameOffset_def scast_ucast_isInt)

section \<open>The entries of the dynamic section\<close>

text \<open>The table as slots: an entry and the member that knows its index, if one does.\<close>

type_synonym slot = "dt_member option \<times> dyn_tag \<times> u64"

definition slots_of :: "dyn_table \<Rightarrow> slot list \<Rightarrow> bool" where
  "slots_of d ss \<longleftrightarrow> dyn_entries d = map snd ss \<and>
     (\<forall>mb. dt_at d mb = first_index (\<lambda>s. fst s = Some mb) ss)"

definition fresh_in :: "dt_member \<Rightarrow> slot list \<Rightarrow> bool" where
  "fresh_in mb ss \<longleftrightarrow> Some mb \<notin> fst ` set ss"

lemma fresh_in_simps [simp]:
  "fresh_in mb []" "fresh_in mb (s # ss) \<longleftrightarrow> fst s \<noteq> Some mb \<and> fresh_in mb ss"
  "fresh_in mb (ss @ ts) \<longleftrightarrow> fresh_in mb ss \<and> fresh_in mb ts"
  by (auto simp: fresh_in_def)

lemma first_index_append:
  "first_index P (xs @ ys) = (case first_index P xs of Some i \<Rightarrow> Some i | None \<Rightarrow> map_option (\<lambda>i. i + length xs) (first_index P ys))"
  by (induction xs) (auto simp: option.map_comp o_def option.map_ident split: option.splits)

lemma first_index_None: "first_index P xs = None \<longleftrightarrow> (\<forall>x \<in> set xs. \<not> P x)"
  by (induction xs) auto

lemma slots_new: "slots_of (new_dyn_table sz) []"
  by (simp add: slots_of_def new_dyn_table_def)

lemma slots_addEntry: "slots_of d ss \<Longrightarrow> slots_of (snd (addEntry sz t v d)) (ss @ [(None, t, v)])"
  by (auto simp: slots_of_def addEntry_def Let_def first_index_append split: option.split)

lemma slots_member:
  assumes "slots_of d ss" and "fresh_in mb ss"
  shows "slots_of (memberEntry sz mb t v d) (ss @ [(Some mb, t, v)])"
proof -
  have "first_index (\<lambda>s. fst s = Some mb) ss = None" using assms(2) by (force simp: first_index_None fresh_in_def)
  then show ?thesis
    using assms(1) by (auto simp: slots_of_def memberEntry_def addEntry_def Let_def first_index_append split: option.split)
qed

definition assign :: "dt_member \<Rightarrow> u64 \<Rightarrow> slot list \<Rightarrow> slot list" where
  "assign mb v = map (\<lambda>(m, t, w). (m, t, if m = Some mb then v else w))"

definition slots_distinct :: "slot list \<Rightarrow> bool" where
  "slots_distinct ss \<longleftrightarrow> distinct (filter (\<lambda>m. m \<noteq> None) (map fst ss))"

lemma slots_setEntry:
  assumes "slots_of d ss" and "slots_distinct ss" and "\<not> fresh_in mb ss"
  shows "\<exists>d'. setEntry (mb, v) d = Some d' \<and> slots_of d' (assign mb v ss)"
proof -
  have ix: "\<exists>i. first_index (\<lambda>s. fst s = Some mb) ss = Some i \<and> i < length ss \<and>
      (map snd ss)[i := (fst (map snd ss ! i), v)] = map snd (assign mb v ss)"
    using assms(2,3)
  proof (induction ss)
    case (Cons s ss)
    obtain m t w where s: "s = (m, t, w)" by (cases s)
    have none: "fresh_in mb ss \<Longrightarrow> map snd (assign mb v ss) = map snd ss"
      by (force simp: assign_def fresh_in_def)
    show ?case
    proof (cases "m = Some mb")
      case True
      then have "fresh_in mb ss" using Cons.prems(1) s by (auto simp: slots_distinct_def fresh_in_def)
      with True s none show ?thesis by (simp add: assign_def)
    next
      case False
      then obtain i where "first_index (\<lambda>s. fst s = Some mb) ss = Some i" "i < length ss"
          "(map snd ss)[i := (fst (map snd ss ! i), v)] = map snd (assign mb v ss)"
        using Cons s by (auto simp: slots_distinct_def split: if_splits)
      with False s show ?thesis by (simp add: assign_def)
    qed
  qed simp
  have "first_index (\<lambda>s. fst s = Some m) (assign mb v ss) = first_index (\<lambda>s. fst s = Some m) ss" for m
    by (induction ss) (auto simp: assign_def)
  with ix assms(1) show ?thesis by (auto simp: slots_of_def setEntry_def)
qed

lemma assign_keeps: "fresh_in m (assign mb v ss) = fresh_in m ss" "slots_distinct (assign mb v ss) = slots_distinct ss"
proof -
  have "map fst (assign mb v ss) = map fst ss" by (auto simp: assign_def)
  then show "fresh_in m (assign mb v ss) = fresh_in m ss" "slots_distinct (assign mb v ss) = slots_distinct ss"
    unfolding fresh_in_def slots_distinct_def set_map [symmetric] by simp_all
qed

definition assigned :: "(dt_member \<times> u64) list \<Rightarrow> slot \<Rightarrow> dyn_tag \<times> u64" where
  "assigned us s = (fst (snd s), case fst s of None \<Rightarrow> snd (snd s)
     | Some mb \<Rightarrow> (case map_of us mb of None \<Rightarrow> snd (snd s) | Some v \<Rightarrow> v))"

lemma slots_setEntries:
  assumes "slots_of d ss" and "slots_distinct ss" and "\<forall>u \<in> set us. \<not> fresh_in (fst u) ss" and "distinct (map fst us)"
  shows "\<exists>d'. setEntries us d = Some d' \<and> dyn_entries d' = map (assigned us) ss"
  using assms
proof (induction us arbitrary: d ss)
  case Nil
  then show ?case by (auto simp: slots_of_def assigned_def split: option.split)
next
  case (Cons u us)
  obtain mb v where u: "u = (mb, v)" by (cases u)
  obtain d1 where d1: "setEntry u d = Some d1" "slots_of d1 (assign mb v ss)"
    using slots_setEntry [OF Cons.prems(1,2), of mb v] Cons.prems(3) u by auto
  obtain d2 where "setEntries us d1 = Some d2" "dyn_entries d2 = map (assigned us) (assign mb v ss)"
    using Cons.IH [OF d1(2)] Cons.prems by (auto simp: assign_keeps)
  moreover have "map_of us mb = None" using Cons.prems(4) u by (simp add: map_of_eq_None_iff)
  then have "map (assigned us) (assign mb v ss) = map (assigned (u # us)) ss"
    by (auto simp: assign_def assigned_def u split: option.split)
  ultimately show ?case using d1(1) by simp
qed

text \<open>The entries made from a list of members.\<close>

definition memberEntries :: "u64 \<Rightarrow> (dt_member \<times> dyn_tag \<times> u64) list \<Rightarrow> dyn_table \<Rightarrow> dyn_table" where
  "memberEntries sz = fold (\<lambda>(mb, t, v). memberEntry sz mb t v)"

definition member_slots :: "(dt_member \<times> dyn_tag \<times> u64) list \<Rightarrow> slot list" where
  "member_slots = map (\<lambda>(mb, t, v). (Some mb, t, v))"

lemma slots_members:
  "slots_of d ss \<Longrightarrow> distinct (map fst ms) \<Longrightarrow> \<forall>m \<in> set ms. fresh_in (fst m) ss \<Longrightarrow>
   slots_of (memberEntries sz ms d) (ss @ member_slots ms)"
proof (induction ms arbitrary: d ss)
  case (Cons m ms)
  obtain mb t v where m: "m = (mb, t, v)" by (cases m)
  have "slots_of (memberEntry sz mb t v d) (ss @ [(Some mb, t, v)])"
    using slots_member [OF Cons.prems(1)] Cons.prems(3) m by simp
  from Cons.IH [OF this] show ?case
    using Cons.prems(2,3) m by (force simp: memberEntries_def member_slots_def)
qed (simp add: memberEntries_def member_slots_def)

definition default_members :: "dyn_layout \<Rightarrow> (dt_member \<times> dyn_tag \<times> u64) list" where
  "default_members L =
     [(dt_hash, DT_HASH, 0), (dt_strtab, DT_STRTAB, 0), (dt_symtab, DT_SYMTAB, 0), (dt_strsz, DT_STRSZ, 0), (dt_syment, DT_SYMENT, 0)]
     @ (if dynRel L = None then []
        else [(dt_rela, if isRelaFormat L then DT_RELA else DT_REL, 0), (dt_relasz, if isRelaFormat L then DT_RELASZ else DT_RELSZ, 0),
              (dt_relaent, if isRelaFormat L then DT_RELAENT else DT_RELENT, 0)]
             @ (if dynRelReadonly L then [(dt_textrel, DT_TEXTREL, 0)] else []))
     @ (if pltRel L = None then []
        else [(dt_pltrelsz, DT_PLTRELSZ, 0), (dt_pltgot, gotPltTag L, 0), (dt_pltrel, DT_PLTREL, if isRelaFormat L then 7 else 17),
              (dt_jmprel, DT_JMPREL, 0)])"

definition preflight_members :: "dyn_layout \<Rightarrow> (dt_member \<times> dyn_tag \<times> u64) list" where
  "preflight_members L =
     (if initArray L = None then [] else [(dt_init_array, DT_INIT_ARRAY, 0), (dt_init_arraysz, DT_INIT_ARRAYSZ, 0)])
     @ (if finiArray L = None then [] else [(dt_fini_array, DT_FINI_ARRAY, 0), (dt_fini_arraysz, DT_FINI_ARRAYSZ, 0)])
     @ (if initAtom L = None then [] else [(dt_init, DT_INIT, 0)])
     @ (if finiAtom L = None then [] else [(dt_fini, DT_FINI, 0)])"

lemma create_members: "createDefaultEntries sz L = memberEntries sz (default_members L)"
  by (simp add: fun_eq_iff createDefaultEntries_def default_members_def memberEntries_def Let_def)

lemma preflight_members_eq: "dyn_doPreFlight sz L = memberEntries sz (preflight_members L)"
  by (simp add: fun_eq_iff dyn_doPreFlight_def preflight_members_def memberEntries_def Let_def)

text \<open>The entries the output adds between the two (\<open>DT_NEEDED\<close> and others), and the whole life of the table.\<close>

definition addEntries :: "u64 \<Rightarrow> (dyn_tag \<times> u64) list \<Rightarrow> dyn_table \<Rightarrow> dyn_table" where
  "addEntries sz = fold (\<lambda>(t, v) d. snd (addEntry sz t v d))"

lemma slots_entries: "slots_of d ss \<Longrightarrow> slots_of (addEntries sz es d) (ss @ map (\<lambda>e. (None, e)) es)"
proof (induction es arbitrary: d ss)
  case (Cons e es)
  obtain t v where e: "e = (t, v)" by (cases e)
  from Cons.IH [OF slots_addEntry [OF Cons.prems, of sz t v]] e show ?case by (simp add: addEntries_def)
qed (simp add: addEntries_def)

definition built_dyn_table :: "u64 \<Rightarrow> dyn_layout \<Rightarrow> (dyn_tag \<times> u64) list \<Rightarrow> dyn_layout \<Rightarrow> dyn_table" where
  "built_dyn_table sz L0 es L1 = dyn_doPreFlight sz L1 (addEntries sz es (createDefaultEntries sz L0 (new_dyn_table sz)))"

definition built_slots :: "dyn_layout \<Rightarrow> (dyn_tag \<times> u64) list \<Rightarrow> dyn_layout \<Rightarrow> slot list" where
  "built_slots L0 es L1 = member_slots (default_members L0) @ map (\<lambda>e. (None, e)) es @ member_slots (preflight_members L1)"

lemma slots_built: "slots_of (built_dyn_table sz L0 es L1) (built_slots L0 es L1)"
proof -
  have d: "distinct (map fst (default_members L0))" "distinct (map fst (preflight_members L1))"
    by (simp_all add: default_members_def preflight_members_def)
  have "slots_of (createDefaultEntries sz L0 (new_dyn_table sz)) (member_slots (default_members L0))"
    using slots_members [OF slots_new d(1)] by (simp add: create_members)
  from slots_entries [OF this] have
    e: "slots_of (addEntries sz es (createDefaultEntries sz L0 (new_dyn_table sz)))
      (member_slots (default_members L0) @ map (\<lambda>e. (None, e)) es)" .
  have "\<forall>m \<in> set (preflight_members L1). fresh_in (fst m) (member_slots (default_members L0) @ map (\<lambda>e. (None, e)) es)"
    by (auto simp: preflight_members_def default_members_def member_slots_def fresh_in_def split: if_splits)
  from slots_members [OF e d(2) this] show ?thesis
    by (simp add: built_dyn_table_def built_slots_def preflight_members_eq)
qed

lemma slots_distinct_built: "slots_distinct (built_slots L0 es L1)"
  by (auto simp: slots_distinct_def built_slots_def member_slots_def default_members_def preflight_members_def)

definition dyn_updates :: "dyn_layout \<Rightarrow> (dt_member \<times> u64) list" where
  "dyn_updates L =
     [(dt_hash, cv_addr (hashChunk L)), (dt_strtab, cv_addr (dynstr L)), (dt_symtab, cv_addr (dynsymChunk L)),
      (dt_strsz, cv_size (dynstr L)), (dt_syment, cv_entsize (dynsymChunk L))]
     @ array_updates dt_init_array dt_init_arraysz (initArray L) @ array_updates dt_fini_array dt_fini_arraysz (finiArray L)
     @ atom_update dt_init (initAtom L) @ atom_update dt_fini (finiAtom L)
     @ (case dynRel L of None \<Rightarrow> [] | Some r \<Rightarrow> [(dt_rela, cv_addr r), (dt_relasz, cv_size r), (dt_relaent, cv_entsize r)])
     @ (case pltRel L of None \<Rightarrow> []
        | Some r \<Rightarrow> [(dt_jmprel, cv_addr r), (dt_pltrelsz, cv_size r), (dt_pltgot, the (gotPlt L))])"

lemma update_setEntries:
  "pltRel L \<noteq> None \<longrightarrow> gotPlt L \<noteq> None \<Longrightarrow> updateDynamicTable L d = setEntries (dyn_updates L) d"
  by (auto simp: updateDynamicTable_def dyn_updates_def Let_def split: option.splits)

text \<open>The layout answers alike when an entry is made and when it is filled in.\<close>

definition same_shape :: "dyn_layout \<Rightarrow> dyn_layout \<Rightarrow> dyn_layout \<Rightarrow> bool" where
  "same_shape L0 L1 L \<longleftrightarrow> (dynRel L0 = None \<longleftrightarrow> dynRel L = None) \<and> (pltRel L0 = None \<longleftrightarrow> pltRel L = None) \<and>
     (pltRel L \<noteq> None \<longrightarrow> gotPlt L \<noteq> None) \<and> (initArray L1 = None \<longleftrightarrow> initArray L = None) \<and>
     (finiArray L1 = None \<longleftrightarrow> finiArray L = None) \<and> (initAtom L1 = None \<longleftrightarrow> initAtom L = None) \<and>
     (finiAtom L1 = None \<longleftrightarrow> finiAtom L = None)"

definition array_entries :: "dyn_tag \<Rightarrow> dyn_tag \<Rightarrow> chunk_view option \<Rightarrow> (dyn_tag \<times> u64) list" where
  "array_entries a sz c = (case c of None \<Rightarrow> [] | Some v \<Rightarrow> [(a, cv_addr v), (sz, cv_size v)])"

definition atom_entry :: "dyn_tag \<Rightarrow> u64 option \<Rightarrow> (dyn_tag \<times> u64) list" where
  "atom_entry t a = (case a of None \<Rightarrow> [] | Some v \<Rightarrow> [(t, v)])"

text \<open>What the dynamic linker is to find.\<close>

definition dyn_expected :: "dyn_layout \<Rightarrow> (dyn_tag \<times> u64) list \<Rightarrow> dyn_layout \<Rightarrow> (dyn_tag \<times> u64) list" where
  "dyn_expected L0 es L =
     [(DT_HASH, cv_addr (hashChunk L)), (DT_STRTAB, cv_addr (dynstr L)), (DT_SYMTAB, cv_addr (dynsymChunk L)),
      (DT_STRSZ, cv_size (dynstr L)), (DT_SYMENT, cv_entsize (dynsymChunk L))]
     @ (case dynRel L of None \<Rightarrow> []
        | Some r \<Rightarrow> (if isRelaFormat L0 then [(DT_RELA, cv_addr r), (DT_RELASZ, cv_size r), (DT_RELAENT, cv_entsize r)]
                     else [(DT_REL, cv_addr r), (DT_RELSZ, cv_size r), (DT_RELENT, cv_entsize r)])
                    @ (if dynRelReadonly L0 then [(DT_TEXTREL, 0)] else []))
     @ (case pltRel L of None \<Rightarrow> []
        | Some r \<Rightarrow> [(DT_PLTRELSZ, cv_size r), (gotPltTag L0, the (gotPlt L)), (DT_PLTREL, if isRelaFormat L0 then 7 else 17),
                     (DT_JMPREL, cv_addr r)])
     @ es @ array_entries DT_INIT_ARRAY DT_INIT_ARRAYSZ (initArray L) @ array_entries DT_FINI_ARRAY DT_FINI_ARRAYSZ (finiArray L)
     @ atom_entry DT_INIT (initAtom L) @ atom_entry DT_FINI (finiAtom L)"

lemma updates_distinct: "distinct (map fst (dyn_updates L))"
  by (cases "dynRel L"; cases "pltRel L"; cases "initArray L"; cases "finiArray L"; cases "initAtom L"; cases "finiAtom L")
    (simp_all add: dyn_updates_def array_updates_def atom_update_def)

lemma updates_lookup [simp]:
  "map_of (dyn_updates L) dt_hash = Some (cv_addr (hashChunk L))"
  "map_of (dyn_updates L) dt_strtab = Some (cv_addr (dynstr L))"
  "map_of (dyn_updates L) dt_symtab = Some (cv_addr (dynsymChunk L))"
  "map_of (dyn_updates L) dt_strsz = Some (cv_size (dynstr L))"
  "map_of (dyn_updates L) dt_syment = Some (cv_entsize (dynsymChunk L))"
  "map_of (dyn_updates L) dt_init_array = map_option cv_addr (initArray L)"
  "map_of (dyn_updates L) dt_init_arraysz = map_option cv_size (initArray L)"
  "map_of (dyn_updates L) dt_fini_array = map_option cv_addr (finiArray L)"
  "map_of (dyn_updates L) dt_fini_arraysz = map_option cv_size (finiArray L)"
  "map_of (dyn_updates L) dt_init = initAtom L"
  "map_of (dyn_updates L) dt_fini = finiAtom L"
  "map_of (dyn_updates L) dt_rela = map_option cv_addr (dynRel L)"
  "map_of (dyn_updates L) dt_relasz = map_option cv_size (dynRel L)"
  "map_of (dyn_updates L) dt_relaent = map_option cv_entsize (dynRel L)"
  "map_of (dyn_updates L) dt_jmprel = map_option cv_addr (pltRel L)"
  "map_of (dyn_updates L) dt_pltrelsz = map_option cv_size (pltRel L)"
  "map_of (dyn_updates L) dt_pltgot = map_option (\<lambda>_. the (gotPlt L)) (pltRel L)"
  "map_of (dyn_updates L) dt_textrel = None" "map_of (dyn_updates L) dt_pltrel = None"
  by (simp_all add: dyn_updates_def array_updates_def atom_update_def split: option.split)

lemma update_members:
  "map fst (array_updates a b c) = (if c = None then [] else [a, b])" "map fst (atom_update a d) = (if d = None then [] else [a])"
  by (simp_all add: array_updates_def atom_update_def split: option.split)

lemma known_in_built:
  "mb \<in> set (map fst (default_members L0)) \<union> set (map fst (preflight_members L1)) \<Longrightarrow> \<not> fresh_in mb (built_slots L0 es L1)"
  by (force simp: fresh_in_def built_slots_def member_slots_def)

lemma updates_known:
  assumes "same_shape L0 L1 L"
  shows "\<forall>u \<in> set (dyn_updates L). \<not> fresh_in (fst u) (built_slots L0 es L1)"
proof -
  have n: "dynRel L0 = None \<longleftrightarrow> dynRel L = None" "pltRel L0 = None \<longleftrightarrow> pltRel L = None" "initArray L1 = None \<longleftrightarrow> initArray L = None"
    "finiArray L1 = None \<longleftrightarrow> finiArray L = None" "initAtom L1 = None \<longleftrightarrow> initAtom L = None" "finiAtom L1 = None \<longleftrightarrow> finiAtom L = None"
    using assms unfolding same_shape_def by blast+
  have r: "map fst (case dynRel L of None \<Rightarrow> [] | Some r \<Rightarrow> [(dt_rela, cv_addr r), (dt_relasz, cv_size r), (dt_relaent, cv_entsize r)]) =
      (if dynRel L = None then [] else [dt_rela, dt_relasz, dt_relaent])"
    "map fst (case pltRel L of None \<Rightarrow> [] | Some r \<Rightarrow> [(dt_jmprel, cv_addr r), (dt_pltrelsz, cv_size r), (dt_pltgot, the (gotPlt L))]) =
      (if pltRel L = None then [] else [dt_jmprel, dt_pltrelsz, dt_pltgot])"
    by (simp_all split: option.split)
  have sub: "set (map fst (dyn_updates L)) \<subseteq> set (map fst (default_members L0)) \<union> set (map fst (preflight_members L1))"
    unfolding dyn_updates_def default_members_def preflight_members_def map_append set_append update_members r n
    by (intro Un_least; simp)
  show ?thesis
  proof
    fix u
    assume "u \<in> set (dyn_updates L)"
    then have "fst u \<in> set (map fst (dyn_updates L))" by simp
    then show "\<not> fresh_in (fst u) (built_slots L0 es L1)" by (rule known_in_built [OF subsetD [OF sub]])
  qed
qed

lemma assigned_default:
  assumes "same_shape L0 L1 L"
  shows "map (assigned (dyn_updates L)) (member_slots (default_members L0) @ map (\<lambda>e. (None, e)) es) @ xs =
    dyn_expected L0 es L \<longleftrightarrow>
    xs = array_entries DT_INIT_ARRAY DT_INIT_ARRAYSZ (initArray L) @ array_entries DT_FINI_ARRAY DT_FINI_ARRAYSZ (finiArray L)
     @ atom_entry DT_INIT (initAtom L) @ atom_entry DT_FINI (finiAtom L)"
proof -
  have "(dynRel L0 = None) = (dynRel L = None)" "(pltRel L0 = None) = (pltRel L = None)" "pltRel L \<noteq> None \<longrightarrow> gotPlt L \<noteq> None"
    using assms by (auto simp: same_shape_def)
  then show ?thesis
    by (cases "dynRel L"; cases "pltRel L"; cases "gotPlt L"; cases "dynRel L0"; cases "pltRel L0")
      (simp_all add: default_members_def member_slots_def assigned_def dyn_expected_def o_def)
qed

lemma assigned_preflight:
  assumes "same_shape L0 L1 L"
  shows "map (assigned (dyn_updates L)) (member_slots (preflight_members L1)) =
    array_entries DT_INIT_ARRAY DT_INIT_ARRAYSZ (initArray L) @ array_entries DT_FINI_ARRAY DT_FINI_ARRAYSZ (finiArray L)
     @ atom_entry DT_INIT (initAtom L) @ atom_entry DT_FINI (finiAtom L)"
proof -
  have "(initArray L1 = None) = (initArray L = None)" "(finiArray L1 = None) = (finiArray L = None)"
    "(initAtom L1 = None) = (initAtom L = None)" "(finiAtom L1 = None) = (finiAtom L = None)"
    using assms by (auto simp: same_shape_def)
  then show ?thesis
    by (cases "initArray L"; cases "finiArray L"; cases "initAtom L"; cases "finiAtom L")
      (simp_all add: preflight_members_def member_slots_def assigned_def array_entries_def atom_entry_def)
qed

lemma setEntries_size: "setEntries us d = Some d' \<Longrightarrow> dyn_fsize d' = dyn_fsize d \<and> length (dyn_entries d') = length (dyn_entries d)"
  by (induction us arbitrary: d) (fastforce simp: setEntry_def split: option.splits if_splits)+

definition dyn_size_ok :: "u64 \<Rightarrow> dyn_table \<Rightarrow> bool" where
  "dyn_size_ok sz d \<longleftrightarrow> dyn_fsize d = of_nat (length (dyn_written d)) * sz"

lemma dyn_size_addEntry: "dyn_size_ok sz (snd (addEntry sz t v d))"
  by (simp add: dyn_size_ok_def addEntry_def dyn_written_def Let_def algebra_simps)

lemma dyn_size_members: "dyn_size_ok sz d \<Longrightarrow> dyn_size_ok sz (memberEntries sz ms d)"
proof (induction ms arbitrary: d)
  case (Cons m ms)
  obtain mb t v where m: "m = (mb, t, v)" by (cases m)
  have "dyn_size_ok sz (memberEntry sz mb t v d)"
    using dyn_size_addEntry [of sz t v d] by (cases "addEntry sz t v d") (simp add: memberEntry_def dyn_size_ok_def dyn_written_def)
  from Cons.IH [OF this] m show ?case by (simp add: memberEntries_def)
qed (simp add: memberEntries_def)

lemma dyn_size_entries: "dyn_size_ok sz d \<Longrightarrow> dyn_size_ok sz (addEntries sz es d)"
  by (induction es arbitrary: d) (auto simp: addEntries_def dyn_size_addEntry)

lemma dyn_size_built: "dyn_size_ok sz (built_dyn_table sz L0 es L1)"
proof -
  have "dyn_size_ok sz (new_dyn_table sz)" by (simp add: dyn_size_ok_def new_dyn_table_def dyn_written_def)
  then show ?thesis
    by (simp add: built_dyn_table_def create_members preflight_members_eq dyn_size_members dyn_size_entries)
qed

text \<open>C36: The dynamic section as it is written. When the relocation tables, arrays and functions that are there at the
  update are those that were there when their entries were made, every index the update follows is the index of
  its entry, and the written entries are: the tables' addresses and sizes, those of the relocation tables, the entries
  the output added in between unchanged, those of the arrays and functions, and \<open>DT_NULL\<close>; the section's size is
  that of these entries.\<close>

theorem dynamic_section_entries:
  assumes "same_shape L0 L1 L"
  shows "\<exists>d. updateDynamicTable L (built_dyn_table sz L0 es L1) = Some d \<and>
    dyn_written d = dyn_expected L0 es L @ [(DT_NULL, 0)] \<and> dyn_fsize d = of_nat (length (dyn_written d)) * sz"
proof -
  obtain d where d: "setEntries (dyn_updates L) (built_dyn_table sz L0 es L1) = Some d"
    "dyn_entries d = map (assigned (dyn_updates L)) (built_slots L0 es L1)"
    using slots_setEntries [OF slots_built slots_distinct_built updates_known [OF assms] updates_distinct] by blast
  have "updateDynamicTable L (built_dyn_table sz L0 es L1) = Some d"
    using assms d(1) by (subst update_setEntries) (auto simp: same_shape_def)
  moreover have "dyn_written d = dyn_expected L0 es L @ [(DT_NULL, 0)]"
    using assigned_default [OF assms, of es] assigned_preflight [OF assms] d(2)
    by (simp add: dyn_written_def built_slots_def)
  moreover have "dyn_fsize d = of_nat (length (dyn_written d)) * sz"
    using setEntries_size [OF d(1)] dyn_size_built [of sz L0 es L1] by (simp add: dyn_size_ok_def dyn_written_def)
  ultimately show ?thesis by blast
qed

definition dyn_sample :: dyn_layout where
  "dyn_sample = \<lparr>isRelaFormat = True, gotPltTag = DT_PLTGOT, hashChunk = \<lparr>cv_addr = 0x400, cv_size = 32, cv_entsize = 4\<rparr>,
     dynstr = \<lparr>cv_addr = 0x500, cv_size = 17, cv_entsize = 0\<rparr>, dynsymChunk = \<lparr>cv_addr = 0x600, cv_size = 96, cv_entsize = 24\<rparr>,
     dynRel = Some \<lparr>cv_addr = 0x700, cv_size = 48, cv_entsize = 24\<rparr>, dynRelReadonly = False, pltRel = None, gotPlt = None,
     initArray = Some \<lparr>cv_addr = 0x900, cv_size = 8, cv_entsize = 8\<rparr>, finiArray = None, initAtom = Some 0x1000, finiAtom = None\<rparr>"

theorem dynamic_section_entries_witness:
  "\<exists>d. updateDynamicTable dyn_sample (built_dyn_table 16 dyn_sample [(DT_NEEDED, 1)] dyn_sample) = Some d \<and>
     dyn_written d = [(DT_HASH, 0x400), (DT_STRTAB, 0x500), (DT_SYMTAB, 0x600), (DT_STRSZ, 17), (DT_SYMENT, 24), (DT_RELA, 0x700),
       (DT_RELASZ, 48), (DT_RELAENT, 24), (DT_NEEDED, 1), (DT_INIT_ARRAY, 0x900), (DT_INIT_ARRAYSZ, 8), (DT_INIT, 0x1000), (DT_NULL, 0)]"
proof -
  have "same_shape dyn_sample dyn_sample dyn_sample" by (simp add: same_shape_def dyn_sample_def)
  from dynamic_section_entries [OF this, of 16 "[(DT_NEEDED, 1)]"] obtain d where
    d: "updateDynamicTable dyn_sample (built_dyn_table 16 dyn_sample [(DT_NEEDED, 1)] dyn_sample) = Some d"
      "dyn_written d = dyn_expected dyn_sample [(DT_NEEDED, 1)] dyn_sample @ [(DT_NULL, 0)]" by blast
  then show ?thesis
    by (intro exI [of _ d] conjI) (assumption, simp add: dyn_expected_def dyn_sample_def array_entries_def atom_entry_def)
qed

end
