(* ===== verification/Script_Lexer.thy ===== *)
theory Script_Lexer
  imports Lld_Prelude "HOL-Library.Sublist"
begin

text \<open>
  The lexer of linker scripts (include/lld/ReaderWriter/LinkerScript.h, lib/ReaderWriter/LinkerScript.cpp):
  tokens, the numbers in a script, white space and comments, and \<open>lex\<close>, which takes one token off the front
  of the buffer. A buffer is a string; \<open>None\<close> as the result of \<open>lex\<close> says that the code reads or drops
  characters beyond the end of the buffer, for which StringRef has an assertion.
\<close>

section \<open>Tokens\<close>

datatype (plugins only:) kind =
    t_unknown | t_eof | t_exclaim | t_exclaimequal | t_amp | t_ampequal | l_paren | r_paren | t_star
  | t_starequal | t_plus | t_plusequal | t_comma | t_minus | t_minusequal | t_slash | t_slashequal
  | t_number | t_colon | t_semicolon | t_less | t_lessequal | t_lessless | t_lesslessequal | t_equal
  | t_equalequal | t_greater | t_greaterequal | t_greatergreater | t_greatergreaterequal | t_question
  | t_identifier | t_libname | kw_align | kw_align_with_input | kw_as_needed | kw_at | kw_discard
  | kw_entry | kw_exclude_file | kw_extern | kw_fill | kw_group | kw_hidden | kw_input | kw_keep
  | kw_length | kw_memory | kw_origin | kw_phdrs | kw_provide | kw_provide_hidden | kw_only_if_ro
  | kw_only_if_rw | kw_output | kw_output_arch | kw_output_format | kw_overlay | kw_search_dir
  | kw_sections | kw_sort_by_alignment | kw_sort_by_init_priority | kw_sort_by_name | kw_sort_none
  | kw_subalign | l_brace | t_pipe | t_pipeequal | r_brace | t_tilde

datatype token = Token (range_of: string) (kind_of: kind)

section \<open>Numbers\<close>

text \<open>The value of \<open>c - '0'\<close> and its like, as the machine computes it.\<close>

definition char_diff :: "char \<Rightarrow> char \<Rightarrow> u64" where
  "char_diff c d = of_char c - of_char d"

definition in_range :: "char \<Rightarrow> char \<Rightarrow> char \<Rightarrow> bool" where
  "in_range lo hi c \<longleftrightarrow> (of_char lo :: nat) \<le> of_char c \<and> (of_char c :: nat) \<le> of_char hi"

fun parseDecimal :: "u64 \<Rightarrow> string \<Rightarrow> u64 option" where
  "parseDecimal res [] = Some res"
| "parseDecimal res (c # cs) =
    (if \<not> in_range CHR ''0'' CHR ''9'' c then None
     else parseDecimal (res * 10 + char_diff c CHR ''0'') cs)"

fun parseOctal :: "u64 \<Rightarrow> string \<Rightarrow> u64 option" where
  "parseOctal res [] = Some res"
| "parseOctal res (c # cs) =
    (if \<not> in_range CHR ''0'' CHR ''7'' c then None
     else parseOctal (push_bit 3 res + char_diff c CHR ''0'') cs)"

fun parseBinary :: "u64 \<Rightarrow> string \<Rightarrow> u64 option" where
  "parseBinary res [] = Some res"
| "parseBinary res (c # cs) =
    (if c \<noteq> CHR ''0'' \<and> c \<noteq> CHR ''1'' then None
     else parseBinary (push_bit 1 res + char_diff c CHR ''0'') cs)"

definition hexDigit :: "char \<Rightarrow> u64 option" where
  "hexDigit c =
    (if in_range CHR ''0'' CHR ''9'' c then Some (char_diff c CHR ''0'')
     else if in_range CHR ''a'' CHR ''f'' c then Some (char_diff c CHR ''a'' + 10)
     else if in_range CHR ''A'' CHR ''F'' c then Some (char_diff c CHR ''A'' + 10)
     else None)"

fun parseHex :: "u64 \<Rightarrow> string \<Rightarrow> u64 option" where
  "parseHex res [] = Some res"
| "parseHex res (c # cs) =
    (case hexDigit c of None \<Rightarrow> None | Some d \<Rightarrow> parseHex (push_bit 4 res + d) cs)"

text \<open>
  \<open>parseHexToByteStream\<close>: the state of its loop is the byte being built, whether it is complete with the
  next digit, and the bytes so far.
\<close>

fun hexStream :: "u8 \<Rightarrow> bool \<Rightarrow> u8 list \<Rightarrow> string \<Rightarrow> u8 list option" where
  "hexStream byte dumpByte buf [] = (if dumpByte then None else Some buf)"
| "hexStream byte dumpByte buf (c # cs) =
    (case hexDigit c of None \<Rightarrow> None
     | Some d \<Rightarrow>
        let byte' = push_bit 4 byte + ucast d in
        if \<not> dumpByte then hexStream byte' True buf cs
        else hexStream 0 False (buf @ [byte']) cs)"

definition parseHexToByteStream :: "string \<Rightarrow> u8 list option" where
  "parseHexToByteStream str = hexStream 0 (length str mod 2 \<noteq> 0) [] str"

definition nibble_char :: "u8 \<Rightarrow> char" where
  "nibble_char n = (if n > 9 then char_of (unat n + 55) else char_of (unat n + 48))"

definition dumpByteStream :: "u8 list \<Rightarrow> string" where
  "dumpByteStream stream =
    ''0x'' @ concat (map (\<lambda>c. [nibble_char (drop_bit 4 c AND 0xF), nibble_char (c AND 0xF)]) stream)"

datatype num_kind = nk_decimal | nk_hex | nk_octal | nk_binary

definition startswith :: "string \<Rightarrow> string \<Rightarrow> bool" where
  "startswith b s \<longleftrightarrow> take (length s) b = s"

definition ends_in :: "string \<Rightarrow> char set \<Rightarrow> bool" where
  "ends_in s cs \<longleftrightarrow> s \<noteq> [] \<and> last s \<in> cs"

definition parseNum :: "string \<Rightarrow> u64 option" where
  "parseNum str =
    (let kind = (if startswith str ''0x'' \<or> startswith str ''0X'' then nk_hex
                 else if startswith str ''0'' then nk_octal else nk_decimal);
         (multiplier, str) =
           (if ends_in str {CHR ''K''} then (2 ^ 10, butlast str)
            else if ends_in str {CHR ''M''} then (2 ^ 20, butlast str)
            else (1, str));
         (kind, str) =
           (if ends_in str {CHR ''o'', CHR ''O''} then (nk_octal, butlast str)
            else if ends_in str {CHR ''h'', CHR ''H''} then (nk_hex, butlast str)
            else if ends_in str {CHR ''d'', CHR ''D''} then (nk_decimal, butlast str)
            else if ends_in str {CHR ''b'', CHR ''B''} then (nk_binary, butlast str)
            else (kind, str));
         res = (case kind of
             nk_hex \<Rightarrow> parseHex 0 (if startswith str ''0x'' \<or> startswith str ''0X'' then drop 2 str else str)
           | nk_octal \<Rightarrow> parseOctal 0 str
           | nk_decimal \<Rightarrow> parseDecimal 0 str
           | nk_binary \<Rightarrow> parseBinary 0 str)
     in map_option (\<lambda>v. v * multiplier) res)"


section \<open>White space and comments\<close>

text \<open>
  The inner loop of \<open>skipWhitespace\<close>: it drops a character at a time and stops after a slash preceded by a star.
  \<open>prev\<close> is the character before the buffer, which the code reads at \<open>data()[-2]\<close>.
\<close>

fun skip_comment :: "char \<Rightarrow> string \<Rightarrow> string" where
  "skip_comment prev [] = []"
| "skip_comment prev (c # cs) =
    (if c = CHR ''/'' \<and> prev = CHR ''*'' then cs else skip_comment c cs)"

lemma length_skip_comment: "length (skip_comment prev b) \<le> length b"
proof (induction b arbitrary: prev)
  case (Cons c cs)
  show ?case using Cons.IH [of c] by simp
qed simp

definition after_comment_start :: "string \<Rightarrow> string" where
  "after_comment_start b =
    (case b of CHR ''/'' # cs \<Rightarrow> skip_comment CHR ''/'' cs | _ \<Rightarrow> skip_comment CHR ''*'' b)"

lemma length_after_comment_start: "length (after_comment_start b) \<le> length b"
proof -
  have "length (skip_comment CHR ''/'' cs) \<le> Suc (length cs)" for cs
    using length_skip_comment [of "CHR ''/''" cs] by simp
  then show ?thesis
    using length_skip_comment [of "CHR ''*''" b]
    by (cases "\<exists>cs. b = CHR ''/'' # cs") (auto simp: after_comment_start_def split: list.splits char.splits bool.splits)
qed

function skipWhitespace :: "string \<Rightarrow> string" where
  "skipWhitespace b =
    (case b of [] \<Rightarrow> []
     | c # cs \<Rightarrow>
        if c \<in> {CHR '' '', CHR 0x0D, CHR 0x0A, CHR 0x09} then skipWhitespace cs
        else if c = CHR ''/'' \<and> cs \<noteq> [] \<and> hd cs = CHR ''*''
             then skipWhitespace (after_comment_start (tl cs))
        else b)"
  by pat_completeness auto
termination
proof (relation "measure length", goal_cases)
  case (3 b c cs)
  then show ?case using length_after_comment_start [of "tl cs"] by (cases cs) auto
qed auto

declare skipWhitespace.simps [simp del]

section \<open>The next token\<close>

definition canStartNumber :: "char \<Rightarrow> bool" where
  "canStartNumber c \<longleftrightarrow> in_range CHR ''0'' CHR ''9'' c"

text \<open>\<open>strchr\<close> also finds the zero byte that ends the string it searches.\<close>

definition strchr :: "string \<Rightarrow> char \<Rightarrow> bool" where
  "strchr s c \<longleftrightarrow> c \<in> set s \<or> c = CHR 0x00"

definition letters :: string where
  "letters = ''ABCDEFGHIJKLMNOPQRSTUVWXYZabcdefghijklmnopqrstuvwxyz''"

definition canContinueNumber :: "char \<Rightarrow> bool" where
  "canContinueNumber = strchr ''0123456789ABCDEFabcdefxXhHoOMK''"

definition canStartName :: "char \<Rightarrow> bool" where
  "canStartName = strchr (letters @ ''_.$/'' @ [CHR 0x5C] @ ''*'')"

definition canContinueName :: "char \<Rightarrow> bool" where
  "canContinueName = strchr (letters @ ''0123456789_.$/'' @ [CHR 0x5C] @ ''~=+[]*?-:'')"

definition script_keywords :: "(string \<times> kind) list" where
  "script_keywords =
    [(''ALIGN'', kw_align), (''ALIGN_WITH_INPUT'', kw_align_with_input), (''AS_NEEDED'', kw_as_needed),
     (''AT'', kw_at), (''ENTRY'', kw_entry), (''EXCLUDE_FILE'', kw_exclude_file), (''EXTERN'', kw_extern),
     (''FILL'', kw_fill), (''GROUP'', kw_group), (''HIDDEN'', kw_hidden), (''INPUT'', kw_input),
     (''KEEP'', kw_keep), (''LENGTH'', kw_length), (''l'', kw_length), (''len'', kw_length),
     (''MEMORY'', kw_memory), (''ONLY_IF_RO'', kw_only_if_ro), (''ONLY_IF_RW'', kw_only_if_rw),
     (''ORIGIN'', kw_origin), (''o'', kw_origin), (''org'', kw_origin), (''OUTPUT'', kw_output),
     (''OUTPUT_ARCH'', kw_output_arch), (''OUTPUT_FORMAT'', kw_output_format), (''OVERLAY'', kw_overlay),
     (''PHDRS'', kw_phdrs), (''PROVIDE'', kw_provide), (''PROVIDE_HIDDEN'', kw_provide_hidden),
     (''SEARCH_DIR'', kw_search_dir), (''SECTIONS'', kw_sections), (''SORT'', kw_sort_by_name),
     (''SORT_BY_ALIGNMENT'', kw_sort_by_alignment),
     (''SORT_BY_INIT_PRIORITY'', kw_sort_by_init_priority), (''SORT_BY_NAME'', kw_sort_by_name),
     (''SORT_NONE'', kw_sort_none), (''SUBALIGN'', kw_subalign), (''/DISCARD/'', kw_discard)]"

definition keyword_kind :: "string \<Rightarrow> kind" where
  "keyword_kind word = (case map_of script_keywords word of Some k \<Rightarrow> k | None \<Rightarrow> t_identifier)"

definition drop_token :: "nat \<Rightarrow> kind \<Rightarrow> string \<Rightarrow> (token \<times> string) option" where
  "drop_token n k b = Some (Token (take n b) k, drop n b)"

text \<open>The last line of \<open>lex\<close>, reached by every \<open>break\<close>.\<close>

definition lex_unknown :: "string \<Rightarrow> (token \<times> string) option" where
  "lex_unknown b = (if b = [] then None else drop_token 1 t_unknown b)"

text \<open>A library: \<open>b\<close> is the buffer after \<open>-l\<close>.\<close>

definition lex_libname :: "string \<Rightarrow> (token \<times> string) option" where
  "lex_libname b =
    (if b = [] then None
     else let start = (if hd b = CHR '':'' then 1 else 0) in
       if length b \<le> start then None
       else if \<not> canStartName (b ! start) then lex_unknown b
       else drop_token (start + 1 + length (takeWhile canContinueName (drop (start + 1) b))) t_libname b)"

text \<open>A quoted string: \<open>b\<close> is the buffer after the quote \<open>c\<close>.\<close>

definition lex_quoted :: "char \<Rightarrow> string \<Rightarrow> (token \<times> string) option" where
  "lex_quoted c b =
    (let word = takeWhile (\<lambda>x. x \<noteq> c) b in
     if length word = length b \<or> word = [] then lex_unknown b
     else Some (Token word t_identifier, drop (length word + 1) b))"

definition lex_number :: "string \<Rightarrow> (token \<times> string) option" where
  "lex_number b =
    (let n = length (takeWhile canContinueNumber b) in
     if n = length b \<or> n = 0 then lex_unknown b else drop_token n t_number b)"

definition lex_name :: "string \<Rightarrow> (token \<times> string) option" where
  "lex_name b =
    (let n = Suc (length (takeWhile canContinueName (tl b))) in
     if n = length b then lex_unknown b else drop_token n (keyword_kind (take n b)) b)"

text \<open>A character that is an operator unless a name goes on after it.\<close>

definition stands_alone :: "char \<Rightarrow> string \<Rightarrow> bool" where
  "stands_alone c b \<longleftrightarrow> hd b = c \<and> length b > 1 \<and> \<not> canContinueName (b ! 1)"

definition lex_default :: "string \<Rightarrow> (token \<times> string) option" where
  "lex_default b =
    (if canStartNumber (hd b) then lex_number b
     else if startswith b ''/='' then drop_token 2 t_slashequal b
     else if stands_alone CHR ''/'' b then drop_token 1 t_slash b
     else if startswith b ''*='' then drop_token 2 t_starequal b
     else if stands_alone CHR ''*'' b then drop_token 1 t_star b
     else if stands_alone CHR ''?'' b then drop_token 1 t_question b
     else if \<not> canStartName (hd b) then lex_unknown b
     else lex_name b)"

definition lex_here :: "string \<Rightarrow> (token \<times> string) option" where
  "lex_here b =
    (if b = [] then Some (Token [] t_eof, [])
     else let c = hd b in
       if c = CHR 0x00 then drop_token 1 t_eof b
       else if c = CHR ''('' then drop_token 1 l_paren b
       else if c = CHR '')'' then drop_token 1 r_paren b
       else if c = CHR ''{'' then drop_token 1 l_brace b
       else if c = CHR ''}'' then drop_token 1 r_brace b
       else if c = CHR ''='' then
         (if startswith b ''=='' then drop_token 2 t_equalequal b else drop_token 1 t_equal b)
       else if c = CHR ''!'' then
         (if startswith b ''!='' then drop_token 2 t_exclaimequal b else drop_token 1 t_exclaim b)
       else if c = CHR '','' then drop_token 1 t_comma b
       else if c = CHR '';'' then drop_token 1 t_semicolon b
       else if c = CHR '':'' then drop_token 1 t_colon b
       else if c = CHR ''&'' then
         (if startswith b ''&='' then drop_token 2 t_ampequal b else drop_token 1 t_amp b)
       else if c = CHR ''|'' then
         (if startswith b ''|='' then drop_token 2 t_pipeequal b else drop_token 1 t_pipe b)
       else if c = CHR ''+'' then
         (if startswith b ''+='' then drop_token 2 t_plusequal b else drop_token 1 t_plus b)
       else if c = CHR ''-'' then
         (if startswith b ''-='' then drop_token 2 t_minusequal b
          else if \<not> startswith b ''-l'' then drop_token 1 t_minus b
          else lex_libname (drop 2 b))
       else if c = CHR ''<'' then
         (if startswith b ''<<='' then drop_token 3 t_lesslessequal b
          else if startswith b ''<<'' then drop_token 2 t_lessless b
          else if startswith b ''<='' then drop_token 2 t_lessequal b
          else drop_token 1 t_less b)
       else if c = CHR ''>'' then
         (if startswith b ''>>='' then drop_token 3 t_greatergreaterequal b
          else if startswith b ''>>'' then drop_token 2 t_greatergreater b
          else if startswith b ''>='' then drop_token 2 t_greaterequal b
          else drop_token 1 t_greater b)
       else if c = CHR ''~'' then drop_token 1 t_tilde b
       else if c = CHR 0x22 \<or> c = CHR 0x27 then lex_quoted c (tl b)
       else lex_default b)"

definition lex :: "string \<Rightarrow> (token \<times> string) option" where
  "lex b = lex_here (skipWhitespace b)"

lemma length_skipWhitespace: "length (skipWhitespace b) \<le> length b"
proof (induction b rule: skipWhitespace.induct)
  case (1 b)
  then show ?case
    using length_after_comment_start [of "tl (tl b)"]
    by (subst skipWhitespace.simps) (fastforce split: list.splits)
qed

lemma lex_here_progress:
  assumes "lex_here b = Some (t, b')"
  shows "length b' \<le> length b \<and> (kind_of t \<noteq> t_eof \<longrightarrow> length b' < length b)"
  using assms
  by (auto simp: lex_here_def drop_token_def lex_unknown_def lex_libname_def lex_quoted_def lex_default_def
      lex_number_def lex_name_def Let_def split: if_splits)
section \<open>What the numbers are worth\<close>

text \<open>How an output stream prints an unsigned number, and the value of a string of hexadecimal digits.\<close>

fun dec_string :: "nat \<Rightarrow> string" where
  "dec_string n = (if n < 10 then [char_of (48 + n)] else dec_string (n div 10) @ [char_of (48 + n mod 10)])"

declare dec_string.simps [simp del]

definition hex_char :: "char \<Rightarrow> bool" where
  "hex_char c \<longleftrightarrow> hexDigit c \<noteq> None"

fun hex_value :: "nat \<Rightarrow> string \<Rightarrow> nat" where
  "hex_value v [] = v"
| "hex_value v (c # cs) = hex_value (16 * v + (case hexDigit c of Some d \<Rightarrow> unat d | None \<Rightarrow> 0)) cs"

lemma of_char_char_of_nat: "k < 256 \<Longrightarrow> (of_char (char_of (k::nat)) :: nat) = k"
  by simp

lemma char_diff_digit: "k < 10 \<Longrightarrow> char_diff (char_of (48 + k :: nat)) CHR ''0'' = of_nat k"
  unfolding char_diff_def
  by (subst of_nat_of_char [symmetric], subst of_char_char_of_nat) (auto simp: of_char_def)

lemma in_range_digit: "k < 10 \<Longrightarrow> in_range CHR ''0'' CHR ''9'' (char_of (48 + k :: nat))"
  unfolding in_range_def by (subst of_char_char_of_nat, simp)+ (simp add: of_char_def)

lemma parseDecimal_append:
  "parseDecimal r (xs @ ys) = (case parseDecimal r xs of None \<Rightarrow> None | Some v \<Rightarrow> parseDecimal v ys)"
  by (induction r xs rule: parseDecimal.induct) auto

lemma parseDecimal_dec_string: "parseDecimal 0 (dec_string n) = Some (of_nat n)"
proof (induction n rule: dec_string.induct)
  case (1 n)
  show ?case
  proof (cases "n < 10")
    case True
    then show ?thesis by (subst dec_string.simps) (simp add: in_range_digit char_diff_digit)
  next
    case False
    have d: "n mod 10 < 10" by simp
    have "of_nat n = (of_nat (n div 10) * 10 + of_nat (n mod 10) :: u64)"
      by (metis div_mult_mod_eq of_nat_add of_nat_mult of_nat_numeral)
    with False show ?thesis
      by (subst dec_string.simps)
        (simp add: 1 parseDecimal_append in_range_digit [OF d] char_diff_digit [OF d])
  qed
qed

lemma dec_string_digits: "c \<in> set (dec_string n) \<Longrightarrow> \<exists>k<10. c = char_of (48 + k :: nat)"
proof (induction n rule: dec_string.induct)
  case (1 n)
  show ?case
  proof (cases "n < 10")
    case True
    with 1(2) show ?thesis by (subst (asm) dec_string.simps) auto
  next
    case False
    then have "c \<in> set (dec_string (n div 10)) \<or> c = char_of (48 + n mod 10)"
      using 1(2) by (subst (asm) dec_string.simps) auto
    then show ?thesis using 1(1) [OF False] by (metis mod_less_divisor zero_less_numeral)
  qed
qed

lemma dec_string_nonempty: "dec_string n \<noteq> []"
  by (subst dec_string.simps) simp

lemma dec_string_hd: "n > 0 \<Longrightarrow> hd (dec_string n) \<noteq> CHR ''0''"
proof (induction n rule: dec_string.induct)
  case (1 n)
  show ?case
  proof (cases "n < 10")
    case True
    then have "(of_char (char_of (48 + n)) :: nat) \<noteq> of_char CHR ''0''"
      using 1(2) by (subst of_char_char_of_nat) (auto simp: of_char_def)
    then have "char_of (48 + n) \<noteq> CHR ''0''" by metis
    with True show ?thesis by (subst dec_string.simps) auto
  next
    case False
    then have "n div 10 > 0" by (simp add: div_greater_zero_iff)
    from 1(1) [OF False this] False show ?thesis
      by (subst dec_string.simps) (simp add: dec_string_nonempty)
  qed
qed

lemma digit_chars:
  assumes "k < 10"
  shows "char_of (48 + k :: nat) \<in> set ''0123456789''"
proof -
  have "k = 0 \<or> k = 1 \<or> k = 2 \<or> k = 3 \<or> k = 4 \<or> k = 5 \<or> k = 6 \<or> k = 7 \<or> k = 8 \<or> k = 9"
    using assms by arith
  then show ?thesis by (elim disjE) (simp_all add: char_of_eq_iff of_char_def take_bit_eq_mod)
qed

lemma dec_string_chars: "set (dec_string n) \<subseteq> set ''0123456789''"
  using dec_string_digits digit_chars by blast

lemma dec_string_last: "last (dec_string n) \<in> set ''0123456789''"
  using dec_string_chars [of n] dec_string_nonempty [of n] last_in_set by blast

lemma startswith_hd: "startswith (c # b) (d # s) \<Longrightarrow> c = d"
  by (simp add: startswith_def)

lemma dec_string_not_zero: "n > 0 \<Longrightarrow> \<not> startswith (dec_string n @ s) (CHR ''0'' # s')"
  using dec_string_hd [of n] dec_string_nonempty [of n]
  by (cases "dec_string n") (auto simp: startswith_def)

lemma dec_string_0: "dec_string 0 = ''0''"
  by (subst dec_string.simps) (simp add: char_of_eq_iff of_char_def take_bit_eq_mod)

lemma no_suffix:
  assumes "last s \<in> set ''0123456789''"
  shows "\<not> ends_in s {CHR ''K''}" "\<not> ends_in s {CHR ''M''}" "\<not> ends_in s {CHR ''o'', CHR ''O''}"
    "\<not> ends_in s {CHR ''h'', CHR ''H''}" "\<not> ends_in s {CHR ''d'', CHR ''D''}"
    "\<not> ends_in s {CHR ''b'', CHR ''B''}"
  using assms by (auto simp only: ends_in_def list.set insert_iff empty_iff char.inject simp_thms)

lemma parse_zero: "parseOctal 0 ''0'' = Some 0"
  by (simp add: in_range_def char_diff_def of_char_def)

lemma startswith_zero: "startswith ''0'' ''0''" "\<not> startswith ''0'' ''0x''" "\<not> startswith ''0'' ''0X''"
  "\<not> startswith [CHR ''0'', s] (CHR ''0'' # x # [])  = (s \<noteq> x)" "startswith (CHR ''0'' # b) ''0''"
  by (simp_all add: startswith_def)

lemma parseNum_dec: "parseNum (dec_string n) = Some (of_nat n)"
proof (cases "n = 0")
  case True
  have "last ''0'' \<in> set ''0123456789''" by simp
  note no_suffix [OF this]
  with True show ?thesis
    by (simp only: dec_string_0 parseNum_def Let_def startswith_zero if_True if_False simp_thms prod.case
      num_kind.case parse_zero option.map) simp
next
  case False
  then show ?thesis
    using dec_string_not_zero [of n "[]"] no_suffix [OF dec_string_last [of n]] parseDecimal_dec_string [of n]
    by (simp only: append_Nil2 neq0_conv simp_thms parseNum_def Let_def if_False prod.case num_kind.case option.map)
      simp
qed

lemma ends_in_append: "ends_in (b @ [c]) cs \<longleftrightarrow> c \<in> cs"
  by (simp add: ends_in_def)

lemma parseNum_scaled:
  assumes "(s, m) \<in> {(CHR ''K'', 2 ^ 10), (CHR ''M'', 2 ^ 20)}"
  shows "parseNum (dec_string n @ [s]) = Some (of_nat (n * m))"
proof (cases "n = 0")
  case True
  have "last ''0'' \<in> set ''0123456789''" by simp
  note no_suffix [OF this]
  moreover have "s \<noteq> CHR ''x''" "s \<noteq> CHR ''X''" using assms by auto
  then have "\<not> startswith (''0'' @ [s]) ''0x''" "\<not> startswith (''0'' @ [s]) ''0X''"
    "startswith (''0'' @ [s]) ''0''"
    by (simp_all add: startswith_def)
  ultimately have "parseNum (''0'' @ [s]) = Some 0"
    using assms by (elim insertE) (simp_all add: parseNum_def Let_def ends_in_append in_range_def char_diff_def of_char_def del: append.simps)
  with True show ?thesis by (simp add: dec_string_0)
next
  case False
  then show ?thesis
    using assms dec_string_not_zero [of n "[s]"] no_suffix [OF dec_string_last [of n]] parseDecimal_dec_string [of n]
    by (elim insertE) (simp_all add: parseNum_def Let_def ends_in_append)
qed

lemma parseHex_value:
  assumes "\<forall>c\<in>set ds. hex_char c"
  shows "parseHex (of_nat v) ds = Some (of_nat (hex_value v ds))"
  using assms
proof (induction ds arbitrary: v)
  case (Cons c cs)
  then obtain d where d: "hexDigit c = Some d" by (auto simp: hex_char_def)
  have "push_bit 4 (of_nat v) + d = (of_nat (16 * v + unat d) :: u64)"
    by (simp add: push_bit_eq_mult)
  with Cons d show ?case by (metis hex_value.simps(2) list.set_intros(2) option.simps(5) parseHex.simps(2))
qed simp

lemma x_not_digit: "hexDigit CHR ''x'' = None"
  by (simp add: hexDigit_def in_range_def of_char_def)

lemma parse_x_fails: "x \<in> {CHR ''x'', CHR ''X''} \<Longrightarrow> parseDecimal 0 (CHR ''0'' # x # ds) = None \<and> parseBinary 0 (CHR ''0'' # x # ds) = None"
  by (auto simp: in_range_def of_char_def)

lemma hex_char_suffix:
  assumes "hex_char c"
  shows "c \<notin> {CHR ''K'', CHR ''M'', CHR ''o'', CHR ''O'', CHR ''h'', CHR ''H''}"
  using assms by (auto simp: hex_char_def hexDigit_def in_range_def of_char_def split: if_splits)

text \<open>C13: The numbers of a script. What an output stream prints for an unsigned number reads back as that number
  modulo 2^64; a suffix K or M scales it by 2^10 or 2^20. A hexadecimal constant has the value of its digits
  modulo 2^64, except when its last digit is a b or a d: the code takes that digit for the suffix of a binary or a
  decimal number and rejects the constant.\<close>

theorem number_constants:
  assumes "ds \<noteq> []" "\<forall>c\<in>set ds. hex_char c"
  shows "parseNum (dec_string n) = Some (of_nat n) \<and>
    parseNum (dec_string n @ ''K'') = Some (of_nat (n * 2 ^ 10)) \<and>
    parseNum (dec_string n @ ''M'') = Some (of_nat (n * 2 ^ 20)) \<and>
    parseNum (''0x'' @ ds) =
      (if last ds \<in> {CHR ''b'', CHR ''B'', CHR ''d'', CHR ''D''} then None
       else Some (of_nat (hex_value 0 ds)))"
proof (intro conjI)
  show "parseNum (dec_string n) = Some (of_nat n)" by (rule parseNum_dec)
  show "parseNum (dec_string n @ ''K'') = Some (of_nat (n * 2 ^ 10))"
    by (rule parseNum_scaled) simp
  show "parseNum (dec_string n @ ''M'') = Some (of_nat (n * 2 ^ 20))"
    by (rule parseNum_scaled) simp
  have "last ds \<notin> {CHR ''K'', CHR ''M'', CHR ''o'', CHR ''O'', CHR ''h'', CHR ''H''}"
    using assms hex_char_suffix last_in_set by blast
  then show "parseNum (''0x'' @ ds) =
      (if last ds \<in> {CHR ''b'', CHR ''B'', CHR ''d'', CHR ''D''} then None
       else Some (of_nat (hex_value 0 ds)))"
    using assms(1) parse_x_fails [of "CHR ''x''"] parseHex_value [OF assms(2), of 0]
    by (auto simp: parseNum_def startswith_def ends_in_def)
qed

theorem number_constants_witness:
  "parseNum (''0x'' @ ''1F'') = Some (of_nat (hex_value 0 ''1F'')) \<and> parseNum (''0x'' @ ''1b'') = None"
proof
  have h: "\<forall>c\<in>set ''1F''. hex_char c" "\<forall>c\<in>set ''1b''. hex_char c"
    by (simp_all add: hex_char_def hexDigit_def in_range_def of_char_def)
  show "parseNum (''0x'' @ ''1F'') = Some (of_nat (hex_value 0 ''1F''))"
    using number_constants [OF _ h(1), of 0] by simp
  show "parseNum (''0x'' @ ''1b'') = None"
    using number_constants [OF _ h(2), of 0] by simp
qed

end
