(* ===== verification/Script_Parser.thy ===== *)
theory Script_Parser
  imports Script_Lexer
begin

text \<open>
  The state of the parser of linker scripts (class Parser in include/lld/ReaderWriter/LinkerScript.h): the
  current token, at most one token that was looked at in advance, and the rest of the buffer; and how its
  functions are put together. A function that returns a null pointer has printed an error before.
\<close>

section \<open>State and results\<close>

record parser =
  tok :: token
  peeked :: "token option"
  buffer :: string

text \<open>
  \<open>Null\<close> is the null pointer, with the state that is left; \<open>Undefined\<close> is the lexer reading beyond the buffer, a failing
  assertion or a value that C++ leaves undefined; \<open>Fuel\<close> is a loop cut off, of which it is proved that it never comes about.
\<close>

datatype 'a res = Ret 'a parser | Null parser | Undefined | Fuel

definition bindP :: "'a res \<Rightarrow> ('a \<Rightarrow> parser \<Rightarrow> 'b res) \<Rightarrow> 'b res" where
  "bindP m f = (case m of Ret a p \<Rightarrow> f a p | Null p \<Rightarrow> Null p | Undefined \<Rightarrow> Undefined | Fuel \<Rightarrow> Fuel)"

lemma bindP_simps [simp]:
  "bindP (Ret a p) f = f a p" "bindP (Null p) f = Null p" "bindP Undefined f = Undefined" "bindP Fuel f = Fuel"
  by (simp_all add: bindP_def)

text \<open>A call whose null pointer the caller stores instead of returning.\<close>

definition orNull :: "'a res \<Rightarrow> 'a option res" where
  "orNull m = (case m of Ret a p \<Rightarrow> Ret (Some a) p | Null p \<Rightarrow> Ret None p | Undefined \<Rightarrow> Undefined | Fuel \<Rightarrow> Fuel)"

lemma orNull_simps [simp]:
  "orNull (Ret a p) = Ret (Some a) p" "orNull (Null p) = Ret None p" "orNull Undefined = Undefined"
  "orNull Fuel = Fuel"
  by (simp_all add: orNull_def)

definition ret_pointer :: "'a option \<Rightarrow> parser \<Rightarrow> 'a res" where
  "ret_pointer x p = (case x of None \<Rightarrow> Null p | Some a \<Rightarrow> Ret a p)"

lemma ret_pointer_simps [simp]: "ret_pointer None p = Null p" "ret_pointer (Some a) p = Ret a p"
  by (simp_all add: ret_pointer_def)

abbreviation kindP :: "parser \<Rightarrow> kind" where
  "kindP p \<equiv> kind_of (tok p)"

abbreviation rangeP :: "parser \<Rightarrow> string" where
  "rangeP p \<equiv> range_of (tok p)"

definition consumeToken :: "parser \<Rightarrow> unit res" where
  "consumeToken p =
    (case peeked p of
       Some t \<Rightarrow> Ret () (p\<lparr>tok := t, peeked := None\<rparr>)
     | None \<Rightarrow> (case lex (buffer p) of None \<Rightarrow> Undefined | Some (t, b) \<Rightarrow> Ret () (p\<lparr>tok := t, buffer := b\<rparr>)))"

definition peek :: "parser \<Rightarrow> token res" where
  "peek p =
    (case peeked p of
       Some t \<Rightarrow> Ret t p
     | None \<Rightarrow> (case lex (buffer p) of None \<Rightarrow> Undefined | Some (t, b) \<Rightarrow> Ret t (p\<lparr>peeked := Some t, buffer := b\<rparr>)))"

definition expectAndConsume :: "kind \<Rightarrow> parser \<Rightarrow> unit res" where
  "expectAndConsume k p = (if kindP p \<noteq> k then Null p else consumeToken p)"

text \<open>\<open>consumeToken();\<close> and \<open>if (!expectAndConsume(k)) return nullptr;\<close> as statements, with what follows them.\<close>

definition skip :: "(parser \<Rightarrow> 'a res) \<Rightarrow> parser \<Rightarrow> 'a res" where
  "skip f p = bindP (consumeToken p) (\<lambda>_. f)"

definition eat :: "kind \<Rightarrow> (parser \<Rightarrow> 'a res) \<Rightarrow> parser \<Rightarrow> 'a res" where
  "eat k f p = bindP (expectAndConsume k p) (\<lambda>_. f)"

text \<open>\<open>for (i = 0; i < n; ++i) if (!expectAndConsume(k)) return nullptr\<close>\<close>

fun expectTimes :: "nat \<Rightarrow> kind \<Rightarrow> parser \<Rightarrow> unit res" where
  "expectTimes 0 k p = Ret () p"
| "expectTimes (Suc n) k p = bindP (expectAndConsume k p) (\<lambda>_ p. expectTimes n k p)"

section \<open>How much is left\<close>

definition pending :: "token \<Rightarrow> nat" where
  "pending t = (if kind_of t = t_eof then 0 else 1)"

definition left :: "parser \<Rightarrow> nat" where
  "left p = length (buffer p) + pending (tok p) + (case peeked p of None \<Rightarrow> 0 | Some t \<Rightarrow> pending t)"

text \<open>
  The contract of the parsing functions: they come back, and the input that is left does not grow (\<open>steady\<close>);
  and it shrinks when they succeed (\<open>eats\<close>).
\<close>

definition within :: "nat \<Rightarrow> nat \<Rightarrow> 'a res \<Rightarrow> bool" where
  "within n m r = (case r of Ret a q \<Rightarrow> left q \<le> n | Null q \<Rightarrow> left q \<le> m | Undefined \<Rightarrow> True | Fuel \<Rightarrow> False)"

abbreviation steady :: "(parser \<Rightarrow> 'a res) \<Rightarrow> parser \<Rightarrow> bool" where
  "steady f p \<equiv> within (left p) (left p) (f p)"

definition eats :: "(parser \<Rightarrow> 'a res) \<Rightarrow> parser \<Rightarrow> bool" where
  "eats f p \<longleftrightarrow> within (left p - 1) (left p) (f p) \<and> (left p = 0 \<longrightarrow> (\<forall>a q. f p \<noteq> Ret a q))"

lemma within_simps [simp]:
  "within n m (Ret a q) \<longleftrightarrow> left q \<le> n" "within n m (Null q :: 'a res) \<longleftrightarrow> left q \<le> m"
  "within n m (Undefined :: 'a res)" "\<not> within n m (Fuel :: 'a res)"
  by (simp_all add: within_def)

lemma within_mono: "within n m r \<Longrightarrow> n \<le> n' \<Longrightarrow> m \<le> m' \<Longrightarrow> within n' m' r"
  by (cases r) auto


lemma within_bindP:
  assumes "within k m r" and "\<And>a q. r = Ret a q \<Longrightarrow> left q \<le> k \<Longrightarrow> within n m (f a q)"
  shows "within n m (bindP r f)"
  using assms by (cases r) auto

lemma within_orNull: "within n m r \<Longrightarrow> n \<le> k \<Longrightarrow> m \<le> k \<Longrightarrow> within k m' (orNull r)"
  by (cases r) auto

lemma within_ret_pointer: "left p \<le> n \<Longrightarrow> left p \<le> m \<Longrightarrow> within n m (ret_pointer x p)"
  by (cases x) auto

lemma lex_progress:
  assumes "lex b = Some (t, c)"
  shows "length c + pending t \<le> length b"
  using lex_here_progress [of "skipWhitespace b" t c] length_skipWhitespace [of b] assms
  by (auto simp: lex_def pending_def)

lemma consumeToken_steady: "within (left p - pending (tok p)) m (consumeToken p)"
  by (auto simp: consumeToken_def left_def dest: lex_progress split: option.splits)

lemma consumeToken_eats: "kindP p \<noteq> t_eof \<Longrightarrow> within (left p - 1) m (consumeToken p)"
  using consumeToken_steady [of p m] by (simp add: pending_def)

lemma left_pos: "kindP p \<noteq> t_eof \<Longrightarrow> left p > 0"
  by (simp add: left_def pending_def)

lemma peek_steady: "within (left p) m (peek p)"
  by (auto simp: peek_def left_def dest: lex_progress split: option.splits)

lemma peek_tok: "peek p = Ret t q \<Longrightarrow> tok q = tok p"
  by (auto simp: peek_def split: option.splits)

lemma expectAndConsume_steady: "within (left p) (left p) (expectAndConsume k p)"
  using consumeToken_steady [of p "left p"] by (auto simp: expectAndConsume_def elim: within_mono)

lemma expectAndConsume_eats: "k \<noteq> t_eof \<Longrightarrow> within (left p - 1) (left p) (expectAndConsume k p)"
  using consumeToken_eats [of p "left p"] by (auto simp: expectAndConsume_def)

lemma expectTimes_steady: "within (left p) (left p) (expectTimes n k p)"
proof (induction n arbitrary: p)
  case (Suc n)
  show ?case
    by (auto intro!: within_bindP [OF expectAndConsume_steady] within_mono [OF Suc.IH])
qed simp

lemma bind_consume:
  assumes "kindP p \<noteq> t_eof" and "\<And>q. Suc (left q) \<le> left p \<Longrightarrow> within n m (f () q)"
  shows "within n m (bindP (consumeToken p) f)"
  using assms left_pos [of p] by (intro within_bindP [OF consumeToken_eats [OF assms(1), of m]]) auto

lemma bind_expect:
  assumes "left p \<le> m" and "\<And>q. left q \<le> left p \<Longrightarrow> within n m (f () q)"
  shows "within n m (bindP (expectAndConsume k p) f)"
  by (rule within_bindP [OF within_mono [OF expectAndConsume_steady order_refl assms(1)]]) (simp add: assms(2))

lemma bind_call:
  assumes "within k j r" "j \<le> m" and "\<And>a q. left q \<le> k \<Longrightarrow> within n m (f a q)"
  shows "within n m (bindP r f)"
  using assms by (intro within_bindP [OF within_mono [OF assms(1)]]) auto

lemma bind_orNull:
  assumes "within k j r" "k \<le> j" and "\<And>a q. left q \<le> j \<Longrightarrow> within n m (f a q)"
  shows "within n m (bindP (orNull r) f)"
  using assms by (cases r) auto

lemma bind_peek:
  assumes "\<And>t q. left q \<le> left p \<Longrightarrow> tok q = tok p \<Longrightarrow> within n m (f t q)"
  shows "within n m (bindP (peek p) f)"
  using assms peek_tok by (intro within_bindP [OF peek_steady]) auto

text \<open>The same for the statements, when nothing is known of the token that is consumed.\<close>

lemma within_skip:
  assumes "\<And>q. left q \<le> left p \<Longrightarrow> within n m (f q)"
  shows "within n m (skip f p)"
  unfolding skip_def using assms
  by (intro within_bindP [OF within_mono [OF consumeToken_steady [of p m]]]) (auto intro: order_trans)

lemma within_skip_strict:
  assumes "kindP p \<noteq> t_eof" and "\<And>q. Suc (left q) \<le> left p \<Longrightarrow> within n m (f q)"
  shows "within n m (skip f p)"
  unfolding skip_def using assms by (intro bind_consume) auto

lemma within_eat:
  assumes "left p \<le> m" and "\<And>q. left q \<le> left p \<Longrightarrow> within n m (f q)"
  shows "within n m (eat k f p)"
  unfolding eat_def using assms by (intro bind_expect) auto

lemma within_expectTimes:
  assumes "left p \<le> m" and "\<And>q. left q \<le> left p \<Longrightarrow> within n m (f () q)"
  shows "within n m (bindP (expectTimes i k p) f)"
  using assms by (intro bind_call [OF expectTimes_steady]) auto

lemmas parse_rules = within_skip within_eat within_expectTimes bind_peek

lemma eatsI: "kindP p \<noteq> t_eof \<Longrightarrow> within (left p - 1) (left p) (f p) \<Longrightarrow> eats f p"
  using left_pos [of p] by (simp add: eats_def)

lemma eatsI_null: "f p = Null p \<Longrightarrow> eats f p"
  by (simp add: eats_def)

lemma eats_steady: "eats f p \<Longrightarrow> steady f p"
  by (auto simp: eats_def elim: within_mono)

lemma eats_map: "eats f p \<Longrightarrow> eats (\<lambda>p. bindP (f p) (\<lambda>a. Ret (h a))) p"
  by (cases "f p") (auto simp: eats_def)

section \<open>Loops\<close>

text \<open>\<open>while (cond) { x.push_back(body()) }\<close>, where a null pointer ends the function that holds the loop.\<close>

fun manyF :: "nat \<Rightarrow> (parser \<Rightarrow> bool) \<Rightarrow> (parser \<Rightarrow> 'a res) \<Rightarrow> parser \<Rightarrow> 'a list res" where
  "manyF n cond body p =
    (if \<not> cond p then Ret [] p
     else case n of 0 \<Rightarrow> Fuel
       | Suc n \<Rightarrow> bindP (body p) (\<lambda>a p. bindP (manyF n cond body p) (\<lambda>as p. Ret (a # as) p)))"

declare manyF.simps [simp del]

definition many :: "(parser \<Rightarrow> bool) \<Rightarrow> (parser \<Rightarrow> 'a res) \<Rightarrow> parser \<Rightarrow> 'a list res" where
  "many cond body p = manyF (Suc (left p)) cond body p"

locale eating_loop =
  fixes cond :: "parser \<Rightarrow> bool" and body :: "parser \<Rightarrow> 'a res"
  assumes body_eats: "cond p \<Longrightarrow> eats body p"
begin

lemma manyF_steady: "left p < n \<Longrightarrow> within (left p) (left p) (manyF n cond body p)"
proof (induction n arbitrary: p)
  case (Suc n)
  show ?case
  proof (cases "cond p")
    case True
    note e = body_eats [OF this, unfolded eats_def]
    have "within (left p) (left p) (manyF n cond body q)" if "body p = Ret a q" for a q
      using Suc that e by (intro within_mono [OF Suc.IH]) auto
    moreover have "within (left p) (left p) (body p)"
      using e by (auto elim: within_mono)
    ultimately show ?thesis
      using True by (subst manyF.simps) (auto intro!: within_bindP)
  qed (subst manyF.simps, simp)
qed simp

lemma many_steady: "within (left p) (left p) (many cond body p)"
  by (simp add: many_def manyF_steady)

lemma bind_many:
  assumes "left p \<le> m" and "\<And>as q. left q \<le> left p \<Longrightarrow> within n m (f as q)"
  shows "within n m (bindP (many cond body p) f)"
  using assms by (intro bind_call [OF many_steady]) auto

end

end
