(* ===== verification/Script_Expr.thy ===== *)
theory Script_Expr
  imports Script_Parser "HOL-Library.Signed_Division"
begin

text \<open>
  The expressions of linker scripts (class Expression and its subclasses): the syntax tree, its value, how it is
  printed, and the operator precedence parser. The functions of the parser call each other; that they end is
  proved here, and then they are related by equations that no longer count calls.
\<close>

section \<open>Syntax trees\<close>

datatype unop = U_Minus | U_Not

datatype binop =
    B_And | B_CompareDifferent | B_CompareEqual | B_CompareGreater | B_CompareGreaterEqual
  | B_CompareLess | B_CompareLessEqual | B_Div | B_Mul | B_Or | B_Shl | B_Shr | B_Sub | B_Sum

text \<open>The parser stores the child of a unary operator without looking at it: it may be a null pointer.\<close>

datatype expr =
    Constant u64
  | Symbol string
  | FunctionCall string "expr list"
  | Unary unop "expr option"
  | BinOp expr binop expr
  | TernaryConditional expr expr expr

section \<open>Values\<close>

text \<open>
  The first two errors are those of the code. The third stands for what C++ leaves undefined: an overflow of
  \<open>int64_t\<close>, a division by zero, a shift by less than 0 or more than 63, a shift of a negative number to the
  left, and a null pointer for an operand.
\<close>

datatype eval_error = unknown_symbol_in_expr | unrecognized_function_in_expr | undefined_behaviour

definition int64 :: "int \<Rightarrow> eval_error + u64" where
  "int64 i = (if i \<in> {- (2 ^ 63)..<2 ^ 63} then Inr (word_of_int i) else Inl undefined_behaviour)"

definition of_truth :: "bool \<Rightarrow> eval_error + u64" where
  "of_truth b = Inr (if b then 1 else 0)"

definition evalUnary :: "unop \<Rightarrow> u64 \<Rightarrow> eval_error + u64" where
  "evalUnary u x = (case u of U_Minus \<Rightarrow> int64 (- sint x) | U_Not \<Rightarrow> Inr (NOT x))"

definition evalBinOp :: "binop \<Rightarrow> u64 \<Rightarrow> u64 \<Rightarrow> eval_error + u64" where
  "evalBinOp bop x y =
    (case bop of
       B_And \<Rightarrow> Inr (x AND y)
     | B_CompareDifferent \<Rightarrow> of_truth (x \<noteq> y)
     | B_CompareEqual \<Rightarrow> of_truth (x = y)
     | B_CompareGreater \<Rightarrow> of_truth (sint x > sint y)
     | B_CompareGreaterEqual \<Rightarrow> of_truth (sint x \<ge> sint y)
     | B_CompareLess \<Rightarrow> of_truth (sint x < sint y)
     | B_CompareLessEqual \<Rightarrow> of_truth (sint x \<le> sint y)
     | B_Div \<Rightarrow> if y = 0 then Inl undefined_behaviour else int64 (sint x sdiv sint y)
     | B_Mul \<Rightarrow> int64 (sint x * sint y)
     | B_Or \<Rightarrow> Inr (x OR y)
     | B_Shl \<Rightarrow> if sint x < 0 \<or> sint y < 0 \<or> sint y \<ge> 64 then Inl undefined_behaviour
                else int64 (sint x * 2 ^ unat y)
     | B_Shr \<Rightarrow> if sint y < 0 \<or> sint y \<ge> 64 then Inl undefined_behaviour
                else Inr (signed_drop_bit (unat y) x)
     | B_Sub \<Rightarrow> int64 (sint x - sint y)
     | B_Sum \<Rightarrow> int64 (sint x + sint y))"

fun evalExpr :: "(string \<rightharpoonup> u64) \<Rightarrow> expr \<Rightarrow> eval_error + u64" where
  "evalExpr symbolTable (Constant num) = Inr num"
| "evalExpr symbolTable (Symbol name) =
    (case symbolTable name of None \<Rightarrow> Inl unknown_symbol_in_expr | Some v \<Rightarrow> Inr v)"
| "evalExpr symbolTable (FunctionCall name args) = Inl unrecognized_function_in_expr"
| "evalExpr symbolTable (Unary u None) = Inl undefined_behaviour"
| "evalExpr symbolTable (Unary u (Some child)) = bind_res (evalExpr symbolTable child) (evalUnary u)"
| "evalExpr symbolTable (BinOp lhs bop rhs) =
    bind_res (evalExpr symbolTable lhs) (\<lambda>l.
    bind_res (evalExpr symbolTable rhs) (\<lambda>r. evalBinOp bop l r))"
| "evalExpr symbolTable (TernaryConditional c t f) =
    bind_res (evalExpr symbolTable c) (\<lambda>v.
      if v \<noteq> 0 then evalExpr symbolTable t else evalExpr symbolTable f)"

section \<open>Printing\<close>

definition unop_text :: "unop \<Rightarrow> string" where
  "unop_text u = (case u of U_Minus \<Rightarrow> ''-'' | U_Not \<Rightarrow> ''~'')"

definition binop_text :: "binop \<Rightarrow> string" where
  "binop_text bop =
    (case bop of
       B_Sum \<Rightarrow> ''+'' | B_Sub \<Rightarrow> ''-'' | B_Mul \<Rightarrow> ''*'' | B_Div \<Rightarrow> ''/'' | B_Shl \<Rightarrow> ''<<''
     | B_Shr \<Rightarrow> ''>>'' | B_And \<Rightarrow> ''&'' | B_Or \<Rightarrow> ''|'' | B_CompareEqual \<Rightarrow> ''==''
     | B_CompareDifferent \<Rightarrow> ''!='' | B_CompareLess \<Rightarrow> ''<'' | B_CompareGreater \<Rightarrow> ''>''
     | B_CompareLessEqual \<Rightarrow> ''<='' | B_CompareGreaterEqual \<Rightarrow> ''>='')"

text \<open>\<open>if (i) os << sep\<close>\<close>

fun separated :: "string \<Rightarrow> string list \<Rightarrow> string" where
  "separated sep [] = []"
| "separated sep [s] = s"
| "separated sep (s # ss) = s @ sep @ separated sep ss"

fun dump :: "expr \<Rightarrow> string" where
  "dump (Constant num) = dec_string (unat num)"
| "dump (Symbol name) = name"
| "dump (FunctionCall name args) = name @ ''('' @ separated '', '' (map dump args) @ '')''"
| "dump (Unary u None) = ''('' @ unop_text u @ '')''"
| "dump (Unary u (Some child)) = ''('' @ unop_text u @ dump child @ '')''"
| "dump (BinOp lhs bop rhs) = ''('' @ dump lhs @ '' '' @ binop_text bop @ '' '' @ dump rhs @ '')''"
| "dump (TernaryConditional c t f) = dump c @ '' ? '' @ dump t @ '' : '' @ dump f"

section \<open>Parsing\<close>

definition expectExprOperand :: "parser \<Rightarrow> bool" where
  "expectExprOperand p \<longleftrightarrow>
    kindP p \<in> {t_identifier, t_number, kw_align, l_paren, t_minus, t_tilde}"

definition TokenToBinOp :: "kind \<Rightarrow> (binop \<times> nat) option" where
  "TokenToBinOp k =
    (case k of
       t_star \<Rightarrow> Some (B_Mul, 3)
     | t_slash \<Rightarrow> Some (B_Div, 3)
     | t_plus \<Rightarrow> Some (B_Sum, 4)
     | t_minus \<Rightarrow> Some (B_Sub, 4)
     | t_lessless \<Rightarrow> Some (B_Shl, 5)
     | t_greatergreater \<Rightarrow> Some (B_Shr, 5)
     | t_less \<Rightarrow> Some (B_CompareLess, 6)
     | t_greater \<Rightarrow> Some (B_CompareGreater, 6)
     | t_lessequal \<Rightarrow> Some (B_CompareLessEqual, 6)
     | t_greaterequal \<Rightarrow> Some (B_CompareGreaterEqual, 6)
     | t_equalequal \<Rightarrow> Some (B_CompareEqual, 7)
     | t_exclaimequal \<Rightarrow> Some (B_CompareDifferent, 7)
     | t_amp \<Rightarrow> Some (B_And, 8)
     | t_pipe \<Rightarrow> Some (B_Or, 10)
     | _ \<Rightarrow> None)"

definition isExpressionOperator :: "kind \<Rightarrow> bool" where
  "isExpressionOperator k \<longleftrightarrow>
    k \<in> {t_star, t_slash, t_plus, t_minus, t_lessless, t_greatergreater, t_less, t_greater, t_lessequal,
         t_greaterequal, t_equalequal, t_exclaimequal, t_amp, t_pipe, t_question}"

text \<open>
  The functions call each other, so they share a count of calls that is used up; \<open>parseExpression\<close> below starts
  with more than any input can need. \<open>callF\<close> is \<open>parseFunctionCall\<close> and \<open>argsF\<close> the loop in it, \<open>operandF\<close> is
  \<open>parseExprOperand\<close>, \<open>exprF\<close> is \<open>parseExpression\<close>, \<open>loopF\<close> is \<open>parseOperatorOperandLoop\<close> with its variable
  \<open>binOp\<close>, and \<open>ternaryF\<close> is \<open>parseTernaryCondOp\<close>.
\<close>

function (sequential) callF :: "nat \<Rightarrow> parser \<Rightarrow> expr res"
  and argsF :: "nat \<Rightarrow> expr list \<Rightarrow> parser \<Rightarrow> expr list res"
  and operandF :: "nat \<Rightarrow> parser \<Rightarrow> expr res"
  and exprF :: "nat \<Rightarrow> nat \<Rightarrow> parser \<Rightarrow> expr res"
  and loopF :: "nat \<Rightarrow> expr option \<Rightarrow> expr \<Rightarrow> nat \<Rightarrow> parser \<Rightarrow> expr res"
  and ternaryF :: "nat \<Rightarrow> expr \<Rightarrow> parser \<Rightarrow> expr res" where
  "callF 0 p = Fuel"
| "callF (Suc n) p =
    (let name = rangeP p in
     bindP (consumeToken p) (\<lambda>_ p.
     bindP (expectAndConsume l_paren p) (\<lambda>_ p.
       if kindP p = r_paren then
         bindP (consumeToken p) (\<lambda>_ p. Ret (FunctionCall (rangeP p) []) p)
       else
         bindP (exprF n 13 p) (\<lambda>firstParam p.
         bindP (argsF n [firstParam] p) (\<lambda>params p.
         bindP (expectAndConsume r_paren p) (\<lambda>_ p. Ret (FunctionCall name params) p))))))"
| "argsF 0 params p = Fuel"
| "argsF (Suc n) params p =
    (if kindP p = t_comma then
       bindP (consumeToken p) (\<lambda>_ p.
       bindP (exprF n 13 p) (\<lambda>param p. argsF n (params @ [param]) p))
     else Ret params p)"
| "operandF 0 p = Fuel"
| "operandF (Suc n) p =
    (if \<not> expectExprOperand p then Null p
     else if kindP p = t_identifier then
       bindP (peek p) (\<lambda>t p.
         if kind_of t = l_paren then callF n p
         else let s = Symbol (rangeP p) in bindP (consumeToken p) (\<lambda>_ p. Ret s p))
     else if kindP p = kw_align then callF n p
     else if kindP p = t_minus then
       bindP (consumeToken p) (\<lambda>_ p.
       bindP (orNull (operandF n p)) (\<lambda>child p. Ret (Unary U_Minus child) p))
     else if kindP p = t_tilde then
       bindP (consumeToken p) (\<lambda>_ p.
       bindP (orNull (operandF n p)) (\<lambda>child p. Ret (Unary U_Not child) p))
     else if kindP p = t_number then
       (case parseNum (rangeP p) of
          None \<Rightarrow> Null p
        | Some val \<Rightarrow> bindP (consumeToken p) (\<lambda>_ p. Ret (Constant val) p))
     else
       bindP (consumeToken p) (\<lambda>_ p.
       bindP (orNull (exprF n 13 p)) (\<lambda>e p.
       bindP (expectAndConsume r_paren p) (\<lambda>_ p. ret_pointer e p))))"
| "exprF 0 precedence p = Fuel"
| "exprF (Suc n) precedence p =
    (if \<not> expectExprOperand p then Null p
     else bindP (operandF n p) (\<lambda>e p.
       case TokenToBinOp (kindP p) of
         Some (_, binOpPrecedence) \<Rightarrow>
           if precedence \<ge> binOpPrecedence then loopF n None e precedence p else Ret e p
       | None \<Rightarrow>
           if kindP p = t_question \<and> precedence \<ge> 13 then loopF n None e precedence p else Ret e p))"
| "loopF 0 binOp lhs highestPrecedence p = Fuel"
| "loopF (Suc n) binOp lhs highestPrecedence p =
    (case TokenToBinOp (kindP p) of
       None \<Rightarrow>
         if kindP p = t_question \<and> highestPrecedence \<ge> 13 then ternaryF n lhs p else ret_pointer binOp p
     | Some (bop, precedence) \<Rightarrow>
         if precedence > highestPrecedence then ret_pointer binOp p
         else
           bindP (consumeToken p) (\<lambda>_ p.
           bindP (exprF n (precedence - 1) p) (\<lambda>rhs p.
             loopF n (Some (BinOp lhs bop rhs)) (BinOp lhs bop rhs) highestPrecedence p)))"
| "ternaryF 0 lhs p = Fuel"
| "ternaryF (Suc n) lhs p =
    bindP (consumeToken p) (\<lambda>_ p.
    bindP (exprF n 13 p) (\<lambda>trueExpr p.
    bindP (expectAndConsume t_colon p) (\<lambda>_ p.
    bindP (exprF n 13 p) (\<lambda>falseExpr p. Ret (TernaryConditional lhs trueExpr falseExpr) p))))"
  by pat_completeness simp_all

termination
  by (relation "measure (case_sum (case_sum (\<lambda>(n, p). n) (case_sum (\<lambda>(n, es, p). n) (\<lambda>(n, p). n)))
      (case_sum (\<lambda>(n, k, p). n) (case_sum (\<lambda>(n, b, e, k, p). n) (\<lambda>(n, e, p). n))))") simp_all

definition fuel :: "parser \<Rightarrow> nat" where
  "fuel p = 4 * left p + 4"

definition parseExpression :: "nat \<Rightarrow> parser \<Rightarrow> expr res" where
  "parseExpression precedence p = exprF (fuel p) precedence p"

lemmas parse_F_simps = callF.simps argsF.simps operandF.simps exprF.simps loopF.simps ternaryF.simps

section \<open>The parser ends\<close>

lemma operator_not_eof: "TokenToBinOp (kindP p) = Some x \<Longrightarrow> kindP p \<noteq> t_eof"
  by (auto simp: TokenToBinOp_def)

definition enough :: "nat \<Rightarrow> bool" where
  "enough n \<longleftrightarrow>
    (\<forall>p. 4 * left p + 1 \<le> n \<longrightarrow> kindP p \<noteq> t_eof \<longrightarrow> within (left p - 1) (left p) (callF n p)) \<and>
    (\<forall>es p. 4 * left p + 1 \<le> n \<longrightarrow> within (left p) (left p) (argsF n es p)) \<and>
    (\<forall>p. 4 * left p + 2 \<le> n \<longrightarrow> within (left p - 1) (left p) (operandF n p)) \<and>
    (\<forall>k p. 4 * left p + 3 \<le> n \<longrightarrow> within (left p - 1) (left p) (exprF n k p)) \<and>
    (\<forall>b e k p. 4 * left p + 2 \<le> n \<longrightarrow> within (left p) (left p) (loopF n b e k p)) \<and>
    (\<forall>e p. 4 * left p + 1 \<le> n \<longrightarrow> kindP p \<noteq> t_eof \<longrightarrow> within (left p - 1) (left p) (ternaryF n e p))"

lemma enoughD:
  assumes "enough n"
  shows "4 * left p + 1 \<le> n \<Longrightarrow> kindP p \<noteq> t_eof \<Longrightarrow> within (left p - 1) (left p) (callF n p)"
    and "4 * left p + 1 \<le> n \<Longrightarrow> within (left p) (left p) (argsF n es p)"
    and "4 * left p + 2 \<le> n \<Longrightarrow> within (left p - 1) (left p) (operandF n p)"
    and "4 * left p + 3 \<le> n \<Longrightarrow> within (left p - 1) (left p) (exprF n k p)"
    and "4 * left p + 2 \<le> n \<Longrightarrow> within (left p) (left p) (loopF n b e k p)"
    and "4 * left p + 1 \<le> n \<Longrightarrow> kindP p \<noteq> t_eof \<Longrightarrow> within (left p - 1) (left p) (ternaryF n e p)"
  using assms by (simp_all add: enough_def)

lemma callF_step:
  assumes "enough n" "4 * left p + 1 \<le> Suc n" "kindP p \<noteq> t_eof"
  shows "within (left p - 1) (left p) (callF (Suc n) p)"
  using assms(2,3)
  by (auto simp: Let_def intro!: bind_consume bind_expect bind_call [OF enoughD(4) [OF assms(1)]]
      bind_call [OF enoughD(2) [OF assms(1)]])

lemma argsF_step:
  assumes "enough n" "4 * left p + 1 \<le> Suc n"
  shows "within (left p) (left p) (argsF (Suc n) es p)"
  using assms(2)
  by (auto intro!: bind_consume bind_call [OF enoughD(4) [OF assms(1)]] within_mono [OF enoughD(2) [OF assms(1)]])

lemma operandF_step:
  assumes "enough n" "4 * left p + 2 \<le> Suc n"
  shows "within (left p - 1) (left p) (operandF (Suc n) p)"
  using assms(2)
  by (auto simp: Let_def expectExprOperand_def split: option.splits
      intro!: bind_consume bind_expect bind_peek bind_orNull [OF enoughD(4) [OF assms(1)]]
      bind_orNull [OF enoughD(3) [OF assms(1)]] within_mono [OF enoughD(1) [OF assms(1)]]
      enoughD(1) [OF assms(1)] within_ret_pointer)

lemma exprF_step:
  assumes "enough n" "4 * left p + 3 \<le> Suc n"
  shows "within (left p - 1) (left p) (exprF (Suc n) k p)"
  using assms(2)
  by (auto intro!: bind_call [OF enoughD(3) [OF assms(1)]] within_mono [OF enoughD(5) [OF assms(1)]] split: option.splits)

lemma loopF_step:
  assumes "enough n" "4 * left p + 2 \<le> Suc n"
  shows "within (left p) (left p) (loopF (Suc n) b e k p)"
  using assms(2)
  by (auto intro!: bind_consume bind_call [OF enoughD(4) [OF assms(1)]] within_mono [OF enoughD(5) [OF assms(1)]]
      within_mono [OF enoughD(6) [OF assms(1)]] within_ret_pointer dest: operator_not_eof split: option.splits)

lemma ternaryF_step:
  assumes "enough n" "4 * left p + 1 \<le> Suc n" "kindP p \<noteq> t_eof"
  shows "within (left p - 1) (left p) (ternaryF (Suc n) e p)"
  using assms(2,3)
  by (auto intro!: bind_consume bind_expect bind_call [OF enoughD(4) [OF assms(1)]])

lemma enough_all: "enough n"
proof (induction n)
  case 0
  have "left p = 0 \<Longrightarrow> kindP p = t_eof" for p by (simp add: left_def pending_def split: if_splits)
  then show ?case by (auto simp: enough_def)
next
  case (Suc n)
  then show ?case
    unfolding enough_def [of "Suc n"]
    using callF_step argsF_step operandF_step exprF_step loopF_step ternaryF_step by blast
qed

lemma parseExpression_eats: "within (left p - 1) (left p) (parseExpression k p)"
  unfolding parseExpression_def fuel_def by (rule enoughD(4) [OF enough_all]) simp

declare callF.simps [simp del] argsF.simps [simp del] operandF.simps [simp del] exprF.simps [simp del]
  loopF.simps [simp del] ternaryF.simps [simp del]

section \<open>The functions without the count\<close>

lemma bindP_keep:
  assumes "bindP r f \<noteq> Fuel" "r \<noteq> Fuel \<Longrightarrow> r' = r" "\<And>a q. f a q \<noteq> Fuel \<Longrightarrow> g a q = f a q"
  shows "bindP r' g = bindP r f"
  using assms by (cases r) auto

lemma orNull_keep: "orNull r \<noteq> Fuel \<Longrightarrow> (r \<noteq> Fuel \<Longrightarrow> r' = r) \<Longrightarrow> orNull r' = orNull r"
  by (cases r) auto

lemma if_keep:
  "(if b then x else y) \<noteq> Fuel \<Longrightarrow> (x \<noteq> Fuel \<Longrightarrow> x' = x) \<Longrightarrow> (y \<noteq> Fuel \<Longrightarrow> y' = y)
    \<Longrightarrow> (if b then x' else y') = (if b then x else y)"
  by auto

definition agree :: "nat \<Rightarrow> nat \<Rightarrow> bool" where
  "agree n m \<longleftrightarrow>
    (\<forall>p. callF n p \<noteq> Fuel \<longrightarrow> callF m p = callF n p) \<and>
    (\<forall>es p. argsF n es p \<noteq> Fuel \<longrightarrow> argsF m es p = argsF n es p) \<and>
    (\<forall>p. operandF n p \<noteq> Fuel \<longrightarrow> operandF m p = operandF n p) \<and>
    (\<forall>k p. exprF n k p \<noteq> Fuel \<longrightarrow> exprF m k p = exprF n k p) \<and>
    (\<forall>b e k p. loopF n b e k p \<noteq> Fuel \<longrightarrow> loopF m b e k p = loopF n b e k p) \<and>
    (\<forall>e p. ternaryF n e p \<noteq> Fuel \<longrightarrow> ternaryF m e p = ternaryF n e p)"

lemma agreeD:
  assumes "agree n m"
  shows "callF n p \<noteq> Fuel \<Longrightarrow> callF m p = callF n p"
    and "argsF n es p \<noteq> Fuel \<Longrightarrow> argsF m es p = argsF n es p"
    and "operandF n p \<noteq> Fuel \<Longrightarrow> operandF m p = operandF n p"
    and "exprF n k p \<noteq> Fuel \<Longrightarrow> exprF m k p = exprF n k p"
    and "loopF n b e k p \<noteq> Fuel \<Longrightarrow> loopF m b e k p = loopF n b e k p"
    and "ternaryF n e p \<noteq> Fuel \<Longrightarrow> ternaryF m e p = ternaryF n e p"
  using assms by (simp_all add: agree_def)

lemma option_keep:
  "(case x of None \<Rightarrow> r | Some a \<Rightarrow> f a) \<noteq> Fuel \<Longrightarrow> (r \<noteq> Fuel \<Longrightarrow> r' = r) \<Longrightarrow> (\<And>a. f a \<noteq> Fuel \<Longrightarrow> f' a = f a)
    \<Longrightarrow> (case x of None \<Rightarrow> r' | Some a \<Rightarrow> f' a) = (case x of None \<Rightarrow> r | Some a \<Rightarrow> f a)"
  by (cases x) auto

lemma prod_keep:
  "(case x of (a, b) \<Rightarrow> f a b) \<noteq> Fuel \<Longrightarrow> (\<And>a b. f a b \<noteq> Fuel \<Longrightarrow> f' a b = f a b)
    \<Longrightarrow> (case x of (a, b) \<Rightarrow> f' a b) = (case x of (a, b) \<Rightarrow> f a b)"
  by (cases x) auto

lemmas keep_rules = bindP_keep orNull_keep if_keep option_keep prod_keep

lemma agree_Suc:
  assumes "agree n m"
  shows "callF (Suc n) p \<noteq> Fuel \<Longrightarrow> callF (Suc m) p = callF (Suc n) p"
    and "argsF (Suc n) es p \<noteq> Fuel \<Longrightarrow> argsF (Suc m) es p = argsF (Suc n) es p"
    and "operandF (Suc n) p \<noteq> Fuel \<Longrightarrow> operandF (Suc m) p = operandF (Suc n) p"
    and "exprF (Suc n) k p \<noteq> Fuel \<Longrightarrow> exprF (Suc m) k p = exprF (Suc n) k p"
    and "loopF (Suc n) b e k p \<noteq> Fuel \<Longrightarrow> loopF (Suc m) b e k p = loopF (Suc n) b e k p"
    and "ternaryF (Suc n) e p \<noteq> Fuel \<Longrightarrow> ternaryF (Suc m) e p = ternaryF (Suc n) e p"
  unfolding callF.simps(2) argsF.simps(2) operandF.simps(2) exprF.simps(2) loopF.simps(2) ternaryF.simps(2) Let_def
  by (erule keep_rules | assumption | rule refl | erule agreeD [OF assms])+

lemma agree_le: "n \<le> m \<Longrightarrow> agree n m"
proof (induction n arbitrary: m)
  case 0
  then show ?case by (simp add: agree_def parse_F_simps)
next
  case (Suc n)
  then obtain k where k: "m = Suc k" "n \<le> k" by (cases m) auto
  show ?case
    unfolding agree_def [of "Suc n"] k(1) using agree_Suc [OF Suc.IH [OF k(2)]] by (intro conjI allI impI)
qed

definition parseFunctionCall :: "parser \<Rightarrow> expr res" where
  "parseFunctionCall p = callF (fuel p) p"

definition parseArguments :: "expr list \<Rightarrow> parser \<Rightarrow> expr list res" where
  "parseArguments es p = argsF (fuel p) es p"

definition parseExprOperand :: "parser \<Rightarrow> expr res" where
  "parseExprOperand p = operandF (fuel p) p"

definition parseOperatorOperandLoop :: "expr option \<Rightarrow> expr \<Rightarrow> nat \<Rightarrow> parser \<Rightarrow> expr res" where
  "parseOperatorOperandLoop binOp lhs k p = loopF (fuel p) binOp lhs k p"

definition parseTernaryCondOp :: "expr \<Rightarrow> parser \<Rightarrow> expr res" where
  "parseTernaryCondOp lhs p = ternaryF (fuel p) lhs p"

lemma not_Fuel: "within n m r \<Longrightarrow> r \<noteq> Fuel"
  by (cases r) auto

lemmas never_Fuel = enoughD [OF enough_all, THEN not_Fuel]

lemma any_fuel:
  shows "4 * left p + 1 \<le> n \<Longrightarrow> kindP p \<noteq> t_eof \<Longrightarrow> callF n p = parseFunctionCall p"
    and "4 * left p + 1 \<le> n \<Longrightarrow> argsF n es p = parseArguments es p"
    and "4 * left p + 2 \<le> n \<Longrightarrow> operandF n p = parseExprOperand p"
    and "4 * left p + 3 \<le> n \<Longrightarrow> exprF n k p = parseExpression k p"
    and "4 * left p + 2 \<le> n \<Longrightarrow> loopF n b e k p = parseOperatorOperandLoop b e k p"
    and "4 * left p + 1 \<le> n \<Longrightarrow> kindP p \<noteq> t_eof \<Longrightarrow> ternaryF n e p = parseTernaryCondOp e p"
proof -
  have a: "i \<le> n \<Longrightarrow> i \<le> fuel p \<Longrightarrow> agree i n \<and> agree i (fuel p)" for i
    by (simp add: agree_le)
  have f: "4 * left p + 1 \<le> fuel p" "4 * left p + 2 \<le> fuel p" "4 * left p + 3 \<le> fuel p"
    by (simp_all add: fuel_def)
  show "4 * left p + 1 \<le> n \<Longrightarrow> kindP p \<noteq> t_eof \<Longrightarrow> callF n p = parseFunctionCall p"
    using a [OF _ f(1)] never_Fuel(1) [of p "4 * left p + 1"]
    unfolding parseFunctionCall_def by (metis agreeD(1) order_refl)
  show "4 * left p + 1 \<le> n \<Longrightarrow> argsF n es p = parseArguments es p"
    using a [OF _ f(1)] never_Fuel(2) [of p "4 * left p + 1"]
    unfolding parseArguments_def by (metis agreeD(2) order_refl)
  show "4 * left p + 2 \<le> n \<Longrightarrow> operandF n p = parseExprOperand p"
    using a [OF _ f(2)] never_Fuel(3) [of p "4 * left p + 2"]
    unfolding parseExprOperand_def by (metis agreeD(3) order_refl)
  show "4 * left p + 3 \<le> n \<Longrightarrow> exprF n k p = parseExpression k p"
    using a [OF _ f(3)] never_Fuel(4) [of p "4 * left p + 3"]
    unfolding parseExpression_def by (metis agreeD(4) order_refl)
  show "4 * left p + 2 \<le> n \<Longrightarrow> loopF n b e k p = parseOperatorOperandLoop b e k p"
    using a [OF _ f(2)] never_Fuel(5) [of p "4 * left p + 2"]
    unfolding parseOperatorOperandLoop_def by (metis agreeD(5) order_refl)
  show "4 * left p + 1 \<le> n \<Longrightarrow> kindP p \<noteq> t_eof \<Longrightarrow> ternaryF n e p = parseTernaryCondOp e p"
    using a [OF _ f(1)] never_Fuel(6) [of p "4 * left p + 1"]
    unfolding parseTernaryCondOp_def by (metis agreeD(6) order_refl)
qed

lemma bindP_eq:
  assumes "within k j r" "r = r'" and "\<And>a q. left q \<le> k \<Longrightarrow> f a q = g a q"
  shows "bindP r f = bindP r' g"
  using assms by (cases r) auto

lemma consume_eq:
  assumes "kindP p \<noteq> t_eof" and "\<And>q. Suc (left q) \<le> left p \<Longrightarrow> f () q = g () q"
  shows "bindP (consumeToken p) f = bindP (consumeToken p) g"
  using assms left_pos [of p] by (intro bindP_eq [OF consumeToken_eats [OF assms(1)] refl]) auto

lemma expect_eq:
  assumes "\<And>q. left q \<le> left p \<Longrightarrow> f () q = g () q"
  shows "bindP (expectAndConsume k p) f = bindP (expectAndConsume k p) g"
  using assms by (intro bindP_eq [OF expectAndConsume_steady refl]) auto

lemma peek_eq:
  assumes "\<And>t q. left q \<le> left p \<Longrightarrow> tok q = tok p \<Longrightarrow> f t q = g t q"
  shows "bindP (peek p) f = bindP (peek p) g"
proof (cases "peek p")
  case (Ret t q)
  with assms [of q t] peek_tok [of p t q] peek_steady [of p 0] show ?thesis by simp
qed simp_all

lemma orNull_eq: "r = r' \<Longrightarrow> (\<And>a q. f a q = g a q) \<Longrightarrow> bindP (orNull r) f = bindP (orNull r') g"
  by (cases r) auto

lemma if_eq: "(b \<Longrightarrow> x = x') \<Longrightarrow> (\<not> b \<Longrightarrow> y = y') \<Longrightarrow> (if b then x else y) = (if b then x' else y')"
  by auto

lemma parseTernaryCondOp_eq:
  assumes "kindP p \<noteq> t_eof"
  shows "parseTernaryCondOp lhs p =
    bindP (consumeToken p) (\<lambda>_ p.
    bindP (parseExpression 13 p) (\<lambda>trueExpr p.
    bindP (expectAndConsume t_colon p) (\<lambda>_ p.
    bindP (parseExpression 13 p) (\<lambda>falseExpr p. Ret (TernaryConditional lhs trueExpr falseExpr) p))))"
  by (subst any_fuel(6) [of p "Suc (4 * left p)", symmetric], simp, rule assms, subst ternaryF.simps(2), 
      intro consume_eq bindP_eq [OF enoughD(4) [OF enough_all]] expect_eq any_fuel(4) refl) (auto simp: assms)

lemma parseOperatorOperandLoop_eq:
  "parseOperatorOperandLoop binOp lhs k p =
    (case TokenToBinOp (kindP p) of
       None \<Rightarrow>
         if kindP p = t_question \<and> k \<ge> 13 then parseTernaryCondOp lhs p else ret_pointer binOp p
     | Some (bop, precedence) \<Rightarrow>
         if precedence > k then ret_pointer binOp p
         else
           bindP (consumeToken p) (\<lambda>_ p.
           bindP (parseExpression (precedence - 1) p) (\<lambda>rhs p.
             parseOperatorOperandLoop (Some (BinOp lhs bop rhs)) (BinOp lhs bop rhs) k p)))"
  by (subst any_fuel(5) [of p "Suc (4 * left p + 1)", symmetric], simp, subst loopF.simps(2), auto split: option.split dest: operator_not_eof
      intro!: consume_eq bindP_eq [OF enoughD(4) [OF enough_all]] any_fuel)

lemma parseExpression_eq:
  "parseExpression precedence p =
    (if \<not> expectExprOperand p then Null p
     else bindP (parseExprOperand p) (\<lambda>e p.
       case TokenToBinOp (kindP p) of
         Some (_, binOpPrecedence) \<Rightarrow>
           if precedence \<ge> binOpPrecedence then parseOperatorOperandLoop None e precedence p else Ret e p
       | None \<Rightarrow>
           if kindP p = t_question \<and> precedence \<ge> 13 then parseOperatorOperandLoop None e precedence p
           else Ret e p))"
  by (subst any_fuel(4) [of p "Suc (4 * left p + 2)", symmetric], simp, subst exprF.simps(2), auto split: option.split intro!: bindP_eq [OF enoughD(3) [OF enough_all]] any_fuel)

lemma parseExprOperand_eq:
  "parseExprOperand p =
    (if \<not> expectExprOperand p then Null p
     else if kindP p = t_identifier then
       bindP (peek p) (\<lambda>t p.
         if kind_of t = l_paren then parseFunctionCall p
         else bindP (consumeToken p) (\<lambda>_ q. Ret (Symbol (rangeP p)) q))
     else if kindP p = kw_align then parseFunctionCall p
     else if kindP p = t_minus then
       bindP (consumeToken p) (\<lambda>_ p.
       bindP (orNull (parseExprOperand p)) (\<lambda>child p. Ret (Unary U_Minus child) p))
     else if kindP p = t_tilde then
       bindP (consumeToken p) (\<lambda>_ p.
       bindP (orNull (parseExprOperand p)) (\<lambda>child p. Ret (Unary U_Not child) p))
     else if kindP p = t_number then
       (case parseNum (rangeP p) of
          None \<Rightarrow> Null p
        | Some val \<Rightarrow> bindP (consumeToken p) (\<lambda>_ p. Ret (Constant val) p))
     else
       bindP (consumeToken p) (\<lambda>_ p.
       bindP (orNull (parseExpression 13 p)) (\<lambda>e p.
       bindP (expectAndConsume r_paren p) (\<lambda>_ p. ret_pointer e p))))"
  by (subst any_fuel(3) [of p "Suc (4 * left p + 1)", symmetric], simp, subst operandF.simps(2),
      unfold Let_def, auto simp: expectExprOperand_def split: option.split
      intro!: if_eq consume_eq peek_eq orNull_eq any_fuel)

lemma parseArguments_eq:
  "parseArguments es p =
    (if kindP p = t_comma then
       bindP (consumeToken p) (\<lambda>_ p.
       bindP (parseExpression 13 p) (\<lambda>param p. parseArguments (es @ [param]) p))
     else Ret es p)"
  by (subst any_fuel(2) [of p "Suc (4 * left p)", symmetric], simp, subst argsF.simps(2), auto intro!: consume_eq bindP_eq [OF enoughD(4) [OF enough_all]] any_fuel)

lemma parseFunctionCall_eq:
  assumes "kindP p \<noteq> t_eof"
  shows "parseFunctionCall p =
    bindP (consumeToken p) (\<lambda>_ q.
    bindP (expectAndConsume l_paren q) (\<lambda>_ q.
      if kindP q = r_paren then
        bindP (consumeToken q) (\<lambda>_ q. Ret (FunctionCall (rangeP q) []) q)
      else
        bindP (parseExpression 13 q) (\<lambda>firstParam q.
        bindP (parseArguments [firstParam] q) (\<lambda>params q.
        bindP (expectAndConsume r_paren q) (\<lambda>_ q. Ret (FunctionCall (rangeP p) params) q)))))"
  by (subst any_fuel(1) [of p "Suc (4 * left p)", symmetric], simp, rule assms, subst callF.simps(2), unfold Let_def, insert assms, auto intro!: consume_eq expect_eq bindP_eq [OF enoughD(4) [OF enough_all]]
      bindP_eq [OF enoughD(2) [OF enough_all]] any_fuel)

end
