(* ===== verification/Script_Grammar.thy ===== *)
theory Script_Grammar
  imports Script_Expr
begin

text \<open>
  What the expressions of linker scripts are: the grammar that the operator precedence parser reads, the round
  trip of printing and parsing, and the value of an expression over the integers.
\<close>

unbundle bit_operations_syntax

section \<open>The grammar\<close>

text \<open>
  The expressions of C restricted to the operators of linker scripts: \<open>operand e ts\<close> and \<open>phrase k e ts\<close> say that
  the tokens \<open>ts\<close> spell the tree \<open>e\<close>, as an operand or with operators of precedence at most \<open>k\<close>. Binary operators
  are grouped from the left, the conditional operator, of precedence 13, from the right.
\<close>

inductive operand :: "expr \<Rightarrow> token list \<Rightarrow> bool"
  and phrase :: "nat \<Rightarrow> expr \<Rightarrow> token list \<Rightarrow> bool"
  and arguments :: "expr list \<Rightarrow> token list \<Rightarrow> bool" where
  symbol: "kind_of t = t_identifier \<Longrightarrow> operand (Symbol (range_of t)) [t]"
| number: "kind_of t = t_number \<Longrightarrow> parseNum (range_of t) = Some v \<Longrightarrow> operand (Constant v) [t]"
| call: "kind_of f \<in> {t_identifier, kw_align} \<Longrightarrow> kind_of l = l_paren \<Longrightarrow> kind_of r = r_paren
    \<Longrightarrow> arguments es ts \<Longrightarrow> operand (FunctionCall (range_of f) es) (f # l # ts @ [r])"
| minus: "kind_of t = t_minus \<Longrightarrow> operand e ts \<Longrightarrow> operand (Unary U_Minus (Some e)) (t # ts)"
| complement: "kind_of t = t_tilde \<Longrightarrow> operand e ts \<Longrightarrow> operand (Unary U_Not (Some e)) (t # ts)"
| paren: "kind_of l = l_paren \<Longrightarrow> kind_of r = r_paren \<Longrightarrow> phrase 13 e ts \<Longrightarrow> operand e (l # ts @ [r])"
| plain: "operand e ts \<Longrightarrow> phrase k e ts"
| binary: "TokenToBinOp (kind_of t) = Some (bop, j) \<Longrightarrow> j \<le> k \<Longrightarrow> phrase j x ts \<Longrightarrow> phrase (j - 1) y us
    \<Longrightarrow> phrase k (BinOp x bop y) (ts @ t # us)"
| conditional: "kind_of q = t_question \<Longrightarrow> kind_of c = t_colon \<Longrightarrow> 13 \<le> k
    \<Longrightarrow> phrase 12 x ts \<Longrightarrow> phrase 13 y us \<Longrightarrow> phrase 13 z vs
    \<Longrightarrow> phrase k (TernaryConditional x y z) (ts @ q # us @ c # vs)"
| first_argument: "phrase 13 e ts \<Longrightarrow> arguments [e] ts"
| next_argument: "kind_of c = t_comma \<Longrightarrow> arguments es ts \<Longrightarrow> phrase 13 e us
    \<Longrightarrow> arguments (es @ [e]) (ts @ c # us)"

text \<open>The tokens that the lexer takes off a buffer, and those a parser has before it.\<close>

fun lexes :: "string \<Rightarrow> token list \<Rightarrow> string \<Rightarrow> bool" where
  "lexes b [] c \<longleftrightarrow> b = c"
| "lexes b (t # ts) c \<longleftrightarrow> (\<exists>d. lex b = Some (t, d) \<and> lexes d ts c)"

definition ahead :: "parser \<Rightarrow> token list \<Rightarrow> string \<Rightarrow> bool" where
  "ahead p ts c \<longleftrightarrow>
    (case ts of [] \<Rightarrow> False
     | t # us \<Rightarrow> tok p = t \<and>
        (case peeked p of None \<Rightarrow> lexes (buffer p) us c
         | Some u \<Rightarrow> us \<noteq> [] \<and> hd us = u \<and> lexes (buffer p) (tl us) c))"

lemma ahead_tok: "ahead p (t # ts) c \<Longrightarrow> tok p = t"
  by (simp add: ahead_def)

lemma ahead_consume:
  assumes "ahead p (t # u # ts) c"
  shows "\<exists>q. consumeToken p = Ret () q \<and> ahead q (u # ts) c"
  using assms by (cases "peeked p") (auto simp: ahead_def consumeToken_def)

lemma ahead_expect:
  assumes "ahead p (t # u # ts) c" "kind_of t = k"
  shows "\<exists>q. expectAndConsume k p = Ret () q \<and> ahead q (u # ts) c"
  using ahead_consume [OF assms(1)] ahead_tok [OF assms(1)] assms(2) by (auto simp: expectAndConsume_def)

lemma ahead_peek:
  assumes "ahead p (t # u # ts) c"
  shows "\<exists>q. peek p = Ret u q \<and> ahead q (t # u # ts) c"
  using assms by (cases "peeked p") (auto simp: ahead_def peek_def)

text \<open>What may follow: no call, no operator that binds as tightly as \<open>k\<close>, and no conditional after \<open>k \<ge> 13\<close>.\<close>

definition may_follow :: "nat \<Rightarrow> token \<Rightarrow> bool" where
  "may_follow k t \<longleftrightarrow> kind_of t \<noteq> l_paren \<and> (kind_of t = t_question \<longrightarrow> k < 13) \<and>
    (\<forall>bop m. TokenToBinOp (kind_of t) = Some (bop, m) \<longrightarrow> k \<le> m)"

definition must_end :: "nat \<Rightarrow> token \<Rightarrow> bool" where
  "must_end k t \<longleftrightarrow> kind_of t \<noteq> l_paren \<and> (kind_of t = t_question \<longrightarrow> k < 13) \<and>
    (\<forall>bop m. TokenToBinOp (kind_of t) = Some (bop, m) \<longrightarrow> k < m)"

lemma may_follow_mono: "may_follow k t \<Longrightarrow> j \<le> k \<Longrightarrow> may_follow j t"
  by (auto simp: may_follow_def)

lemma must_end_may: "must_end k t \<Longrightarrow> may_follow k t"
  by (auto simp: must_end_def may_follow_def)

lemma may_follow_ends: "may_follow k t \<Longrightarrow> j < k \<Longrightarrow> j < 13 \<Longrightarrow> must_end j t"
  by (fastforce simp: must_end_def may_follow_def)

lemma separators_end: "kind_of t \<in> {r_paren, t_comma, t_colon, t_semicolon} \<Longrightarrow> must_end k t"
  by (auto simp: must_end_def TokenToBinOp_def)

text \<open>Once the operand is read, \<open>parseExpression\<close> behaves as the loop that already has it as its result.\<close>

lemma TokenToBinOp_question: "TokenToBinOp t_question = None"
  by (simp add: TokenToBinOp_def)

lemma parseExpression_operand:
  assumes "expectExprOperand p" "parseExprOperand p = Ret e q"
  shows "parseExpression k p = parseOperatorOperandLoop (Some e) e k q"
  using assms
  by (auto simp: parseExpression_eq parseOperatorOperandLoop_eq [of _ e k q] TokenToBinOp_question
      split: option.splits prod.splits)

lemma operators_end:
  assumes "must_end k (tok q)"
  shows "parseOperatorOperandLoop (Some e) e k q = Ret e q"
  using assms by (auto simp: parseOperatorOperandLoop_eq must_end_def split: option.splits prod.splits)

lemma operand_starts: "operand e ts \<Longrightarrow> ts \<noteq> [] \<and>
    kind_of (hd ts) \<in> {t_identifier, t_number, kw_align, l_paren, t_minus, t_tilde}"
  by (erule operand.cases) auto

lemma operand_nonempty: "operand e us \<Longrightarrow> us \<noteq> []"
  and phrase_nonempty: "phrase k e ts \<Longrightarrow> ts \<noteq> []"
  and arguments_nonempty: "arguments es vs \<Longrightarrow> vs \<noteq> []"
  by (induction rule: operand_phrase_arguments.inducts) auto

lemma operand_first: "operand e us \<Longrightarrow> kind_of (hd us) \<noteq> r_paren"
  and phrase_first: "phrase k e ts \<Longrightarrow> kind_of (hd ts) \<noteq> r_paren"
  and arguments_first: "arguments es vs \<Longrightarrow> kind_of (hd vs) \<noteq> r_paren"
  by (induction rule: operand_phrase_arguments.inducts) (auto simp: hd_append TokenToBinOp_def dest: operand_nonempty phrase_nonempty arguments_nonempty)


lemma precedence_bound: "TokenToBinOp k = Some (bop, m) \<Longrightarrow> 3 \<le> m \<and> m \<le> 10"
  by (cases k) (auto simp: TokenToBinOp_def)

lemma conditional_end: "may_follow k t \<Longrightarrow> 13 \<le> k \<Longrightarrow> must_end j t"
proof -
  assume a: "may_follow k t" "13 \<le> k"
  have "TokenToBinOp (kind_of t) \<noteq> Some (bop, m)" for bop m
  proof
    assume t: "TokenToBinOp (kind_of t) = Some (bop, m)"
    then have "k \<le> m" using a(1) unfolding may_follow_def by blast
    with precedence_bound [OF t] a(2) show False by linarith
  qed
  moreover have "kind_of t \<noteq> l_paren" "kind_of t \<noteq> t_question"
    using a unfolding may_follow_def not_less [symmetric] by blast+
  ultimately show ?thesis unfolding must_end_def by blast
qed

definition reads_operand :: "expr \<Rightarrow> token list \<Rightarrow> bool" where
  "reads_operand e ts \<longleftrightarrow>
    (\<forall>p t rest c. ahead p (ts @ t # rest) c \<longrightarrow> kind_of t \<noteq> l_paren \<longrightarrow>
      (\<exists>q. expectExprOperand p \<and> parseExprOperand p = Ret e q \<and> ahead q (t # rest) c))"

definition reads_phrase :: "nat \<Rightarrow> expr \<Rightarrow> token list \<Rightarrow> bool" where
  "reads_phrase k e ts \<longleftrightarrow>
    (\<forall>K p t rest c. k \<le> K \<longrightarrow> ahead p (ts @ t # rest) c \<longrightarrow> may_follow k t \<longrightarrow>
      (\<exists>q. parseExpression K p = parseOperatorOperandLoop (Some e) e K q \<and> ahead q (t # rest) c))"

definition reads_arguments :: "expr list \<Rightarrow> token list \<Rightarrow> bool" where
  "reads_arguments es ts \<longleftrightarrow>
    (\<forall>p t rest c. ahead p (ts @ t # rest) c \<longrightarrow> must_end 13 t \<longrightarrow>
      (\<exists>e p' q. parseExpression 13 p = Ret e p' \<and> parseArguments [e] p' = parseArguments es q \<and>
        ahead q (t # rest) c))"

lemma reads_phraseD:
  assumes "reads_phrase k e ts" "ahead p (ts @ t # rest) c" "must_end k t"
  shows "\<exists>q. parseExpression k p = Ret e q \<and> ahead q (t # rest) c"
proof -
  obtain q where q: "parseExpression k p = parseOperatorOperandLoop (Some e) e k q" "ahead q (t # rest) c"
    using assms(1) [unfolded reads_phrase_def] assms(2) must_end_may [OF assms(3)] by blast
  with operators_end [of k q e] assms(3) ahead_tok [OF q(2)] show ?thesis by simp
qed

lemma reads_symbol: "kind_of t = t_identifier \<Longrightarrow> reads_operand (Symbol (range_of t)) [t]"
  unfolding reads_operand_def
proof (intro allI impI)
  fix p u rest c
  assume t: "kind_of t = t_identifier" and a: "ahead p ([t] @ u # rest) c" and u: "kind_of u \<noteq> l_paren"
  obtain q where q: "peek p = Ret u q" "ahead q (t # u # rest) c" using ahead_peek a by force
  obtain q' where q': "consumeToken q = Ret () q'" "ahead q' (u # rest) c" using ahead_consume [OF q(2)] by blast
  from a q(2) have "tok p = t" "tok q = t" by (auto dest: ahead_tok)
  with t u q q' show "\<exists>q. expectExprOperand p \<and> parseExprOperand p = Ret (Symbol (range_of t)) q \<and> ahead q (u # rest) c"
    by (auto simp: parseExprOperand_eq expectExprOperand_def)
qed

lemma reads_number:
  assumes t: "kind_of t = t_number" "parseNum (range_of t) = Some v"
  shows "reads_operand (Constant v) [t]"
  unfolding reads_operand_def
proof (intro allI impI)
  fix p u rest c
  assume a: "ahead p ([t] @ u # rest) c"
  obtain q where q: "consumeToken p = Ret () q" "ahead q (u # rest) c" using ahead_consume a by force
  from a have "tok p = t" by (auto dest: ahead_tok)
  with t q show "\<exists>q. expectExprOperand p \<and> parseExprOperand p = Ret (Constant v) q \<and> ahead q (u # rest) c"
    by (auto simp: parseExprOperand_eq expectExprOperand_def)
qed

lemma reads_unary:
  assumes t: "(kind_of t, u) \<in> {(t_minus, U_Minus), (t_tilde, U_Not)}" and e: "reads_operand e ts" "ts \<noteq> []"
  shows "reads_operand (Unary u (Some e)) (t # ts)"
  unfolding reads_operand_def
proof (intro allI impI)
  fix p w rest c
  assume a: "ahead p ((t # ts) @ w # rest) c" and w: "kind_of w \<noteq> l_paren"
  obtain q where q: "consumeToken p = Ret () q" "ahead q (ts @ w # rest) c"
    using ahead_consume [of p t "hd ts" "tl ts @ w # rest" c] a e(2) by (cases ts) auto
  obtain r where r: "parseExprOperand q = Ret e r" "ahead r (w # rest) c"
    using e(1) q(2) w unfolding reads_operand_def by blast
  from a have "tok p = t" by (auto dest: ahead_tok)
  with t q r show "\<exists>q. expectExprOperand p \<and> parseExprOperand p = Ret (Unary u (Some e)) q \<and> ahead q (w # rest) c"
    by (auto simp: parseExprOperand_eq [of p] expectExprOperand_def)
qed

lemma reads_paren:
  assumes "kind_of l = l_paren" "kind_of r = r_paren" "reads_phrase 13 e ts" "ts \<noteq> []"
  shows "reads_operand e (l # ts @ [r])"
  unfolding reads_operand_def
proof (intro allI impI)
  fix p w rest c
  assume a: "ahead p ((l # ts @ [r]) @ w # rest) c"
  obtain q where q: "consumeToken p = Ret () q" "ahead q (ts @ r # w # rest) c"
    using ahead_consume [of p l "hd ts" "tl ts @ r # w # rest" c] a assms(4) by (cases ts) auto
  have "must_end 13 r" using assms(2) by (simp add: separators_end)
  then obtain q1 where q1: "parseExpression 13 q = Ret e q1" "ahead q1 (r # w # rest) c"
    using reads_phraseD [OF assms(3) q(2)] by blast
  obtain q2 where q2: "expectAndConsume r_paren q1 = Ret () q2" "ahead q2 (w # rest) c"
    using ahead_expect [OF q1(2) assms(2)] by blast
  from a have "tok p = l" by (auto dest: ahead_tok)
  with assms(1) q q1 q2
  show "\<exists>q. expectExprOperand p \<and> parseExprOperand p = Ret e q \<and> ahead q (w # rest) c"
    by (auto simp: parseExprOperand_eq [of p] expectExprOperand_def)
qed

lemma reads_call:
  assumes f: "kind_of f \<in> {t_identifier, kw_align}" and "kind_of l = l_paren" "kind_of r = r_paren"
    and es: "reads_arguments es ts" "ts \<noteq> []" "kind_of (hd ts) \<noteq> r_paren"
  shows "reads_operand (FunctionCall (range_of f) es) (f # l # ts @ [r])"
  unfolding reads_operand_def
proof (intro allI impI)
  fix p w rest c
  assume a: "ahead p ((f # l # ts @ [r]) @ w # rest) c"
  have call: "\<exists>q. parseFunctionCall p' = Ret (FunctionCall (range_of f) es) q \<and> ahead q (w # rest) c"
    if p': "ahead p' (f # l # ts @ r # w # rest) c" for p'
  proof -
    obtain q where q: "consumeToken p' = Ret () q" "ahead q (l # ts @ r # w # rest) c"
      using ahead_consume [OF p'] by blast
    obtain q1 where q1: "expectAndConsume l_paren q = Ret () q1" "ahead q1 (ts @ r # w # rest) c"
      using ahead_expect [of q l "hd ts" "tl ts @ r # w # rest" c] q(2) assms(2) es(2) by (cases ts) auto
    have "must_end 13 r" using assms(3) by (simp add: separators_end)
    then obtain e p1 q2 where q2: "parseExpression 13 q1 = Ret e p1" "parseArguments [e] p1 = parseArguments es q2"
        "ahead q2 (r # w # rest) c"
      using es(1) q1(2) unfolding reads_arguments_def by blast
    have "tok q2 = r" "tok p' = f" "tok q1 = hd ts"
      using q2(3) p' q1(2) es(2) by (auto dest: ahead_tok) (cases ts; auto dest: ahead_tok)
    moreover obtain q3 where "expectAndConsume r_paren q2 = Ret () q3" "ahead q3 (w # rest) c"
      using ahead_expect [OF q2(3) assms(3)] by blast
    ultimately show ?thesis
      using q q1 q2 f es(3) assms(3)
      by (auto simp: parseFunctionCall_eq [of p'] parseArguments_eq [of es q2])
  qed
  have p: "tok p = f" using a by (auto dest: ahead_tok)
  show "\<exists>q. expectExprOperand p \<and> parseExprOperand p = Ret (FunctionCall (range_of f) es) q \<and> ahead q (w # rest) c"
  proof (cases "kind_of f = t_identifier")
    case True
    obtain q where q: "peek p = Ret l q" "ahead q (f # l # ts @ r # w # rest) c"
      using ahead_peek a by force
    from call [OF q(2)] True p q(1) assms(2) show ?thesis
      by (auto simp: parseExprOperand_eq [of p] expectExprOperand_def)
  next
    case False
    with f call [of p] a p show ?thesis
      by (auto simp: parseExprOperand_eq [of p] expectExprOperand_def)
  qed
qed

lemma reads_plain: "reads_operand e ts \<Longrightarrow> reads_phrase k e ts"
  unfolding reads_phrase_def
proof (intro allI impI)
  fix K p t rest c
  assume e: "reads_operand e ts" and a: "ahead p (ts @ t # rest) c" "may_follow k t"
  then obtain q where "expectExprOperand p" "parseExprOperand p = Ret e q" "ahead q (t # rest) c"
    unfolding reads_operand_def may_follow_def by blast
  then show "\<exists>q. parseExpression K p = parseOperatorOperandLoop (Some e) e K q \<and> ahead q (t # rest) c"
    using parseExpression_operand by blast
qed

lemma reads_binary:
  assumes t: "TokenToBinOp (kind_of t) = Some (bop, j)" "j \<le> k"
    and x: "reads_phrase j x ts" and y: "reads_phrase (j - 1) y us" "us \<noteq> []"
  shows "reads_phrase k (BinOp x bop y) (ts @ t # us)"
  unfolding reads_phrase_def
proof (intro allI impI)
  fix K p w rest c
  assume K: "k \<le> K" and a: "ahead p ((ts @ t # us) @ w # rest) c" and w: "may_follow k w"
  have j: "3 \<le> j" "j \<le> 10" using precedence_bound [OF t(1)] by auto
  have "may_follow j t"
    using t(1) unfolding may_follow_def by (auto simp: TokenToBinOp_def)
  then obtain q where q: "parseExpression K p = parseOperatorOperandLoop (Some x) x K q" "ahead q (t # us @ w # rest) c"
    using x [unfolded reads_phrase_def, rule_format, of K p t "us @ w # rest" c] K t(2) a by auto
  obtain q1 where q1: "consumeToken q = Ret () q1" "ahead q1 (us @ w # rest) c"
    using ahead_consume [of q t "hd us" "tl us @ w # rest" c] q(2) y(2) by (cases us) auto
  have "must_end (j - 1) w" using may_follow_ends [OF w, of "j - 1"] j t(2) by simp
  then obtain q2 where q2: "parseExpression (j - 1) q1 = Ret y q2" "ahead q2 (w # rest) c"
    using reads_phraseD [OF y(1) q1(2)] by blast
  have "tok q = t" using q(2) by (rule ahead_tok)
  with q(1) q1(1) q2(1) t K
  have "parseExpression K p = parseOperatorOperandLoop (Some (BinOp x bop y)) (BinOp x bop y) K q2"
    by (simp add: parseOperatorOperandLoop_eq [of "Some x" x K q])
  with q2(2) show "\<exists>q. parseExpression K p =
      parseOperatorOperandLoop (Some (BinOp x bop y)) (BinOp x bop y) K q \<and> ahead q (w # rest) c"
    by blast
qed

lemma reads_conditional:
  assumes q: "kind_of q = t_question" and d: "kind_of d = t_colon" and k: "13 \<le> k"
    and x: "reads_phrase 12 x ts" and y: "reads_phrase 13 y us" "us \<noteq> []" and z: "reads_phrase 13 z vs" "vs \<noteq> []"
  shows "reads_phrase k (TernaryConditional x y z) (ts @ q # us @ d # vs)"
  unfolding reads_phrase_def
proof (intro allI impI)
  fix K p w rest c
  assume K: "k \<le> K" and a: "ahead p ((ts @ q # us @ d # vs) @ w # rest) c" and w: "may_follow k w"
  have "may_follow 12 q" using q by (simp add: may_follow_def TokenToBinOp_question)
  then obtain q0 where q0: "parseExpression K p = parseOperatorOperandLoop (Some x) x K q0"
      "ahead q0 (q # us @ d # vs @ w # rest) c"
    using x [unfolded reads_phrase_def, rule_format, of K p q "us @ d # vs @ w # rest" c] K k a by auto
  obtain q1 where q1: "consumeToken q0 = Ret () q1" "ahead q1 (us @ d # vs @ w # rest) c"
    using ahead_consume [of q0 q "hd us" "tl us @ d # vs @ w # rest" c] q0(2) y(2) by (cases us) auto
  have "must_end 13 d" using d by (simp add: separators_end)
  then obtain q2 where q2: "parseExpression 13 q1 = Ret y q2" "ahead q2 (d # vs @ w # rest) c"
    using reads_phraseD [OF y(1) q1(2)] by blast
  obtain q3 where q3: "expectAndConsume t_colon q2 = Ret () q3" "ahead q3 (vs @ w # rest) c"
    using ahead_expect [of q2 d "hd vs" "tl vs @ w # rest" c] q2(2) d z(2) by (cases vs) auto
  obtain q4 where q4: "parseExpression 13 q3 = Ret z q4" "ahead q4 (w # rest) c"
    using reads_phraseD [OF z(1) q3(2) conditional_end [OF w k]] by blast
  have "tok q0 = q" "tok q4 = w" using q0(2) q4(2) by (auto dest: ahead_tok)
  with q0(1) q1(1) q2(1) q3(1) q4(1) q k K
  have "parseExpression K p = Ret (TernaryConditional x y z) q4"
    by (simp add: parseOperatorOperandLoop_eq [of "Some x" x K q0] TokenToBinOp_question parseTernaryCondOp_eq)
  with q4(2) operators_end [of K q4 "TernaryConditional x y z"] conditional_end [OF w k, of K] \<open>tok q4 = w\<close>
  show "\<exists>q. parseExpression K p = parseOperatorOperandLoop (Some (TernaryConditional x y z))
      (TernaryConditional x y z) K q \<and> ahead q (w # rest) c"
    by metis
qed

lemma reads_first: "reads_phrase 13 e ts \<Longrightarrow> reads_arguments [e] ts"
  unfolding reads_arguments_def using reads_phraseD by blast

lemma reads_next:
  assumes d: "kind_of d = t_comma" and es: "reads_arguments es ts" and e: "reads_phrase 13 e us" "us \<noteq> []"
  shows "reads_arguments (es @ [e]) (ts @ d # us)"
  unfolding reads_arguments_def
proof (intro allI impI)
  fix p w rest c
  assume a: "ahead p ((ts @ d # us) @ w # rest) c" and w: "must_end 13 w"
  have "must_end 13 d" using d by (simp add: separators_end)
  then obtain e0 p0 q where q: "parseExpression 13 p = Ret e0 p0" "parseArguments [e0] p0 = parseArguments es q"
      "ahead q (d # us @ w # rest) c"
    using es [unfolded reads_arguments_def, rule_format, of p d "us @ w # rest" c] a by auto
  obtain q1 where q1: "consumeToken q = Ret () q1" "ahead q1 (us @ w # rest) c"
    using ahead_consume [of q d "hd us" "tl us @ w # rest" c] q(3) e(2) by (cases us) auto
  obtain q2 where q2: "parseExpression 13 q1 = Ret e q2" "ahead q2 (w # rest) c"
    using reads_phraseD [OF e(1) q1(2) w] by blast
  have "tok q = d" using q(3) by (rule ahead_tok)
  with d q1(1) q2(1) have "parseArguments es q = parseArguments (es @ [e]) q2"
    by (simp add: parseArguments_eq [of es q])
  with q q2(2) show "\<exists>x p' q. parseExpression 13 p = Ret x p' \<and>
      parseArguments [x] p' = parseArguments (es @ [e]) q \<and> ahead q (w # rest) c"
    by metis
qed

lemma operand_reads: "operand e us \<Longrightarrow> reads_operand e us"
  and phrase_reads: "phrase k e' ts \<Longrightarrow> reads_phrase k e' ts"
  and arguments_reads: "arguments es vs \<Longrightarrow> reads_arguments es vs"
proof (induction rule: operand_phrase_arguments.inducts)
  case (symbol t) then show ?case by (rule reads_symbol)
next
  case (number t v) then show ?case by (rule reads_number)
next
  case (call f l r es ts)
  then show ?case by (intro reads_call) (simp_all add: arguments_nonempty arguments_first)
next
  case (minus t e ts) then show ?case by (intro reads_unary) (simp_all add: operand_nonempty)
next
  case (complement t e ts) then show ?case by (intro reads_unary) (simp_all add: operand_nonempty)
next
  case (paren l r e ts) then show ?case by (intro reads_paren) (simp_all add: phrase_nonempty)
next
  case (plain e ts k) then show ?case by (intro reads_plain)
next
  case (binary t bop j k x ts y us) then show ?case by (intro reads_binary) (simp_all add: phrase_nonempty)
next
  case (conditional q c k x ts y us z vs)
  then show ?case by (intro reads_conditional) (simp_all add: phrase_nonempty)
next
  case (first_argument e ts) then show ?case by (intro reads_first)
next
  case (next_argument c es ts e us) then show ?case by (intro reads_next) (simp_all add: phrase_nonempty)
qed

text \<open>C6: The expression parser reads the C grammar. Whatever the grammar derives for the tree \<open>e\<close> at precedence
  \<open>k\<close>, with binary operators grouped from the left and the conditional from the right, \<open>parseExpression\<close> called
  with \<open>k\<close> returns \<open>e\<close> and stops before the token after it, provided that token is no operator that goes on.\<close>

theorem parser_follows_grammar:
  assumes "phrase k e ts" "ahead p (ts @ t # rest) c" "must_end k t"
  shows "\<exists>q. parseExpression k p = Ret e q \<and> ahead q (t # rest) c"
  using reads_phraseD phrase_reads assms by blast

section \<open>Printing and reading back\<close>

definition plain_name :: "string \<Rightarrow> bool" where
  "plain_name s \<longleftrightarrow> s \<noteq> [] \<and> hd s \<in> set (letters @ ''_.$'') \<and> list_all canContinueName (tl s) \<and>
    keyword_kind s = t_identifier"

fun printable :: "bool \<Rightarrow> expr \<Rightarrow> bool" where
  "printable c (Constant v) = True"
| "printable c (Symbol s) = plain_name s"
| "printable c (FunctionCall s es) = ((plain_name s \<or> s = ''ALIGN'') \<and> es \<noteq> [] \<and> list_all (printable True) es)"
| "printable c (Unary u None) = False"
| "printable c (Unary u (Some e)) = (printable False e \<and> (u = U_Minus \<longrightarrow> hd (dump e) \<noteq> CHR ''l''))"
| "printable c (BinOp x bop y) = (printable False x \<and> printable False y)"
| "printable c (TernaryConditional x y z) = (c \<and> printable False x \<and> printable True y \<and> printable True z)"

definition binop_kind :: "binop \<Rightarrow> kind" where
  "binop_kind bop =
    (case bop of
       B_Sum \<Rightarrow> t_plus | B_Sub \<Rightarrow> t_minus | B_Mul \<Rightarrow> t_star | B_Div \<Rightarrow> t_slash | B_Shl \<Rightarrow> t_lessless
     | B_Shr \<Rightarrow> t_greatergreater | B_And \<Rightarrow> t_amp | B_Or \<Rightarrow> t_pipe | B_CompareEqual \<Rightarrow> t_equalequal
     | B_CompareDifferent \<Rightarrow> t_exclaimequal | B_CompareLess \<Rightarrow> t_less | B_CompareGreater \<Rightarrow> t_greater
     | B_CompareLessEqual \<Rightarrow> t_lessequal | B_CompareGreaterEqual \<Rightarrow> t_greaterequal)"

definition unop_kind :: "unop \<Rightarrow> kind" where
  "unop_kind u = (case u of U_Minus \<Rightarrow> t_minus | U_Not \<Rightarrow> t_tilde)"

definition name_token :: "string \<Rightarrow> token" where
  "name_token s = Token s (keyword_kind s)"

fun sep_tokens :: "token list list \<Rightarrow> token list" where
  "sep_tokens [] = []"
| "sep_tokens [t] = t"
| "sep_tokens (t # ts) = t @ Token '','' t_comma # sep_tokens ts"

fun toks :: "expr \<Rightarrow> token list" where
  "toks (Constant v) = [Token (dec_string (unat v)) t_number]"
| "toks (Symbol s) = [name_token s]"
| "toks (FunctionCall s es) = name_token s # Token ''('' l_paren # sep_tokens (map toks es) @ [Token '')'' r_paren]"
| "toks (Unary u None) = []"
| "toks (Unary u (Some e)) = Token ''('' l_paren # (Token (unop_text u) (unop_kind u) # toks e) @ [Token '')'' r_paren]"
| "toks (BinOp x bop y) =
    Token ''('' l_paren # (toks x @ Token (binop_text bop) (binop_kind bop) # toks y) @ [Token '')'' r_paren]"
| "toks (TernaryConditional x y z) =
    toks x @ Token ''?'' t_question # toks y @ Token '':'' t_colon # toks z"

lemma TokenToBinOp_kind: "\<exists>j. TokenToBinOp (binop_kind bop) = Some (bop, j)"
  by (cases bop) (simp_all add: binop_kind_def TokenToBinOp_def)

lemma keyword_ALIGN: "keyword_kind ''ALIGN'' = kw_align"
  by (simp add: keyword_kind_def script_keywords_def)

lemma name_kind: "plain_name s \<or> s = ''ALIGN'' \<Longrightarrow> kind_of (name_token s) \<in> {t_identifier, kw_align}"
  by (auto simp: name_token_def plain_name_def keyword_ALIGN)

lemma sep_tokens_snoc: "ts \<noteq> [] \<Longrightarrow> sep_tokens (ts @ [t]) = sep_tokens ts @ Token '','' t_comma # t"
  by (induction ts rule: sep_tokens.induct) auto

lemma arguments_toks:
  "es \<noteq> [] \<Longrightarrow> \<forall>e\<in>set es. phrase 13 e (toks e) \<Longrightarrow> arguments es (sep_tokens (map toks es))"
proof (induction es rule: rev_induct)
  case (snoc e es)
  then show ?case
    using first_argument [of e "toks e"] next_argument [of "Token '','' t_comma" es "sep_tokens (map toks es)" e "toks e"]
    by (cases "es = []") (auto simp: sep_tokens_snoc)
qed simp

lemma printable_grammar:
  "(printable False e \<longrightarrow> operand e (toks e)) \<and> (printable True e \<longrightarrow> phrase 13 e (toks e))"
proof (induction e rule: toks.induct)
  case (1 v)
  have "operand (Constant v) (toks (Constant v))"
    using number [of "Token (dec_string (unat v)) t_number" v] by (simp add: parseNum_dec)
  then show ?case using plain by blast
next
  case (2 s)
  show ?case using symbol [of "name_token s"] plain by (auto simp: plain_name_def name_token_def)
next
  case (3 s es)
  have args: "arguments es (sep_tokens (map toks es))"
    if "es \<noteq> []" "list_all (printable True) es"
    using that 3 by (intro arguments_toks) (auto simp: list_all_iff)
  have "operand (FunctionCall s es) (toks (FunctionCall s es))"
    if "plain_name s \<or> s = ''ALIGN''" "es \<noteq> []" "list_all (printable True) es"
    using call [OF name_kind [OF that(1)] _ _ args [OF that(2,3)], of "Token ''('' l_paren" "Token '')'' r_paren"]
    by (simp add: name_token_def)
  then show ?case using plain by (metis printable.simps(3))
next
  case (4 u)
  then show ?case by simp
next
  case (5 u e)
  have "operand (Unary u (Some e)) (toks (Unary u (Some e)))" if "printable False e"
  proof -
    have "operand (Unary u (Some e)) (Token (unop_text u) (unop_kind u) # toks e)"
      using 5 that by (cases u) (auto simp: unop_kind_def intro: minus complement)
    then show ?thesis unfolding toks.simps by (intro paren plain) simp_all
  qed
  then show ?case using plain by (metis printable.simps(5))
next
  case (6 x bop y)
  obtain j where j: "TokenToBinOp (binop_kind bop) = Some (bop, j)" using TokenToBinOp_kind by blast
  have "operand (BinOp x bop y) (toks (BinOp x bop y))" if "printable False x" "printable False y"
  proof -
    have "phrase 13 (BinOp x bop y) (toks x @ Token (binop_text bop) (binop_kind bop) # toks y)"
      using 6 that precedence_bound [OF j] by (intro binary [of _ _ j]) (auto simp: j intro: plain)
    then show ?thesis unfolding toks.simps by (intro paren) simp_all
  qed
  then show ?case using plain by (metis printable.simps(6))
next
  case (7 x y z)
  then show ?case by (auto intro!: conditional intro: plain)
qed

section \<open>Reading what is printed\<close>

lemma lexes_append: "lexes b ts c \<Longrightarrow> lexes c us d \<Longrightarrow> lexes b (ts @ us) d"
  by (induction ts arbitrary: b) auto

lemma lexes_split: "lexes b (ts @ us) d \<longleftrightarrow> (\<exists>c. lexes b ts c \<and> lexes c us d)"
  by (induction ts arbitrary: b) auto

lemma lex_blank: "lex (CHR '' '' # b) = lex b"
  by (simp add: lex_def skipWhitespace.simps [of "CHR '' '' # b"])

lemma no_blank:
  assumes "c \<notin> set '' /'' \<union> {CHR 0x0D, CHR 0x0A, CHR 0x09}"
  shows "lex (c # b) = lex_here (c # b)"
  using assms by (simp add: lex_def skipWhitespace.simps [of "c # b"])

lemma lex_punct:
  "lex (CHR ''('' # b) = Some (Token ''('' l_paren, b)"
  "lex (CHR '')'' # b) = Some (Token '')'' r_paren, b)"
  "lex (CHR '','' # b) = Some (Token '','' t_comma, b)"
  "lex (CHR '';'' # b) = Some (Token '';'' t_semicolon, b)"
  "lex (CHR '':'' # b) = Some (Token '':'' t_colon, b)"
  "lex (CHR ''~'' # b) = Some (Token ''~'' t_tilde, b)"
  by (simp_all add: no_blank lex_here_def drop_token_def)

lemma not_name_char: "\<not> canContinueName CHR '' ''" "\<not> canContinueName CHR ''(''" "\<not> canContinueName CHR '')''"
  "\<not> canContinueName CHR '',''" "\<not> canContinueName CHR '';''"
  by (simp_all add: canContinueName_def strchr_def letters_def)

lemma lex_question: "lex (CHR ''?'' # CHR '' '' # b) = Some (Token ''?'' t_question, CHR '' '' # b)"
  by (simp add: no_blank lex_here_def lex_default_def canStartNumber_def in_range_def of_char_def startswith_def
      stands_alone_def not_name_char drop_token_def)

lemma lex_minus:
  assumes "c \<notin> {CHR ''='', CHR ''l''}"
  shows "lex (CHR ''-'' # c # b) = Some (Token ''-'' t_minus, c # b)"
  using assms by (auto simp: no_blank lex_here_def startswith_def drop_token_def)

lemma skip_slash: "skipWhitespace (CHR ''/'' # CHR '' '' # b) = CHR ''/'' # CHR '' '' # b"
  by (simp add: skipWhitespace.simps [of "CHR ''/'' # CHR '' '' # b"])

lemma lex_binop: "lex (binop_text bop @ CHR '' '' # b) = Some (Token (binop_text bop) (binop_kind bop), CHR '' '' # b)"
proof (cases "bop = B_Div")
  case True
  then show ?thesis
    by (simp add: binop_text_def binop_kind_def lex_def skip_slash lex_here_def lex_default_def canStartNumber_def
        in_range_def of_char_def startswith_def stands_alone_def not_name_char drop_token_def)
next
  case False
  then show ?thesis
    by (cases bop) (simp_all add: binop_text_def binop_kind_def no_blank lex_here_def lex_default_def canStartNumber_def
        in_range_def of_char_def startswith_def stands_alone_def not_name_char drop_token_def Let_def)
qed

lemma lex_unop:
  assumes "u = U_Minus \<longrightarrow> c \<notin> {CHR ''='', CHR ''l''}"
  shows "lex (unop_text u @ c # b) = Some (Token (unop_text u) (unop_kind u), c # b)"
  using assms by (cases u) (simp_all add: unop_text_def unop_kind_def lex_minus lex_punct)

lemma takeWhile_stop: "list_all P xs \<Longrightarrow> \<not> P c \<Longrightarrow> takeWhile P (xs @ c # b) = xs"
  by (induction xs) auto

text \<open>The characters that \<open>lex\<close> and \<open>skipWhitespace\<close> treat apart.\<close>

definition special :: string where
  "special = ''(){}=!,;:&|+-<>~/*? '' @ [CHR 0x00, CHR 0x22, CHR 0x27, CHR 0x0D, CHR 0x0A, CHR 0x09]"

lemma special_apart:
  "list_all (\<lambda>x. x \<notin> set special \<and> \<not> canStartNumber x \<and> canStartName x) (letters @ ''_.$'')"
  "list_all (\<lambda>x. x \<notin> set special \<and> canStartNumber x \<and> canContinueNumber x) ''0123456789''"
  by (simp_all add: letters_def special_def canStartNumber_def canStartName_def canContinueNumber_def strchr_def
      in_range_def of_char_def)

lemma lex_not_special:
  assumes "c \<notin> set special"
  shows "lex (c # b) = (if canStartNumber c then lex_number (c # b)
    else if canStartName c then lex_name (c # b) else lex_unknown (c # b))"
proof -
  have "c \<notin> set '' /'' \<union> {CHR 0x0D, CHR 0x0A, CHR 0x09}" using assms by (auto simp: special_def)
  from no_blank [OF this] assms show ?thesis
    by (simp add: special_def lex_here_def lex_default_def startswith_def stands_alone_def)
qed

lemma lex_plain_name:
  assumes "s \<noteq> []" "hd s \<in> set (letters @ ''_.$'')" "list_all canContinueName (tl s)" "\<not> canContinueName c"
  shows "lex (s @ c # b) = Some (name_token s, c # b)"
proof -
  obtain h t where s: "s = h # t" using assms(1) by (cases s) auto
  with assms(2) have h: "h \<in> set (letters @ ''_.$'')" by simp
  have "takeWhile canContinueName (t @ c # b) = t"
    using assms(3,4) s by (simp add: takeWhile_stop)
  then have "lex_name (h # t @ c # b) = Some (name_token (h # t), c # b)"
    by (simp add: lex_name_def drop_token_def name_token_def)
  moreover have "h \<notin> set special" "\<not> canStartNumber h" "canStartName h"
    using special_apart(1) h unfolding list_all_iff by blast+
  ultimately show ?thesis using s by (simp add: lex_not_special)
qed

lemma ALIGN_name: "hd ''ALIGN'' \<in> set (letters @ ''_.$'')" "list_all canContinueName (tl ''ALIGN'')"
  by (simp_all add: letters_def canContinueName_def strchr_def)

lemma lex_name_token:
  assumes "plain_name s \<or> s = ''ALIGN''" "\<not> canContinueName c"
  shows "lex (s @ c # b) = Some (name_token s, c # b)"
  using assms ALIGN_name by (intro lex_plain_name) (auto simp only: plain_name_def list.distinct simp_thms)

lemma lex_dec_string:
  assumes "\<not> canContinueNumber c"
  shows "lex (dec_string n @ c # b) = Some (Token (dec_string n) t_number, c # b)"
proof -
  obtain h t where s: "dec_string n = h # t" using dec_string_nonempty [of n] by (cases "dec_string n") auto
  have h: "h \<in> set ''0123456789''" and t: "set t \<subseteq> set ''0123456789''" using dec_string_chars [of n] s by auto
  have digit: "x \<notin> set special \<and> canStartNumber x \<and> canContinueNumber x" if "x \<in> set ''0123456789''" for x
    using special_apart(2) that unfolding list_all_iff by blast
  have "takeWhile canContinueNumber (t @ c # b) = t"
    using t digit assms by (intro takeWhile_stop) (auto simp only: list_all_iff)
  then have "lex_number (h # t @ c # b) = Some (Token (h # t) t_number, c # b)"
    using digit [OF h] by (simp add: lex_number_def drop_token_def)
  then show ?thesis using s digit [OF h] by (simp add: lex_not_special)
qed

text \<open>The characters that follow an expression in what is printed.\<close>

definition delimiter :: "char \<Rightarrow> bool" where
  "delimiter c \<longleftrightarrow> c \<in> set '' ),;''"

lemma delimiter_ends: "delimiter c \<Longrightarrow> \<not> canContinueName c \<and> \<not> canContinueNumber c"
  by (auto simp: delimiter_def canContinueName_def canContinueNumber_def strchr_def letters_def)

lemma dump_nonempty: "printable c e \<Longrightarrow> dump e \<noteq> [] \<and> hd (dump e) \<noteq> CHR ''=''"
proof (induction e arbitrary: c rule: dump.induct)
  case (1 num)
  show ?case
    using dec_string_nonempty [of "unat num"] dec_string_chars [of "unat num"] by (cases "dec_string (unat num)") auto
next
  case (7 x y z)
  then show ?case using 7(1) [of False] by (auto simp: hd_append)
qed (auto simp: plain_name_def letters_def)

lemma lexes_blank: "ts \<noteq> [] \<Longrightarrow> lexes (CHR '' '' # b) ts c \<longleftrightarrow> lexes b ts c"
  by (cases ts) (simp_all add: lex_blank)

lemma toks_nonempty: "printable k e \<Longrightarrow> toks e \<noteq> []"
  by (induction e rule: toks.induct) auto

lemma delimiters: "delimiter CHR '' ''" "delimiter CHR '')''" "delimiter CHR '',''" "delimiter CHR '';''"
  by (simp_all add: delimiter_def)

definition lexes_dump :: "expr \<Rightarrow> bool" where
  "lexes_dump e \<longleftrightarrow> (\<forall>c b. delimiter c \<longrightarrow> lexes (dump e @ c # b) (toks e) (c # b))"

lemma lexes_dump_then:
  assumes "lexes_dump e" "delimiter c" "lexes (c # b) ts d"
  shows "lexes (dump e @ c # b) (toks e @ ts) d"
  using assms lexes_append unfolding lexes_dump_def by blast

lemma lexes_arguments:
  assumes "\<forall>e\<in>set es. lexes_dump e \<and> toks e \<noteq> []" "es \<noteq> []" "delimiter c" "lexes (c # b) ts d"
  shows "lexes (separated '', '' (map dump es) @ c # b) (sep_tokens (map toks es) @ ts) d"
  using assms
proof (induction es)
  case (Cons e es)
  show ?case
  proof (cases es)
    case Nil
    with Cons.prems show ?thesis by (simp add: lexes_dump_then)
  next
    case (Cons e2 es2)
    have "lexes (separated '', '' (map dump es) @ c # b) (sep_tokens (map toks es) @ ts) d"
      using Cons.IH Cons.prems Cons by simp
    moreover have "sep_tokens (map toks es) @ ts \<noteq> []"
      using Cons.prems(1) Cons by (cases es2) auto
    ultimately have "lexes ('', '' @ separated '', '' (map dump es) @ c # b)
        (Token '','' t_comma # sep_tokens (map toks es) @ ts) d"
      by (simp add: lex_punct lexes_blank)
    then have "lexes (dump e @ CHR '','' # CHR '' '' # separated '', '' (map dump es) @ c # b)
        (toks e @ Token '','' t_comma # sep_tokens (map toks es) @ ts) d"
      using Cons.prems(1) by (intro lexes_dump_then) (simp_all add: delimiters)
    then show ?thesis using Cons by simp
  qed
qed simp

lemma dump_lexes: "printable k e \<Longrightarrow> lexes_dump e"
proof (induction e arbitrary: k rule: dump.induct)
  case (1 num)
  show ?case using lex_dec_string delimiter_ends by (simp add: lexes_dump_def)
next
  case (2 name)
  then show ?case using lex_name_token delimiter_ends by (simp add: lexes_dump_def)
next
  case (3 name args)
  have a: "\<forall>e\<in>set args. lexes_dump e \<and> toks e \<noteq> []" "args \<noteq> []" "plain_name name \<or> name = ''ALIGN''"
    using 3 toks_nonempty by (auto simp: list_all_iff)
  show ?case
    unfolding lexes_dump_def
  proof (intro allI impI)
    fix c b
    have "lexes (separated '', '' (map dump args) @ CHR '')'' # c # b)
        (sep_tokens (map toks args) @ [Token '')'' r_paren]) (c # b)"
      by (intro lexes_arguments a delimiters) (simp add: lex_punct)
    then show "lexes (dump (FunctionCall name args) @ c # b) (toks (FunctionCall name args)) (c # b)"
      using lex_name_token [OF a(3), of "CHR ''(''"] by (simp add: lex_punct not_name_char)
  qed
next
  case (5 u child)
  have ch: "lexes_dump child" and u: "u = U_Minus \<longrightarrow> hd (dump child) \<notin> {CHR ''='', CHR ''l''}" "dump child \<noteq> []"
    using 5 dump_nonempty by auto
  show ?case
    unfolding lexes_dump_def
  proof (intro allI impI)
    fix c b
    have "lexes (dump child @ CHR '')'' # c # b) (toks child @ [Token '')'' r_paren]) (c # b)"
      by (intro lexes_dump_then ch delimiters) (simp add: lex_punct)
    moreover obtain h t where "dump child = h # t" using u(2) by (cases "dump child") auto
    ultimately show "lexes (dump (Unary u (Some child)) @ c # b) (toks (Unary u (Some child))) (c # b)"
      using lex_unop [of u h "t @ CHR '')'' # c # b"] u(1) by (simp add: lex_punct)
  qed
next
  case (6 x bop y)
  have x: "lexes_dump x" and y: "lexes_dump y" and n: "toks y \<noteq> []" using 6 toks_nonempty by auto
  show ?case
    unfolding lexes_dump_def
  proof (intro allI impI)
    fix c b
    have "lexes (dump y @ CHR '')'' # c # b) (toks y @ [Token '')'' r_paren]) (c # b)"
      by (intro lexes_dump_then y delimiters) (simp add: lex_punct)
    then have "lexes (dump x @ CHR '' '' # binop_text bop @ CHR '' '' # dump y @ CHR '')'' # c # b)
        (toks x @ Token (binop_text bop) (binop_kind bop) # toks y @ [Token '')'' r_paren]) (c # b)"
      using n by (intro lexes_dump_then x delimiters) (simp add: lexes_blank lex_blank lex_binop)
    then show "lexes (dump (BinOp x bop y) @ c # b) (toks (BinOp x bop y)) (c # b)"
      by (simp add: lex_punct)
  qed
next
  case (7 x y z)
  have l: "lexes_dump x" "lexes_dump y" "lexes_dump z" and n: "toks y \<noteq> []" "toks z \<noteq> []"
    using 7 toks_nonempty by auto
  show ?case
    unfolding lexes_dump_def
  proof (intro allI impI)
    fix c b
    assume "delimiter c"
    then have "lexes (dump z @ c # b) (toks z) (c # b)" using l(3) by (simp add: lexes_dump_def)
    then have "lexes (dump y @ CHR '' '' # CHR '':'' # CHR '' '' # dump z @ c # b)
        (toks y @ Token '':'' t_colon # toks z) (c # b)"
      using n by (intro lexes_dump_then l delimiters) (simp add: lexes_blank lex_blank lex_punct)
    then have "lexes (dump x @ CHR '' '' # CHR ''?'' # CHR '' '' # dump y @ CHR '' '' # CHR '':'' # CHR '' '' # dump z @ c # b)
        (toks x @ Token ''?'' t_question # toks y @ Token '':'' t_colon # toks z) (c # b)"
      using n by (intro lexes_dump_then l delimiters) (simp add: lexes_blank lex_blank lex_question)
    then show "lexes (dump (TernaryConditional x y z) @ c # b) (toks (TernaryConditional x y z)) (c # b)"
      by simp
  qed
qed simp

text \<open>A parser before a text: it has taken the first token, as \<open>Parser::parse\<close> does.\<close>

definition open_text :: "string \<Rightarrow> parser option" where
  "open_text b =
    (case lex b of None \<Rightarrow> None | Some (t, c) \<Rightarrow> Some \<lparr>tok = t, peeked = None, buffer = c\<rparr>)"

lemma open_text_ahead:
  assumes "lexes b ts c" "ts \<noteq> []"
  shows "\<exists>p. open_text b = Some p \<and> ahead p ts c"
  using assms by (cases ts) (auto simp: open_text_def ahead_def)

text \<open>C7: Printing and parsing. The text that \<open>dump\<close> prints for an expression, lexed and parsed again, gives the same
  expression and leaves what follows it, for expressions whose names are plain identifiers, whose calls have an
  argument, and in which no conditional is an operand and no minus sign comes before a name with a small l.\<close>

theorem dump_parses_back:
  assumes "printable True e"
  shows "\<exists>p. open_text (dump e @ '';'' @ b) = Some p \<and>
    parseExpression 13 p = Ret e \<lparr>tok = Token '';'' t_semicolon, peeked = None, buffer = b\<rparr>"
proof -
  have "lexes (dump e @ '';'' @ b) (toks e @ [Token '';'' t_semicolon]) b"
    using lexes_dump_then [OF dump_lexes [OF assms] delimiters(4), of b "[Token '';'' t_semicolon]" b]
    by (simp add: lex_punct)
  from open_text_ahead [OF this] obtain p where p: "open_text (dump e @ '';'' @ b) = Some p"
      "ahead p (toks e @ Token '';'' t_semicolon # []) b" by auto
  have "must_end 13 (Token '';'' t_semicolon)" by (simp add: separators_end)
  from reads_phraseD [OF phrase_reads p(2) this] printable_grammar assms
  obtain q where q: "parseExpression 13 p = Ret e q" "ahead q [Token '';'' t_semicolon] b" by blast
  have "q = \<lparr>tok = Token '';'' t_semicolon, peeked = None, buffer = b\<rparr>"
    using q(2) by (cases q) (auto simp: ahead_def split: option.splits)
  with p(1) q(1) show ?thesis by blast
qed

section \<open>The value is the exact one\<close>

text \<open>
  What an expression means over the integers, with no bound on their size: division truncates, a shift to the
  right rounds down, the bitwise operators are those of two's complement.
\<close>

definition truth :: "bool \<Rightarrow> int" where
  "truth b = (if b then 1 else 0)"

definition int_binop :: "binop \<Rightarrow> int \<Rightarrow> int \<Rightarrow> int" where
  "int_binop bop x y =
    (case bop of
       B_And \<Rightarrow> x AND y | B_Or \<Rightarrow> x OR y
     | B_CompareDifferent \<Rightarrow> truth (x \<noteq> y) | B_CompareEqual \<Rightarrow> truth (x = y)
     | B_CompareGreater \<Rightarrow> truth (x > y) | B_CompareGreaterEqual \<Rightarrow> truth (x \<ge> y)
     | B_CompareLess \<Rightarrow> truth (x < y) | B_CompareLessEqual \<Rightarrow> truth (x \<le> y)
     | B_Div \<Rightarrow> sgn x * sgn y * (\<bar>x\<bar> div \<bar>y\<bar>)
     | B_Mul \<Rightarrow> x * y | B_Sub \<Rightarrow> x - y | B_Sum \<Rightarrow> x + y
     | B_Shl \<Rightarrow> x * 2 ^ nat y | B_Shr \<Rightarrow> x div 2 ^ nat y)"

fun meaning :: "(string \<Rightarrow> int) \<Rightarrow> expr \<Rightarrow> int" where
  "meaning \<sigma> (Constant v) = sint v"
| "meaning \<sigma> (Symbol s) = \<sigma> s"
| "meaning \<sigma> (FunctionCall s es) = 0"
| "meaning \<sigma> (Unary u None) = 0"
| "meaning \<sigma> (Unary U_Minus (Some e)) = - meaning \<sigma> e"
| "meaning \<sigma> (Unary U_Not (Some e)) = - meaning \<sigma> e - 1"
| "meaning \<sigma> (BinOp x bop y) = int_binop bop (meaning \<sigma> x) (meaning \<sigma> y)"
| "meaning \<sigma> (TernaryConditional x y z) = (if meaning \<sigma> x \<noteq> 0 then meaning \<sigma> y else meaning \<sigma> z)"

lemma int64_exact: "int64 i = Inr v \<Longrightarrow> sint v = i"
  by (auto simp: int64_def sint_sbintrunc' signed_take_bit_int_eq_self split: if_splits)

lemma of_truth_exact: "of_truth b = Inr v \<Longrightarrow> sint v = truth b"
  by (auto simp: of_truth_def truth_def)

lemma nat_sint: "0 \<le> sint (y::u64) \<Longrightarrow> nat (sint y) = unat y"
proof -
  assume a: "0 \<le> sint y"
  have "uint y = sint y"
    using a sint_lt [of y] by (simp add: uint_sint take_bit_int_eq_self)
  then show ?thesis by (metis nat_uint_eq)
qed

lemma sint_shr: "sint (signed_drop_bit n (x::u64)) = sint x div 2 ^ n"
  by (simp add: sint_signed_drop_bit_eq drop_bit_eq_div)

lemma sint_inject: "(x::u64) = y \<longleftrightarrow> sint x = sint y"
  by (rule word_eq_iff_signed)

lemma sint_not: "sint (NOT (x::u64)) = - sint x - 1"
  using sint_lt [of x] sint_ge [of x]
  by (simp add: signed_not_eq not_int_def signed_take_bit_int_eq_self)

lemma evalBinOp_exact: "evalBinOp bop x y = Inr v \<Longrightarrow> sint v = int_binop bop (sint x) (sint y)"
  by (cases bop) (auto simp: evalBinOp_def int_binop_def int64_exact of_truth_exact signed_and_eq signed_or_eq
      nat_sint sint_shr signed_divide_int_def sint_inject split: if_splits dest: int64_exact of_truth_exact)

lemma evalUnary_exact:
  assumes "evalUnary u x = Inr v"
  shows "sint v = (case u of U_Minus \<Rightarrow> - sint x | U_Not \<Rightarrow> - sint x - 1)"
  using assms by (cases u) (auto simp: evalUnary_def sint_not dest: int64_exact)

text \<open>C11: When an expression has a value, that value is exact: it is the number the expression means over the unbounded
  integers, with the symbols and constants read as signed 64-bit numbers.\<close>

theorem evalExpr_exact:
  assumes "evalExpr symbols e = Inr v" "\<forall>s w. symbols s = Some w \<longrightarrow> \<sigma> s = sint w"
  shows "meaning \<sigma> e = sint v"
  using assms
proof (induction symbols e arbitrary: v rule: evalExpr.induct)
  case (5 st u child)
  from 5(2) obtain w where w: "evalExpr st child = Inr w" "evalUnary u w = Inr v" by (auto simp: res_simps)
  with 5(1,3) evalUnary_exact [OF w(2)] show ?case by (cases u) auto
next
  case (6 st x bop y)
  then show ?case by (auto simp: res_simps dest!: evalBinOp_exact)
next
  case (7 st x y z)
  then show ?case using sint_inject [of _ 0] by (fastforce simp: res_simps split: if_splits)
qed (auto split: option.splits)

section \<open>Examples\<close>

text \<open>
  What is not read back as it was. A call without arguments takes its name from the token after its closing
  parenthesis; a conditional is printed without parentheses, so an operator printed after it goes into its last
  branch; and a minus sign before a name that starts with l is read as the option that names a library.
\<close>

lemma call_without_arguments:
  assumes "kind_of f = t_identifier" "kind_of l = l_paren" "kind_of r = r_paren" "must_end 13 t"
    and "ahead p (f # l # r # t # rest) c"
  shows "\<exists>q. parseExpression 13 p = Ret (FunctionCall (range_of t) []) q \<and> ahead q (t # rest) c"
proof -
  obtain q1 where q1: "peek p = Ret l q1" "ahead q1 (f # l # r # t # rest) c"
    using ahead_peek [OF assms(5)] by blast
  obtain q2 where q2: "consumeToken q1 = Ret () q2" "ahead q2 (l # r # t # rest) c"
    using ahead_consume [OF q1(2)] by blast
  obtain q3 where q3: "expectAndConsume l_paren q2 = Ret () q3" "ahead q3 (r # t # rest) c"
    using ahead_expect [OF q2(2) assms(2)] by blast
  obtain q4 where q4: "consumeToken q3 = Ret () q4" "ahead q4 (t # rest) c"
    using ahead_consume [OF q3(2)] by blast
  have tk: "tok p = f" "tok q1 = f" "tok q3 = r" "tok q4 = t"
    using assms(5) q1(2) q3(2) q4(2) by (auto dest: ahead_tok)
  have "parseFunctionCall q1 = Ret (FunctionCall (range_of t) []) q4"
    using q2 q3 q4 tk assms(1,3) by (simp add: parseFunctionCall_eq)
  with q1(1) tk assms(1,2) have o: "expectExprOperand p" "parseExprOperand p = Ret (FunctionCall (range_of t) []) q4"
    by (simp_all add: parseExprOperand_eq [of p] expectExprOperand_def)
  with parseExpression_operand [OF o, of 13] operators_end [of 13 q4 "FunctionCall (range_of t) []"] assms(4) tk(4) q4(2)
  show ?thesis by auto
qed

lemma conditional_printed_open:
  "dump (BinOp (TernaryConditional x y z) bop w) =
    ''('' @ dump x @ '' ? '' @ dump y @ '' : '' @ dump z @ '' '' @ binop_text bop @ '' '' @ dump w @ '')''"
  by simp

lemma minus_l_is_library: "lex ''-len)'' = Some (Token ''en'' t_libname, '')'')"
  by (simp add: no_blank lex_here_def startswith_def lex_libname_def canStartName_def canContinueName_def strchr_def
      letters_def drop_token_def)

theorem parser_follows_grammar_witness:
  "\<exists>q. parseExpression 13 \<lparr>tok = Token ''a'' t_identifier, peeked = None, buffer = '' - b * c ;''\<rparr> =
    Ret (BinOp (Symbol ''a'') B_Sub (BinOp (Symbol ''b'') B_Mul (Symbol ''c''))) q"
proof -
  let ?t = "\<lambda>s. Token s t_identifier" and ?p = "\<lparr>tok = Token ''a'' t_identifier, peeked = None, buffer = '' - b * c ;''\<rparr>"
  let ?ts = "[?t ''b''] @ Token ''*'' t_star # [?t ''c'']"
  have s: "operand (Symbol s) [?t s]" for s using symbol [of "?t s"] by simp
  have "phrase 3 (BinOp (Symbol ''b'') B_Mul (Symbol ''c'')) ?ts"
    by (intro binary [of _ _ 3] plain s) (simp_all add: TokenToBinOp_def)
  then have "phrase 13 (BinOp (Symbol ''a'') B_Sub (BinOp (Symbol ''b'') B_Mul (Symbol ''c'')))
      ([?t ''a''] @ Token ''-'' t_minus # ?ts)"
    using binary [of "Token ''-'' t_minus" B_Sub 4 13 "Symbol ''a''" "[?t ''a'']"] plain [OF s, of 4 "''a''"]
    by (simp add: TokenToBinOp_def)
  moreover have n: "plain_name ''b''" "plain_name ''c''"
    by (simp_all add: plain_name_def letters_def keyword_kind_def script_keywords_def)
  have "ahead ?p (([?t ''a''] @ Token ''-'' t_minus # ?ts) @ Token '';'' t_semicolon # []) []"
    using lex_name_token [of "''b''" "CHR '' ''" "''* c ;''"] lex_name_token [of "''c''" "CHR '' ''" "'';''"] n
      lex_binop [of B_Sub "''b * c ;''"] lex_binop [of B_Mul "''c ;''"]
    by (simp add: ahead_def lex_blank lex_punct not_name_char name_token_def binop_text_def binop_kind_def plain_name_def)
  moreover have "must_end 13 (Token '';'' t_semicolon)" by (simp add: separators_end)
  ultimately show ?thesis using parser_follows_grammar by blast
qed

theorem dump_parses_back_witness:
  "\<exists>p q. open_text (dump (BinOp (Unary U_Minus (Some (Symbol ''x''))) B_Shl (Constant 3)) @ '';'' @ []) = Some p \<and>
    parseExpression 13 p = Ret (BinOp (Unary U_Minus (Some (Symbol ''x''))) B_Shl (Constant 3)) q"
  using dump_parses_back [of "BinOp (Unary U_Minus (Some (Symbol ''x''))) B_Shl (Constant 3)" "[]"]
  by (fastforce simp: plain_name_def letters_def keyword_kind_def script_keywords_def)

theorem evalExpr_exact_witness:
  "meaning (\<lambda>s. 4096) (BinOp (Symbol ''.'') B_Sum (Constant 16)) = sint (4112 :: u64)"
proof (rule evalExpr_exact [of "[''.'' \<mapsto> 4096]"])
  show "evalExpr [''.'' \<mapsto> 4096] (BinOp (Symbol ''.'') B_Sum (Constant 16)) = Inr 4112"
    by (simp add: evalBinOp_def int64_def)
qed simp

end
