(* ===== verification/Script_Commands.thy ===== *)
theory Script_Commands
  imports Script_Expr
begin

text \<open>
  The commands of linker scripts: their syntax trees (class Command and its subclasses) and the recursive descent
  parser for them (\<open>Parser::parse\<close> and the functions it calls). Messages are left out. The numbers of the
  segment types are those of llvm/Support/ELF.h, which is not in the repository: the parameter \<open>elf\<close>.
\<close>

section \<open>Syntax trees\<close>

datatype assignment_kind = A_Simple | A_Sum | A_Sub | A_Mul | A_Div | A_Shl | A_Shr | A_And | A_Or

datatype visibility = V_Default | V_Hidden | V_Provide | V_ProvideHidden

record symbol_assignment =
  sa_expr :: expr
  sa_symbol :: string
  sa_kind :: assignment_kind
  sa_visibility :: visibility

text \<open>The constructor has a parameter for the kind of assignment, but it initialises the field with \<open>Simple\<close>.\<close>

definition SymbolAssignment :: "string \<Rightarrow> expr \<Rightarrow> assignment_kind \<Rightarrow> visibility \<Rightarrow> symbol_assignment" where
  "SymbolAssignment name expr kind vis =
    \<lparr>sa_expr = expr, sa_symbol = name, sa_kind = A_Simple, sa_visibility = vis\<rparr>"

datatype sort_mode =
    S_NA | S_ByAlignment | S_ByAlignmentAndName | S_ByInitPriority | S_ByName | S_ByNameAndAlignment | S_None

datatype input_section =
    InputSectionName string bool
  | InputSectionSortedGroup sort_mode "input_section list"

record input_sections =
  memberName :: string
  archiveName :: string
  keep :: bool
  fileSortMode :: sort_mode
  archiveSortMode :: sort_mode
  in_sections :: "input_section list"

datatype constraint = C_None | C_OnlyIfRO | C_OnlyIfRW

datatype output_section_command =
    OSC_Assignment symbol_assignment
  | OSC_Input input_sections
  | OSC_Fill "u8 list"

record output_section =
  os_name :: string
  os_address :: "expr option"
  os_align :: "expr option"
  os_subAlign :: "expr option"
  os_at :: "expr option"
  os_fillExpr :: "expr option"
  os_fillStream :: "u8 list"
  os_alignWithInput :: bool
  os_discard :: bool
  os_constraint :: constraint
  os_commands :: "output_section_command list"
  os_phdrs :: "string list"

record phdr =
  ph_name :: string
  ph_type :: u64
  ph_includeFileHdr :: bool
  ph_includePHDRs :: bool
  ph_at :: "expr option"
  ph_flags :: u64

record memory_block =
  mb_name :: string
  mb_attr :: string
  mb_origin :: expr
  mb_length :: expr

record path =
  path_of :: string
  asNeeded :: bool
  isDashlPrefix :: bool

datatype sections_command =
    SC_Assignment symbol_assignment
  | SC_Output output_section
  | SC_Entry string

datatype script_command =
    Output string
  | OutputFormat "string list"
  | OutputArch string
  | Input "path list"
  | Group "path list"
  | Entry string
  | SearchDir string
  | PHDRS "phdr list"
  | Sections "sections_command list"
  | Assignment symbol_assignment
  | Memory "memory_block list"
  | Extern "string list"

section \<open>Commands with names\<close>

text \<open>\<open>if (_tok._kind != identifier) return nullptr; x = _tok._range; consumeToken();\<close>\<close>

definition ident :: "(string \<Rightarrow> parser \<Rightarrow> 'a res) \<Rightarrow> parser \<Rightarrow> 'a res" where
  "ident f p = (if kindP p \<noteq> t_identifier then Null p else skip (f (rangeP p)) p)"

definition parseOutput :: "parser \<Rightarrow> script_command res" where
  "parseOutput = skip (eat l_paren (ident (\<lambda>name. eat r_paren (Ret (Output name)))))"

definition parseOutputArch :: "parser \<Rightarrow> script_command res" where
  "parseOutputArch = skip (eat l_paren (ident (\<lambda>name. eat r_paren (Ret (OutputArch name)))))"

definition parseEntry :: "parser \<Rightarrow> string res" where
  "parseEntry = skip (eat l_paren (ident (\<lambda>name. eat r_paren (Ret name))))"

definition parseSearchDir :: "parser \<Rightarrow> script_command res" where
  "parseSearchDir = skip (eat l_paren (ident (\<lambda>name. eat r_paren (Ret (SearchDir name)))))"

definition parseOutputFormat :: "parser \<Rightarrow> script_command res" where
  "parseOutputFormat =
    skip (eat l_paren (ident (\<lambda>name p.
      bindP (many (\<lambda>p. kindP p = t_comma) (skip (ident Ret)) p) (\<lambda>names.
      eat r_paren (Ret (OutputFormat (name # names)))))))"

definition parseExtern :: "parser \<Rightarrow> script_command res" where
  "parseExtern =
    skip (eat l_paren (ident (\<lambda>name p.
      bindP (many (\<lambda>p. kindP p = t_identifier) (ident Ret) p) (\<lambda>names.
      eat r_paren (Ret (Extern (name # names)))))))"

definition needed_starts :: "kind set" where
  "needed_starts = {t_identifier, t_libname}"

definition path_starts :: "kind set" where
  "path_starts = {t_identifier, t_libname, kw_as_needed}"

definition path_here :: "bool \<Rightarrow> parser \<Rightarrow> path res" where
  "path_here needed p =
    skip (Ret \<lparr>path_of = rangeP p, asNeeded = needed, isDashlPrefix = (kindP p = t_libname)\<rparr>) p"

definition parseAsNeeded :: "parser \<Rightarrow> path list res" where
  "parseAsNeeded =
    skip (eat l_paren (\<lambda>p.
      bindP (many (\<lambda>p. kindP p \<in> needed_starts) (path_here True) p) (\<lambda>paths.
      eat r_paren (Ret paths))))"

definition path_item :: "parser \<Rightarrow> path list res" where
  "path_item p =
    (if kindP p = kw_as_needed then parseAsNeeded p
     else bindP (path_here False p) (\<lambda>x. Ret [x]))"

definition parsePathList :: "(path list \<Rightarrow> script_command) \<Rightarrow> parser \<Rightarrow> script_command res" where
  "parsePathList T =
    skip (eat l_paren (\<lambda>p.
      bindP (many (\<lambda>p. kindP p \<in> path_starts) path_item p) (\<lambda>paths.
      eat r_paren (Ret (T (concat paths))))))"

section \<open>Assignments\<close>

definition assignment_op :: "kind \<Rightarrow> assignment_kind option" where
  "assignment_op k =
    map_of [(t_equal, A_Simple), (t_plusequal, A_Sum), (t_minusequal, A_Sub), (t_starequal, A_Mul),
            (t_slashequal, A_Div), (t_ampequal, A_And), (t_pipeequal, A_Or), (t_lesslessequal, A_Shl),
            (t_greatergreaterequal, A_Shr)] k"

text \<open>\<open>visible\<close> is the first \<open>switch\<close>: it consumes \<open>HIDDEN(\<close> and its like, and counts the parenthesis.\<close>

definition visible :: "(visibility \<Rightarrow> nat \<Rightarrow> parser \<Rightarrow> 'a res) \<Rightarrow> parser \<Rightarrow> 'a res" where
  "visible f p =
    (if kindP p = kw_hidden then skip (eat l_paren (f V_Hidden 1)) p
     else if kindP p = kw_provide then skip (eat l_paren (f V_Provide 1)) p
     else if kindP p = kw_provide_hidden then skip (eat l_paren (f V_ProvideHidden 1)) p
     else f V_Default 0 p)"

definition parseSymbolAssignment :: "parser \<Rightarrow> symbol_assignment res" where
  "parseSymbolAssignment =
    visible (\<lambda>visibility numParen p.
      let name = rangeP p in
      skip (\<lambda>p.
        case assignment_op (kindP p) of
          None \<Rightarrow> Null p
        | Some kind \<Rightarrow>
            skip (\<lambda>p.
              if kindP p \<in> {t_number, kw_align, t_identifier, l_paren} then
                bindP (parseExpression 13 p) (\<lambda>expr p.
                bindP (expectTimes numParen r_paren p) (\<lambda>_.
                Ret (SymbolAssignment name expr kind visibility)))
              else Null p) p) p)"

section \<open>Input sections\<close>

definition sort_keywords :: "kind set" where
  "sort_keywords = {kw_sort_by_name, kw_sort_by_alignment, kw_sort_by_init_priority, kw_sort_none}"

text \<open>Each \<open>if\<close> of \<open>parseSortDirectives\<close>, with the rest of the function after it.\<close>

definition sort_directive ::
  "bool \<Rightarrow> kind \<Rightarrow> (sort_mode \<Rightarrow> sort_mode) \<Rightarrow> (nat \<Rightarrow> sort_mode \<Rightarrow> parser \<Rightarrow> 'a res) \<Rightarrow>
    nat \<Rightarrow> sort_mode \<Rightarrow> parser \<Rightarrow> 'a res" where
  "sort_directive cond k upd f n mode p =
    (if cond \<and> kindP p = k then skip (eat l_paren (f (n + 1) (upd mode))) p else f n mode p)"

definition parseSortDirectives :: "(nat \<Rightarrow> sort_mode \<Rightarrow> parser \<Rightarrow> 'a res) \<Rightarrow> parser \<Rightarrow> 'a res" where
  "parseSortDirectives f =
    sort_directive True kw_sort_by_name (\<lambda>_. S_ByName) (
    sort_directive True kw_sort_by_init_priority (\<lambda>_. S_ByInitPriority) (
    sort_directive True kw_sort_by_alignment
      (\<lambda>mode. if mode \<noteq> S_ByName then S_ByAlignment else S_ByNameAndAlignment) (\<lambda>n.
    sort_directive (n < 2) kw_sort_by_name
      (\<lambda>mode. if mode = S_ByAlignment then S_ByAlignmentAndName else mode) (\<lambda>n.
    sort_directive (n < 2) kw_sort_by_alignment (\<lambda>mode. mode) (\<lambda>n.
    sort_directive (n = 0) kw_sort_none (\<lambda>_. S_None) f n) n) n))) 0 S_NA"

definition section_name :: "bool \<Rightarrow> parser \<Rightarrow> input_section res" where
  "section_name excludeFile p = skip (Ret (InputSectionName (rangeP p) excludeFile)) p"

definition parseExcludeFile :: "parser \<Rightarrow> input_section list res" where
  "parseExcludeFile =
    skip (eat l_paren (\<lambda>p.
      bindP (many (\<lambda>p. kindP p = t_identifier) (section_name True) p) (\<lambda>res.
      eat r_paren (Ret res))))"

definition parseSortedInputSections :: "parser \<Rightarrow> input_section res" where
  "parseSortedInputSections =
    parseSortDirectives (\<lambda>numParen sortMode p.
      bindP (many (\<lambda>p. kindP p = t_identifier) (section_name False) p) (\<lambda>sections p.
      bindP (expectTimes numParen r_paren p) (\<lambda>_. Ret (InputSectionSortedGroup sortMode sections))))"

definition input_starts :: "kind set" where
  "input_starts = {t_identifier, kw_exclude_file} \<union> sort_keywords"

definition input_item :: "parser \<Rightarrow> input_section list res" where
  "input_item p =
    (if kindP p = kw_exclude_file then parseExcludeFile p
     else if kindP p = t_identifier then bindP (section_name False p) (\<lambda>s. Ret [s])
     else bindP (parseSortedInputSections p) (\<lambda>s. Ret [s]))"

text \<open>The name of a file or an archive, maybe inside sort directives: any token does.\<close>

definition sorted_name :: "(sort_mode \<Rightarrow> string \<Rightarrow> parser \<Rightarrow> 'a res) \<Rightarrow> parser \<Rightarrow> 'a res" where
  "sorted_name f =
    parseSortDirectives (\<lambda>numParen sortMode p.
      let name = rangeP p in
      skip (\<lambda>p. bindP (expectTimes numParen r_paren p) (\<lambda>_. f sortMode name)) p)"

definition archive_part :: "(sort_mode \<Rightarrow> string \<Rightarrow> parser \<Rightarrow> 'a res) \<Rightarrow> parser \<Rightarrow> 'a res" where
  "archive_part f p =
    (if kindP p = t_colon then
       skip (\<lambda>p. if kindP p \<in> insert t_identifier sort_keywords then sorted_name f p else f S_NA [] p) p
     else f S_NA [] p)"

definition member_part :: "(sort_mode \<Rightarrow> string \<Rightarrow> parser \<Rightarrow> 'a res) \<Rightarrow> parser \<Rightarrow> 'a res" where
  "member_part f p = (if kindP p \<noteq> t_colon then sorted_name f p else f S_NA [] p)"

definition section_list :: "nat \<Rightarrow> (input_section list \<Rightarrow> input_sections) \<Rightarrow> parser \<Rightarrow> input_sections res" where
  "section_list numParen cmd p =
    (if kindP p \<noteq> l_paren then Ret (cmd []) p
     else skip (\<lambda>p.
       bindP (many (\<lambda>p. kindP p \<in> input_starts) input_item p) (\<lambda>sections p.
       bindP (expectTimes numParen r_paren p) (\<lambda>_. Ret (cmd (concat sections))))) p)"

definition input_names :: "bool \<Rightarrow> nat \<Rightarrow> parser \<Rightarrow> input_sections res" where
  "input_names kept numParen =
    member_part (\<lambda>fileMode memberName.
    archive_part (\<lambda>archiveMode archiveName.
    section_list numParen (\<lambda>sections.
      \<lparr>memberName = memberName, archiveName = archiveName, keep = kept, fileSortMode = fileMode,
       archiveSortMode = archiveMode, in_sections = sections\<rparr>)))"

definition parseInputSectionsCmd :: "parser \<Rightarrow> input_sections res" where
  "parseInputSectionsCmd p =
    (if kindP p = kw_keep then skip (eat l_paren (input_names True 2)) p else input_names False 1 p)"

section \<open>Output sections\<close>

text \<open>
  The digits of \<open>FILL(0x...)\<close>. The loop leaves its nibbles behind when it meets a character that is no
  hexadecimal digit; the result says whether it went through.
\<close>

fun fill_nibbles :: "u8 list \<Rightarrow> string \<Rightarrow> u8 list \<times> bool" where
  "fill_nibbles storage [] = (storage, True)"
| "fill_nibbles storage (c # cs) =
    (case hexDigit c of None \<Rightarrow> (storage, False) | Some nibble \<Rightarrow> fill_nibbles (storage @ [ucast nibble]) cs)"

fun collapse :: "u8 list \<Rightarrow> u8 list" where
  "collapse (hi # lo # rest) = (push_bit 4 hi + lo) # collapse rest"
| "collapse _ = []"

definition fill_storage :: "string \<Rightarrow> u8 list" where
  "fill_storage word =
    (if length word > 2 \<and> startswith word ''0x'' then
       let (storage, simple) = fill_nibbles [] (drop 2 word) in
       if \<not> simple then storage
       else collapse (if length storage mod 2 \<noteq> 0 then 0 # storage else storage)
     else [])"

definition parseFillCmd :: "parser \<Rightarrow> u8 list res" where
  "parseFillCmd =
    skip (eat l_paren (\<lambda>p.
      bindP (if kindP p = t_number then bindP (peek p) (\<lambda>t. Ret (kind_of t = r_paren)) else Ret False p) (\<lambda>simple p.
      let storage = (if simple then fill_storage (rangeP p) else []) in
      bindP (parseExpression 13 p) (\<lambda>_. eat r_paren (Ret storage)))))"

text \<open>\<open>if (_tok._kind == k) { consumeToken(); x = parseExpression(); if (!x) return nullptr; }\<close>\<close>

definition optional_expr :: "kind \<Rightarrow> (expr option \<Rightarrow> parser \<Rightarrow> 'a res) \<Rightarrow> parser \<Rightarrow> 'a res" where
  "optional_expr k f p =
    (if kindP p = k then skip (\<lambda>p. bindP (parseExpression 13 p) (\<lambda>e. f (Some e))) p else f None p)"

definition is_assignment :: "kind \<Rightarrow> bool" where
  "is_assignment k \<longleftrightarrow> assignment_op k \<noteq> None"

definition os_item :: "parser \<Rightarrow> output_section_command list res" where
  "os_item p =
    (let assignment = (\<lambda>p. bindP (parseSymbolAssignment p) (\<lambda>c. Ret [OSC_Assignment c]));
         input = (\<lambda>p. bindP (parseInputSectionsCmd p) (\<lambda>c. Ret [OSC_Input c])) in
     if kindP p = t_semicolon then skip (Ret []) p
     else if kindP p = t_identifier then
       bindP (peek p) (\<lambda>t p. if is_assignment (kind_of t) then assignment p else input p)
     else if kindP p = kw_fill then bindP (parseFillCmd p) (\<lambda>c. Ret [OSC_Fill c])
     else if kindP p \<in> {kw_keep, t_star, t_colon} \<union> sort_keywords then input p
     else if kindP p \<in> {kw_hidden, kw_provide, kw_provide_hidden} then assignment p
     else Null p)"

definition fill_part :: "(expr option \<Rightarrow> u8 list \<Rightarrow> parser \<Rightarrow> 'a res) \<Rightarrow> parser \<Rightarrow> 'a res" where
  "fill_part f p =
    (let expr = (\<lambda>p. bindP (parseExpression 13 p) (\<lambda>e. f (Some e) [])) in
     if kindP p \<noteq> t_equal then f None [] p
     else skip (\<lambda>p.
       if kindP p \<noteq> t_number \<or> \<not> (startswith (rangeP p) ''0x'' \<or> startswith (rangeP p) ''0X'') then expr p
       else bindP (peek p) (\<lambda>t p.
         if isExpressionOperator (kind_of t) then expr p
         else case parseHexToByteStream (drop 2 (rangeP p)) of
           None \<Rightarrow> expr p
         | Some strBuf \<Rightarrow> skip (f None strBuf) p)) p)"

definition constraint_part :: "(constraint \<Rightarrow> parser \<Rightarrow> 'a res) \<Rightarrow> parser \<Rightarrow> 'a res" where
  "constraint_part f p =
    (if kindP p = kw_only_if_ro then skip (f C_OnlyIfRO) p
     else if kindP p = kw_only_if_rw then skip (f C_OnlyIfRW) p
     else f C_None p)"

definition align_with_input :: "(bool \<Rightarrow> parser \<Rightarrow> 'a res) \<Rightarrow> parser \<Rightarrow> 'a res" where
  "align_with_input f p = (if kindP p = kw_align_with_input then skip (f True) p else f False p)"

definition address_part :: "(expr option \<Rightarrow> parser \<Rightarrow> 'a res) \<Rightarrow> parser \<Rightarrow> 'a res" where
  "address_part f p =
    (if kindP p \<in> {t_number, t_identifier, kw_align, l_paren}
     then bindP (parseExpression 13 p) (\<lambda>e. f (Some e)) else f None p)"

definition parseOutputSectionDescription :: "parser \<Rightarrow> output_section res" where
  "parseOutputSectionDescription p =
    (if kindP p \<notin> {kw_discard, t_identifier} then Undefined
     else let discard = (kindP p = kw_discard); sectionName = (if discard then [] else rangeP p) in
     skip (
     address_part (\<lambda>address.
     eat t_colon (
     optional_expr kw_at (\<lambda>at.
     optional_expr kw_align (\<lambda>align.
     align_with_input (\<lambda>alignWithInput.
     optional_expr kw_subalign (\<lambda>subAlign.
     constraint_part (\<lambda>constr.
     eat l_brace (\<lambda>p.
     bindP (many (\<lambda>p. kindP p \<noteq> r_brace) os_item p) (\<lambda>commands.
     eat r_brace (\<lambda>p.
     bindP (many (\<lambda>p. kindP p = t_colon) (skip (ident Ret)) p) (\<lambda>phdrs.
     fill_part (\<lambda>fillExpr fillStream.
     Ret \<lparr>os_name = sectionName, os_address = address, os_align = align, os_subAlign = subAlign, os_at = at,
       os_fillExpr = fillExpr, os_fillStream = fillStream, os_alignWithInput = alignWithInput,
       os_discard = discard, os_constraint = constr, os_commands = concat commands, os_phdrs = phdrs\<rparr>)))))))))))) ) p)"

section \<open>Program headers, sections, memory\<close>

definition phdr_types :: "string list" where
  "phdr_types =
    [''PT_NULL'', ''PT_LOAD'', ''PT_DYNAMIC'', ''PT_INTERP'', ''PT_NOTE'', ''PT_SHLIB'', ''PT_PHDR'', ''PT_TLS'',
     ''PT_LOOS'', ''PT_GNU_EH_FRAME'', ''PT_GNU_STACK'', ''PT_GNU_RELRO'', ''PT_SUNW_EH_FRAME'',
     ''PT_SUNW_UNWIND'', ''PT_HIOS'', ''PT_LOPROC'', ''PT_ARM_ARCHEXT'', ''PT_ARM_EXIDX'', ''PT_ARM_UNWIND'',
     ''PT_MIPS_REGINFO'', ''PT_MIPS_RTPROC'', ''PT_MIPS_OPTIONS'', ''PT_MIPS_ABIFLAGS'', ''PT_HIPROC'']"

text \<open>The value of an expression while parsing: an error of the code is a null pointer.\<close>

definition valueP :: "(string \<rightharpoonup> u64) \<Rightarrow> expr \<Rightarrow> parser \<Rightarrow> u64 res" where
  "valueP symbols e p =
    (case evalExpr symbols e of
       Inr v \<Rightarrow> Ret v p
     | Inl undefined_behaviour \<Rightarrow> Undefined
     | Inl _ \<Rightarrow> Null p)"

definition flags_part :: "(u64 \<Rightarrow> parser \<Rightarrow> 'a res) \<Rightarrow> parser \<Rightarrow> 'a res" where
  "flags_part f p =
    (if kindP p = t_identifier \<and> rangeP p = ''FLAGS'' then
       skip (eat l_paren (\<lambda>p.
         bindP (parseExpression 13 p) (\<lambda>e p.
         bindP (valueP Map.empty e p) (\<lambda>flags. eat r_paren (f flags))))) p
     else f 0 p)"

definition parsePHDR :: "(string \<Rightarrow> u64) \<Rightarrow> parser \<Rightarrow> phdr res" where
  "parsePHDR elf p =
    (let name = rangeP p in
     skip (\<lambda>p.
       if kindP p \<in> {t_identifier, t_number, l_paren} then
         bindP (parseExpression 13 p) (\<lambda>e p.
         bindP (valueP (map_of (map (\<lambda>n. (n, elf n)) phdr_types)) e p) (\<lambda>type.
         flags_part (\<lambda>flags.
         eat t_semicolon (Ret \<lparr>ph_name = name, ph_type = type, ph_includeFileHdr = False,
           ph_includePHDRs = False, ph_at = None, ph_flags = flags\<rparr>))))
       else Null p) p)"

definition parsePHDRS :: "(string \<Rightarrow> u64) \<Rightarrow> parser \<Rightarrow> script_command res" where
  "parsePHDRS elf =
    skip (eat l_brace (\<lambda>p.
      bindP (many (\<lambda>p. kindP p = t_identifier) (parsePHDR elf) p) (\<lambda>phdrs.
      eat r_brace (Ret (PHDRS phdrs)))))"

definition sections_starts :: "kind set" where
  "sections_starts =
    {t_semicolon, t_identifier, kw_discard, t_star, kw_entry, kw_hidden, kw_provide, kw_provide_hidden, kw_overlay}"

definition sections_item :: "parser \<Rightarrow> sections_command list res" where
  "sections_item p =
    (let assignment = (\<lambda>p. bindP (parseSymbolAssignment p) (\<lambda>c. Ret [SC_Assignment c]));
         output = (\<lambda>p. bindP (parseOutputSectionDescription p) (\<lambda>c. Ret [SC_Output c])) in
     if kindP p = t_semicolon then skip (Ret []) p
     else if kindP p = t_identifier then
       bindP (peek p) (\<lambda>t p. if is_assignment (kind_of t) then assignment p else output p)
     else if kindP p \<in> {kw_discard, t_star} then output p
     else if kindP p = kw_entry then bindP (parseEntry p) (\<lambda>c. Ret [SC_Entry c])
     else if kindP p = kw_overlay then Null p
     else assignment p)"

definition parseSections :: "parser \<Rightarrow> script_command res" where
  "parseSections =
    skip (eat l_brace (\<lambda>p.
      bindP (many (\<lambda>p. kindP p \<in> sections_starts) sections_item p) (\<lambda>commands.
      eat r_brace (Ret (Sections (concat commands))))))"

definition attributes_part :: "(string \<Rightarrow> parser \<Rightarrow> 'a res) \<Rightarrow> parser \<Rightarrow> 'a res" where
  "attributes_part f p =
    (if kindP p = l_paren then skip (ident (\<lambda>attrs. eat r_paren (f attrs))) p else f [] p)"

definition memory_block_item :: "parser \<Rightarrow> memory_block res" where
  "memory_block_item p =
    (let name = rangeP p in
     skip (attributes_part (\<lambda>attrs.
       eat t_colon (eat kw_origin (eat t_equal (\<lambda>p.
       bindP (parseExpression 13 p) (\<lambda>origin.
       eat t_comma (eat kw_length (eat t_equal (\<lambda>p.
       bindP (parseExpression 13 p) (\<lambda>length.
       Ret \<lparr>mb_name = name, mb_attr = attrs, mb_origin = origin, mb_length = length\<rparr>)))))))))) p)"

definition parseMemory :: "parser \<Rightarrow> script_command res" where
  "parseMemory =
    skip (eat l_brace (\<lambda>p.
      bindP (many (\<lambda>p. kindP p = t_identifier) memory_block_item p) (\<lambda>blocks.
      eat r_brace (Ret (Memory blocks)))))"

section \<open>The script\<close>

definition top_item :: "(string \<Rightarrow> u64) \<Rightarrow> parser \<Rightarrow> script_command list res" where
  "top_item elf p =
    (let one = (\<lambda>r. bindP r (\<lambda>c. Ret [c])) in
     if kindP p = t_semicolon then skip (Ret []) p
     else if kindP p = kw_output then one (parseOutput p)
     else if kindP p = kw_output_format then one (parseOutputFormat p)
     else if kindP p = kw_output_arch then one (parseOutputArch p)
     else if kindP p = kw_input then one (parsePathList Input p)
     else if kindP p = kw_group then one (parsePathList Group p)
     else if kindP p = kw_entry then bindP (parseEntry p) (\<lambda>c. Ret [Entry c])
     else if kindP p = kw_phdrs then one (parsePHDRS elf p)
     else if kindP p = kw_search_dir then one (parseSearchDir p)
     else if kindP p = kw_sections then one (parseSections p)
     else if kindP p \<in> {t_identifier, kw_hidden, kw_provide, kw_provide_hidden} then
       bindP (parseSymbolAssignment p) (\<lambda>c. Ret [Assignment c])
     else if kindP p = kw_memory then one (parseMemory p)
     else if kindP p = kw_extern then one (parseExtern p)
     else Null p)"

definition parse :: "(string \<Rightarrow> u64) \<Rightarrow> string \<Rightarrow> script_command list res" where
  "parse elf b =
    (case lex b of
       None \<Rightarrow> Undefined
     | Some (t, c) \<Rightarrow>
         bindP (many (\<lambda>p. kindP p \<noteq> t_eof) (top_item elf) \<lparr>tok = t, peeked = None, buffer = c\<rparr>) (\<lambda>commands.
         Ret (concat commands)))"

section \<open>Parsing ends\<close>

text \<open>
  Every function keeps the contract of Script_Parser: it comes back with no more input left than it got, and a
  function that parses one item of a loop takes at least a token. Each loop is an instance of \<open>eating_loop\<close>.
\<close>

named_theorems steps

lemmas [steps] = within_skip within_eat within_expectTimes bind_peek

lemma within_ident [steps]:
  assumes "left p \<le> m" and "\<And>s q. Suc (left q) \<le> left p \<Longrightarrow> within n m (f s q)"
  shows "within n m (ident f p)"
  using assms by (auto simp: ident_def intro!: within_skip_strict)

lemma within_expr [steps]:
  assumes "left p \<le> m" and "\<And>e q. left q \<le> left p \<Longrightarrow> within n m (f e q)"
  shows "within n m (bindP (parseExpression k p) f)"
  using assms by (intro bind_call [OF parseExpression_eats]) auto

lemma eats_ident: "kindP p = t_identifier \<Longrightarrow> eats (ident Ret) p"
  by (rule eatsI) (auto intro!: steps)

lemma eats_skip: "kindP p \<noteq> t_eof \<Longrightarrow> (\<And>q. Suc (left q) \<le> left p \<Longrightarrow> within (left p - 1) (left p) (f q)) \<Longrightarrow> eats (skip f) p"
  by (rule eatsI) (auto intro!: within_skip_strict)

lemma eats_skip_ident: "kindP p \<noteq> t_eof \<Longrightarrow> eats (skip (ident Ret)) p"
  by (rule eats_skip) (auto intro!: steps)

interpretation commas: eating_loop "\<lambda>p. kindP p = t_comma" "skip (ident Ret)"
  by unfold_locales (simp add: eats_skip_ident)

interpretation colons: eating_loop "\<lambda>p. kindP p = t_colon" "skip (ident Ret)"
  by unfold_locales (simp add: eats_skip_ident)

interpretation idents: eating_loop "\<lambda>p. kindP p = t_identifier" "ident Ret"
  by unfold_locales (rule eats_ident)

lemma eats_path: "kindP p \<noteq> t_eof \<Longrightarrow> eats (path_here needed) p"
  by (rule eatsI) (auto simp: path_here_def intro!: within_skip_strict)

interpretation needed_paths: eating_loop "\<lambda>p. kindP p \<in> needed_starts" "path_here True"
  by unfold_locales (auto simp: needed_starts_def intro: eats_path)

lemma eats_names:
  assumes "kindP p \<noteq> t_eof"
  shows "eats parseOutput p" "eats parseOutputArch p" "eats parseEntry p" "eats parseSearchDir p"
    "eats parseOutputFormat p" "eats parseExtern p" "eats parseAsNeeded p"
  unfolding parseOutput_def parseOutputArch_def parseEntry_def parseSearchDir_def parseOutputFormat_def
    parseExtern_def parseAsNeeded_def
  by (rule eats_skip [OF assms], auto intro!: steps commas.bind_many idents.bind_many
      needed_paths.bind_many)+

lemma eats_path_item: "kindP p \<noteq> t_eof \<Longrightarrow> eats path_item p"
  unfolding path_item_def using eats_names(7) eats_map [OF eats_path [of p False], of "\<lambda>x. [x]"]
  by (auto simp: eats_def)

interpretation paths: eating_loop "\<lambda>p. kindP p \<in> path_starts" path_item
  by unfold_locales (auto simp: path_starts_def intro: eats_path_item)

lemma eats_parsePathList: "kindP p \<noteq> t_eof \<Longrightarrow> eats (parsePathList T) p"
  unfolding parsePathList_def by (rule eats_skip) (auto intro!: steps paths.bind_many)

lemma within_visible [steps]:
  assumes "left p \<le> m" and "\<And>v k q. left q \<le> left p \<Longrightarrow> within n m (f v k q)"
  shows "within n m (visible f p)"
  using assms by (auto simp: visible_def intro!: steps)

lemma visible_strict:
  assumes "kindP p \<noteq> t_eof" "left p \<le> m"
    and "\<And>v k q. left q \<le> left p \<Longrightarrow> kindP q \<noteq> t_eof \<or> Suc (left q) \<le> left p \<Longrightarrow> within n m (f v k q)"
  shows "within n m (visible f p)"
  using assms unfolding visible_def by (auto intro!: within_skip_strict within_eat)

lemma skip_either:
  assumes "kindP p \<noteq> t_eof \<or> Suc (left p) \<le> k" "left p \<le> k" and "\<And>q. Suc (left q) \<le> k \<Longrightarrow> within n m (f q)"
  shows "within n m (skip f p)"
proof (cases "kindP p = t_eof")
  case True
  with assms show ?thesis by (auto intro!: within_skip)
next
  case False
  with assms show ?thesis by (auto intro!: within_skip_strict)
qed

lemma eats_parseSymbolAssignment:
  assumes "kindP p \<noteq> t_eof"
  shows "eats parseSymbolAssignment p"
  unfolding parseSymbolAssignment_def Let_def
proof (rule eatsI [OF assms], rule visible_strict [OF assms order_refl])
  fix v k q
  assume q: "left q \<le> left p" "kindP q \<noteq> t_eof \<or> Suc (left q) \<le> left p"
  show "within (left p - 1) (left p)
    (skip (\<lambda>p. case assignment_op (kindP p) of None \<Rightarrow> Null p
      | Some kind \<Rightarrow> skip (\<lambda>p. if kindP p \<in> {t_number, kw_align, t_identifier, l_paren}
          then bindP (parseExpression 13 p) (\<lambda>expr p. bindP (expectTimes k r_paren p)
            (\<lambda>_. Ret (SymbolAssignment (rangeP q) expr kind v))) else Null p) p) q)"
    by (rule skip_either [OF q(2,1)]) (auto intro!: steps split: option.split)
qed

lemma within_sort_directive [steps]:
  assumes "left p \<le> m" and "\<And>k s q. left q \<le> left p \<Longrightarrow> within n m (f k s q)"
  shows "within n m (sort_directive b d upd f i mode p)"
  using assms by (auto simp: sort_directive_def intro!: steps)

lemma within_sorts [steps]:
  assumes "left p \<le> m" and "\<And>k s q. left q \<le> left p \<Longrightarrow> within n m (f k s q)"
  shows "within n m (parseSortDirectives f p)"
  unfolding parseSortDirectives_def using assms by (auto intro!: steps)

lemma eats_section_name: "kindP p \<noteq> t_eof \<Longrightarrow> eats (section_name x) p"
  by (rule eatsI) (auto simp: section_name_def intro!: within_skip_strict)

interpretation excluded: eating_loop "\<lambda>p. kindP p = t_identifier" "section_name True"
  by unfold_locales (simp add: eats_section_name)

interpretation names: eating_loop "\<lambda>p. kindP p = t_identifier" "section_name False"
  by unfold_locales (simp add: eats_section_name)

lemma eats_parseExcludeFile: "kindP p \<noteq> t_eof \<Longrightarrow> eats parseExcludeFile p"
  unfolding parseExcludeFile_def by (rule eats_skip) (auto intro!: steps excluded.bind_many)

text \<open>
  Where at least a token is taken, but not which one comes first: \<open>ready k p\<close> says that a token was taken already
  or is there to be taken, when \<open>k\<close> was left at the start.
\<close>

definition ready :: "nat \<Rightarrow> parser \<Rightarrow> bool" where
  "ready k p \<longleftrightarrow> left p \<le> k \<and> (kindP p \<noteq> t_eof \<or> Suc (left p) \<le> k)"

lemma ready_start: "kindP p \<noteq> t_eof \<Longrightarrow> ready (left p) p"
  by (simp add: ready_def)

lemma ready_skip: "ready k p \<Longrightarrow> (\<And>q. Suc (left q) \<le> k \<Longrightarrow> within n m (f q)) \<Longrightarrow> within n m (skip f p)"
  using skip_either unfolding ready_def by blast

lemma ready_sort_directive:
  assumes "ready k p" "d \<noteq> t_eof" "k \<le> m" and "\<And>i s q. ready k q \<Longrightarrow> within n m (f i s q)"
  shows "within n m (sort_directive b d upd f i mode p)"
proof (cases "b \<and> kindP p = d")
  case True
  with assms(1-3) show ?thesis
    unfolding sort_directive_def
    by (auto simp: ready_def intro!: within_skip_strict within_eat assms(4))
next
  case False
  then show ?thesis unfolding sort_directive_def using assms(4) [OF assms(1)] by auto
qed

lemma ready_sorts:
  assumes "ready k p" "k \<le> m" and "\<And>i s q. ready k q \<Longrightarrow> within n m (f i s q)"
  shows "within n m (parseSortDirectives f p)"
  unfolding parseSortDirectives_def using assms by (auto intro!: ready_sort_directive)

lemma sorts_strict:
  assumes "kindP p \<in> sort_keywords" "left p \<le> m" and "\<And>i s q. Suc (left q) \<le> left p \<Longrightarrow> within n m (f i s q)"
  shows "within n m (parseSortDirectives f p)"
proof -
  have later: "within n m (sort_directive b d upd g i mode q)"
    if "Suc (left q) \<le> left p" "\<And>i s q. Suc (left q) \<le> left p \<Longrightarrow> within n m (g i s q)" for b d upd g i mode q
    using that assms(2) by (intro within_sort_directive) auto
  have now: "within n m (sort_directive True (kindP p) upd g i mode p)"
    if "\<And>i s q. Suc (left q) \<le> left p \<Longrightarrow> within n m (g i s q)" for upd g i mode
    using assms(1,2) that unfolding sort_directive_def
    by (auto simp: sort_keywords_def intro!: within_skip_strict within_eat)
  from assms(1) consider "kindP p = kw_sort_by_name" | "kindP p = kw_sort_by_init_priority"
    | "kindP p = kw_sort_by_alignment" | "kindP p = kw_sort_none" by (auto simp: sort_keywords_def)
  then show ?thesis
    unfolding parseSortDirectives_def using assms(2)
    by cases (auto simp: sort_directive_def [of _ _ _ _ "0"] intro!: within_skip_strict within_eat later assms(3))
qed


lemma eats_sorted_sections: "kindP p \<in> sort_keywords \<Longrightarrow> eats parseSortedInputSections p"
  unfolding parseSortedInputSections_def
  by (intro eatsI sorts_strict) (auto simp: sort_keywords_def intro!: names.bind_many steps)

lemma eats_input_item:
  assumes "kindP p \<in> input_starts"
  shows "eats input_item p"
proof -
  have k: "kindP p \<noteq> t_eof" using assms by (auto simp: input_starts_def sort_keywords_def)
  from assms consider "kindP p = kw_exclude_file" | "kindP p = t_identifier" | "kindP p \<in> sort_keywords"
    by (auto simp: input_starts_def)
  then show ?thesis
  proof cases
    case 1
    then show ?thesis using eats_parseExcludeFile [of p] by (simp add: eats_def input_item_def)
  next
    case 2
    then show ?thesis
      using eats_map [OF eats_section_name [OF k, of False], of "\<lambda>s. [s]"] by (simp add: eats_def input_item_def)
  next
    case 3
    then show ?thesis
      using eats_map [OF eats_sorted_sections [OF 3], of "\<lambda>s. [s]"]
      by (auto simp: eats_def input_item_def sort_keywords_def)
  qed
qed

interpretation inputs: eating_loop "\<lambda>p. kindP p \<in> input_starts" input_item
  by unfold_locales (rule eats_input_item)

lemma within_sorted_name [steps]:
  assumes "left p \<le> m" and "\<And>s x q. left q \<le> left p \<Longrightarrow> within n m (f s x q)"
  shows "within n m (sorted_name f p)"
  unfolding sorted_name_def Let_def using assms by (auto intro!: steps)

lemma within_archive_part [steps]:
  assumes "left p \<le> m" and "\<And>s x q. left q \<le> left p \<Longrightarrow> within n m (f s x q)"
  shows "within n m (archive_part f p)"
  unfolding archive_part_def using assms by (auto intro!: steps)

lemma ready_sorted_name:
  assumes "ready k p" "k \<le> m" and "\<And>s x q. Suc (left q) \<le> k \<Longrightarrow> within n m (f s x q)"
  shows "within n m (sorted_name f p)"
  unfolding sorted_name_def Let_def
  by (rule ready_sorts [OF assms(1,2)], rule ready_skip, assumption, insert assms(2,3), auto intro!: steps)

lemma ready_names:
  assumes "ready k p" "k \<le> m" and "\<And>s x t y q. Suc (left q) \<le> k \<Longrightarrow> within n m (f s x t y q)"
  shows "within n m (member_part (\<lambda>s x. archive_part (f s x)) p)"
proof (cases "kindP p = t_colon")
  case True
  then show ?thesis
    using assms unfolding member_part_def archive_part_def
    by (auto simp: ready_def intro!: within_skip_strict within_sorted_name)
next
  case False
  then show ?thesis
    using assms(2,3) unfolding member_part_def
    by (auto intro!: ready_sorted_name [OF assms(1,2)] within_archive_part)
qed

lemma eats_parseInputSectionsCmd:
  assumes "kindP p \<noteq> t_eof"
  shows "eats parseInputSectionsCmd p"
proof (rule eatsI [OF assms])
  have l: "within (left p - 1) (left p) (section_list i c q)" if "Suc (left q) \<le> left p" for q i c
    using that unfolding section_list_def by (auto intro!: steps inputs.bind_many)
  have n: "within (left p - 1) (left p) (input_names b i q)" if "ready (left p) q" for q b i
    unfolding input_names_def by (rule ready_names [OF that order_refl]) (rule l)
  have "ready (left p) q" if "Suc (left q) \<le> left p" for q using that by (simp add: ready_def)
  then show "within (left p - 1) (left p) (parseInputSectionsCmd p)"
    unfolding parseInputSectionsCmd_def
    using assms ready_start [OF assms] by (auto intro!: within_skip_strict within_eat n simp del: One_nat_def)
qed


lemma within_optional_expr [steps]:
  assumes "left p \<le> m" and "\<And>e q. left q \<le> left p \<Longrightarrow> within n m (f e q)"
  shows "within n m (optional_expr k f p)"
  using assms unfolding optional_expr_def by (auto intro!: steps)

lemma within_value [steps]:
  assumes "left p \<le> m" and "\<And>v q. left q \<le> left p \<Longrightarrow> within n m (f v q)"
  shows "within n m (bindP (valueP symbols e p) f)"
  using assms by (auto simp: valueP_def split: sum.split eval_error.split)

lemma within_constraint_part [steps]:
  "left p \<le> m \<Longrightarrow> (\<And>c q. left q \<le> left p \<Longrightarrow> within n m (f c q)) \<Longrightarrow> within n m (constraint_part f p)"
  unfolding constraint_part_def by (auto intro!: steps)

lemma within_align_with_input [steps]:
  "left p \<le> m \<Longrightarrow> (\<And>c q. left q \<le> left p \<Longrightarrow> within n m (f c q)) \<Longrightarrow> within n m (align_with_input f p)"
  unfolding align_with_input_def by (auto intro!: steps)

lemma within_address_part [steps]:
  "left p \<le> m \<Longrightarrow> (\<And>c q. left q \<le> left p \<Longrightarrow> within n m (f c q)) \<Longrightarrow> within n m (address_part f p)"
  unfolding address_part_def by (auto intro!: steps)

lemma within_flags_part [steps]:
  "left p \<le> m \<Longrightarrow> (\<And>c q. left q \<le> left p \<Longrightarrow> within n m (f c q)) \<Longrightarrow> within n m (flags_part f p)"
  unfolding flags_part_def by (auto intro!: steps)

lemma within_attributes_part [steps]:
  "left p \<le> m \<Longrightarrow> (\<And>c q. left q \<le> left p \<Longrightarrow> within n m (f c q)) \<Longrightarrow> within n m (attributes_part f p)"
  unfolding attributes_part_def by (auto intro!: steps)

lemma within_fill_part [steps]:
  "left p \<le> m \<Longrightarrow> (\<And>e c q. left q \<le> left p \<Longrightarrow> within n m (f e c q)) \<Longrightarrow> within n m (fill_part f p)"
  unfolding fill_part_def Let_def by (auto intro!: steps split: option.split)

lemma eats_parseFillCmd: "kindP p \<noteq> t_eof \<Longrightarrow> eats parseFillCmd p"
proof -
  have w: "within (left q) (left q)
      (if kindP q = t_number then bindP (peek q) (\<lambda>t. Ret (kind_of t = r_paren)) else Ret False q)" for q
    by (auto intro!: bind_peek)
  show "kindP p \<noteq> t_eof \<Longrightarrow> eats parseFillCmd p"
    unfolding parseFillCmd_def Let_def by (rule eats_skip) (auto intro!: steps bind_call [OF w])
qed

lemma within_one: "eats f p \<Longrightarrow> within (left p - 1) (left p) (bindP (f p) (\<lambda>c. Ret (h c)))"
  using eats_map [of f p h] by (simp add: eats_def)

lemma within_peek_if:
  assumes "kindP p \<noteq> t_eof" "\<And>q. kindP q \<noteq> t_eof \<Longrightarrow> eats f q" "\<And>q. kindP q \<noteq> t_eof \<Longrightarrow> eats g q"
  shows "within (left p - 1) (left p) (bindP (peek p) (\<lambda>t p. if c t
    then bindP (f p) (\<lambda>x. Ret (h x)) else bindP (g p) (\<lambda>x. Ret (i x))))"
proof (rule bind_peek)
  fix t q
  assume q: "left q \<le> left p" "tok q = tok p"
  with assms have "eats f q" "eats g q" by auto
  with q(1) show "within (left p - 1) (left p) (if c t then bindP (f q) (\<lambda>x. Ret (h x)) else bindP (g q) (\<lambda>x. Ret (i x)))"
    by (auto intro: within_mono [OF within_one])
qed

lemmas item_rules = within_skip_strict within_one within_peek_if eats_parseSymbolAssignment
  eats_parseInputSectionsCmd eats_parseFillCmd

lemma eats_os_item: "kindP p \<noteq> r_brace \<Longrightarrow> eats os_item p"
proof (cases "kindP p = t_eof")
  case True
  then show ?thesis by (intro eatsI_null) (simp add: os_item_def sort_keywords_def)
next
  case False
  then show ?thesis
    unfolding os_item_def Let_def by (intro eatsI) (auto simp del: One_nat_def intro!: item_rules)
qed

interpretation os_items: eating_loop "\<lambda>p. kindP p \<noteq> r_brace" os_item
  by unfold_locales (rule eats_os_item)

lemma eats_parseOutputSectionDescription:
  assumes "kindP p \<noteq> t_eof"
  shows "eats parseOutputSectionDescription p"
proof (cases "kindP p \<in> {kw_discard, t_identifier}")
  case True
  show ?thesis
    unfolding parseOutputSectionDescription_def Let_def
    by (rule eatsI [OF assms], simp only: True not_True_eq_False if_False, rule within_skip_strict [OF assms])
      (auto intro!: steps os_items.bind_many colons.bind_many)
next
  case False
  then show ?thesis by (simp add: eats_def parseOutputSectionDescription_def)
qed

lemma eats_parsePHDR: "kindP p \<noteq> t_eof \<Longrightarrow> eats (parsePHDR elf) p"
  unfolding parsePHDR_def Let_def by (rule eatsI, assumption, rule within_skip_strict, assumption) (auto intro!: steps)

interpretation phdr_items: eating_loop "\<lambda>p. kindP p = t_identifier" "parsePHDR elf" for elf
  by unfold_locales (simp add: eats_parsePHDR)

lemma eats_sections_item:
  assumes "kindP p \<in> sections_starts"
  shows "eats sections_item p"
proof -
  have k: "kindP p \<noteq> t_eof" using assms by (auto simp: sections_starts_def)
  then show ?thesis
    unfolding sections_item_def Let_def
    by (intro eatsI) (auto simp del: One_nat_def intro!: item_rules eats_parseOutputSectionDescription eats_names)
qed

interpretation sections_items: eating_loop "\<lambda>p. kindP p \<in> sections_starts" sections_item
  by unfold_locales (rule eats_sections_item)

lemma eats_memory_block_item: "kindP p \<noteq> t_eof \<Longrightarrow> eats memory_block_item p"
  unfolding memory_block_item_def Let_def
  by (rule eatsI, assumption, rule within_skip_strict, assumption) (auto intro!: steps)

interpretation memory_items: eating_loop "\<lambda>p. kindP p = t_identifier" memory_block_item
  by unfold_locales (simp add: eats_memory_block_item)

lemma eats_blocks:
  assumes "kindP p \<noteq> t_eof"
  shows "eats (parsePHDRS elf) p" "eats parseSections p" "eats parseMemory p"
  unfolding parsePHDRS_def parseSections_def parseMemory_def
  by (rule eats_skip [OF assms], auto intro!: steps phdr_items.bind_many sections_items.bind_many memory_items.bind_many)+

lemma eats_top_item: "eats (top_item elf) p"
proof (cases "kindP p = t_eof")
  case True
  then show ?thesis by (intro eatsI_null) (simp add: top_item_def)
next
  case False
  then show ?thesis
    unfolding top_item_def Let_def
    by (intro eatsI) (auto simp del: One_nat_def intro!: item_rules eats_names eats_blocks eats_parsePathList)
qed

interpretation top_items: eating_loop "\<lambda>p. kindP p \<noteq> t_eof" "top_item elf" for elf
  by unfold_locales (rule eats_top_item)

text \<open>C8: The parser of linker scripts comes back on every text: with a script, with an error, or at a point where the
  code reads beyond the buffer. None of its loops and recursions, whose steps are counted in the model, uses up
  its count.\<close>

theorem parse_ends: "parse elf b \<noteq> Fuel"
proof (cases "lex b")
  case (Some x)
  obtain t c where x: "x = (t, c)" by (cases x)
  have "within (left p) (left p) (bindP (many (\<lambda>p. kindP p \<noteq> t_eof) (top_item elf) p) (\<lambda>cs. Ret (concat cs)))" for p
    by (rule top_items.bind_many) auto
  from not_Fuel [OF this] Some x show ?thesis by (simp add: parse_def)
qed (simp add: parse_def)

end
