(* ===== verification/Script_Sema.thy ===== *)
theory Script_Sema
  imports Script_Commands "HOL-Library.Monad_Syntax"
begin

text \<open>
  What linker scripts decide about the output (class Sema in include/lld/ReaderWriter/LinkerScript.h): the commands
  of all scripts in one list of layout commands, which of them an input section falls under, the order of
  sections, the assignments to evaluate before a section, and the program headers of an output section.

  \<open>None\<close> as a result stands for what the code leaves undefined: a pattern that ends in a backslash or in an
  unclosed bracket, a star of which no continuation matches (it drops more characters than the name has), and the assertions on sort orders that are not implemented. A name is followed by a
  zero byte, as in the string tables it comes from.
\<close>

section \<open>Wildcards\<close>

text \<open>\<open>StringRef::find\<close> for a string.\<close>

definition occurs :: "string \<Rightarrow> string \<Rightarrow> bool" where
  "occurs s t \<longleftrightarrow> list_ex (\<lambda>i. startswith (drop i s) t) [0..<Suc (length s)]"

text \<open>
  A bracket: the code looks for the rest of the name, up to its zero byte, among the characters from the opening
  bracket to the closing one. \<open>cs\<close> is the pattern after the opening bracket; without a closing one the iterator
  leaves the pattern.
\<close>

definition bracket :: "string \<Rightarrow> string \<Rightarrow> string option option" where
  "bracket cs name =
    (let chars = CHR ''['' # takeWhile (\<lambda>c. c \<noteq> CHR '']'') cs;
         rest = dropWhile (\<lambda>c. c \<noteq> CHR '']'') cs in
     if \<not> occurs chars (takeWhile (\<lambda>c. c \<noteq> CHR 0x00) name) then Some None
     else if rest = [] then None
     else Some (Some (tl rest)))"

text \<open>
  \<open>wildcardMatch pattern name\<close> with the iterators \<open>j\<close> and \<open>i\<close> as the rest of the pattern and of the name, and the
  \<open>while\<close> loop of the case for a star as \<open>starLoop\<close>. The condition of the loop is evaluated before the test for the end of
  the name, so a loop that is there drops one character more than the name has, which \<open>StringRef::drop_front\<close> forbids:
  \<open>None\<close>.
\<close>

lemma length_bracket: "bracket cs name = Some (Some rest) \<Longrightarrow> length rest < Suc (length cs)"
  by (auto simp: bracket_def Let_def split: if_splits)
    (metis Suc_leI diff_Suc_1 diff_le_self le_imp_less_Suc le_trans length_dropWhile_le length_tl)

function wildcardMatch :: "string \<Rightarrow> string \<Rightarrow> bool option"
  and starLoop :: "string \<Rightarrow> string \<Rightarrow> bool option" where
  "wildcardMatch [] name = Some (name = [])"
| "wildcardMatch (c # cs) name =
    (if name = [] then Some False
     else if c = CHR ''*'' then starLoop cs name
     else if c = CHR ''?'' then wildcardMatch cs (tl name)
     else if c = CHR ''['' then
       (case bracket cs name of
          None \<Rightarrow> None
        | Some None \<Rightarrow> Some False
        | Some (Some rest) \<Rightarrow> wildcardMatch rest (tl name))
     else if c = CHR 0x5C then
       (case cs of
          [] \<Rightarrow> None
        | d # ds \<Rightarrow> if d \<noteq> hd name then Some False else wildcardMatch ds (tl name))
     else if c \<noteq> hd name then Some False
     else wildcardMatch cs (tl name))"
| "starLoop cs [] = None"
| "starLoop cs (n # ns) =
    (case wildcardMatch cs ns of
       None \<Rightarrow> None
     | Some True \<Rightarrow> wildcardMatch cs ns
     | Some False \<Rightarrow> starLoop cs ns)"
  by pat_completeness auto
termination
  by (relation "measures [\<lambda>x. case x of Inl (cs, name) \<Rightarrow> length cs | Inr (cs, name) \<Rightarrow> length cs,
      \<lambda>x. case x of Inl _ \<Rightarrow> 0 | Inr (cs, name) \<Rightarrow> Suc (length name)]")
    (auto dest: length_bracket)

definition hasWildcard :: "string \<Rightarrow> bool" where
  "hasWildcard name \<longleftrightarrow> list_ex (\<lambda>ch. ch \<in> {CHR ''*'', CHR ''?'', CHR ''['', CHR 0x5C}) name"

section \<open>The state\<close>

record section_key =
  archivePath :: string
  memberPath :: string
  sectionName :: string

datatype layout_command =
    L_Assignment symbol_assignment
  | L_Output output_section
  | L_Input input_sections
  | L_Section input_section

record sema =
  scripts :: "script_command list list"
  layoutCommands :: "layout_command list"
  memberToLayoutOrder :: "string \<Rightarrow> nat list"
  memberNameWildcards :: "(string \<times> nat) list"
  cacheSectionOrder :: "section_key \<rightharpoonup> nat option"
  cacheExpressionOrder :: "section_key \<rightharpoonup> nat option"
  deliveredExprs :: "nat set"
  definedSymbols :: "string set"
  parsedPHDRS :: bool
  sectionToPHDR :: "string \<rightharpoonup> phdr list"
  symbolTable :: "string \<rightharpoonup> u64"

definition new_sema :: sema where
  "new_sema =
    \<lparr>scripts = [], layoutCommands = [], memberToLayoutOrder = (\<lambda>_. []), memberNameWildcards = [],
     cacheSectionOrder = Map.empty, cacheExpressionOrder = Map.empty, deliveredExprs = {},
     definedSymbols = {}, parsedPHDRS = False, sectionToPHDR = Map.empty, symbolTable = Map.empty\<rparr>"

definition addLinkerScript :: "script_command list \<Rightarrow> sema \<Rightarrow> sema" where
  "addLinkerScript ls s = s\<lparr>scripts := scripts s @ [ls]\<rparr>"

definition hasLayoutCommands :: "sema \<Rightarrow> bool" where
  "hasLayoutCommands s \<longleftrightarrow> layoutCommands s \<noteq> []"

section \<open>The list of layout commands\<close>

definition push_layout :: "layout_command \<Rightarrow> sema \<Rightarrow> sema" where
  "push_layout c s = s\<lparr>layoutCommands := layoutCommands s @ [c]\<rparr>"

fun linearizeSection :: "input_section \<Rightarrow> sema \<Rightarrow> sema" where
  "linearizeSection (InputSectionName name ex) s = push_layout (L_Section (InputSectionName name ex)) s"
| "linearizeSection (InputSectionSortedGroup mode children) s = fold linearizeSection children s"

text \<open>
  \<open>memberToLayoutOrder\<close> stands for an \<open>unordered_multimap\<close>: for each key what \<open>equal_range\<close> goes through. The C++
  standard does not say where \<open>insert\<close> puts a new entry among those with its key: \<open>place\<close> does.
\<close>

definition multimap_insert ::
  "(nat list \<Rightarrow> nat) \<Rightarrow> string \<Rightarrow> nat \<Rightarrow> (string \<Rightarrow> nat list) \<Rightarrow> (string \<Rightarrow> nat list)" where
  "multimap_insert place name n m =
    m(name := take (place (m name)) (m name) @ n # drop (place (m name)) (m name))"

definition linearizeInput :: "(nat list \<Rightarrow> nat) \<Rightarrow> input_sections \<Rightarrow> sema \<Rightarrow> sema" where
  "linearizeInput place cmd s =
    (let name = memberName cmd; n = length (layoutCommands s);
         s = (if hasWildcard name then s\<lparr>memberNameWildcards := memberNameWildcards s @ [(name, n)]\<rparr>
              else if name \<noteq> [] then s\<lparr>memberToLayoutOrder := multimap_insert place name n (memberToLayoutOrder s)\<rparr>
              else s)
     in fold linearizeSection (in_sections cmd) (push_layout (L_Input cmd) s))"

definition linearizeOutput :: "(nat list \<Rightarrow> nat) \<Rightarrow> output_section_command \<Rightarrow> sema \<Rightarrow> sema" where
  "linearizeOutput place c s =
    (case c of
       OSC_Assignment a \<Rightarrow> push_layout (L_Assignment a) s
     | OSC_Input i \<Rightarrow> linearizeInput place i s
     | OSC_Fill _ \<Rightarrow> s)"

definition linearizeSections :: "(nat list \<Rightarrow> nat) \<Rightarrow> sections_command \<Rightarrow> sema \<Rightarrow> sema" where
  "linearizeSections place c s =
    (case c of
       SC_Assignment a \<Rightarrow> push_layout (L_Assignment a) s
     | SC_Output out \<Rightarrow> fold (linearizeOutput place) (os_commands out) (push_layout (L_Output out) s)
     | SC_Entry _ \<Rightarrow> s)"

definition perform_script :: "(nat list \<Rightarrow> nat) \<Rightarrow> script_command list \<Rightarrow> sema \<Rightarrow> sema" where
  "perform_script place ls =
    fold (\<lambda>c s. case c of Sections cs \<Rightarrow> fold (linearizeSections place) cs s | _ \<Rightarrow> s) ls"

definition perform :: "(nat list \<Rightarrow> nat) \<Rightarrow> sema \<Rightarrow> sema" where
  "perform place s = fold (perform_script place) (scripts s) s"

section \<open>Which rule a section falls under\<close>

text \<open>The sections listed after a rule: the loop of \<open>matchSectionName\<close> from the command after \<open>id\<close> on.\<close>

fun section_loop :: "layout_command list \<Rightarrow> nat \<Rightarrow> string \<Rightarrow> nat option option" where
  "section_loop [] i name = Some None"
| "section_loop (c # cs) i name =
    (case c of
       L_Section (InputSectionSortedGroup _ _) \<Rightarrow> section_loop cs (Suc i) name
     | L_Section (InputSectionName pattern _) \<Rightarrow>
         do { found \<leftarrow> wildcardMatch pattern name;
              if found then Some (Some i) else section_loop cs (Suc i) name }
     | _ \<Rightarrow> Some None)"

definition matchSectionName :: "sema \<Rightarrow> nat \<Rightarrow> section_key \<Rightarrow> nat option option" where
  "matchSectionName s i key =
    (case layoutCommands s ! i of
       L_Input cmd \<Rightarrow>
         do { found \<leftarrow> wildcardMatch (archiveName cmd) (archivePath key);
              if found then section_loop (drop (Suc i) (layoutCommands s)) (Suc i) (sectionName key)
              else Some None }
     | _ \<Rightarrow> Some None)"

text \<open>
  The loops over the rules with the file's own name and over those with a wildcard. The result has the number of the rule and that of the section in it.
\<close>

fun rule_loop :: "sema \<Rightarrow> section_key \<Rightarrow> nat list \<Rightarrow> (nat \<times> nat) option option" where
  "rule_loop s key [] = Some None"
| "rule_loop s key (i # is) =
    do { m \<leftarrow> matchSectionName s i key;
         case m of Some e \<Rightarrow> Some (Some (i, e)) | None \<Rightarrow> rule_loop s key is }"

fun wildcard_rule_loop :: "sema \<Rightarrow> section_key \<Rightarrow> (string \<times> nat) list \<Rightarrow> (nat \<times> nat) option option" where
  "wildcard_rule_loop s key [] = Some None"
| "wildcard_rule_loop s key ((pattern, i) # is) =
    do { found \<leftarrow> wildcardMatch pattern (memberPath key);
         if \<not> found then wildcard_rule_loop s key is
         else do { m \<leftarrow> matchSectionName s i key;
                   case m of Some e \<Rightarrow> Some (Some (i, e)) | None \<Rightarrow> wildcard_rule_loop s key is } }"

definition find_rule :: "sema \<Rightarrow> section_key \<Rightarrow> (nat \<times> nat) option option" where
  "find_rule s key =
    do { r \<leftarrow> rule_loop s key (memberToLayoutOrder s (memberPath key));
         case r of Some x \<Rightarrow> Some (Some x) | None \<Rightarrow> wildcard_rule_loop s key (memberNameWildcards s) }"

text \<open>\<open>insert\<close> of an unordered map leaves an entry that is there.\<close>

definition cache_insert :: "section_key \<Rightarrow> nat option \<Rightarrow> (section_key \<rightharpoonup> nat option) \<Rightarrow> (section_key \<rightharpoonup> nat option)" where
  "cache_insert key v m = (if m key = None then m(key \<mapsto> v) else m)"

definition getLayoutOrder :: "section_key \<Rightarrow> bool \<Rightarrow> sema \<Rightarrow> (nat option \<times> sema) option" where
  "getLayoutOrder key coarse s =
    (case (if coarse then cacheSectionOrder s else cacheExpressionOrder s) key of
       Some v \<Rightarrow> Some (v, s)
     | None \<Rightarrow>
        do { r \<leftarrow> find_rule s key;
             case r of
               Some (order, exprOrder) \<Rightarrow>
                 if coarse
                 then Some (Some order, s\<lparr>cacheSectionOrder := cache_insert key (Some order) (cacheSectionOrder s)\<rparr>)
                 else Some (Some exprOrder,
                   s\<lparr>cacheExpressionOrder := cache_insert key (Some exprOrder) (cacheExpressionOrder s)\<rparr>)
             | None \<Rightarrow>
                 Some (None, s\<lparr>cacheSectionOrder := cache_insert key None (cacheSectionOrder s),
                   cacheExpressionOrder := cache_insert key None (cacheExpressionOrder s)\<rparr>) })"

definition hasMapping :: "section_key \<Rightarrow> sema \<Rightarrow> (bool \<times> sema) option" where
  "hasMapping key s = do { (order, s) \<leftarrow> getLayoutOrder key True s; Some (order \<noteq> None, s) }"

section \<open>The order of sections\<close>

text \<open>\<open>StringRef::compare\<close> compares bytes as unsigned numbers.\<close>

fun string_less :: "string \<Rightarrow> string \<Rightarrow> bool" where
  "string_less _ [] = False"
| "string_less [] (d # ds) = True"
| "string_less (c # cs) (d # ds) =
    ((of_char c :: nat) < of_char d \<or> (c = d \<and> string_less cs ds))"

definition compareSortedNames :: "sort_mode \<Rightarrow> string \<Rightarrow> string \<Rightarrow> bool option" where
  "compareSortedNames sortMode lhs rhs =
    (case sortMode of
       S_None \<Rightarrow> Some False
     | S_NA \<Rightarrow> Some False
     | S_ByAlignment \<Rightarrow> None
     | S_ByInitPriority \<Rightarrow> None
     | S_ByAlignmentAndName \<Rightarrow> None
     | S_ByName \<Rightarrow> Some (string_less lhs rhs)
     | S_ByNameAndAlignment \<Rightarrow> if lhs \<noteq> rhs then Some (string_less lhs rhs) else None)"

fun sortedGroupContains :: "input_section list \<Rightarrow> string \<Rightarrow> bool option"
  and group_member :: "input_section \<Rightarrow> string \<Rightarrow> bool option" where
  "sortedGroupContains [] name = Some False"
| "sortedGroupContains (child # children) name =
    do { found \<leftarrow> group_member child name;
         if found then Some True else sortedGroupContains children name }"
| "group_member (InputSectionName pattern _) name = wildcardMatch pattern name"
| "group_member (InputSectionSortedGroup _ children) name = sortedGroupContains children name"

text \<open>The loop of \<open>localCompare\<close> over the sections of the rule; its end is \<open>llvm_unreachable\<close>.\<close>

fun compare_loop :: "input_section list \<Rightarrow> string \<Rightarrow> string \<Rightarrow> bool option" where
  "compare_loop [] lhs rhs = None"
| "compare_loop (InputSectionName pattern _ # secs) lhs rhs =
    do { r \<leftarrow> wildcardMatch pattern rhs;
         if r then Some False
         else do { l \<leftarrow> wildcardMatch pattern lhs;
                   if l then Some True else compare_loop secs lhs rhs } }"
| "compare_loop (InputSectionSortedGroup sortMode children # secs) lhs rhs =
    do { a \<leftarrow> sortedGroupContains children lhs;
         b \<leftarrow> sortedGroupContains children rhs;
         if a \<and> \<not> b then Some False
         else if b \<and> \<not> a then Some True
         else if \<not> a then compare_loop secs lhs rhs
         else compareSortedNames sortMode lhs rhs }"

definition localCompare :: "sema \<Rightarrow> nat \<Rightarrow> section_key \<Rightarrow> section_key \<Rightarrow> bool option" where
  "localCompare s order lhs rhs =
    (case layoutCommands s ! order of
       L_Input cmd \<Rightarrow>
         if archivePath lhs \<noteq> archivePath rhs
         then compareSortedNames (archiveSortMode cmd) (archivePath lhs) (archivePath rhs)
         else if memberPath lhs \<noteq> memberPath rhs
         then compareSortedNames (fileSortMode cmd) (memberPath lhs) (memberPath rhs)
         else compare_loop (in_sections cmd) (sectionName lhs) (sectionName rhs)
     | _ \<Rightarrow> None)"

text \<open>\<open>Sema::less\<close>; the name of the output section is looked for backwards from the rule.\<close>

definition sema_less :: "section_key \<Rightarrow> section_key \<Rightarrow> sema \<Rightarrow> (bool \<times> sema) option" where
  "sema_less lhs rhs s =
    do { (a, s) \<leftarrow> getLayoutOrder lhs True s;
         (b, s) \<leftarrow> getLayoutOrder rhs True s;
         case (a, b) of
           (None, _) \<Rightarrow> Some (False, s)
         | (Some _, None) \<Rightarrow> Some (True, s)
         | (Some i, Some j) \<Rightarrow>
             if i \<noteq> j then Some (i < j, s)
             else do { r \<leftarrow> localCompare s i lhs rhs; Some (r, s) } }"

definition output_before :: "layout_command list \<Rightarrow> nat \<Rightarrow> output_section option" where
  "output_before cs i =
    (case filter (\<lambda>c. case c of L_Output _ \<Rightarrow> True | _ \<Rightarrow> False) (rev (take i cs)) of
       L_Output out # _ \<Rightarrow> Some out | _ \<Rightarrow> None)"

definition getOutputSection :: "section_key \<Rightarrow> sema \<Rightarrow> (string \<times> sema) option" where
  "getOutputSection key s =
    do { (order, s) \<leftarrow> getLayoutOrder key True s;
         Some (case order of None \<Rightarrow> [] | Some i \<Rightarrow>
           (case output_before (layoutCommands s) i of None \<Rightarrow> [] | Some out \<Rightarrow> os_name out), s) }"

section \<open>Expressions\<close>

text \<open>
  The assignments before the section \<open>i\<close>, back to the section before it: the loop of \<open>getExprs\<close>, which collects
  them backwards, and their reversal. Each comes with its place.
\<close>

definition assignments_before :: "layout_command list \<Rightarrow> nat \<Rightarrow> (nat \<times> symbol_assignment) list" where
  "assignments_before cs i =
    rev (concat (map (\<lambda>(j, c). case c of L_Assignment a \<Rightarrow> [(j, a)] | _ \<Rightarrow> [])
      (takeWhile (\<lambda>(j, c). case c of L_Section _ \<Rightarrow> False | _ \<Rightarrow> True)
        (rev (zip [0..<i] (take i cs))))))"

definition getExprs :: "section_key \<Rightarrow> sema \<Rightarrow> ((nat \<times> symbol_assignment) list \<times> sema) option" where
  "getExprs key s =
    do { (order, s) \<leftarrow> getLayoutOrder key False s;
         case order of
           None \<Rightarrow> Some ([], s)
         | Some i \<Rightarrow>
             if i \<in> deliveredExprs s then Some ([], s)
             else Some (assignments_before (layoutCommands s) i, s\<lparr>deliveredExprs := insert i (deliveredExprs s)\<rparr>) }"

definition sema_evalExpr :: "symbol_assignment \<Rightarrow> u64 \<Rightarrow> sema \<Rightarrow> (eval_error + u64) \<times> sema" where
  "sema_evalExpr assgn curPos s =
    (let s = s\<lparr>symbolTable := (symbolTable s)(''.'' \<mapsto> curPos)\<rparr> in
     case evalExpr (symbolTable s) (sa_expr assgn) of
       Inl e \<Rightarrow> (Inl e, s)
     | Inr result \<Rightarrow>
         if sa_symbol assgn = ''.'' then (Inr result, s)
         else (Inr curPos, s\<lparr>symbolTable := (symbolTable s)(sa_symbol assgn \<mapsto> result)\<rparr>))"

definition script_symbols :: "layout_command list \<Rightarrow> string list" where
  "script_symbols cs =
    concat (map (\<lambda>c. case c of L_Assignment a \<Rightarrow>
      (if sa_symbol a \<noteq> [] \<and> sa_symbol a \<noteq> ''.'' then [sa_symbol a] else []) | _ \<Rightarrow> []) cs)"

definition getScriptDefinedSymbols :: "sema \<Rightarrow> string set \<times> sema" where
  "getScriptDefinedSymbols s =
    (if definedSymbols s \<noteq> {} then (definedSymbols s, s)
     else let syms = set (script_symbols (layoutCommands s)) in (syms, s\<lparr>definedSymbols := syms\<rparr>))"

definition getLinkerScriptExprValue :: "string \<Rightarrow> sema \<Rightarrow> u64 option" where
  "getLinkerScriptExprValue name s = symbolTable s name"

section \<open>Program headers\<close>

definition phdr_NONE :: phdr where
  "phdr_NONE = \<lparr>ph_name = ''NONE'', ph_type = 0, ph_includeFileHdr = False, ph_includePHDRs = False,
    ph_at = None, ph_flags = 0\<rparr>"

definition declared_phdrs :: "sema \<Rightarrow> phdr list" where
  "declared_phdrs s =
    concat (map (\<lambda>c. case c of PHDRS ps \<Rightarrow> ps | _ \<Rightarrow> []) (concat (scripts s)))"

text \<open>
  The loop over the output sections: \<open>last\<close> is \<open>phdrsLast\<close>, and the result is an error (\<open>None\<close>) when a name has no
  header, with what was entered before it.
\<close>

fun phdr_loop ::
  "(string \<rightharpoonup> phdr) \<Rightarrow> bool \<Rightarrow> phdr list \<Rightarrow> layout_command list \<Rightarrow> (string \<rightharpoonup> phdr list) \<Rightarrow>
    bool \<times> (string \<rightharpoonup> phdr list)" where
  "phdr_loop phdrs noPhdrs lastOnes [] m = (True, m)"
| "phdr_loop phdrs noPhdrs lastOnes (c # cs) m =
    (case c of
       L_Output osd \<Rightarrow>
         if os_discard osd then phdr_loop phdrs noPhdrs lastOnes cs m
         else (case those (map phdrs (os_phdrs osd)) of
             None \<Rightarrow> (False, m)
           | Some cur \<Rightarrow>
               if noPhdrs then phdr_loop phdrs noPhdrs lastOnes cs (m(os_name osd \<mapsto> []))
               else if cur = [] then phdr_loop phdrs noPhdrs lastOnes cs (m(os_name osd \<mapsto> lastOnes))
               else phdr_loop phdrs noPhdrs cur cs (m(os_name osd \<mapsto> cur)))
     | _ \<Rightarrow> phdr_loop phdrs noPhdrs lastOnes cs m)"

definition buildSectionToPHDR :: "sema \<Rightarrow> bool \<times> sema" where
  "buildSectionToPHDR s =
    (if parsedPHDRS s then (True, s)
     else let s = s\<lparr>parsedPHDRS := True\<rparr> in
       if scripts s = [] \<or> layoutCommands s = [] then (True, s)
       else
         let declared = map_of (rev (map (\<lambda>p. (ph_name p, p)) (declared_phdrs s)));
             noPhdrs = (declared_phdrs s = []);
             phdrs = (if sectionToPHDR s ''NONE'' = None then declared(''NONE'' \<mapsto> phdr_NONE) else declared);
             (ok, m) = phdr_loop phdrs noPhdrs [phdr_NONE] (layoutCommands s) (sectionToPHDR s)
         in (ok, s\<lparr>sectionToPHDR := m\<rparr>))"

definition getPHDRsForOutputSection :: "string \<Rightarrow> sema \<Rightarrow> phdr list option \<times> sema" where
  "getPHDRsForOutputSection name s =
    (let (ok, s) = buildSectionToPHDR s in
     (if ok then Some (case sectionToPHDR s name of None \<Rightarrow> [] | Some v \<Rightarrow> v) else None, s))"

end
