(* ===== verification/Script_Layout.thy ===== *)
theory Script_Layout
  imports Script_Sema "HOL-Library.Sublist"
begin

text \<open>
  What the decisions of Script_Sema guarantee: how a wildcard matches, that the caches of class Sema do not change an
  answer, that sections under different output sections are sorted as the script lists them, and that every assignment
  of a script is handed out once. The last section shows on small scripts where the code departs from what it means.
\<close>

section \<open>Wildcards match as in a shell\<close>

text \<open>
  Patterns as in a shell, except that a star stands for at least one character; and the patterns that have no
  bracket and do not end in a backslash.
\<close>

inductive glob :: "string \<Rightarrow> string \<Rightarrow> bool" where
  empty: "glob [] []"
| star: "glob p ys \<Longrightarrow> glob (CHR ''*'' # p) (x # xs @ ys)"
| any: "glob p ys \<Longrightarrow> glob (CHR ''?'' # p) (x # ys)"
| escaped: "glob p ys \<Longrightarrow> glob (CHR 0x5C # c # p) (c # ys)"
| literal: "c \<notin> {CHR ''*'', CHR ''?'', CHR ''['', CHR 0x5C} \<Longrightarrow> glob p ys \<Longrightarrow> glob (c # p) (c # ys)"

fun simple_pattern :: "string \<Rightarrow> bool" where
  "simple_pattern [] = True"
| "simple_pattern (c # cs) =
    (if c = CHR 0x5C then (case cs of [] \<Rightarrow> False | d # ds \<Rightarrow> simple_pattern ds)
     else c \<noteq> CHR ''['' \<and> simple_pattern cs)"

inductive_simps glob_Nil: "glob [] n"

inductive_simps glob_end: "glob p []"

inductive_simps glob_Cons: "glob (c # p) (x # xs)"

lemma glob_simps:
  "glob [] n \<longleftrightarrow> n = []"
  "glob (c # p) [] \<longleftrightarrow> False"
  "glob (CHR ''*'' # p) (x # xs) \<longleftrightarrow> (\<exists>us ys. xs = us @ ys \<and> glob p ys)"
  "glob (CHR ''?'' # p) (x # xs) \<longleftrightarrow> glob p xs"
  "glob (CHR 0x5C # d # p) (x # xs) \<longleftrightarrow> d = x \<and> glob p xs"
  "c \<notin> {CHR ''*'', CHR ''?'', CHR ''['', CHR 0x5C} \<Longrightarrow> glob (c # p) (x # xs) \<longleftrightarrow> c = x \<and> glob p xs"
  by (auto simp: glob_Nil glob_end glob_Cons)

text \<open>The name agrees with the pattern up to the first star, and has at least one character there.\<close>

fun reaches_star :: "string \<Rightarrow> string \<Rightarrow> bool" where
  "reaches_star p [] = False"
| "reaches_star [] n = False"
| "reaches_star (c # p) (x # xs) =
    (if c = CHR ''*'' then True
     else if c = CHR ''?'' then reaches_star p xs
     else if c = CHR 0x5C then (case p of [] \<Rightarrow> False | d # ds \<Rightarrow> d = x \<and> reaches_star ds xs)
     else c = x \<and> reaches_star p xs)"

text \<open>What comes of a match: a star of which no continuation matches makes the code leave the name.\<close>

definition outcome :: "string \<Rightarrow> string \<Rightarrow> bool option" where
  "outcome p n = (if glob p n then Some True else if reaches_star p n then None else Some False)"

lemma outcome_simps:
  "outcome [] n = Some (n = [])"
  "outcome (c # p) [] = Some False"
  "outcome (CHR ''*'' # p) (x # xs) = (if \<exists>us ys. xs = us @ ys \<and> glob p ys then Some True else None)"
  "outcome (CHR ''?'' # p) (x # xs) = outcome p xs"
  "outcome (CHR 0x5C # d # p) (x # xs) = (if d \<noteq> x then Some False else outcome p xs)"
  "c \<notin> {CHR ''*'', CHR ''?'', CHR ''['', CHR 0x5C} \<Longrightarrow>
    outcome (c # p) (x # xs) = (if c \<noteq> x then Some False else outcome p xs)"
  by (cases n; auto simp: outcome_def glob_simps)+

text \<open>From where a star is reached, what matches a later part of the name matches from here on.\<close>

lemma glob_before_star:
  "simple_pattern p \<Longrightarrow> reaches_star p n \<Longrightarrow> glob p ys \<Longrightarrow> suffix ys n \<Longrightarrow> glob p n"
proof (induction p n arbitrary: ys rule: reaches_star.induct)
  case (3 c p x xs)
  from "3.prems"(3) obtain y ys' where ys: "ys = y # ys'" by (cases ys) (simp_all add: glob_simps)
  have sub: "suffix ys' xs" using "3.prems"(4) ys by (auto simp: suffix_Cons intro: suffix_ConsD)
  show ?case
  proof (cases "c = CHR ''*''")
    case True
    with "3.prems"(3) ys obtain us vs where "ys' = us @ vs" "glob p vs" by (auto simp: glob_simps)
    then show ?thesis using True sub by (auto simp: glob_simps suffix_def) (metis append_assoc)
  next
    case False
    note star = this
    consider (any) "c = CHR ''?''" | (escaped) d ds where "c = CHR 0x5C" "p = d # ds" | (literal)
        "c \<notin> {CHR ''*'', CHR ''?'', CHR ''['', CHR 0x5C}"
      using star "3.prems"(1) by (cases p) (auto split: if_splits)
    then show ?thesis
    proof cases
      case any
      have "glob p xs" by (rule "3.IH"(1) [OF star any]) (use any "3.prems" ys sub in \<open>simp_all add: glob_simps\<close>)
      with any show ?thesis by (simp add: glob_simps)
    next
      case escaped
      have "glob ds xs" by (rule "3.IH"(2) [OF star _ escaped(1,2)]) (use escaped "3.prems" ys sub in \<open>simp_all add: glob_simps\<close>)
      with escaped "3.prems"(2) show ?thesis by (simp add: glob_simps)
    next
      case literal
      have "glob p xs" by (rule "3.IH"(3) [OF star]) (use literal "3.prems" ys sub in \<open>simp_all add: glob_simps\<close>)
      with literal "3.prems"(2) show ?thesis by (simp add: glob_simps)
    qed
  qed
qed (simp_all add: glob_simps)

lemma wildcardMatch_outcome: "simple_pattern p \<Longrightarrow> wildcardMatch p n = outcome p n"
  and starLoop_outcome: "simple_pattern p' \<Longrightarrow> m \<noteq> [] \<Longrightarrow>
    starLoop p' m = (if \<exists>us ys. tl m = us @ ys \<and> glob p' ys then Some True else None)"
proof (induction p n and p' m rule: wildcardMatch_starLoop.induct)
  case (1 name)
  then show ?case by (simp add: outcome_simps)
next
  case (2 c cs name)
  show ?case
  proof (cases name)
    case Nil
    then show ?thesis by (simp add: outcome_simps)
  next
    case (Cons x xs)
    with 2 show ?thesis
      by (cases "c = CHR ''*''"; cases "c = CHR ''?''"; cases "c = CHR 0x5C"; cases cs)
        (auto simp: outcome_simps split: list.splits)
  qed
next
  case (3 cs)
  then show ?case by simp
next
  case (4 cs n ns)
  have w: "wildcardMatch cs ns = outcome cs ns" using 4 by simp
  show ?case
  proof (cases "glob cs ns \<or> reaches_star cs ns")
    case True
    have "(\<exists>us ys. ns = us @ ys \<and> glob cs ys) \<longleftrightarrow> glob cs ns"
      using True glob_before_star [OF "4.prems"(1)] by (auto simp: suffix_def)
    with w True show ?thesis by (auto simp: outcome_def)
  next
    case False
    have "(\<exists>us ys. ns = us @ ys \<and> glob cs ys) \<longleftrightarrow> (\<exists>us ys. tl ns = us @ ys \<and> glob cs ys)" if "ns \<noteq> []"
      using False that by (cases ns) (auto simp: Cons_eq_append_conv)
    with 4 w False show ?thesis by (cases "ns = []") (auto simp: outcome_def)
  qed
qed

lemma literal_pattern: "\<not> hasWildcard p \<Longrightarrow> simple_pattern p \<and> (glob p n \<longleftrightarrow> p = n) \<and> \<not> reaches_star p n"
proof (induction p arbitrary: n)
  case Nil
  then show ?case by (cases n) (auto simp: glob_simps)
next
  case (Cons c p)
  then show ?case by (cases n) (auto simp: hasWildcard_def glob_simps)
qed

text \<open>C12: For a pattern without brackets and not ending in a backslash, \<open>wildcardMatch\<close> ends and says that a name
  matches exactly when it matches as in a shell, with a star for one character or more. It says that a name does
  not match when they differ, or the name ends, before the first star of the pattern. In the remaining case, that
  the name gets to a star and no continuation matches, it drops more characters than the name has. A pattern for
  which \<open>hasWildcard\<close> is false matches its own text only, and without leaving the name.\<close>

theorem wildcards_match:
  assumes "simple_pattern pattern"
  shows "wildcardMatch pattern name =
      (if glob pattern name then Some True else if reaches_star pattern name then None else Some False) \<and>
    (\<not> hasWildcard pattern \<longrightarrow> wildcardMatch pattern name = Some (pattern = name))"
  using wildcardMatch_outcome [OF assms, of name] literal_pattern [of pattern name] by (auto simp: outcome_def)

theorem wildcards_match_witness:
  "wildcardMatch ''.t?xt*'' ''.text.f'' = Some True \<and> wildcardMatch ''.t?xt*'' ''.data'' = Some False \<and>
   wildcardMatch ''*.o'' ''crt1.a'' = None"
proof -
  have p: "simple_pattern ''.t?xt*''" "simple_pattern ''*.o''" by simp_all
  have g: "glob ''.t?xt*'' ''.text.f''" "\<not> glob ''.t?xt*'' ''.data''" "\<not> glob ''*.o'' ''crt1.a''"
    by (auto simp: glob_simps Cons_eq_append_conv)
  have r: "\<not> reaches_star ''.t?xt*'' ''.data''" "reaches_star ''*.o'' ''crt1.a''" by simp_all
  show ?thesis
    using wildcards_match [OF p(1), of "''.text.f''"] wildcards_match [OF p(1), of "''.data''"]
      wildcards_match [OF p(2), of "''crt1.a''"] g r
    by (simp only: if_True if_False simp_thms)
qed

section \<open>The caches change nothing\<close>

definition coherent :: "sema \<Rightarrow> bool" where
  "coherent s \<longleftrightarrow>
    (\<forall>key v. cacheSectionOrder s key = Some v \<longrightarrow> (\<exists>r. find_rule s key = Some r \<and> v = map_option fst r)) \<and>
    (\<forall>key v. cacheExpressionOrder s key = Some v \<longrightarrow> (\<exists>r. find_rule s key = Some r \<and> v = map_option snd r))"

lemma coherent_empty: "cacheSectionOrder s = Map.empty \<Longrightarrow> cacheExpressionOrder s = Map.empty \<Longrightarrow> coherent s"
  by (simp add: coherent_def)

definition same_rules :: "sema \<Rightarrow> sema \<Rightarrow> bool" where
  "same_rules s t \<longleftrightarrow> layoutCommands t = layoutCommands s \<and> memberToLayoutOrder t = memberToLayoutOrder s \<and>
    memberNameWildcards t = memberNameWildcards s"

lemma same_rules_refl: "same_rules s s"
  by (simp add: same_rules_def)

lemma same_rules_trans: "same_rules s t \<Longrightarrow> same_rules t u \<Longrightarrow> same_rules s u"
  by (simp add: same_rules_def)

lemma match_cong: "same_rules s t \<Longrightarrow> matchSectionName t i key = matchSectionName s i key"
  by (auto simp: matchSectionName_def same_rules_def split: layout_command.splits Option.bind_splits)

lemma rule_loop_cong: "same_rules s t \<Longrightarrow> rule_loop t key is = rule_loop s key is"
  by (induction "is") (auto simp: match_cong split: Option.bind_splits option.splits)

lemma wildcard_rule_loop_cong: "same_rules s t \<Longrightarrow> wildcard_rule_loop t key is = wildcard_rule_loop s key is"
  by (induction "is") (auto simp: match_cong split: Option.bind_splits option.splits)

lemma find_rule_cong: "same_rules s t \<Longrightarrow> find_rule t key = find_rule s key"
  by (simp add: find_rule_def rule_loop_cong [of s t] wildcard_rule_loop_cong [of s t] cong: option.case_cong)
    (simp add: same_rules_def cong: option.case_cong)

lemma getLayoutOrder_cases:
  assumes "coherent s" "getLayoutOrder key coarse s = Some (v, t)"
  shows "\<exists>r. find_rule s key = Some r \<and> v = map_option (if coarse then fst else snd) r" (is ?a)
    and "coherent t" "same_rules s t" "deliveredExprs t = deliveredExprs s" "scripts t = scripts s"
      "symbolTable t = symbolTable s"
proof -
  let ?c = "(if coarse then cacheSectionOrder s else cacheExpressionOrder s) key"
  have "?a \<and> coherent t \<and> same_rules s t \<and> deliveredExprs t = deliveredExprs s \<and> scripts t = scripts s \<and>
      symbolTable t = symbolTable s"
  proof (cases ?c)
    case (Some w)
    then show ?thesis
      using assms by (auto simp: getLayoutOrder_def coherent_def same_rules_def split: if_splits)
  next
    case None
    with assms(2) obtain r where r: "find_rule s key = Some r"
      by (auto simp: getLayoutOrder_def split: Option.bind_splits)
    let ?f = "\<lambda>m. cache_insert key (map_option fst r) m" and ?g = "\<lambda>m. cache_insert key (map_option snd r) m"
    have t: "t = s\<lparr>cacheSectionOrder := ?f (cacheSectionOrder s)\<rparr> \<or> t = s\<lparr>cacheExpressionOrder := ?g (cacheExpressionOrder s)\<rparr>
        \<or> t = s\<lparr>cacheSectionOrder := ?f (cacheSectionOrder s), cacheExpressionOrder := ?g (cacheExpressionOrder s)\<rparr>"
      and v: "v = map_option (if coarse then fst else snd) r"
      using None r assms(2) by (auto simp: getLayoutOrder_def split: option.splits prod.splits if_splits)
    have same: "same_rules s t" using t by (auto simp: same_rules_def)
    have "cacheSectionOrder t = cacheSectionOrder s \<or> cacheSectionOrder t = ?f (cacheSectionOrder s)"
      "cacheExpressionOrder t = cacheExpressionOrder s \<or> cacheExpressionOrder t = ?g (cacheExpressionOrder s)"
      using t by auto
    with r assms(1) have "coherent t"
      unfolding coherent_def find_rule_cong [OF same] by (auto simp: cache_insert_def split: if_splits)
    with t v r same show ?thesis by auto
  qed
  then show ?a "coherent t" "same_rules s t" "deliveredExprs t = deliveredExprs s" "scripts t = scripts s"
      "symbolTable t = symbolTable s" by auto
qed

lemma getLayoutOrder_total:
  assumes "coherent s" "find_rule s key = Some r"
  obtains t where "getLayoutOrder key coarse s = Some (map_option (if coarse then fst else snd) r, t)"
proof (cases "(if coarse then cacheSectionOrder s else cacheExpressionOrder s) key")
  case None
  with assms(2) that show ?thesis
    by (cases r; cases coarse) (auto simp: getLayoutOrder_def split: prod.splits)
next
  case (Some w)
  then have "w = map_option (if coarse then fst else snd) r"
    using assms unfolding coherent_def by (cases coarse) force+
  with Some that show ?thesis by (simp add: getLayoutOrder_def)
qed


section \<open>Sections come in the order of the script\<close>

text \<open>
  A section falls into the output section at place \<open>a\<close> of the layout list if its rule comes after it and no other output
  section lies between.
\<close>

definition is_output :: "layout_command \<Rightarrow> bool" where
  "is_output c = (case c of L_Output _ \<Rightarrow> True | _ \<Rightarrow> False)"

definition falls_into :: "sema \<Rightarrow> section_key \<Rightarrow> nat \<Rightarrow> bool" where
  "falls_into s key a \<longleftrightarrow>
    (\<exists>i e. find_rule s key = Some (Some (i, e)) \<and> a < i \<and> a < length (layoutCommands s) \<and>
      is_output (layoutCommands s ! a) \<and> (\<forall>j. a < j \<and> j < i \<and> j < length (layoutCommands s) \<longrightarrow> \<not> is_output (layoutCommands s ! j)))"

lemma find_last:
  assumes "a < i" "a < length cs" "P (cs ! a)" "\<And>j. a < j \<Longrightarrow> j < i \<Longrightarrow> j < length cs \<Longrightarrow> \<not> P (cs ! j)"
  shows "\<exists>rest. filter P (rev (take i cs)) = cs ! a # rest"
proof -
  have "take i cs = take a cs @ cs ! a # drop (Suc a) (take i cs)"
    using assms(1,2) id_take_nth_drop [of a "take i cs"] by (simp add: min_def)
  moreover have "\<not> P x" if "x \<in> set (drop (Suc a) (take i cs))" for x
  proof -
    from that obtain k where k: "k < length (drop (Suc a) (take i cs))" "x = drop (Suc a) (take i cs) ! k"
      unfolding in_set_conv_nth by blast
    then have b: "Suc a + k < i" "Suc a + k < length cs" by simp_all
    with k have "x = cs ! (Suc a + k)" by (simp add: nth_drop)
    with b have "Suc a + k < i \<and> Suc a + k < length cs \<and> x = cs ! (Suc a + k)" by simp
    then show ?thesis using assms(4) [of "Suc a + k"] by auto
  qed
  then have "filter P (drop (Suc a) (take i cs)) = []" by (simp add: filter_empty_conv)
  ultimately have "filter P (rev (take i cs)) = cs ! a # filter P (rev (take a cs))"
    using assms(3) by (metis (no_types, lifting) append_Cons append_Nil filter.simps(2) filter_append rev.simps(2) rev_append rev_filter rev_is_Nil_conv append_assoc)
  then show ?thesis by blast
qed

lemma falls_into_name:
  assumes "falls_into s key a" "layoutCommands s ! a = L_Output out" "find_rule s key = Some (Some (i, e))"
  shows "output_before (layoutCommands s) i = Some out"
proof -
  have "\<exists>rest. filter is_output (rev (take i (layoutCommands s))) = layoutCommands s ! a # rest"
    using assms(1,3) by (intro find_last) (auto simp: falls_into_def)
  then show ?thesis
    using assms(2) by (auto simp: output_before_def is_output_def [abs_def])
qed

lemma getLayoutOrder_step:
  assumes "coherent s" "find_rule s key = Some r"
  shows "\<exists>t. getLayoutOrder key coarse s = Some (map_option (if coarse then fst else snd) r, t) \<and>
    coherent t \<and> same_rules s t \<and> deliveredExprs t = deliveredExprs s"
  using getLayoutOrder_total [OF assms, of coarse] getLayoutOrder_cases [OF assms(1)] by metis

lemma sema_less_step:
  assumes "coherent s" "find_rule s lhs = Some (Some (i, e))" "find_rule s rhs = Some (Some (j, f))" "i \<noteq> j"
  shows "\<exists>t. sema_less lhs rhs s = Some (i < j, t) \<and> coherent t \<and> same_rules s t"
proof -
  obtain t where t: "getLayoutOrder lhs True s = Some (Some i, t)" "coherent t" "same_rules s t"
    using getLayoutOrder_step [OF assms(1,2), of True] by auto
  have "find_rule t rhs = Some (Some (j, f))" using find_rule_cong [OF t(3)] assms(3) by simp
  from getLayoutOrder_step [OF t(2) this, of True]
  obtain u where u: "getLayoutOrder rhs True t = Some (Some j, u)" "coherent u" "same_rules t u" by auto
  with t assms(4) same_rules_trans [OF t(3) u(3)] show ?thesis by (simp add: sema_less_def)
qed

lemma getOutputSection_step:
  assumes "coherent s" "find_rule s key = Some (Some (i, e))" "output_before (layoutCommands s) i = Some out"
  shows "\<exists>t. getOutputSection key s = Some (os_name out, t) \<and> coherent t \<and> same_rules s t"
proof -
  obtain t where t: "getLayoutOrder key True s = Some (Some i, t)" "coherent t" "same_rules s t"
    using getLayoutOrder_step [OF assms(1,2), of True] by auto
  then show ?thesis using assms(3) by (simp add: getOutputSection_def same_rules_def)
qed

text \<open>C9: Of two sections that fall into different output sections of the scripts, the one whose output section the
  scripts list first compares as less than the other, the other does not compare as less than it, and both are given
  the names of their output sections. The answers do not depend on what the caches hold, as long as that agrees with
  the rules: it does when they are empty, and every one of these queries keeps it so and changes no rule.
\<close>

theorem sections_in_script_order:
  assumes "coherent s" "falls_into s lhs a" "falls_into s rhs b" "a < b"
    and "layoutCommands s ! a = L_Output out" "layoutCommands s ! b = L_Output out'"
  shows "\<exists>t u v w. sema_less lhs rhs s = Some (True, t) \<and> sema_less rhs lhs t = Some (False, u) \<and>
    getOutputSection lhs u = Some (os_name out, v) \<and> getOutputSection rhs v = Some (os_name out', w) \<and>
    coherent w \<and> same_rules s w"
proof -
  obtain i e j f where r: "find_rule s lhs = Some (Some (i, e))" "find_rule s rhs = Some (Some (j, f))"
    using assms(2,3) by (auto simp: falls_into_def)
  have "b < j" "i \<le> b" using assms(2-4) r assms(3) by (auto simp: falls_into_def not_less [symmetric])
  then have ij: "i < j" by simp
  obtain t where t: "sema_less lhs rhs s = Some (True, t)" "coherent t" "same_rules s t"
    using sema_less_step [OF assms(1) r] ij by auto
  have rt: "find_rule t key = find_rule s key" for key using find_rule_cong [OF t(3)] by simp
  obtain u where u: "sema_less rhs lhs t = Some (False, u)" "coherent u" "same_rules t u"
    using sema_less_step [OF t(2), of rhs j f lhs i e] r rt ij by auto
  have su: "same_rules s u" using t(3) u(3) by (rule same_rules_trans)
  have ru: "find_rule u key = find_rule s key" for key using find_rule_cong [OF su] by simp
  obtain v where v: "getOutputSection lhs u = Some (os_name out, v)" "coherent v" "same_rules u v"
    using getOutputSection_step [OF u(2), of lhs i e out] ru r falls_into_name [OF assms(2,5) r(1)] su
    by (auto simp: same_rules_def)
  have sv: "same_rules s v" using su v(3) by (rule same_rules_trans)
  have rv: "find_rule v key = find_rule s key" for key using find_rule_cong [OF sv] by simp
  obtain w where "getOutputSection rhs v = Some (os_name out', w)" "coherent w" "same_rules v w"
    using getOutputSection_step [OF v(2), of rhs j f out'] rv r falls_into_name [OF assms(3,6) r(2)] sv
    by (auto simp: same_rules_def)
  with t u v same_rules_trans [OF sv] show ?thesis by blast
qed

section \<open>Each assignment is delivered once\<close>

text \<open>What a sequence of sections is given to evaluate.\<close>

fun deliver :: "section_key list \<Rightarrow> sema \<Rightarrow> ((nat \<times> symbol_assignment) list \<times> sema) option" where
  "deliver [] s = Some ([], s)"
| "deliver (key # keys) s =
    do { (es, s) \<leftarrow> getExprs key s; (fs, s) \<leftarrow> deliver keys s; Some (es @ fs, s) }"

definition is_section :: "layout_command \<Rightarrow> bool" where
  "is_section c = (case c of L_Section _ \<Rightarrow> True | _ \<Rightarrow> False)"

lemma section_loop_place:
  "section_loop cs i name = Some (Some e) \<Longrightarrow> i \<le> e \<and> e - i < length cs \<and> is_section (cs ! (e - i))"
proof (induction cs i name rule: section_loop.induct)
  case (2 c cs i name)
  show ?case
  proof (cases c)
    case (L_Section x)
    with 2 show ?thesis
      by (cases x) (fastforce simp: is_section_def nth_Cons' Suc_diff_le split: Option.bind_splits if_splits)+
  qed (use 2 in simp_all)
qed simp

lemma match_place:
  assumes "matchSectionName s i key = Some (Some e)"
  shows "e < length (layoutCommands s) \<and> is_section (layoutCommands s ! e)"
proof -
  from assms have "section_loop (drop (Suc i) (layoutCommands s)) (Suc i) (sectionName key) = Some (Some e)"
    by (auto simp: matchSectionName_def split: layout_command.splits Option.bind_splits if_splits)
  from section_loop_place [OF this] show ?thesis by auto
qed

lemma find_rule_matches:
  assumes "find_rule s key = Some (Some (i, e))"
  obtains j where "matchSectionName s j key = Some (Some e)"
proof -
  have a: "rule_loop s key is = Some (Some (i, e)) \<Longrightarrow> \<exists>j. matchSectionName s j key = Some (Some e)" for "is"
    by (induction "is") (auto split: Option.bind_splits option.splits)
  have b: "wildcard_rule_loop s key is = Some (Some (i, e)) \<Longrightarrow> \<exists>j. matchSectionName s j key = Some (Some e)" for "is"
    by (induction "is") (auto split: Option.bind_splits option.splits if_splits)
  obtain r where r: "rule_loop s key (memberToLayoutOrder s (memberPath key)) = Some r"
      "(case r of Some x \<Rightarrow> Some (Some x) | None \<Rightarrow> wildcard_rule_loop s key (memberNameWildcards s)) = Some (Some (i, e))"
    using assms unfolding find_rule_def by (auto split: Option.bind_splits)
  have "\<exists>j. matchSectionName s j key = Some (Some e)"
  proof (cases r)
    case None
    with r(2) b show ?thesis by simp
  next
    case (Some x)
    with r a show ?thesis by simp
  qed
  then show thesis using that by blast
qed

lemma find_rule_place:
  assumes "find_rule s key = Some (Some (i, e))"
  shows "e < length (layoutCommands s) \<and> is_section (layoutCommands s ! e)"
  using assms match_place by (rule find_rule_matches)

lemma assignments_before_0: "assignments_before cs 0 = []"
  by (simp add: assignments_before_def)

lemma assignments_before_Suc:
  assumes "i < length cs"
  shows "assignments_before cs (Suc i) =
    (if is_section (cs ! i) then []
     else assignments_before cs i @ (case cs ! i of L_Assignment a \<Rightarrow> [(i, a)] | _ \<Rightarrow> []))"
  using assms by (cases "cs ! i") (simp_all add: assignments_before_def is_section_def take_Suc_conv_app_nth)

lemma assignments_before_iff:
  "i \<le> length cs \<Longrightarrow> (j, a) \<in> set (assignments_before cs i) \<longleftrightarrow>
    j < i \<and> cs ! j = L_Assignment a \<and> (\<forall>k. j < k \<and> k < i \<longrightarrow> \<not> is_section (cs ! k))"
proof (induction i)
  case 0
  then show ?case by (simp add: assignments_before_0)
next
  case (Suc i)
  show ?case
  proof (cases "is_section (cs ! i)")
    case True
    then have "\<not> (j < Suc i \<and> cs ! j = L_Assignment a \<and> (\<forall>k. j < k \<and> k < Suc i \<longrightarrow> \<not> is_section (cs ! k)))"
      by (cases "j = i") (auto simp: is_section_def less_Suc_eq)
    with True Suc.prems show ?thesis by (simp add: assignments_before_Suc)
  next
    case False
    with Suc show ?thesis
      by (cases "cs ! i") (auto simp: assignments_before_Suc less_Suc_eq)
  qed
qed

lemma assignments_before_distinct: "i \<le> length cs \<Longrightarrow> distinct (map fst (assignments_before cs i))"
proof (induction i)
  case 0
  then show ?case by (simp add: assignments_before_0)
next
  case (Suc i)
  then have "i \<notin> fst ` set (assignments_before cs i)"
    by (auto simp: assignments_before_iff)
  with Suc show ?case
    by (cases "cs ! i") (simp_all add: assignments_before_Suc)
qed

lemma assignments_before_disjoint:
  assumes "i < length cs" "j < length cs" "is_section (cs ! i)" "is_section (cs ! j)" "i \<noteq> j"
  shows "fst ` set (assignments_before cs i) \<inter> fst ` set (assignments_before cs j) = {}"
proof -
  have "\<not> (k < i \<and> k < j \<and> (\<forall>m. k < m \<and> m < i \<longrightarrow> \<not> is_section (cs ! m)) \<and> (\<forall>m. k < m \<and> m < j \<longrightarrow> \<not> is_section (cs ! m)))" for k
    using assms(3-5) by (cases i j rule: linorder_cases) auto
  then show ?thesis
    using assms(1,2) by (fastforce simp: assignments_before_iff)
qed

text \<open>The place of the rule for the expressions of a section, if it falls under one.\<close>

definition expr_place :: "sema \<Rightarrow> section_key \<Rightarrow> nat option" where
  "expr_place s key = (case find_rule s key of Some (Some (i, e)) \<Rightarrow> Some e | _ \<Rightarrow> None)"

lemma expr_place_cong: "same_rules s t \<Longrightarrow> expr_place t key = expr_place s key"
  by (simp add: expr_place_def find_rule_cong)

lemma expr_place_section:
  "expr_place s key = Some e \<Longrightarrow> e < length (layoutCommands s) \<and> is_section (layoutCommands s ! e)"
  using find_rule_place by (auto simp: expr_place_def split: option.splits)

lemma getExprs_step:
  assumes "coherent s" "getExprs key s = Some (es, t)"
  shows "coherent t \<and> same_rules s t \<and>
    (case expr_place s key of
       None \<Rightarrow> es = [] \<and> deliveredExprs t = deliveredExprs s
     | Some e \<Rightarrow> deliveredExprs t = insert e (deliveredExprs s) \<and>
         es = (if e \<in> deliveredExprs s then [] else assignments_before (layoutCommands s) e))"
proof -
  obtain order u where u: "getLayoutOrder key False s = Some (order, u)"
    using assms(2) by (auto simp: getExprs_def split: Option.bind_splits)
  note c = getLayoutOrder_cases [OF assms(1) u]
  have o: "expr_place s key = order"
    using c(1) by (auto simp: expr_place_def split: option.splits)
  have ch: "coherent (u\<lparr>deliveredExprs := D\<rparr>)" "same_rules s (u\<lparr>deliveredExprs := D\<rparr>)" for D
    using c(2,3) find_rule_cong [of u "u\<lparr>deliveredExprs := D\<rparr>"] by (simp_all add: coherent_def same_rules_def)
  show ?thesis
    using assms(2) u c(2-4) ch o by (auto simp: getExprs_def same_rules_def insert_absorb split: option.splits if_splits)
qed

lemma deliver_step:
  assumes "coherent s" "deliver keys s = Some (es, t)"
  shows "distinct (map fst es) \<and>
    set es = (\<Union>e \<in> {e. Some e \<in> expr_place s ` set keys} - deliveredExprs s. set (assignments_before (layoutCommands s) e))"
  using assms
proof (induction keys arbitrary: s es t)
  case Nil
  then show ?case by simp
next
  case (Cons key keys)
  then obtain xs u ys where x: "getExprs key s = Some (xs, u)" and y: "deliver keys u = Some (ys, t)" and es: "es = xs @ ys"
    by (auto split: Option.bind_splits)
  note g = getExprs_step [OF Cons.prems(1) x]
  have same: "same_rules s u" and coh: "coherent u" using g by simp_all
  have cs: "layoutCommands u = layoutCommands s" using same by (simp add: same_rules_def)
  have ex: "expr_place u = expr_place s" using expr_place_cong [OF same] by (rule ext)
  let ?cs = "layoutCommands s"
  have ih: "distinct (map fst ys)"
    "set ys = (\<Union>e \<in> {e. Some e \<in> expr_place s ` set keys} - deliveredExprs u. set (assignments_before ?cs e))"
    using Cons.IH [OF coh y] by (simp_all add: cs ex)
  show ?case
  proof (cases "expr_place s key")
    case None
    with g ih es show ?thesis by simp
  next
    case (Some e)
    with g have u: "deliveredExprs u = insert e (deliveredExprs s)"
      and xs: "xs = (if e \<in> deliveredExprs s then [] else assignments_before ?cs e)" by simp_all
    have e: "e < length ?cs" "is_section (?cs ! e)" using expr_place_section [OF Some] by simp_all
    have "fst ` set xs \<inter> fst ` set ys = {}"
    proof (cases "e \<in> deliveredExprs s")
      case False
      have "fst ` set (assignments_before ?cs e) \<inter> fst ` set (assignments_before ?cs f) = {}"
        if "f \<noteq> e" "Some f \<in> expr_place s ` set keys" for f
      proof -
        from that(2) obtain k where "expr_place s k = Some f" by force
        from expr_place_section [OF this] e that(1) show ?thesis
          by (intro assignments_before_disjoint) auto
      qed
      with False xs ih(2) u show ?thesis by (simp only: if_False) blast
    qed (simp add: xs)
    moreover have "distinct (map fst xs)"
      using xs e assignments_before_distinct [of e ?cs] by simp
    moreover have "set es = (\<Union>f \<in> {f. Some f \<in> expr_place s ` set (key # keys)} - deliveredExprs s. set (assignments_before ?cs f))"
      using xs ih(2) u es Some by auto
    ultimately show ?thesis using ih(1) es by simp
  qed
qed

text \<open>C10: When the writer asks for the assignments before each of a list of sections, it gets every assignment that
  the scripts put between the rule of one of these sections and the rule before it exactly once, and no other.
\<close>

theorem exprs_delivered_once:
  assumes "coherent s" "deliveredExprs s = {}" "deliver keys s = Some (es, t)"
  shows "distinct (map fst es) \<and>
    (\<forall>j a. (j, a) \<in> set es \<longleftrightarrow>
      (\<exists>key \<in> set keys. \<exists>e. expr_place s key = Some e \<and> j < e \<and> layoutCommands s ! j = L_Assignment a \<and>
        (\<forall>k. j < k \<and> k < e \<longrightarrow> \<not> is_section (layoutCommands s ! k))))"
proof (intro conjI allI)
  note d = deliver_step [OF assms(1,3)]
  show "distinct (map fst es)" using d by simp
  fix j a
  have "(j, a) \<in> set (assignments_before (layoutCommands s) e) \<longleftrightarrow>
      j < e \<and> layoutCommands s ! j = L_Assignment a \<and> (\<forall>k. j < k \<and> k < e \<longrightarrow> \<not> is_section (layoutCommands s ! k))"
    if "expr_place s key = Some e" for key e
    using expr_place_section [OF that] by (intro assignments_before_iff) simp
  moreover have "(j, a) \<in> set es \<longleftrightarrow>
      (\<exists>key \<in> set keys. \<exists>e. expr_place s key = Some e \<and> (j, a) \<in> set (assignments_before (layoutCommands s) e))"
    using d assms(2) by (auto simp: image_iff) (metis)+
  ultimately show "(j, a) \<in> set es \<longleftrightarrow>
      (\<exists>key \<in> set keys. \<exists>e. expr_place s key = Some e \<and> j < e \<and> layoutCommands s ! j = L_Assignment a \<and>
        (\<forall>k. j < k \<and> k < e \<longrightarrow> \<not> is_section (layoutCommands s ! k)))"
    by blast
qed

section \<open>A small script\<close>

text \<open>
  \<open>a = 1; .text : { *(.text .init) } b = 2; .data : { *(.data) }\<close>, with the exact names of the sections and one
  object file.
\<close>

definition any_file :: "string list \<Rightarrow> input_sections" where
  "any_file names =
    \<lparr>memberName = ''f?'', archiveName = ''f?'', keep = False, fileSortMode = S_NA, archiveSortMode = S_NA,
     in_sections = map (\<lambda>n. InputSectionName n False) names\<rparr>"

definition plain_output :: "string \<Rightarrow> output_section_command list \<Rightarrow> output_section" where
  "plain_output name cs =
    \<lparr>os_name = name, os_address = None, os_align = None, os_subAlign = None, os_at = None, os_fillExpr = None,
     os_fillStream = [], os_alignWithInput = False, os_discard = False, os_constraint = C_None, os_commands = cs,
     os_phdrs = []\<rparr>"

definition small_script :: "sections_command list" where
  "small_script =
    [SC_Assignment (SymbolAssignment ''a'' (Constant 1) A_Simple V_Default),
     SC_Output (plain_output ''T'' [OSC_Input (any_file [''t'', ''i''])]),
     SC_Assignment (SymbolAssignment ''b'' (Constant 2) A_Simple V_Default),
     SC_Output (plain_output ''D'' [OSC_Input (any_file [''d''])])]"

definition file_section :: "string \<Rightarrow> section_key" where
  "file_section name = \<lparr>archivePath = ''f1'', memberPath = ''f1'', sectionName = name\<rparr>"

definition small_sema :: sema where
  "small_sema = perform (\<lambda>_. 0) (addLinkerScript [Sections small_script] new_sema)"

lemmas script_defs = small_sema_def small_script_def perform_def perform_script_def addLinkerScript_def new_sema_def
  linearizeSections_def linearizeOutput_def linearizeInput_def push_layout_def any_file_def plain_output_def
  multimap_insert_def hasWildcard_def Let_def

lemma small_layout:
  "layoutCommands small_sema =
    [L_Assignment (SymbolAssignment ''a'' (Constant 1) A_Simple V_Default),
     L_Output (plain_output ''T'' [OSC_Input (any_file [''t'', ''i''])]), L_Input (any_file [''t'', ''i'']),
     L_Section (InputSectionName ''t'' False), L_Section (InputSectionName ''i'' False),
     L_Assignment (SymbolAssignment ''b'' (Constant 2) A_Simple V_Default),
     L_Output (plain_output ''D'' [OSC_Input (any_file [''d''])]), L_Input (any_file [''d'']),
     L_Section (InputSectionName ''d'' False)]"
  "memberToLayoutOrder small_sema name = []"
  "memberNameWildcards small_sema = [(''f?'', 2), (''f?'', 7)]"
  "deliveredExprs small_sema = {}"
  "cacheExpressionOrder small_sema = Map.empty" "cacheSectionOrder small_sema = Map.empty"
  by (simp_all add: script_defs)

lemma coherent_small: "coherent small_sema"
  by (simp add: coherent_def script_defs)

lemma small_rules:
  "find_rule small_sema (file_section ''t'') = Some (Some (2, 3))"
  "find_rule small_sema (file_section ''i'') = Some (Some (2, 4))"
  "find_rule small_sema (file_section ''d'') = Some (Some (7, 8))"
  by (simp_all add: find_rule_def small_layout matchSectionName_def file_section_def any_file_def)

theorem sections_in_script_order_witness:
  "\<exists>t u v w. sema_less (file_section ''i'') (file_section ''d'') small_sema = Some (True, t) \<and>
    sema_less (file_section ''d'') (file_section ''i'') t = Some (False, u) \<and>
    getOutputSection (file_section ''i'') u = Some (''T'', v) \<and>
    getOutputSection (file_section ''d'') v = Some (''D'', w)"
proof -
  have i: "falls_into small_sema (file_section ''i'') 1"
    by (simp add: falls_into_def small_rules small_layout is_output_def)
  have d: "falls_into small_sema (file_section ''d'') 6"
    by (simp add: falls_into_def small_rules small_layout is_output_def)
  have T: "layoutCommands small_sema ! 1 = L_Output (plain_output ''T'' [OSC_Input (any_file [''t'', ''i''])])"
    by (simp add: small_layout)
  have D: "layoutCommands small_sema ! 6 = L_Output (plain_output ''D'' [OSC_Input (any_file [''d''])])"
    by (simp add: small_layout)
  have "os_name (plain_output n cs) = n" for n cs by (simp add: plain_output_def)
  with sections_in_script_order [OF coherent_small i d _ T D] show ?thesis by auto
qed

lemma small_places:
  "expr_place small_sema (file_section ''t'') = Some 3" "expr_place small_sema (file_section ''d'') = Some 8"
  by (simp_all add: expr_place_def small_rules)

lemma find_rule_update:
  "find_rule (s\<lparr>deliveredExprs := D\<rparr>) key = find_rule s key"
  "find_rule (s\<lparr>cacheExpressionOrder := M\<rparr>) key = find_rule s key"
  by (rule find_rule_cong, simp add: same_rules_def)+

lemma file_section_eq: "file_section a = file_section b \<longleftrightarrow> a = b"
  by (simp add: file_section_def)

lemma small_deliver:
  "\<exists>t. deliver [file_section ''t'', file_section ''d'', file_section ''t''] small_sema =
    Some ([(0, SymbolAssignment ''a'' (Constant 1) A_Simple V_Default),
           (5, SymbolAssignment ''b'' (Constant 2) A_Simple V_Default)], t)"
  by (simp add: getExprs_def getLayoutOrder_def find_rule_update small_rules cache_insert_def small_layout
      file_section_eq assignments_before_def upt_rec)

theorem exprs_delivered_once_witness:
  "\<exists>es t. deliver [file_section ''t'', file_section ''d'', file_section ''t''] small_sema = Some (es, t) \<and>
    length es = 2 \<and> distinct (map fst es) \<and> (5, SymbolAssignment ''b'' (Constant 2) A_Simple V_Default) \<in> set es"
proof -
  obtain t where d: "deliver [file_section ''t'', file_section ''d'', file_section ''t''] small_sema =
    Some ([(0, SymbolAssignment ''a'' (Constant 1) A_Simple V_Default),
           (5, SymbolAssignment ''b'' (Constant 2) A_Simple V_Default)], t)" using small_deliver by blast
  from exprs_delivered_once [OF coherent_small small_layout(4) d] d show ?thesis by auto
qed

section \<open>Where the code departs from what it means\<close>

lemma star_needs_a_character: "wildcardMatch ''a*'' ''a'' = Some False"
  by simp

text \<open>A name that does not match behind a star is left.\<close>

lemma star_leaves_the_name: "wildcardMatch ''*.o'' ''a.c'' = None"
  by simp

lemma bracket_finds_the_rest:
  "wildcardMatch ''[ab]c'' ''ac'' = Some False \<and> wildcardMatch ''[ab]'' ''a'' = Some True \<and> wildcardMatch ''[ab'' ''a'' = None"
  by (simp add: bracket_def occurs_def startswith_def upt_rec)

text \<open>A section that only the sorted group matches comes after one that it does not match, whatever the script lists first.\<close>

lemma sorted_group_comes_last:
  "compare_loop [InputSectionSortedGroup S_ByName [InputSectionName ''a'' False], InputSectionName ''b'' False] ''a'' ''b'' =
    Some False \<and>
   compare_loop [InputSectionSortedGroup S_ByName [InputSectionName ''a'' False], InputSectionName ''b'' False] ''b'' ''a'' =
    Some True"
  by simp

text \<open>Without a sort order two files are equivalent, and a section of another file is equivalent to both of two that are ordered.\<close>

lemma less_is_no_weak_order:
  "archivePath k1 = archivePath k2 \<Longrightarrow> memberPath k1 \<noteq> memberPath k2 \<Longrightarrow> layoutCommands s ! i = L_Input (any_file names) \<Longrightarrow>
    localCompare s i k1 k2 = Some False \<and> localCompare s i k2 k1 = Some False"
  by (simp add: localCompare_def any_file_def compareSortedNames_def)

text \<open>An unknown program header is reported once; afterwards the names entered so far are the answer.\<close>

lemma unknown_header_reported_once:
  "fst (buildSectionToPHDR (snd (buildSectionToPHDR s)))"
  by (simp add: buildSectionToPHDR_def Let_def split: prod.splits)

text \<open>A header named \<open>NONE\<close> of the script is replaced: the guard looks into the map of the sections, which is empty then.\<close>

lemma user_header_NONE_replaced:
  "\<not> parsedPHDRS s \<Longrightarrow> scripts s \<noteq> [] \<Longrightarrow> sectionToPHDR s = Map.empty \<Longrightarrow>
    layoutCommands s = [L_Output ((plain_output ''T'' [])\<lparr>os_phdrs := [''NONE'']\<rparr>)] \<Longrightarrow> declared_phdrs s \<noteq> [] \<Longrightarrow>
    sectionToPHDR (snd (buildSectionToPHDR s)) ''T'' = Some [phdr_NONE]"
  by (simp add: buildSectionToPHDR_def plain_output_def Let_def declared_phdrs_def)

lemma assignment_kind_lost: "sa_kind (SymbolAssignment name e kind vis) = A_Simple"
  by (simp add: SymbolAssignment_def)

end
