(* ===== verification/Rounding.thy ===== *)
theory Rounding
  imports Relocation
begin

text \<open>
  Rounding up to an alignment (\<open>RoundUpToAlignment\<close> of llvm/Support/MathExtras.h) on 64-bit words: what it does when the
  alignment is a power of two, with and without wrap-around. The layout of segments rests on it.
\<close>

section \<open>Rounding up\<close>

text \<open>Alignments are powers of two below the range of words.\<close>

definition pow2_word :: "u64 \<Rightarrow> nat \<Rightarrow> bool" where
  "pow2_word a k \<longleftrightarrow> a = 2 ^ k \<and> k < 64"

lemma pow2_unat: "pow2_word a k \<Longrightarrow> unat a = 2 ^ k"
  using unat_of_nat_id [of "2 ^ k", where 'a = 64] power_strict_increasing [of k 64 "2 :: nat"]
  by (simp add: pow2_word_def)

lemma mod_pow2: "pow2_word a k \<Longrightarrow> x mod a = take_bit k x"
  by (simp add: pow2_word_def take_bit_eq_mod)

lemma round_up_alt: "RoundUpToAlignment v a = (v + a - 1) - (v + a - 1) mod a"
  unfolding RoundUpToAlignment_def by (metis add_diff_cancel_right' div_mult_mod_eq)

lemma round_up_aligned:
  assumes "pow2_word a k"
  shows "RoundUpToAlignment v a mod a = 0"
proof -
  have "RoundUpToAlignment v a = push_bit k ((v + a - 1) div a)"
    using assms by (simp add: RoundUpToAlignment_def pow2_word_def push_bit_eq_mult)
  then show ?thesis by (simp add: mod_pow2 [OF assms] take_bit_push_bit)
qed

lemma take_bit_shift: "take_bit k d = 0 \<Longrightarrow> take_bit k (w + d) = take_bit k (w :: u64)"
proof (transfer fixing: k)
  fix d w :: int
  assume "take_bit LENGTH(64) (take_bit (min LENGTH(64) k) d) = take_bit LENGTH(64) 0"
  then have "take_bit (min LENGTH(64) k) d = 0" by (simp add: min_def split: if_splits)
  then show "take_bit LENGTH(64) (take_bit (min LENGTH(64) k) (w + d)) = take_bit LENGTH(64) (take_bit (min LENGTH(64) k) w)"
    using take_bit_add [of "min LENGTH(64) k" w d] by simp
qed

lemma round_up_shift:
  assumes "pow2_word a k" and "d mod a = 0"
  shows "RoundUpToAlignment (v + d) a = RoundUpToAlignment v a + d"
proof -
  have "(v + a - 1 + d) mod a = (v + a - 1) mod a"
    using assms(2) unfolding mod_pow2 [OF assms(1)] by (rule take_bit_shift)
  moreover have "v + d + a - 1 = v + a - 1 + d" by simp
  ultimately have "RoundUpToAlignment (v + d) a = v + a - 1 + d - (v + a - 1) mod a" by (simp only: round_up_alt)
  then show ?thesis unfolding round_up_alt by (simp only: diff_add_eq)
qed

lemma pow2_minus_1: "pow2_word a k \<Longrightarrow> unat (a - 1) = 2 ^ k - 1"
proof -
  assume a: "pow2_word a k"
  have "1 \<le> a" using pow2_unat [OF a] by (simp add: word_le_nat_alt)
  then show ?thesis using pow2_unat [OF a] by (simp add: unat_sub)
qed

lemma round_up_0:
  assumes "pow2_word a k"
  shows "RoundUpToAlignment 0 a = 0"
proof -
  have "unat (a - 1) < unat a" unfolding pow2_minus_1 [OF assms] pow2_unat [OF assms] by simp
  then have "unat ((a - 1) div a) = 0" unfolding unat_div by simp
  then have "(a - 1) div a = 0" by (simp only: unat_eq_0)
  then show ?thesis by (simp add: RoundUpToAlignment_def)
qed

lemma round_up_same: "pow2_word a k \<Longrightarrow> v mod a = 0 \<Longrightarrow> RoundUpToAlignment v a = v"
  using round_up_shift [of a k v 0] round_up_0 [of a k] by simp

lemma mod_coarser:
  assumes "pow2_word a k" and "pow2_word b l" and "k \<le> l" and "x mod b = 0"
  shows "x mod a = 0"
proof -
  have "take_bit k (take_bit l x) = take_bit k x" using assms(3) by (simp add: min_def)
  then show ?thesis using assms(4) unfolding mod_pow2 [OF assms(1)] mod_pow2 [OF assms(2)] by simp
qed

lemma round_up_gap:
  assumes "pow2_word a k"
  shows "RoundUpToAlignment v a - v < a"
proof -
  have e: "RoundUpToAlignment v a - v = (a - 1) - (v + a - 1) mod a" unfolding round_up_alt by simp
  have "unat ((v + a - 1) mod a) < 2 ^ k" unfolding unat_mod pow2_unat [OF assms] by simp
  then have m: "unat ((v + a - 1) mod a) \<le> unat (a - 1)" unfolding pow2_minus_1 [OF assms] by linarith
  then have "unat (RoundUpToAlignment v a - v) = unat (a - 1) - unat ((v + a - 1) mod a)"
    unfolding e by (intro unat_sub) (simp only: word_le_nat_alt)
  also have "\<dots> < unat a" unfolding pow2_minus_1 [OF assms] pow2_unat [OF assms] by (simp add: less_imp_diff_less)
  finally show ?thesis by (simp only: word_less_nat_alt)
qed

text \<open>Without wrap-around it is the rounding of numbers.\<close>

lemma round_up_unat:
  assumes "pow2_word a k" and "unat v + unat a < 2 ^ 64"
  shows "unat v \<le> unat (RoundUpToAlignment v a)" and "unat (RoundUpToAlignment v a) < unat v + unat a"
    and "unat a dvd unat (RoundUpToAlignment v a)"
proof -
  have g: "unat (RoundUpToAlignment v a - v) < unat a" using round_up_gap [OF assms(1)] by (simp add: word_less_nat_alt)
  have "unat (RoundUpToAlignment v a) = unat (v + (RoundUpToAlignment v a - v))" by simp
  also have "\<dots> = unat v + unat (RoundUpToAlignment v a - v)"
    using g assms(2) by (intro unat_add_lem [THEN iffD1]) simp
  finally have e: "unat (RoundUpToAlignment v a) = unat v + unat (RoundUpToAlignment v a - v)" .
  then show "unat v \<le> unat (RoundUpToAlignment v a)" "unat (RoundUpToAlignment v a) < unat v + unat a" using g by auto
  have "unat (RoundUpToAlignment v a mod a) = 0" using round_up_aligned [OF assms(1)] by simp
  then show "unat a dvd unat (RoundUpToAlignment v a)" by (simp add: unat_mod dvd_eq_mod_eq_0)
qed

lemma take_bit_diff0: "take_bit k x = take_bit k y \<Longrightarrow> take_bit k (x - y) = (0 :: u64)"
proof (transfer fixing: k)
  fix x y :: int
  assume "take_bit LENGTH(64) (take_bit (min LENGTH(64) k) x) = take_bit LENGTH(64) (take_bit (min LENGTH(64) k) y)"
  then have "take_bit (min LENGTH(64) k) x = take_bit (min LENGTH(64) k) y" by (simp add: min_def split: if_splits)
  then show "take_bit LENGTH(64) (take_bit (min LENGTH(64) k) (x - y)) = take_bit LENGTH(64) 0"
    using take_bit_diff [of "min LENGTH(64) k" x y] by simp
qed

lemma mod_diff: "pow2_word a k \<Longrightarrow> x mod a = y mod a \<Longrightarrow> (x - y) mod a = 0"
  using take_bit_diff0 by (simp add: mod_pow2)

lemma mod_add: "pow2_word a k \<Longrightarrow> d mod a = 0 \<Longrightarrow> (w + d) mod a = w mod a"
  using take_bit_shift by (simp add: mod_pow2)

lemma and_page: "pow2_word a k \<Longrightarrow> x AND (a - 1) = x mod a"
  by (subst mod_pow2, assumption) (simp add: take_bit_eq_mask mask_eq_exp_minus_1 pow2_word_def)

lemma mod_mod: "pow2_word a k \<Longrightarrow> x mod a mod a = x mod a"
  by (simp add: mod_pow2)

end
