(* ===== verification/Segment_Layout.thy ===== *)
theory Segment_Layout
  imports Atom_Section Rounding
begin

text \<open>
  Segments of the ELF output (lib/ReaderWriter/ELF/SegmentChunks.h, SegmentChunks.cpp): what a segment collects from
  its chunks, the order of segments, the addresses and file offsets of the chunks and the slices a segment is
  cut into.
\<close>

section \<open>Segments\<close>

type_synonym segment_type = u32

definition PT_LOAD :: segment_type where "PT_LOAD = 1"
definition PT_INTERP :: segment_type where "PT_INTERP = 3"
definition PT_NOTE :: segment_type where "PT_NOTE = 4"
definition PT_PHDR :: segment_type where "PT_PHDR = 6"
definition PT_TLS :: segment_type where "PT_TLS = 7"
definition PT_GNU_RELRO :: segment_type where "PT_GNU_RELRO = 0x6474e552"

definition toAtomPerms :: "u64 \<Rightarrow> content_permissions" where
  "toAtomPerms flags =
     (let f = flags AND (SHF_ALLOC OR SHF_WRITE OR SHF_EXECINSTR) in
      if f = SHF_ALLOC OR SHF_WRITE OR SHF_EXECINSTR then permRWX
      else if f = SHF_ALLOC OR SHF_EXECINSTR then permR_X
      else if f = SHF_ALLOC then permR
      else if f = SHF_ALLOC OR SHF_WRITE then permRW
      else permUnknown)"

text \<open>A chunk of a segment: a section, an expression of a linker script (its effect on the position) or a header.
  \<open>ck_addr\<close> is its own address, \<open>ck_atoms\<close> the one its atoms are placed from, if it is a section.\<close>

datatype chunk_kind = Section_chunk | Expression_chunk "u64 \<Rightarrow> u64" | Header_chunk

record chunk =
  ck_kind :: chunk_kind
  ck_name :: string
  ck_flags :: u64
  ck_content :: chunk_content
  ck_align :: u64
  ck_fsize :: u64
  ck_msize :: u64
  ck_tbss :: bool
  ck_tls :: bool
  ck_loadable :: bool
  ck_addr :: u64
  ck_atoms :: "u64 option"
  ck_offset :: u64

abbreviation is_section :: "chunk \<Rightarrow> bool" where
  "is_section c \<equiv> ck_kind c = Section_chunk"

record 'c segment =
  sg_type :: segment_type
  sg_flags :: u64
  sg_perms :: content_permissions
  sg_align :: u64
  sg_chunks :: "'c list"

definition new_segment :: "segment_type \<Rightarrow> 'c segment" where
  "new_segment ty = \<lparr>sg_type = ty, sg_flags = 0, sg_perms = perm_None, sg_align = 1, sg_chunks = []\<rparr>"

text \<open>\<open>Segment::append\<close>: \<open>h\<close> is the pointer to the chunk \<open>c\<close>.\<close>

definition segment_append :: "'c \<Rightarrow> chunk \<Rightarrow> 'c segment \<Rightarrow> 'c segment" where
  "segment_append h c s =
     (if \<not> is_section c then s\<lparr>sg_chunks := sg_chunks s @ [h]\<rparr>
      else let fl = (if sg_flags s < ck_flags c then sg_flags s OR ck_flags c else sg_flags s);
               pm = (if perm_value (sg_perms s) < perm_value (toAtomPerms fl) then toAtomPerms fl else sg_perms s)
           in s\<lparr>sg_flags := fl, sg_perms := pm, sg_align := (if sg_align s < ck_align c then ck_align c else sg_align s),
                sg_chunks := sg_chunks s @ [h]\<rparr>)"

definition segment_prepend :: "'c \<Rightarrow> 'c segment \<Rightarrow> 'c segment" where
  "segment_prepend h s = s\<lparr>sg_chunks := h # sg_chunks s\<rparr>"

text \<open>\<open>Segment::flags\<close>: the bits \<open>PF_R\<close>, \<open>PF_W\<close> and \<open>PF_X\<close>.\<close>

definition segment_flags :: "'c segment \<Rightarrow> u64" where
  "segment_flags s =
     (if sg_flags s AND SHF_ALLOC \<noteq> 0 then 4 else 0) OR (if sg_flags s AND SHF_WRITE \<noteq> 0 then 2 else 0)
     OR (if sg_flags s AND SHF_EXECINSTR \<noteq> 0 then 1 else 0)"

text \<open>\<open>Segment::getContentType\<close>, with the \<open>&&\<close> of the code: both tests of a loadable segment ask whether it has
  flags at all, and without flags the case falls through.\<close>

definition segment_content :: "'c segment \<Rightarrow> chunk_content" where
  "segment_content s =
     (if sg_type s = PT_LOAD then (if segment_flags s \<noteq> 0 then Code_content else TLS_content)
      else if sg_type s = PT_TLS then TLS_content
      else if sg_type s = PT_NOTE then Note_content
      else Unknown_content)"

text \<open>\<open>Segment::SegmentOrder\<close> and \<open>atomflags\<close>.\<close>

fun segment_order :: "content_permissions \<Rightarrow> nat" where
  "segment_order permUnknown = 0"
| "segment_order permRWX = 1"
| "segment_order permR_X = 2"
| "segment_order permR = 3"
| "segment_order permRW_L = 4"
| "segment_order permRW = 5"
| "segment_order perm_None = 6"

definition compareSegments :: "'c segment \<Rightarrow> 'c segment \<Rightarrow> bool" where
  "compareSegments sega segb =
     (let type1 = sg_type sega; type2 = sg_type segb in
      if type1 = type2 then segment_order (sg_perms sega) < segment_order (sg_perms segb)
      else if type1 = PT_PHDR then True
      else if type2 = PT_PHDR then False
      else if type1 = PT_INTERP then True
      else if type2 = PT_INTERP then False
      else if type1 = PT_LOAD then True
      else if type2 = PT_LOAD then False
      else if type1 = PT_GNU_RELRO then False
      else if type2 = PT_GNU_RELRO then True
      else if type1 = PT_TLS then False
      else if type2 = PT_TLS then True
      else type1 < type2)"

section \<open>Addresses\<close>

datatype output_magic = DEFAULT_magic | NMAGIC | OMAGIC

record seg_env =
  pageSize :: u64
  alignSegments :: bool
  outputMagic :: output_magic

definition needAlign :: "seg_env \<Rightarrow> chunk \<Rightarrow> bool" where
  "needAlign env c \<longleftrightarrow> ck_content c = Data_content \<and> outputMagic env = NMAGIC"

text \<open>A slice holds the chunks from \<open>sl_start\<close> up to \<open>sl_end\<close>.\<close>

record slice =
  sl_start :: nat
  sl_end :: nat
  sl_addr :: u64
  sl_memsz :: u64
  sl_align :: u64
  sl_offset :: u64
  sl_fsize :: u64

text \<open>The slice that starts at a chunk is used again when addresses are assigned once more.\<close>

definition put_slice :: "nat \<Rightarrow> nat \<Rightarrow> u64 \<Rightarrow> u64 \<Rightarrow> u64 \<Rightarrow> slice list \<Rightarrow> slice list" where
  "put_slice start stop addr memsz align sls =
     (if \<exists>s \<in> set sls. sl_start s = start
      then map (\<lambda>s. if sl_start s = start
                    then s\<lparr>sl_end := stop, sl_addr := addr, sl_memsz := memsz, sl_align := align\<rparr> else s) sls
      else sls @ [\<lparr>sl_start = start, sl_end = stop, sl_addr = addr, sl_memsz = memsz, sl_align = align,
                   sl_offset = 0, sl_fsize = 0\<rparr>])"

text \<open>The local variables of \<open>Segment::assignVirtualAddress\<close>; \<open>va_done\<close> are the chunks that have their address.\<close>

record va_state =
  sliceAddress :: u64
  sliceSize :: u64
  sliceAlign :: u64
  startSection :: nat
  currSection :: nat
  pageAligned :: bool
  tlsStartAddr :: u64
  prevName :: string
  tbssMemsize :: u64
  va_slices :: "slice list"
  va_done :: "chunk list"

definition evalExpr :: "chunk \<Rightarrow> u64 \<Rightarrow> u64" where
  "evalExpr c a = (case ck_kind c of Expression_chunk e \<Rightarrow> e a | _ \<Rightarrow> a)"

text \<open>The address of a chunk, and for a section that of its atoms, which in a TLS section count from the start
  of the thread's block.\<close>

definition set_addr :: "u64 \<Rightarrow> u64 \<Rightarrow> u64 \<Rightarrow> chunk \<Rightarrow> chunk" where
  "set_addr addr atoms tls c =
     c\<lparr>ck_addr := addr, ck_atoms := (if is_section c then Some (if ck_tls c then tls else atoms) else ck_atoms c)\<rparr>"

definition next_tls :: "chunk \<Rightarrow> u64 \<Rightarrow> u64" where
  "next_tls c tls = (if is_section c \<and> ck_tls c then RoundUpToAlignment tls (ck_align c) else tls)"

definition va_first :: "seg_env \<Rightarrow> u64 \<Rightarrow> slice list \<Rightarrow> chunk \<Rightarrow> u64 \<times> va_state" where
  "va_first env addr sls c =
     (let pageFirst = alignSegments env \<and> outputMagic env = DEFAULT_magic;
          startAddr = (if pageFirst \<or> needAlign env c then RoundUpToAlignment addr (pageSize env) else addr);
          newAddr = evalExpr c (RoundUpToAlignment startAddr (ck_align c));
          tls = next_tls c 0
      in (startAddr,
          \<lparr>sliceAddress = newAddr, sliceSize = (if ck_tbss c then 0 else ck_msize c), sliceAlign = ck_align c,
           startSection = 0, currSection = 1, pageAligned = (\<not> pageFirst \<and> needAlign env c),
           tlsStartAddr = (if is_section c \<and> ck_tls c then tls + ck_msize c else 0), prevName = [],
           tbssMemsize = (if ck_tbss c then ck_msize c else 0), va_slices = sls, va_done = [set_addr newAddr newAddr tls c]\<rparr>))"

definition outputName :: "chunk \<Rightarrow> string \<Rightarrow> string" where
  "outputName c prev = (case ck_kind c of Expression_chunk _ \<Rightarrow> prev | _ \<Rightarrow> ck_name c)"

definition va_next :: "seg_env \<Rightarrow> chunk \<Rightarrow> va_state \<Rightarrow> va_state" where
  "va_next env c st =
     (let cur = sliceAddress st + sliceSize st;
          align = \<not> pageAligned st \<and> needAlign env c;
          curAddr = (if align then RoundUpToAlignment cur (pageSize env) else cur);
          newAddr = evalExpr c (RoundUpToAlignment curAddr (ck_align c));
          nm = outputName c (prevName st)
      in (if nm \<noteq> prevName st \<and> newAddr - curAddr > pageSize env \<and> outputMagic env = DEFAULT_magic
          then let sa = (if ck_tbss c then newAddr + tbssMemsize st else newAddr) in
            st\<lparr>va_slices := put_slice (startSection st) (currSection st) (sliceAddress st) (sliceSize st) (sliceAlign st) (va_slices st),
               sliceAddress := sa, sliceSize := newAddr - sa + ck_msize c, sliceAlign := ck_align c,
               startSection := currSection st, va_done := va_done st @ [set_addr sa newAddr newAddr c]\<rparr>
          else let a = (if ck_tbss c then newAddr + tbssMemsize st else newAddr); tls = next_tls c (tlsStartAddr st) in
            st\<lparr>sliceAlign := (if sliceAlign st < ck_align c then ck_align c else sliceAlign st),
               sliceSize := (if ck_tbss c then sliceSize st else a - sliceAddress st + ck_msize c),
               tbssMemsize := (if ck_tbss c then ck_msize c else 0),
               tlsStartAddr := (if is_section c \<and> ck_tls c then tls + ck_msize c else tlsStartAddr st),
               va_done := va_done st @ [set_addr a a tls c]\<rparr>)
         \<lparr>pageAligned := pageAligned st \<or> align, prevName := nm, currSection := currSection st + 1\<rparr>)"

record va_result =
  vr_chunks :: "chunk list"
  vr_slices :: "slice list"
  vr_addr :: u64
  vr_msize :: u64

text \<open>A segment without chunks gets one empty slice.\<close>

definition seg_assignVirtualAddress :: "seg_env \<Rightarrow> u64 \<Rightarrow> slice list \<Rightarrow> chunk list \<Rightarrow> va_result" where
  "seg_assignVirtualAddress env addr sls cs =
     (let (startAddr, st) =
        (case cs of
           [] \<Rightarrow> (addr, \<lparr>sliceAddress = 0, sliceSize = 0, sliceAlign = 0, startSection = 0, currSection = 0, pageAligned = False,
                     tlsStartAddr = 0, prevName = [], tbssMemsize = 0, va_slices = sls, va_done = []\<rparr>)
         | c # cs' \<Rightarrow> (case va_first env addr sls c of (sa, st) \<Rightarrow> (sa, fold (va_next env) cs' st)))
      in \<lparr>vr_chunks = va_done st,
          vr_slices = sort_key sl_start
            (put_slice (startSection st) (length cs) (sliceAddress st) (sliceSize st) (sliceAlign st) (va_slices st)),
          vr_addr = sliceAddress st, vr_msize = sliceAddress st - startAddr + sliceSize st\<rparr>)"

section \<open>File offsets\<close>

record fo_state =
  fo_offset :: u64
  fo_slice :: u64
  fo_first :: bool
  fo_paged :: bool
  fo_last :: u64

text \<open>One chunk of a slice whose address is \<open>saddr\<close>.\<close>

definition fo_chunk :: "seg_env \<Rightarrow> u64 \<Rightarrow> chunk \<Rightarrow> fo_state \<Rightarrow> chunk \<times> fo_state" where
  "fo_chunk env saddr c st =
     (let p_align = pageSize env;
          o1 = (if \<not> fo_first st \<and> (\<exists>e. ck_kind c = Expression_chunk e) then fo_offset st + (ck_addr c - fo_last st)
                else fo_offset st);
          o2 = RoundUpToAlignment o1 (ck_align c);
          pageFirst = fo_first st \<and> outputMagic env = DEFAULT_magic;
          paging = \<not> pageFirst \<and> \<not> fo_paged st \<and> needAlign env c;
          o3 = (if pageFirst
                then if alignSegments env then RoundUpToAlignment o2 p_align
                     else if is_section c \<and> ck_loadable c \<and> saddr AND (p_align - 1) \<noteq> o2 AND (p_align - 1)
                     then RoundUpToAlignment o2 p_align + saddr mod p_align
                     else o2
                else if paging then RoundUpToAlignment o2 p_align
                else o2)
      in (c\<lparr>ck_offset := o3\<rparr>,
          \<lparr>fo_offset = o3 + ck_fsize c, fo_slice = (if fo_first st then o3 else fo_slice st), fo_first = False,
           fo_paged = fo_paged st \<or> paging, fo_last = ck_addr c + ck_msize c\<rparr>))"

fun fo_chunks :: "seg_env \<Rightarrow> u64 \<Rightarrow> chunk list \<Rightarrow> fo_state \<Rightarrow> chunk list \<times> fo_state" where
  "fo_chunks env saddr [] st = ([], st)"
| "fo_chunks env saddr (c # cs) st =
     (let (c', st1) = fo_chunk env saddr c st; (cs', st2) = fo_chunks env saddr cs st1 in (c' # cs', st2))"

definition slice_chunks :: "chunk list \<Rightarrow> slice \<Rightarrow> chunk list" where
  "slice_chunks cs sl = take (sl_end sl - sl_start sl) (drop (sl_start sl) cs)"

text \<open>The offset of a slice is set by its first chunk; a slice without chunks keeps the one it had.\<close>

definition fo_slice_step :: "seg_env \<Rightarrow> slice \<Rightarrow> chunk list \<times> slice list \<times> fo_state \<Rightarrow> chunk list \<times> slice list \<times> fo_state" where
  "fo_slice_step env sl acc =
     (case acc of (cs, sls, st) \<Rightarrow>
        let mine = slice_chunks cs sl; (mine', st') = fo_chunks env (sl_addr sl) mine (st\<lparr>fo_first := True\<rparr>) in
        (take (sl_start sl) cs @ mine' @ drop (sl_start sl + length mine) cs,
         sls @ [sl\<lparr>sl_offset := (if mine = [] then sl_offset sl else fo_slice st'), sl_fsize := fo_offset st' - fo_slice st'\<rparr>], st'))"

definition seg_assignFileOffsets :: "seg_env \<Rightarrow> u64 \<Rightarrow> slice list \<Rightarrow> chunk list \<Rightarrow> chunk list \<times> slice list \<times> u64" where
  "seg_assignFileOffsets env startOffset sls cs =
     (case fold (fo_slice_step env) sls
        (cs, [], \<lparr>fo_offset = startOffset, fo_slice = startOffset, fo_first = True, fo_paged = False, fo_last = 0\<rparr>) of
        (cs', sls', st) \<Rightarrow> (cs', sls', fo_offset st - startOffset))"

text \<open>\<open>Segment::finalize\<close> of a segment that is not loadable: offset, address, file size and memory size. \<open>None\<close> is the
  first chunk of a segment that has none.\<close>

definition segment_finalize :: "chunk list \<Rightarrow> (u64 \<times> u64 \<times> u64 \<times> u64) option" where
  "segment_finalize cs =
     (if cs = [] then None
      else let f = hd cs; l = last cs in
        Some (ck_offset f, ck_addr f, ck_offset l + ck_fsize l - ck_offset f, ck_addr l + ck_msize l - ck_addr f))"

definition phdr_finalize :: "chunk list \<Rightarrow> (u64 \<times> u64 \<times> u64 \<times> u64) option" where
  "phdr_finalize cs = (if cs = [] then None else let l = last cs in Some (ck_offset l, ck_addr l, ck_fsize l, ck_msize l))"

section \<open>Where the chunks of a segment lie\<close>

text \<open>Slices that cut the chunks \<open>a\<close> to \<open>b\<close> into consecutive runs.\<close>

fun tiles :: "nat \<Rightarrow> slice list \<Rightarrow> nat \<Rightarrow> bool" where
  "tiles a [] b \<longleftrightarrow> a = b"
| "tiles a (s # ss) b \<longleftrightarrow> sl_start s = a \<and> a < sl_end s \<and> tiles (sl_end s) ss b"

lemma tiles_snoc: "tiles a ss b \<Longrightarrow> sl_start s = b \<Longrightarrow> b < sl_end s \<Longrightarrow> tiles a (ss @ [s]) (sl_end s)"
  by (induction a ss b rule: tiles.induct) auto

lemma tiles_le: "tiles a ss b \<Longrightarrow> a \<le> b"
  by (induction a ss b rule: tiles.induct) auto

lemma tiles_range: "tiles a ss b \<Longrightarrow> s \<in> set ss \<Longrightarrow> a \<le> sl_start s \<and> sl_start s < sl_end s \<and> sl_end s \<le> b"
proof (induction a ss b rule: tiles.induct)
  case (2 a t ss b)
  then show ?case using tiles_le [of "sl_end t" ss b] by fastforce
qed simp

lemma tiles_sorted: "tiles a ss b \<Longrightarrow> sorted (map sl_start ss)"
proof (induction a ss b rule: tiles.induct)
  case (2 a t ss b)
  then show ?case using tiles_range [of "sl_end t" ss b] by (auto intro: less_imp_le order_trans)
qed simp

definition new_slice :: "nat \<Rightarrow> nat \<Rightarrow> u64 \<Rightarrow> u64 \<Rightarrow> u64 \<Rightarrow> slice" where
  "new_slice start stop addr memsz align =
     \<lparr>sl_start = start, sl_end = stop, sl_addr = addr, sl_memsz = memsz, sl_align = align, sl_offset = 0, sl_fsize = 0\<rparr>"

lemma put_slice_new: "tiles a ss b \<Longrightarrow> put_slice b e addr m al ss = ss @ [new_slice b e addr m al]"
  by (auto simp: put_slice_def new_slice_def dest: tiles_range)

definition covers :: "u64 \<Rightarrow> u64 \<Rightarrow> chunk list \<Rightarrow> bool" where
  "covers a m cs \<longleftrightarrow> (\<forall>c \<in> set cs. \<not> ck_tbss c \<longrightarrow>
     unat a \<le> unat (ck_addr c) \<and> unat (ck_addr c) + unat (ck_msize c) \<le> unat a + unat m)"

definition chunks_apart :: "chunk list \<Rightarrow> bool" where
  "chunks_apart = sorted_wrt (\<lambda>c d. \<not> ck_tbss c \<longrightarrow> \<not> ck_tbss d \<longrightarrow> unat (ck_addr c) + unat (ck_msize c) \<le> unat (ck_addr d))"

definition chunk_aligned :: "chunk \<Rightarrow> bool" where
  "chunk_aligned c \<longleftrightarrow> \<not> ck_tbss c \<longrightarrow> unat (ck_align c) dvd unat (ck_addr c)"

text \<open>What is assumed of the chunks: no expressions, alignments that are powers of two, and thread-local zero
  fill aligned to a page at most.\<close>

definition plain_chunk :: "seg_env \<Rightarrow> chunk \<Rightarrow> bool" where
  "plain_chunk env c \<longleftrightarrow> (\<forall>a. evalExpr c a = a) \<and> (\<exists>k. pow2_word (ck_align c) k) \<and>
     (ck_tbss c \<longrightarrow> ck_align c \<le> pageSize env)"

definition chunks_room :: "chunk list \<Rightarrow> nat" where
  "chunks_room cs = (\<Sum>c\<leftarrow>cs. unat (ck_msize c) + unat (ck_align c))"

definition page_room :: "seg_env \<Rightarrow> bool \<Rightarrow> nat" where
  "page_room env paged = (if paged then 0 else unat (pageSize env))"

definition va_inv :: "seg_env \<Rightarrow> nat \<Rightarrow> va_state \<Rightarrow> bool" where
  "va_inv env room st \<longleftrightarrow>
     unat (sliceAddress st) + unat (sliceSize st) + page_room env (pageAligned st) + room < 2 ^ 64 \<and>
     tiles 0 (va_slices st) (startSection st) \<and> startSection st < currSection st \<and> currSection st = length (va_done st) \<and>
     (\<forall>s \<in> set (va_slices st). covers (sl_addr s) (sl_memsz s) (slice_chunks (va_done st) s)) \<and>
     covers (sliceAddress st) (sliceSize st) (drop (startSection st) (va_done st)) \<and>
     (\<forall>c \<in> set (va_done st). \<not> ck_tbss c \<longrightarrow>
        unat (ck_addr c) + unat (ck_msize c) \<le> unat (sliceAddress st) + unat (sliceSize st)) \<and>
     chunks_apart (va_done st) \<and> (\<forall>c \<in> set (va_done st). chunk_aligned c)"

lemma slice_chunks_append: "sl_end s \<le> length cs \<Longrightarrow> slice_chunks (cs @ ds) s = slice_chunks cs s"
  by (simp add: slice_chunks_def)

text \<open>The three ways a chunk is placed.\<close>

lemma va_next_cases:
  fixes st :: va_state
  assumes "plain_chunk env c"
  defines "cur \<equiv> sliceAddress st + sliceSize st"
  defines "al \<equiv> \<not> pageAligned st \<and> needAlign env c"
  defines "cur1 \<equiv> if al then RoundUpToAlignment cur (pageSize env) else cur"
  defines "new \<equiv> RoundUpToAlignment cur1 (ck_align c)"
  obtains (tbss) a t where "ck_tbss c" "va_done (va_next env c st) = va_done st @ [set_addr a a t c]"
      "sliceAddress (va_next env c st) = sliceAddress st" "sliceSize (va_next env c st) = sliceSize st"
      "startSection (va_next env c st) = startSection st" "va_slices (va_next env c st) = va_slices st"
      "currSection (va_next env c st) = currSection st + 1" "pageAligned (va_next env c st) = (pageAligned st \<or> al)"
  | (stay) t where "\<not> ck_tbss c" "va_done (va_next env c st) = va_done st @ [set_addr new new t c]"
      "sliceAddress (va_next env c st) = sliceAddress st" "sliceSize (va_next env c st) = new - sliceAddress st + ck_msize c"
      "startSection (va_next env c st) = startSection st" "va_slices (va_next env c st) = va_slices st"
      "currSection (va_next env c st) = currSection st + 1" "pageAligned (va_next env c st) = (pageAligned st \<or> al)"
  | (cut) t where "\<not> ck_tbss c" "va_done (va_next env c st) = va_done st @ [set_addr new new t c]"
      "sliceAddress (va_next env c st) = new" "sliceSize (va_next env c st) = ck_msize c"
      "startSection (va_next env c st) = currSection st"
      "va_slices (va_next env c st) =
         put_slice (startSection st) (currSection st) (sliceAddress st) (sliceSize st) (sliceAlign st) (va_slices st)"
      "currSection (va_next env c st) = currSection st + 1" "pageAligned (va_next env c st) = (pageAligned st \<or> al)"
      "new - cur1 > pageSize env"
proof -
  let ?cutp = "outputName c (prevName st) \<noteq> prevName st \<and> new - cur1 > pageSize env \<and> outputMagic env = DEFAULT_magic"
  obtain k where k: "pow2_word (ck_align c) k" using assms(1) by (auto simp: plain_chunk_def)
  have e: "evalExpr c a = a" for a using assms(1) by (simp add: plain_chunk_def)
  have new: "evalExpr c (RoundUpToAlignment cur1 (ck_align c)) = new" unfolding e new_def ..
  have small: "\<not> new - cur1 > pageSize env" if "ck_tbss c"
    using round_up_gap [OF k, of cur1] assms(1) that by (auto simp: plain_chunk_def new_def not_less)
  have n: "va_next env c st = ((if ?cutp
          then let sa = (if ck_tbss c then new + tbssMemsize st else new) in
            st\<lparr>va_slices := put_slice (startSection st) (currSection st) (sliceAddress st) (sliceSize st) (sliceAlign st) (va_slices st),
               sliceAddress := sa, sliceSize := new - sa + ck_msize c, sliceAlign := ck_align c,
               startSection := currSection st, va_done := va_done st @ [set_addr sa new new c]\<rparr>
          else let a = (if ck_tbss c then new + tbssMemsize st else new); tls = next_tls c (tlsStartAddr st) in
            st\<lparr>sliceAlign := (if sliceAlign st < ck_align c then ck_align c else sliceAlign st),
               sliceSize := (if ck_tbss c then sliceSize st else a - sliceAddress st + ck_msize c),
               tbssMemsize := (if ck_tbss c then ck_msize c else 0),
               tlsStartAddr := (if is_section c \<and> ck_tls c then tls + ck_msize c else tlsStartAddr st),
               va_done := va_done st @ [set_addr a a tls c]\<rparr>)
         \<lparr>pageAligned := pageAligned st \<or> al, prevName := outputName c (prevName st), currSection := currSection st + 1\<rparr>)"
    unfolding va_next_def Let_def new_def cur1_def al_def cur_def e ..
  show ?thesis
  proof (cases "ck_tbss c")
    case True
    then show ?thesis using small by (intro tbss) (simp_all add: n Let_def)
  next
    case False
    show ?thesis
    proof (cases ?cutp)
      case True
      then show ?thesis using False by (intro cut [of new]) (simp_all add: n Let_def)
    next
      case nocut: False
      note stays = n [unfolded if_not_P [OF nocut]]
      from False show ?thesis by (intro stay [of "next_tls c (tlsStartAddr st)"]) (simp_all add: stays Let_def)
    qed
  qed
qed

lemma set_addr_fields [simp]:
  "ck_addr (set_addr a b t c) = a" "ck_msize (set_addr a b t c) = ck_msize c" "ck_fsize (set_addr a b t c) = ck_fsize c"
  "ck_align (set_addr a b t c) = ck_align c" "ck_tbss (set_addr a b t c) = ck_tbss c" "ck_kind (set_addr a b t c) = ck_kind c"
  by (simp_all add: set_addr_def)

lemma covers_append: "covers a m (xs @ ys) \<longleftrightarrow> covers a m xs \<and> covers a m ys"
  by (auto simp: covers_def)

lemma covers_mono: "covers a m cs \<Longrightarrow> unat m \<le> unat n \<Longrightarrow> covers a n cs"
  by (fastforce simp: covers_def)

lemma covers_tbss: "ck_tbss c \<Longrightarrow> covers a m [c]"
  by (simp add: covers_def)

text \<open>What rounding up makes of the position.\<close>

lemma place_bounds:
  assumes "plain_chunk env c" and "pow2_word (pageSize env) p"
    and "unat cur + page_room env pg + (unat (ck_msize c) + unat (ck_align c) + room) < 2 ^ 64"
  defines "al \<equiv> \<not> pg \<and> needAlign env c"
  defines "cur1 \<equiv> if al then RoundUpToAlignment cur (pageSize env) else cur"
  defines "new \<equiv> RoundUpToAlignment cur1 (ck_align c)"
  shows "unat cur \<le> unat new" and "unat (ck_align c) dvd unat new"
    and "unat new + unat (ck_msize c) + page_room env (pg \<or> al) + room < 2 ^ 64"
proof -
  obtain k where k: "pow2_word (ck_align c) k" using assms(1) by (auto simp: plain_chunk_def)
  have c1: "unat cur \<le> unat cur1" "unat cur1 + page_room env (pg \<or> al) \<le> unat cur + page_room env pg"
  proof -
    have "unat cur \<le> unat cur1 \<and> unat cur1 + page_room env (pg \<or> al) \<le> unat cur + page_room env pg"
    proof (cases al)
      case True
      then have "unat cur + unat (pageSize env) < 2 ^ 64" using assms(3) by (simp add: al_def page_room_def)
      from round_up_unat(1,2) [OF assms(2) this] True show ?thesis by (simp add: cur1_def page_room_def al_def)
    qed (simp add: cur1_def)
    then show "unat cur \<le> unat cur1" "unat cur1 + page_room env (pg \<or> al) \<le> unat cur + page_room env pg" by auto
  qed
  have "unat cur1 + unat (ck_align c) < 2 ^ 64" using c1(2) assms(3) by linarith
  note n = round_up_unat [OF k this, folded new_def]
  show "unat cur \<le> unat new" using c1(1) n(1) by linarith
  show "unat (ck_align c) dvd unat new" by (rule n(3))
  show "unat new + unat (ck_msize c) + page_room env (pg \<or> al) + room < 2 ^ 64"
    using c1(2) n(2) assms(3) by linarith
qed

lemma chunks_apart_snoc:
  "chunks_apart (cs @ [d]) \<longleftrightarrow> chunks_apart cs \<and>
     (\<forall>c \<in> set cs. \<not> ck_tbss c \<longrightarrow> \<not> ck_tbss d \<longrightarrow> unat (ck_addr c) + unat (ck_msize c) \<le> unat (ck_addr d))"
  by (auto simp: chunks_apart_def sorted_wrt_append)

lemma va_inv_step:
  assumes "va_inv env (unat (ck_msize c) + unat (ck_align c) + room) st" and "plain_chunk env c" and "pow2_word (pageSize env) p"
  shows "va_inv env room (va_next env c st)"
proof -
  let ?cur = "sliceAddress st + sliceSize st"
  have cur: "unat ?cur = unat (sliceAddress st) + unat (sliceSize st)"
    using assms(1) by (intro unat_add_lem [THEN iffD1]) (simp add: va_inv_def)
  have room: "unat ?cur + page_room env (pageAligned st) + (unat (ck_msize c) + unat (ck_align c) + room) < 2 ^ 64"
    using assms(1) unfolding cur by (simp add: va_inv_def)
  note pl = place_bounds [OF assms(2,3) room]
  have keep: "\<forall>s \<in> set (va_slices st). covers (sl_addr s) (sl_memsz s) (slice_chunks (va_done st @ [d]) s)" for d
    using assms(1) by (auto simp: va_inv_def slice_chunks_append dest!: tiles_range)
  have ends: "\<forall>c \<in> set (va_done st). \<not> ck_tbss c \<longrightarrow> unat (ck_addr c) + unat (ck_msize c) \<le> unat ?cur"
    using assms(1) unfolding cur by (simp add: va_inv_def)
  have start: "startSection st < length (va_done st)" "currSection st = length (va_done st)"
    "tiles 0 (va_slices st) (startSection st)"
    using assms(1) by (auto simp: va_inv_def)
  have cov: "covers (sliceAddress st) (sliceSize st) (drop (startSection st) (va_done st))"
    using assms(1) by (simp add: va_inv_def)
  have apart: "chunks_apart (va_done st)" "\<forall>c \<in> set (va_done st). chunk_aligned c" using assms(1) by (simp_all add: va_inv_def)
  show ?thesis
  proof (cases rule: va_next_cases [OF assms(2), of st, case_names tbss stay cut])
    case (tbss a t)
    have "page_room env (pageAligned (va_next env c st)) \<le> page_room env (pageAligned st)"
      by (simp add: tbss(8) page_room_def)
    then show ?thesis
      using tbss(1) start cov keep ends cur apart room
      by (simp add: va_inv_def tbss covers_append covers_tbss chunks_apart_snoc chunk_aligned_def)
  next
    case (stay t)
    let ?new = "RoundUpToAlignment (if \<not> pageAligned st \<and> needAlign env c then RoundUpToAlignment ?cur (pageSize env) else ?cur) (ck_align c)"
    let ?d = "set_addr ?new ?new t c"
    have ge: "unat (sliceAddress st) \<le> unat ?new" using pl(1) cur by linarith
    have ss: "unat (?new - sliceAddress st + ck_msize c) = unat ?new - unat (sliceAddress st) + unat (ck_msize c)"
    proof -
      have "unat (?new - sliceAddress st) = unat ?new - unat (sliceAddress st)" using ge by (simp add: unat_sub word_le_nat_alt)
      then show ?thesis using pl(3) by (subst unat_add_lem [THEN iffD1]) simp_all
    qed
    have grow: "unat (sliceSize st) \<le> unat (?new - sliceAddress st + ck_msize c)" using ss pl(1) cur by linarith
    have "covers (sliceAddress st) (?new - sliceAddress st + ck_msize c) [?d]" using ss ge by (simp add: covers_def)
    moreover have "covers (sliceAddress st) (?new - sliceAddress st + ck_msize c) (drop (startSection st) (va_done st))"
      using covers_mono [OF cov grow] .
    moreover have "chunk_aligned ?d" using pl(2) by (simp add: chunk_aligned_def)
    moreover have "chunks_apart (va_done st @ [?d])" using apart(1) ends pl(1) by (fastforce simp: chunks_apart_snoc)
    moreover have "unat (sliceAddress st) + unat (?new - sliceAddress st + ck_msize c) = unat ?new + unat (ck_msize c)"
      using ss ge by linarith
    ultimately show ?thesis
      using start keep ends pl(1,3) apart(2)
      by (auto simp: va_inv_def stay covers_append intro: order_trans)
  next
    case (cut t)
    let ?new = "RoundUpToAlignment (if \<not> pageAligned st \<and> needAlign env c then RoundUpToAlignment ?cur (pageSize env) else ?cur) (ck_align c)"
    let ?d = "set_addr ?new ?new t c"
    let ?s = "new_slice (startSection st) (currSection st) (sliceAddress st) (sliceSize st) (sliceAlign st)"
    have sls: "va_slices (va_next env c st) = va_slices st @ [?s]" unfolding cut(6) by (rule put_slice_new [OF start(3)])
    have "tiles 0 (va_slices st @ [?s]) (currSection st)"
      using tiles_snoc [OF start(3), of ?s] start(1,2) by (simp add: new_slice_def)
    moreover have "covers (sl_addr ?s) (sl_memsz ?s) (slice_chunks (va_done st @ [?d]) ?s)"
      using cov start(1,2) by (simp add: new_slice_def slice_chunks_def)
    moreover have "covers ?new (ck_msize c) [?d]" by (simp add: covers_def)
    moreover have "chunk_aligned ?d" using pl(2) by (simp add: chunk_aligned_def)
    moreover have "chunks_apart (va_done st @ [?d])" using apart(1) ends pl(1) by (fastforce simp: chunks_apart_snoc)
    ultimately show ?thesis
      using start keep ends pl(1,3) apart(2) unfolding va_inv_def sls cut(2,3,4,5,7,8)
      by (auto intro: order_trans)
  qed
qed

lemma va_first_inv:
  assumes "plain_chunk env c" and "pow2_word (pageSize env) p"
    and "unat addr + 2 * unat (pageSize env) + (unat (ck_msize c) + unat (ck_align c) + room) < 2 ^ 64"
  shows "va_inv env room (snd (va_first env addr [] c))"
proof -
  obtain k where k: "pow2_word (ck_align c) k" using assms(1) by (auto simp: plain_chunk_def)
  have e: "evalExpr c a = a" for a using assms(1) by (simp add: plain_chunk_def)
  define start where "start = (if alignSegments env \<and> outputMagic env = DEFAULT_magic \<or> needAlign env c
    then RoundUpToAlignment addr (pageSize env) else addr)"
  define new where "new = RoundUpToAlignment start (ck_align c)"
  have "unat start \<le> unat addr + unat (pageSize env)"
    using round_up_unat(2) [OF assms(2), of addr] assms(3) by (simp add: start_def)
  then have s: "unat start + unat (ck_align c) + unat (pageSize env) + (unat (ck_msize c) + room) < 2 ^ 64" using assms(3) by linarith
  then have "unat start + unat (ck_align c) < 2 ^ 64" by linarith
  note n = round_up_unat [OF k this, folded new_def]
  have b: "unat new + unat (ck_msize c) + unat (pageSize env) + room < 2 ^ 64" using s n(2) by linarith
  have pr: "page_room env pg \<le> unat (pageSize env)" for pg by (simp add: page_room_def)
  obtain t where f: "va_done (snd (va_first env addr [] c)) = [set_addr new new t c]"
    "sliceAddress (snd (va_first env addr [] c)) = new"
    "sliceSize (snd (va_first env addr [] c)) = (if ck_tbss c then 0 else ck_msize c)"
    "startSection (snd (va_first env addr [] c)) = 0" "currSection (snd (va_first env addr [] c)) = 1"
    "va_slices (snd (va_first env addr [] c)) = []"
    by (simp add: va_first_def Let_def e start_def new_def)
  have "covers new (if ck_tbss c then 0 else ck_msize c) [set_addr new new t c]" by (simp add: covers_def)
  then show ?thesis
    using b pr [of "pageAligned (snd (va_first env addr [] c))"] n(3)
    by (simp add: va_inv_def f chunks_apart_def chunk_aligned_def)
qed

lemma va_fold_inv:
  "va_inv env (chunks_room cs) st \<Longrightarrow> \<forall>c \<in> set cs. plain_chunk env c \<Longrightarrow> pow2_word (pageSize env) p \<Longrightarrow>
   va_inv env 0 (fold (va_next env) cs st)"
proof (induction cs arbitrary: st)
  case (Cons c cs)
  have "va_inv env (unat (ck_msize c) + unat (ck_align c) + chunks_room cs) st" using Cons.prems(1) by (simp add: chunks_room_def)
  from va_inv_step [OF this _ Cons.prems(3)] Cons show ?case by simp
qed (simp add: chunks_room_def)

text \<open>The chunks of the result are those of the segment with their addresses set.\<close>

definition addressed :: "chunk \<Rightarrow> chunk \<Rightarrow> bool" where
  "addressed c d \<longleftrightarrow> (\<exists>a b t. d = set_addr a b t c)"

lemma addressed_set_addr [simp]: "addressed c (set_addr a b t c)"
  by (auto simp: addressed_def)

lemma va_next_done: "\<exists>d. addressed c d \<and> va_done (va_next env c st) = va_done st @ [d]"
  by (auto simp: va_next_def Let_def intro!: exI [of _ "set_addr _ _ _ _"])

lemma va_fold_done:
  "list_all2 addressed bs (va_done st) \<Longrightarrow> list_all2 addressed (bs @ cs) (va_done (fold (va_next env) cs st))"
proof (induction cs arbitrary: bs st)
  case (Cons c cs)
  obtain d where d: "addressed c d" "va_done (va_next env c st) = va_done st @ [d]" using va_next_done by blast
  have "list_all2 addressed (bs @ [c]) (va_done (va_next env c st))"
    using Cons.prems d by (simp add: list_all2_appendI)
  from Cons.IH [OF this] show ?case by simp
qed simp

lemma seg_assign_chunks: "list_all2 addressed cs (vr_chunks (seg_assignVirtualAddress env addr sls cs))"
proof (cases cs)
  case (Cons c cs')
  have "list_all2 addressed [c] (va_done (snd (va_first env addr sls c)))" by (simp add: va_first_def Let_def)
  from va_fold_done [OF this, of cs'] Cons show ?thesis
    by (cases "va_first env addr sls c") (simp add: seg_assignVirtualAddress_def Let_def)
qed (simp add: seg_assignVirtualAddress_def)

text \<open>C39: The addresses of a segment's chunks, for the first assignment, without linker script expressions and without
  wrap-around: every chunk keeps its place in the segment and gets a multiple of its alignment; the chunks follow each
  other without overlap; the slices cut the segment into consecutive runs of chunks, and each slice holds the memory
  of its chunks. Thread-local zero fill is exempt, since it takes no memory in the segment.\<close>

theorem segment_addresses:
  assumes "cs \<noteq> []" and "\<forall>c \<in> set cs. plain_chunk env c" and "pow2_word (pageSize env) p"
    and "unat addr + 2 * unat (pageSize env) + chunks_room cs < 2 ^ 64"
  defines "r \<equiv> seg_assignVirtualAddress env addr [] cs"
  shows "list_all2 addressed cs (vr_chunks r) \<and>
    (\<forall>c \<in> set (vr_chunks r). \<not> ck_tbss c \<longrightarrow> unat (ck_align c) dvd unat (ck_addr c)) \<and>
    sorted_wrt (\<lambda>c d. \<not> ck_tbss c \<longrightarrow> \<not> ck_tbss d \<longrightarrow> unat (ck_addr c) + unat (ck_msize c) \<le> unat (ck_addr d)) (vr_chunks r) \<and>
    tiles 0 (vr_slices r) (length cs) \<and>
    (\<forall>s \<in> set (vr_slices r). covers (sl_addr s) (sl_memsz s) (slice_chunks (vr_chunks r) s))"
proof -
  obtain c cs' where cs: "cs = c # cs'" using assms(1) by (cases cs) auto
  obtain st where st: "fold (va_next env) cs' (snd (va_first env addr [] c)) = st" by simp
  have inv: "va_inv env 0 st"
    unfolding st [symmetric]
    by (intro va_fold_inv [OF va_first_inv]) (use assms(2,3,4) cs in \<open>auto simp: chunks_room_def\<close>)
  let ?last = "new_slice (startSection st) (length cs) (sliceAddress st) (sliceSize st) (sliceAlign st)"
  have len: "length (va_done st) = length cs"
    using list_all2_lengthD [OF seg_assign_chunks, of cs env addr "[]"] st cs
    by (cases "va_first env addr [] c") (simp add: seg_assignVirtualAddress_def Let_def)
  have t: "tiles 0 (va_slices st) (startSection st)" "startSection st < length cs"
    using inv len by (auto simp: va_inv_def)
  have ts: "tiles 0 (va_slices st @ [?last]) (length cs)"
    using tiles_snoc [OF t(1), of ?last] t(2) by (simp add: new_slice_def)
  have r: "vr_chunks r = va_done st" "vr_slices r = va_slices st @ [?last]"
    using st cs put_slice_new [OF t(1)] sort_key_id_if_sorted [OF tiles_sorted [OF ts]]
    by (cases "va_first env addr [] c"; simp add: r_def seg_assignVirtualAddress_def Let_def)+
  have "covers (sl_addr ?last) (sl_memsz ?last) (slice_chunks (va_done st) ?last)"
    using inv len by (simp add: va_inv_def new_slice_def slice_chunks_def)
  then show ?thesis
    using inv ts seg_assign_chunks [of cs env addr "[]", folded r_def]
    unfolding r va_inv_def chunks_apart_def chunk_aligned_def by auto
qed

section \<open>File offsets and addresses\<close>

text \<open>Addresses and offsets of the chunks after the first one, in one slice.\<close>

fun addr_chain :: "u64 \<Rightarrow> chunk list \<Rightarrow> bool" where
  "addr_chain cur [] \<longleftrightarrow> True"
| "addr_chain cur (d # ds) \<longleftrightarrow> (\<not> ck_tbss d \<longrightarrow> ck_addr d = RoundUpToAlignment cur (ck_align d)) \<and>
     addr_chain (if ck_tbss d then cur else ck_addr d + ck_msize d) ds"

fun offset_chain :: "u64 \<Rightarrow> chunk list \<Rightarrow> bool" where
  "offset_chain off [] \<longleftrightarrow> True"
| "offset_chain off (d # ds) \<longleftrightarrow> ck_offset d = RoundUpToAlignment off (ck_align d) \<and>
     offset_chain (ck_offset d + ck_fsize d) ds"

definition fills :: "chunk \<Rightarrow> bool" where
  "fills c \<longleftrightarrow> \<not> ck_tbss c \<and> ck_fsize c = ck_msize c"

definition aligned_within :: "nat \<Rightarrow> chunk \<Rightarrow> bool" where
  "aligned_within p c \<longleftrightarrow> (\<exists>k \<le> p. pow2_word (ck_align c) k)"

lemma chains_linear:
  "addr_chain cur ds \<Longrightarrow> offset_chain (cur + d) ds \<Longrightarrow> \<forall>c \<in> set ds. aligned_within p c \<Longrightarrow> pow2_word page p \<Longrightarrow>
   d mod page = 0 \<Longrightarrow> i < length ds \<Longrightarrow> \<not> ck_tbss (ds ! i) \<Longrightarrow> \<forall>j < i. fills (ds ! j) \<Longrightarrow>
   ck_offset (ds ! i) = ck_addr (ds ! i) + d"
proof (induction ds arbitrary: cur i)
  case (Cons c ds)
  obtain k where k: "pow2_word (ck_align c) k" "k \<le> p" using Cons.prems(3) by (auto simp: aligned_within_def)
  have sh: "RoundUpToAlignment (cur + d) (ck_align c) = RoundUpToAlignment cur (ck_align c) + d"
    by (rule round_up_shift [OF k(1)]) (rule mod_coarser [OF k(1) Cons.prems(4) k(2) Cons.prems(5)])
  show ?case
  proof (cases i)
    case 0
    then show ?thesis using Cons.prems(1,2,7) sh by simp
  next
    case (Suc j)
    have f: "fills c" using Cons.prems(8) Suc by auto
    then have "ck_offset c + ck_fsize c = (ck_addr c + ck_msize c) + d"
      using Cons.prems(1,2) sh by (simp add: fills_def)
    then have "offset_chain ((ck_addr c + ck_msize c) + d) ds" using Cons.prems(2) by simp
    moreover have "addr_chain (ck_addr c + ck_msize c) ds" using Cons.prems(1) f by (auto simp: fills_def)
    moreover have "fills (ds ! l)" if "l < j" for l using spec [OF Cons.prems(8), of "Suc l"] that Suc by simp
    ultimately show ?thesis using Cons.IH [of "ck_addr c + ck_msize c" j] Cons.prems(3-8) Suc by auto
  qed
qed simp

definition small_chunk :: "seg_env \<Rightarrow> nat \<Rightarrow> chunk \<Rightarrow> bool" where
  "small_chunk env p c \<longleftrightarrow> (\<forall>e. ck_kind c \<noteq> Expression_chunk e) \<and> aligned_within p c \<and> \<not> needAlign env c"

text \<open>With alignments up to a page no slice is cut.\<close>

lemma va_next_small:
  fixes st :: va_state
  assumes "small_chunk env p c" and "pow2_word (pageSize env) p"
  defines "cur \<equiv> sliceAddress st + sliceSize st"
  shows "\<exists>d. va_done (va_next env c st) = va_done st @ [d] \<and> addressed c d \<and>
      (\<not> ck_tbss c \<longrightarrow> ck_addr d = RoundUpToAlignment cur (ck_align c)) \<and>
      sliceAddress (va_next env c st) = sliceAddress st \<and>
      sliceAddress (va_next env c st) + sliceSize (va_next env c st) = (if ck_tbss c then cur else ck_addr d + ck_msize c) \<and>
      startSection (va_next env c st) = startSection st \<and> va_slices (va_next env c st) = va_slices st"
proof -
  obtain k where k: "pow2_word (ck_align c) k" "k \<le> p" using assms(1) by (auto simp: small_chunk_def aligned_within_def)
  have "unat (ck_align c) \<le> unat (pageSize env)"
    unfolding pow2_unat [OF k(1)] pow2_unat [OF assms(2)] using k(2) by (simp add: power_increasing)
  then have g: "\<not> RoundUpToAlignment cur (ck_align c) - cur > pageSize env"
    using round_up_gap [OF k(1), of cur] by (simp add: word_less_nat_alt)
  have e: "evalExpr c a = a" "\<not> needAlign env c" for a
    using assms(1) by (auto simp: small_chunk_def evalExpr_def split: chunk_kind.split)
  show ?thesis
    using g by (auto simp: va_next_def Let_def e cur_def [symmetric])
qed

lemma va_fold_small:
  "\<forall>c \<in> set cs. small_chunk env p c \<Longrightarrow> pow2_word (pageSize env) p \<Longrightarrow>
   \<exists>ds. va_done (fold (va_next env) cs st) = va_done st @ ds \<and> list_all2 addressed cs ds \<and>
     addr_chain (sliceAddress st + sliceSize st) ds \<and> sliceAddress (fold (va_next env) cs st) = sliceAddress st \<and>
     startSection (fold (va_next env) cs st) = startSection st \<and> va_slices (fold (va_next env) cs st) = va_slices st"
proof (induction cs arbitrary: st)
  case (Cons c cs)
  obtain d where d: "va_done (va_next env c st) = va_done st @ [d]" "addressed c d"
    "\<not> ck_tbss c \<longrightarrow> ck_addr d = RoundUpToAlignment (sliceAddress st + sliceSize st) (ck_align c)"
    "sliceAddress (va_next env c st) = sliceAddress st"
    "sliceAddress (va_next env c st) + sliceSize (va_next env c st) =
       (if ck_tbss c then sliceAddress st + sliceSize st else ck_addr d + ck_msize c)"
    "startSection (va_next env c st) = startSection st" "va_slices (va_next env c st) = va_slices st"
    using va_next_small [of env p c st] Cons.prems by auto
  obtain ds where ds: "va_done (fold (va_next env) cs (va_next env c st)) = va_done (va_next env c st) @ ds"
    "list_all2 addressed cs ds"
    "addr_chain (sliceAddress (va_next env c st) + sliceSize (va_next env c st)) ds"
    "sliceAddress (fold (va_next env) cs (va_next env c st)) = sliceAddress (va_next env c st)"
    "startSection (fold (va_next env) cs (va_next env c st)) = startSection (va_next env c st)"
    "va_slices (fold (va_next env) cs (va_next env c st)) = va_slices (va_next env c st)"
    using Cons.IH [of "va_next env c st"] Cons.prems by auto
  have same: "ck_align d = ck_align c" "ck_tbss d = ck_tbss c" "ck_msize d = ck_msize c" using d(2) by (auto simp: addressed_def)
  have "addr_chain (sliceAddress st + sliceSize st) (d # ds)"
    using d(3) ds(3) unfolding d(5) by (auto simp: same split: if_splits)
  then show ?case using d ds by (intro exI [of _ "d # ds"]) simp
qed simp

text \<open>The file offsets of a slice's chunks after the first.\<close>

definition offset_set :: "chunk \<Rightarrow> chunk \<Rightarrow> bool" where
  "offset_set c d \<longleftrightarrow> (\<exists>off. d = c\<lparr>ck_offset := off\<rparr>)"

lemma fo_chunks_rest:
  assumes "\<forall>c \<in> set cs. small_chunk env p c" and "\<not> fo_first st"
  shows "\<exists>ds st'. fo_chunks env saddr cs st = (ds, st') \<and> list_all2 offset_set cs ds \<and>
    offset_chain (fo_offset st) ds \<and> fo_slice st' = fo_slice st"
  using assms
proof (induction cs arbitrary: st)
  case (Cons c cs)
  have e: "\<not> needAlign env c" "\<not> (\<exists>e. ck_kind c = Expression_chunk e)" using Cons.prems(1) by (auto simp: small_chunk_def)
  obtain d st1 where d: "fo_chunk env saddr c st = (d, st1)" by (cases "fo_chunk env saddr c st")
  have f: "d = c\<lparr>ck_offset := RoundUpToAlignment (fo_offset st) (ck_align c)\<rparr>" "\<not> fo_first st1" "fo_slice st1 = fo_slice st"
    "fo_offset st1 = RoundUpToAlignment (fo_offset st) (ck_align c) + ck_fsize c"
    using d e Cons.prems(2) by (auto simp: fo_chunk_def Let_def)
  obtain ds st' where r: "fo_chunks env saddr cs st1 = (ds, st')" "list_all2 offset_set cs ds" "offset_chain (fo_offset st1) ds"
    "fo_slice st' = fo_slice st1"
    using Cons.IH [OF _ f(2)] Cons.prems(1) by auto
  have "offset_set c d" using f(1) by (auto simp: offset_set_def)
  then show ?case using d r f by (simp add: Let_def)
qed simp

text \<open>The offset of the first chunk is congruent to its address modulo the page.\<close>

lemma first_offset:
  assumes "small_chunk env p c" and "pow2_word (pageSize env) p" and "outputMagic env = DEFAULT_magic" and "fo_first st"
    and "alignSegments env \<and> ck_addr c mod pageSize env = 0 \<or> \<not> alignSegments env \<and> is_section c \<and> ck_loadable c \<or>
      \<not> alignSegments env \<and> RoundUpToAlignment (fo_offset st) (ck_align c) mod pageSize env = ck_addr c mod pageSize env"
  shows "\<exists>off. fst (fo_chunk env (ck_addr c) c st) = c\<lparr>ck_offset := off\<rparr> \<and> fo_slice (snd (fo_chunk env (ck_addr c) c st)) = off \<and>
    fo_offset (snd (fo_chunk env (ck_addr c) c st)) = off + ck_fsize c \<and> \<not> fo_first (snd (fo_chunk env (ck_addr c) c st)) \<and>
    (off - ck_addr c) mod pageSize env = 0"
proof -
  let ?pg = "pageSize env" and ?o2 = "RoundUpToAlignment (fo_offset st) (ck_align c)"
  have e: "\<not> needAlign env c" "\<not> (\<exists>e. ck_kind c = Expression_chunk e)" using assms(1) by (auto simp: small_chunk_def)
  define off where "off = (if alignSegments env then RoundUpToAlignment ?o2 ?pg
    else if is_section c \<and> ck_loadable c \<and> ck_addr c AND (?pg - 1) \<noteq> ?o2 AND (?pg - 1)
         then RoundUpToAlignment ?o2 ?pg + ck_addr c mod ?pg else ?o2)"
  have "off mod ?pg = ck_addr c mod ?pg"
  proof (cases "alignSegments env")
    case True
    then show ?thesis using assms(5) round_up_aligned [OF assms(2)] by (simp add: off_def)
  next
    case False
    show ?thesis
    proof (cases "ck_addr c mod ?pg = ?o2 mod ?pg")
      case True
      then show ?thesis using False by (simp add: off_def and_page [OF assms(2)])
    next
      case ne: False
      have "(ck_addr c mod ?pg + RoundUpToAlignment ?o2 ?pg) mod ?pg = ck_addr c mod ?pg"
        using mod_add [OF assms(2) round_up_aligned [OF assms(2)]] mod_mod [OF assms(2)] by simp
      then show ?thesis using False ne assms(5) by (simp add: off_def and_page [OF assms(2)] add.commute)
    qed
  qed
  then have "(off - ck_addr c) mod ?pg = 0" by (rule mod_diff [OF assms(2)])
  moreover have "fo_chunk env (ck_addr c) c st = (c\<lparr>ck_offset := off\<rparr>,
      \<lparr>fo_offset = off + ck_fsize c, fo_slice = off, fo_first = False, fo_paged = fo_paged st, fo_last = ck_addr c + ck_msize c\<rparr>)"
    using assms(3,4) e by (simp add: fo_chunk_def Let_def off_def)
  ultimately show ?thesis by simp
qed

lemma va_first_small:
  assumes "small_chunk env p c" and "pow2_word (pageSize env) p" and "outputMagic env = DEFAULT_magic"
  shows "\<exists>new t. va_done (snd (va_first env addr [] c)) = [set_addr new new t c] \<and>
    sliceAddress (snd (va_first env addr [] c)) = new \<and>
    sliceSize (snd (va_first env addr [] c)) = (if ck_tbss c then 0 else ck_msize c) \<and>
    startSection (snd (va_first env addr [] c)) = 0 \<and> va_slices (snd (va_first env addr [] c)) = [] \<and>
    (alignSegments env \<longrightarrow> new mod pageSize env = 0) \<and>
    (\<not> alignSegments env \<longrightarrow> new = RoundUpToAlignment addr (ck_align c))"
proof -
  obtain k where k: "pow2_word (ck_align c) k" "k \<le> p" using assms(1) by (auto simp: small_chunk_def aligned_within_def)
  let ?start = "if alignSegments env then RoundUpToAlignment addr (pageSize env) else addr"
  have e: "evalExpr c a = a" "\<not> needAlign env c" for a
    using assms(1) by (auto simp: small_chunk_def evalExpr_def split: chunk_kind.split)
  have "alignSegments env \<longrightarrow> RoundUpToAlignment ?start (ck_align c) mod pageSize env = 0"
  proof
    assume al: "alignSegments env"
    have "RoundUpToAlignment addr (pageSize env) mod ck_align c = 0"
      by (rule mod_coarser [OF k(1) assms(2) k(2) round_up_aligned [OF assms(2)]])
    then have "RoundUpToAlignment ?start (ck_align c) = RoundUpToAlignment addr (pageSize env)"
      using round_up_same [OF k(1)] al by simp
    then show "RoundUpToAlignment ?start (ck_align c) mod pageSize env = 0" using round_up_aligned [OF assms(2)] by simp
  qed
  then show ?thesis using assms(3) by (auto simp: va_first_def Let_def e)
qed

lemma addressed_small:
  assumes "list_all2 addressed cs ds" and "\<forall>c \<in> set cs. small_chunk env p c"
  shows "\<forall>d \<in> set ds. small_chunk env p d"
proof -
  have "small_chunk env p c \<Longrightarrow> addressed c d \<Longrightarrow> small_chunk env p d" for c d
    by (auto simp: addressed_def small_chunk_def aligned_within_def needAlign_def set_addr_def)
  then show ?thesis using assms by (metis in_set_conv_nth list_all2_conv_all_nth)
qed

lemma offset_set_addresses:
  "list_all2 offset_set ds es \<Longrightarrow> addr_chain cur ds \<Longrightarrow> addr_chain cur es \<and> map ck_addr es = map ck_addr ds"
  by (induction arbitrary: cur rule: list_all2_induct) (auto simp: offset_set_def)

lemma offset_set_small:
  assumes "list_all2 offset_set ds es" and "\<forall>c \<in> set ds. small_chunk env p c"
  shows "\<forall>c \<in> set es. aligned_within p c"
proof -
  have "offset_set c d \<Longrightarrow> small_chunk env p c \<Longrightarrow> aligned_within p d" for c d
    by (auto simp: offset_set_def small_chunk_def aligned_within_def)
  then show ?thesis using assms by (metis in_set_conv_nth list_all2_conv_all_nth)
qed

lemma rounded_congruent:
  assumes "small_chunk env p c" and "pow2_word (pageSize env) p" and "(off - addr) mod pageSize env = 0"
  shows "RoundUpToAlignment off (ck_align c) mod pageSize env = RoundUpToAlignment addr (ck_align c) mod pageSize env"
proof -
  obtain k where k: "pow2_word (ck_align c) k" "k \<le> p" using assms(1) by (auto simp: small_chunk_def aligned_within_def)
  have "RoundUpToAlignment (addr + (off - addr)) (ck_align c) = RoundUpToAlignment addr (ck_align c) + (off - addr)"
    by (rule round_up_shift [OF k(1) mod_coarser [OF k(1) assms(2) k(2) assms(3)]])
  then show ?thesis using mod_add [OF assms(2,3)] by simp
qed

text \<open>The addresses of a segment of small chunks: one slice, its address that of the first chunk.\<close>

lemma small_addresses:
  fixes addr :: u64
  assumes "\<forall>c \<in> set (c # cs). small_chunk env p c" and "pow2_word (pageSize env) p" and "outputMagic env = DEFAULT_magic"
  shows "\<exists>new t ds m al. vr_chunks (seg_assignVirtualAddress env addr [] (c # cs)) = set_addr new new t c # ds \<and>
    vr_slices (seg_assignVirtualAddress env addr [] (c # cs)) = [new_slice 0 (Suc (length cs)) new m al] \<and>
    list_all2 addressed cs ds \<and> addr_chain (new + (if ck_tbss c then 0 else ck_msize c)) ds \<and>
    (alignSegments env \<longrightarrow> new mod pageSize env = 0) \<and> (\<not> alignSegments env \<longrightarrow> new = RoundUpToAlignment addr (ck_align c))"
proof -
  let ?st = "snd (va_first env addr [] c)"
  have c: "small_chunk env p c" "\<forall>c \<in> set cs. small_chunk env p c" using assms(1) by auto
  obtain new t where f: "va_done ?st = [set_addr new new t c]" "sliceAddress ?st = new"
    "sliceSize ?st = (if ck_tbss c then 0 else ck_msize c)" "startSection ?st = 0" "va_slices ?st = []"
    "alignSegments env \<longrightarrow> new mod pageSize env = 0"
    "\<not> alignSegments env \<longrightarrow> new = RoundUpToAlignment addr (ck_align c)"
    using va_first_small [OF c(1) assms(2,3), of addr] by (elim exE conjE) (rule that; assumption)
  obtain ds where ds: "va_done (fold (va_next env) cs ?st) = va_done ?st @ ds" "list_all2 addressed cs ds"
    "addr_chain (sliceAddress ?st + sliceSize ?st) ds" "sliceAddress (fold (va_next env) cs ?st) = sliceAddress ?st"
    "startSection (fold (va_next env) cs ?st) = startSection ?st" "va_slices (fold (va_next env) cs ?st) = va_slices ?st"
    using va_fold_small [OF c(2) assms(2), of ?st] by (elim exE conjE) (rule that; assumption)
  have r: "vr_chunks (seg_assignVirtualAddress env addr [] (c # cs)) = set_addr new new t c # ds"
    "\<exists>m al. vr_slices (seg_assignVirtualAddress env addr [] (c # cs)) = [new_slice 0 (Suc (length cs)) new m al]"
    using ds f
    by (cases "va_first env addr [] c"; auto simp: seg_assignVirtualAddress_def Let_def put_slice_def new_slice_def)+
  then obtain m al where "vr_slices (seg_assignVirtualAddress env addr [] (c # cs)) = [new_slice 0 (Suc (length cs)) new m al]"
    by blast
  moreover have "addr_chain (new + (if ck_tbss c then 0 else ck_msize c)) ds" using ds(3) f(2,3) by simp
  ultimately show ?thesis using r(1) ds(2) f(6,7) by - (intro exI conjI; assumption)
qed

text \<open>The offsets of chunks addressed as one chain, the first of them at a given offset.\<close>

lemma chained_offsets:
  assumes "addr_chain (new + (if ck_tbss d then 0 else ck_msize d)) es" and "offset_chain (o0 + ck_fsize d) es"
    and "\<forall>c \<in> set es. aligned_within p c" and "pow2_word page p" and "(o0 - new) mod page = 0"
    and "ck_addr d = new" and "ck_offset d = o0" and "i < Suc (length es)" and "\<forall>j < i. fills ((d # es) ! j)"
    and "\<not> ck_tbss ((d # es) ! i)"
  shows "ck_offset ((d # es) ! i) = ck_addr ((d # es) ! i) + (o0 - new)"
proof (cases i)
  case 0
  then show ?thesis using assms(6,7) by simp
next
  case (Suc l)
  have "fills ((d # es) ! 0)" using assms(9) Suc by blast
  then have "\<not> ck_tbss d" "ck_fsize d = ck_msize d" by (simp_all add: fills_def)
  then have "addr_chain (new + ck_msize d) es" "offset_chain ((new + ck_msize d) + (o0 - new)) es"
    using assms(1,2) by (simp_all add: add.commute)
  moreover have "fills (es ! j)" if "j < l" for j using spec [OF assms(9), of "Suc j"] that Suc by simp
  ultimately show ?thesis
    using chains_linear [OF _ _ assms(3-5), of "new + ck_msize d" l] assms(8,10) Suc by simp
qed

text \<open>C40: File offsets follow addresses. Of a segment of an output without special magic (neither NMAGIC nor OMAGIC),
  when no alignment exceeds the page size (a power of two) and there are no linker script expressions, and when
  segments are aligned, or the first chunk is a loadable section, or the segment starts at an offset congruent to its
  address modulo the page, as the one with the ELF header does: the first layout makes one slice; its offset is
  congruent to its address modulo the page, as the loader requires, and every chunk before which all chunks occupy as
  much of the file as of memory has the same distance from its address to its offset as the slice, so that mapping the
  slice puts the chunk at its address.\<close>

theorem segment_file_offsets:
  fixes addr :: u64
  assumes "cs \<noteq> []" and "\<forall>c \<in> set cs. small_chunk env p c" and "pow2_word (pageSize env) p"
    and "outputMagic env = DEFAULT_magic" and "alignSegments env \<or> is_section (hd cs) \<and> ck_loadable (hd cs) \<or> (off - addr) mod pageSize env = 0"
  defines "r \<equiv> seg_assignVirtualAddress env addr [] cs"
  shows "\<exists>fs s fsz. seg_assignFileOffsets env off (vr_slices r) (vr_chunks r) = (fs, [s], fsz) \<and>
    sl_start s = 0 \<and> sl_end s = length cs \<and> length fs = length cs \<and> map ck_addr fs = map ck_addr (vr_chunks r) \<and>
    (sl_offset s - sl_addr s) mod pageSize env = 0 \<and>
    (\<forall>i < length cs. (\<forall>j < i. fills (fs ! j)) \<and> \<not> ck_tbss (fs ! i) \<longrightarrow>
       ck_offset (fs ! i) = ck_addr (fs ! i) + (sl_offset s - sl_addr s))"
proof -
  obtain c cs' where cs: "cs = c # cs'" using assms(1) by (cases cs) auto
  have c: "\<forall>c \<in> set (c # cs'). small_chunk env p c" using assms(2) cs by simp
  obtain new t ds m al where r: "vr_chunks r = set_addr new new t c # ds" "vr_slices r = [new_slice 0 (length cs) new m al]"
    "list_all2 addressed cs' ds" "addr_chain (new + (if ck_tbss c then 0 else ck_msize c)) ds"
    "alignSegments env \<longrightarrow> new mod pageSize env = 0"
    "\<not> alignSegments env \<longrightarrow> new = RoundUpToAlignment addr (ck_align c)"
    using small_addresses [OF c assms(3,4), of addr, folded length_Cons [of c], folded cs, folded r_def]
    by (elim exE conjE) (rule that; assumption)
  let ?d = "set_addr new new t c"
  have len: "length ds = length cs'" using r(3) by (simp add: list_all2_lengthD)
  have small: "small_chunk env p ?d" using c by (simp add: small_chunk_def aligned_within_def needAlign_def set_addr_def)
  have smalls: "\<forall>c \<in> set ds. small_chunk env p c" using addressed_small [OF r(3)] c by simp
  define st0 where "st0 = \<lparr>fo_offset = off, fo_slice = off, fo_first = True, fo_paged = False, fo_last = 0\<rparr>"
  have "(off - addr) mod pageSize env = 0 \<longrightarrow>
      RoundUpToAlignment off (ck_align c) mod pageSize env = RoundUpToAlignment addr (ck_align c) mod pageSize env"
    using rounded_congruent [OF _ assms(3)] c by simp
  then have "alignSegments env \<and> ck_addr ?d mod pageSize env = 0 \<or> \<not> alignSegments env \<and> is_section ?d \<and> ck_loadable ?d \<or>
      \<not> alignSegments env \<and> RoundUpToAlignment (fo_offset st0) (ck_align ?d) mod pageSize env = ck_addr ?d mod pageSize env"
    using assms(5) r(5,6) cs
    by (cases "alignSegments env") (auto simp: set_addr_def st0_def mod_eq_0_iff_dvd)
  from first_offset [OF small assms(3,4) _ this] obtain o0 st1 where
    first: "fo_chunk env new ?d st0 = (?d\<lparr>ck_offset := o0\<rparr>, st1)" "fo_slice st1 = o0" "fo_offset st1 = o0 + ck_fsize c"
      "\<not> fo_first st1" "(o0 - new) mod pageSize env = 0"
    by (cases "fo_chunk env new ?d st0") (auto simp: st0_def)
  obtain es st2 where rest: "fo_chunks env new ds st1 = (es, st2)" "list_all2 offset_set ds es"
    "offset_chain (fo_offset st1) es" "fo_slice st2 = fo_slice st1"
    using fo_chunks_rest [OF smalls first(4)] by blast
  let ?fs = "?d\<lparr>ck_offset := o0\<rparr> # es"
  let ?s = "(new_slice 0 (length cs) new m al)\<lparr>sl_offset := o0, sl_fsize := fo_offset st2 - fo_slice st2\<rparr>"
  have st0: "st0\<lparr>fo_first := True\<rparr> = st0" by (simp add: st0_def)
  have all: "seg_assignFileOffsets env off (vr_slices r) (vr_chunks r) = (?fs, [?s], fo_offset st2 - off)"
    using first(1,2) rest len cs
    by (simp add: r(1,2) seg_assignFileOffsets_def fo_slice_step_def slice_chunks_def new_slice_def st0_def [symmetric] st0 Let_def)
  have es: "map ck_addr es = map ck_addr ds" "addr_chain (new + (if ck_tbss c then 0 else ck_msize c)) es" "length es = length ds"
    using offset_set_addresses [OF rest(2) r(4)] rest(2) by (simp_all add: list_all2_lengthD)
  have "ck_offset (?fs ! i) = ck_addr (?fs ! i) + (o0 - new)"
    if "i < length cs" "\<forall>j < i. fills (?fs ! j)" "\<not> ck_tbss (?fs ! i)" for i
    using that es(2,3) len cs rest(3) first(3)
    by (intro chained_offsets [OF _ _ offset_set_small [OF rest(2) smalls] assms(3) first(5)]) (simp_all split: if_splits)
  then show ?thesis
    using all es(1,3) len cs first(5) by (intro exI [of _ ?fs] exI [of _ ?s] exI) (simp add: r(1,2) new_slice_def)
qed

section \<open>The order of segments\<close>

definition segment_rank :: "segment_type \<Rightarrow> nat \<times> segment_type" where
  "segment_rank ty =
     (if ty = PT_PHDR then (0, 0) else if ty = PT_INTERP then (1, 0) else if ty = PT_LOAD then (2, 0)
      else if ty = PT_TLS then (4, 0) else if ty = PT_GNU_RELRO then (5, 0) else (3, ty))"

text \<open>The comparison of segments is the lexicographic order of a rank of the type (program headers, interpreter,
  loadable, others by number, thread-local, read-only after relocation) and of the access rights, so it is a strict weak
  order, as sorting by it requires.\<close>

theorem compareSegments_rank:
  "compareSegments a b \<longleftrightarrow>
     fst (segment_rank (sg_type a)) < fst (segment_rank (sg_type b)) \<or>
     fst (segment_rank (sg_type a)) = fst (segment_rank (sg_type b)) \<and>
       (snd (segment_rank (sg_type a)) < snd (segment_rank (sg_type b)) \<or>
        snd (segment_rank (sg_type a)) = snd (segment_rank (sg_type b)) \<and>
          segment_order (sg_perms a) < segment_order (sg_perms b))"
  unfolding compareSegments_def Let_def segment_rank_def
  by (simp add: PT_PHDR_def PT_INTERP_def PT_LOAD_def PT_TLS_def PT_GNU_RELRO_def)

section \<open>Samples\<close>

definition sample_chunk :: "string \<Rightarrow> u64 \<Rightarrow> u64 \<Rightarrow> u64 \<Rightarrow> chunk" where
  "sample_chunk nm al fsz msz =
     \<lparr>ck_kind = Section_chunk, ck_name = nm, ck_flags = SHF_ALLOC, ck_content = Code_content, ck_align = al, ck_fsize = fsz,
      ck_msize = msz, ck_tbss = False, ck_tls = False, ck_loadable = True, ck_addr = 0, ck_atoms = None, ck_offset = 0\<rparr>"

definition sample_env :: seg_env where
  "sample_env = \<lparr>pageSize = 0x1000, alignSegments = True, outputMagic = DEFAULT_magic\<rparr>"

definition sample_chunks :: "chunk list" where
  "sample_chunks = [sample_chunk ''.text'' 16 100 100, sample_chunk ''.rodata'' 32 10 10, sample_chunk ''.bss'' 8 0 64]"

lemma pow2_word_samples: "pow2_word 8 3" "pow2_word 16 4" "pow2_word 32 5" "pow2_word 0x1000 12" "pow2_word 0x4000 14"
  by (simp_all add: pow2_word_def)

theorem segment_addresses_witness:
  "tiles 0 (vr_slices (seg_assignVirtualAddress sample_env 0x400123 [] sample_chunks)) 3"
proof -
  have "\<forall>c \<in> set sample_chunks. plain_chunk sample_env c"
    using pow2_word_samples by (auto simp: sample_chunks_def plain_chunk_def sample_chunk_def evalExpr_def)
  moreover have "pow2_word (pageSize sample_env) 12" using pow2_word_samples by (simp add: sample_env_def)
  moreover have "unat (0x400123 :: u64) + 2 * unat (pageSize sample_env) + chunks_room sample_chunks < 2 ^ 64"
    by (simp add: chunks_room_def sample_env_def sample_chunks_def sample_chunk_def)
  ultimately have "tiles 0 (vr_slices (seg_assignVirtualAddress sample_env 0x400123 [] sample_chunks)) (length sample_chunks)"
    using segment_addresses [of sample_chunks sample_env 12 "0x400123"] by (simp add: sample_chunks_def)
  then show ?thesis by (simp add: sample_chunks_def numeral_3_eq_3)
qed

theorem segment_file_offsets_witness:
  "\<exists>fs s fsz. seg_assignFileOffsets sample_env 0x40
       (vr_slices (seg_assignVirtualAddress sample_env 0x400123 [] sample_chunks))
       (vr_chunks (seg_assignVirtualAddress sample_env 0x400123 [] sample_chunks)) = (fs, [s], fsz) \<and>
     (sl_offset s - sl_addr s) mod 0x1000 = 0"
proof -
  have "\<exists>k \<le> 12. pow2_word al k" if "al \<in> {8, 16, 32}" for al
    using that pow2_word_samples by (auto intro: exI [of _ 3] exI [of _ 4] exI [of _ 5])
  then have small: "\<forall>c \<in> set sample_chunks. small_chunk sample_env 12 c"
    by (simp add: sample_chunks_def small_chunk_def aligned_within_def sample_chunk_def needAlign_def)
  have env: "sample_chunks \<noteq> []" "pow2_word (pageSize sample_env) 12" "outputMagic sample_env = DEFAULT_magic"
    "alignSegments sample_env \<or> is_section (hd sample_chunks) \<and> ck_loadable (hd sample_chunks) \<or>
       (0x40 - 0x400123) mod pageSize sample_env = 0"
    using pow2_word_samples by (simp_all add: sample_env_def sample_chunks_def)
  have "\<exists>fs s fsz. seg_assignFileOffsets sample_env 0x40
       (vr_slices (seg_assignVirtualAddress sample_env 0x400123 [] sample_chunks))
       (vr_chunks (seg_assignVirtualAddress sample_env 0x400123 [] sample_chunks)) = (fs, [s], fsz) \<and>
     (sl_offset s - sl_addr s) mod pageSize sample_env = 0"
    using segment_file_offsets [OF env(1) small env(2,3,4)]
    by (elim exE conjE) (intro exI conjI, assumption+)
  moreover have "pageSize sample_env = 0x1000" by (simp add: sample_env_def)
  ultimately show ?thesis by simp
qed

text \<open>What the hypotheses of the last theorem leave out. A chunk aligned to more than a page is put into the slice when the gap
  before it is within a page, but the slice's offset is only aligned to the page, so the chunk's offset rounds up to another
  distance than its address.\<close>

lemmas segment_evals = seg_assignVirtualAddress_def seg_assignFileOffsets_def va_first_def va_next_def fo_slice_step_def
  fo_chunk_def slice_chunks_def put_slice_def set_addr_def next_tls_def evalExpr_def outputName_def needAlign_def
  RoundUpToAlignment_def sample_chunk_def sample_env_def Let_def

definition first_layout :: "u64 \<Rightarrow> u64 \<Rightarrow> chunk list \<Rightarrow> (u64 \<times> u64) list \<times> (u64 \<times> u64) list" where
  "first_layout addr off cs =
     (let r = seg_assignVirtualAddress sample_env addr [] cs in
      case seg_assignFileOffsets sample_env off (vr_slices r) (vr_chunks r) of
        (fs, sls, _) \<Rightarrow> (map (\<lambda>s. (sl_addr s, sl_offset s)) sls, map (\<lambda>c. (ck_addr c, ck_offset c)) fs))"

lemma large_alignment_not_mapped:
  "first_layout 0x3000 0x1000 [sample_chunk ''.text'' 16 16 16, sample_chunk ''.rodata'' 0x4000 16 16] =
     ([(0x3000, 0x1000)], [(0x3000, 0x1000), (0x4000, 0x4000)])"
  unfolding first_layout_def by (simp add: segment_evals)

text \<open>The file offset is rounded up for thread-local zero fill, the address after it is not.\<close>

lemma tbss_not_mapped:
  "first_layout 0x1000 0x1000
     [sample_chunk ''.tdata'' 4 4 4, (sample_chunk ''.tbss'' 16 0 16)\<lparr>ck_tbss := True\<rparr>, sample_chunk ''.data'' 4 16 16] =
     ([(0x1000, 0x1000)], [(0x1000, 0x1000), (0x1010, 0x1010), (0x1004, 0x1010)])"
  unfolding first_layout_def by (simp add: segment_evals)

text \<open>The flags of a segment are not the union of its sections' flags: a section whose flags are the smaller number is
  left out.\<close>

lemma segment_flags_lost:
  "segment_flags (segment_append True ((sample_chunk ''.data'' 8 8 8)\<lparr>ck_flags := SHF_ALLOC OR SHF_WRITE\<rparr>)
     (segment_append False ((sample_chunk ''.text'' 8 8 8)\<lparr>ck_flags := SHF_ALLOC OR SHF_EXECINSTR\<rparr>) (new_segment PT_LOAD))) = 5"
  by (simp add: segment_flags_def segment_append_def new_segment_def sample_chunk_def elf_numbers Let_def)

end
