(* ===== verification/Target_Layout.thy ===== *)
theory Target_Layout
  imports Segment_Layout Script_Sema "HOL-Library.Multiset"
begin

text \<open>
  How the ELF writer arranges what it has to write (lib/ReaderWriter/ELF/TargetLayout.h, TargetLayout.cpp): which
  section an atom goes to, the order of the sections, the output sections they are joined to and the segments
  these go into. The targets' own overrides are left out: this is the layout of x86-64, AArch64 and MIPS.
\<close>

section \<open>The order of sections\<close>

type_synonym section_order = u32

definition ORDER_NOT_DEFINED :: section_order where "ORDER_NOT_DEFINED = 0"
definition ORDER_INTERP :: section_order where "ORDER_INTERP = 10"
definition ORDER_RO_NOTE :: section_order where "ORDER_RO_NOTE = 15"
definition ORDER_HASH :: section_order where "ORDER_HASH = 30"
definition ORDER_DYNAMIC_SYMBOLS :: section_order where "ORDER_DYNAMIC_SYMBOLS = 40"
definition ORDER_DYNAMIC_STRINGS :: section_order where "ORDER_DYNAMIC_STRINGS = 50"
definition ORDER_DYNAMIC_RELOCS :: section_order where "ORDER_DYNAMIC_RELOCS = 52"
definition ORDER_DYNAMIC_PLT_RELOCS :: section_order where "ORDER_DYNAMIC_PLT_RELOCS = 54"
definition ORDER_INIT :: section_order where "ORDER_INIT = 60"
definition ORDER_PLT :: section_order where "ORDER_PLT = 70"
definition ORDER_TEXT :: section_order where "ORDER_TEXT = 80"
definition ORDER_FINI :: section_order where "ORDER_FINI = 90"
definition ORDER_REL :: section_order where "ORDER_REL = 95"
definition ORDER_RODATA :: section_order where "ORDER_RODATA = 100"
definition ORDER_EH_FRAME :: section_order where "ORDER_EH_FRAME = 110"
definition ORDER_EH_FRAMEHDR :: section_order where "ORDER_EH_FRAMEHDR = 120"
definition ORDER_TDATA :: section_order where "ORDER_TDATA = 124"
definition ORDER_TBSS :: section_order where "ORDER_TBSS = 128"
definition ORDER_CTORS :: section_order where "ORDER_CTORS = 130"
definition ORDER_DTORS :: section_order where "ORDER_DTORS = 140"
definition ORDER_INIT_ARRAY :: section_order where "ORDER_INIT_ARRAY = 150"
definition ORDER_FINI_ARRAY :: section_order where "ORDER_FINI_ARRAY = 160"
definition ORDER_DYNAMIC :: section_order where "ORDER_DYNAMIC = 170"
definition ORDER_GOT :: section_order where "ORDER_GOT = 180"
definition ORDER_GOT_PLT :: section_order where "ORDER_GOT_PLT = 190"
definition ORDER_DATA :: section_order where "ORDER_DATA = 200"
definition ORDER_RW_NOTE :: section_order where "ORDER_RW_NOTE = 205"
definition ORDER_BSS :: section_order where "ORDER_BSS = 210"
definition ORDER_NOALLOC :: section_order where "ORDER_NOALLOC = 215"
definition ORDER_OTHER :: section_order where "ORDER_OTHER = 220"

lemmas order_numbers = ORDER_NOT_DEFINED_def ORDER_INTERP_def ORDER_RO_NOTE_def ORDER_HASH_def ORDER_DYNAMIC_SYMBOLS_def
  ORDER_DYNAMIC_STRINGS_def ORDER_DYNAMIC_RELOCS_def ORDER_DYNAMIC_PLT_RELOCS_def ORDER_INIT_def ORDER_PLT_def
  ORDER_TEXT_def ORDER_FINI_def ORDER_REL_def ORDER_RODATA_def ORDER_EH_FRAME_def ORDER_EH_FRAMEHDR_def
  ORDER_TDATA_def ORDER_TBSS_def ORDER_CTORS_def ORDER_DTORS_def ORDER_INIT_ARRAY_def ORDER_FINI_ARRAY_def
  ORDER_DYNAMIC_def ORDER_GOT_def ORDER_GOT_PLT_def ORDER_DATA_def ORDER_RW_NOTE_def ORDER_BSS_def
  ORDER_NOALLOC_def ORDER_OTHER_def

text \<open>A \<open>StringSwitch\<close> of \<open>StartsWith\<close> cases: the first one that fits.\<close>

fun switch_start :: "string \<Rightarrow> (string \<times> 'a) list \<Rightarrow> 'a \<Rightarrow> 'a" where
  "switch_start s [] d = d"
| "switch_start s ((pre, v) # cases) d = (if startswith s pre then v else switch_start s cases d)"

definition getSectionOrder :: "string \<Rightarrow> content_type \<Rightarrow> content_permissions \<Rightarrow> section_order" where
  "getSectionOrder name ct perms =
     (if ct \<in> {typeResolver, typeCode} then
        switch_start name
          [(''.eh_frame_hdr'', ORDER_EH_FRAMEHDR), (''.eh_frame'', ORDER_EH_FRAME), (''.init'', ORDER_INIT),
           (''.fini'', ORDER_FINI), (''.hash'', ORDER_HASH)] ORDER_TEXT
      else if ct = typeConstant then ORDER_RODATA
      else if ct \<in> {typeData, typeDataFast} then
        switch_start name
          [(''.init_array'', ORDER_INIT_ARRAY), (''.fini_array'', ORDER_FINI_ARRAY), (''.dynamic'', ORDER_DYNAMIC),
           (''.ctors'', ORDER_CTORS), (''.dtors'', ORDER_DTORS)] ORDER_DATA
      else if ct \<in> {typeZeroFill, typeZeroFillFast} then ORDER_BSS
      else if ct = typeGOT then switch_start name [(''.got.plt'', ORDER_GOT_PLT)] ORDER_GOT
      else if ct = typeStub then ORDER_PLT
      else if ct = typeRONote then ORDER_RO_NOTE
      else if ct = typeRWNote then ORDER_RW_NOTE
      else if ct = typeNoAlloc then ORDER_NOALLOC
      else if ct = typeThreadData then ORDER_TDATA
      else if ct = typeThreadZeroFill then ORDER_TBSS
      else if perms = perm_None then ORDER_OTHER
      else ORDER_NOT_DEFINED)"

definition getInputSectionName :: "defined_atom \<Rightarrow> string" where
  "getInputSectionName da =
     (let own = customSectionName da in
      if sectionChoice da \<noteq> sectionBasedOnContent then own
      else case contentType da of
          typeCode \<Rightarrow> ''.text''
        | typeData \<Rightarrow> ''.data''
        | typeConstant \<Rightarrow> ''.rodata''
        | typeZeroFill \<Rightarrow> ''.bss''
        | typeThreadData \<Rightarrow> ''.tdata''
        | typeThreadZeroFill \<Rightarrow> ''.tbss''
        | _ \<Rightarrow> own)"

definition default_output_name :: "string \<Rightarrow> string" where
  "default_output_name name =
     switch_start name
       (map (\<lambda>s. (s, s))
         [''.text'', ''.ctors'', ''.dtors'', ''.rodata'', ''.gcc_except_table'', ''.data.rel.ro'', ''.data.rel.local'',
          ''.data'', ''.tdata'', ''.tbss'', ''.init_array'', ''.fini_array'']) name"

text \<open>\<open>None\<close> is undefined, as in Script_Sema.\<close>

definition getOutputSectionName :: "section_key \<Rightarrow> sema \<Rightarrow> (string \<times> sema) option" where
  "getOutputSectionName key s =
     (if hasLayoutCommands s
      then do { (name, s) \<leftarrow> getOutputSection key s;
                Some (if name \<noteq> [] then name else default_output_name (sectionName key), s) }
      else Some (default_output_name (sectionName key), s))"

section \<open>Segment types\<close>

definition PT_NULL :: segment_type where "PT_NULL = 0"
definition PT_DYNAMIC :: segment_type where "PT_DYNAMIC = 2"
definition PT_GNU_EH_FRAME :: segment_type where "PT_GNU_EH_FRAME = 0x6474e550"

lemmas segment_numbers = PT_NULL_def PT_LOAD_def PT_DYNAMIC_def PT_INTERP_def PT_NOTE_def PT_PHDR_def PT_TLS_def
  PT_GNU_RELRO_def PT_GNU_EH_FRAME_def

definition getSegmentType :: "section_order \<Rightarrow> segment_type" where
  "getSegmentType order =
     (if order = ORDER_INTERP then PT_INTERP
      else if order \<in> {ORDER_TEXT, ORDER_HASH, ORDER_DYNAMIC_SYMBOLS, ORDER_DYNAMIC_STRINGS, ORDER_DYNAMIC_RELOCS,
          ORDER_DYNAMIC_PLT_RELOCS, ORDER_REL, ORDER_INIT, ORDER_PLT, ORDER_FINI, ORDER_RODATA, ORDER_EH_FRAME,
          ORDER_CTORS, ORDER_DTORS} then PT_LOAD
      else if order \<in> {ORDER_RO_NOTE, ORDER_RW_NOTE} then PT_NOTE
      else if order = ORDER_DYNAMIC then PT_DYNAMIC
      else if order = ORDER_EH_FRAMEHDR then PT_GNU_EH_FRAME
      else if order \<in> {ORDER_GOT, ORDER_GOT_PLT, ORDER_DATA, ORDER_BSS, ORDER_INIT_ARRAY, ORDER_FINI_ARRAY} then PT_LOAD
      else if order \<in> {ORDER_TDATA, ORDER_TBSS} then PT_TLS
      else PT_NULL)"

definition with_segment :: "section_order set" where
  "with_segment =
     {ORDER_INTERP, ORDER_HASH, ORDER_DYNAMIC_SYMBOLS, ORDER_DYNAMIC_STRINGS, ORDER_DYNAMIC_RELOCS,
      ORDER_DYNAMIC_PLT_RELOCS, ORDER_REL, ORDER_INIT, ORDER_PLT, ORDER_TEXT, ORDER_FINI, ORDER_RODATA, ORDER_EH_FRAME,
      ORDER_EH_FRAMEHDR, ORDER_TDATA, ORDER_TBSS, ORDER_RO_NOTE, ORDER_RW_NOTE, ORDER_DYNAMIC, ORDER_CTORS, ORDER_DTORS,
      ORDER_GOT, ORDER_GOT_PLT, ORDER_DATA, ORDER_INIT_ARRAY, ORDER_FINI_ARRAY, ORDER_BSS, ORDER_NOALLOC}"

section \<open>The objects of a layout\<close>

text \<open>
  A chunk of the list \<open>_sections\<close>. \<open>ls_elf\<close> has the members of \<open>Chunk\<close> and \<open>Section\<close>; \<open>ls_first\<close> is the output section the
  chunk is the first section of.
\<close>

datatype object_kind = K_AtomSection | K_Section | K_Chunk

record lsection =
  ls_kind :: object_kind
  ls_elf :: elf_section
  ls_input :: string
  ls_output :: string
  ls_archive :: string
  ls_member :: string
  ls_loadable :: bool
  ls_hasSegment :: bool
  ls_first :: "nat option"
  ls_segment :: segment_type
  ls_ordinal :: nat

definition key_of :: "lsection \<Rightarrow> section_key" where
  "key_of x = \<lparr>archivePath = ls_archive x, memberPath = ls_member x, sectionName = ls_input x\<rparr>"

definition hasOutputSegment :: "lsection \<Rightarrow> bool" where
  "hasOutputSegment x \<longleftrightarrow> sec_order (ls_elf x) \<in> with_segment \<or> ls_hasSegment x"

text \<open>The output sections of the layout; the map by name finds the only one of that name.\<close>

record out_section =
  oo_name :: string
  oo_data :: Atom_Section.output_section
  oo_ids :: "nat list"
  oo_hasSegment :: bool
  oo_loadable :: bool
  oo_ordinal :: nat

definition new_out :: "string \<Rightarrow> out_section" where
  "new_out name = \<lparr>oo_name = name, oo_data = new_output_section, oo_ids = [], oo_hasSegment = False, oo_loadable = False,
     oo_ordinal = 0\<rparr>"

text \<open>The keys of \<open>_additionalSegmentMap\<close> and of \<open>_segmentMap\<close>; the segment of the program headers has none.\<close>

datatype seg_key = Additional segment_type u64 | Load u64 | Headers

datatype chunk_ref = Sect nat | Expr nat symbol_assignment | Elf_header | Program_header

record target_layout =
  tl_objects :: "nat \<Rightarrow> lsection"
  tl_sections :: "nat list"
  tl_outputs :: "out_section list"
  tl_segments :: "(seg_key \<times> chunk_ref segment) list"
  tl_sema :: sema

record layout_env =
  le_magic :: output_magic
  mergeRODataToTextSegment :: bool
  isDynamicExecutable :: bool

text \<open>\<open>Section::alignment\<close>.\<close>

definition alignment_of :: "target_layout \<Rightarrow> lsection \<Rightarrow> u64" where
  "alignment_of t x =
     (case ls_first x of None \<Rightarrow> sec_align (ls_elf x) | Some k \<Rightarrow> Atom_Section.os_align (oo_data (tl_outputs t ! k)))"

text \<open>What a segment sees of a section.\<close>

definition chunk_of :: "target_layout \<Rightarrow> lsection \<Rightarrow> chunk" where
  "chunk_of t x =
     \<lparr>ck_kind = Section_chunk, ck_name = ls_output x, ck_flags = sec_flags (ls_elf x),
      ck_content = getContentType (ls_elf x), ck_align = alignment_of t x, ck_fsize = sec_fsize (ls_elf x),
      ck_msize = sec_msize (ls_elf x), ck_tbss = (sec_order (ls_elf x) = ORDER_TBSS), ck_tls = (ls_segment x = PT_TLS),
      ck_loadable = ls_loadable x, ck_addr = 0, ck_atoms = None, ck_offset = 0\<rparr>"

section \<open>From atoms to sections\<close>

text \<open>
  What a target's linking context says of a reference, and the paths of a file. An item of the list \<open>_sections\<close> is here a
  section of atoms, by its place in \<open>ad_secs\<close>, or one of the two relocation tables.
\<close>

record add_env =
  isDynamicRelocation :: "reference \<Rightarrow> bool"
  isPLTRelocation :: "reference \<Rightarrow> bool"
  isCopyRelocation :: "reference \<Rightarrow> bool"
  file_path :: "file_id \<Rightarrow> string"
  file_archive :: "file_id \<Rightarrow> string"
  file_member :: "file_id \<Rightarrow> string"

datatype section_item = Atom_item nat | Dynamic_table | Plt_table

record added =
  ad_items :: "section_item list"
  ad_secs :: "(lsection \<times> atom_section) list"
  ad_map :: "string \<times> content_permissions \<times> string \<rightharpoonup> nat"
  ad_dynamic :: "(atom_id \<times> reference) list option"
  ad_plt :: "(atom_id \<times> reference) list option"
  ad_absolute :: "(atom_id \<times> u64) list"
  ad_referenced :: "atom_id set"
  ad_copied :: "string set"
  ad_sema :: sema

definition nothing_added :: "sema \<Rightarrow> added" where
  "nothing_added s =
     \<lparr>ad_items = [], ad_secs = [], ad_map = Map.empty, ad_dynamic = None, ad_plt = None, ad_absolute = [],
      ad_referenced = {}, ad_copied = {}, ad_sema = s\<rparr>"

definition createSection :: "string \<Rightarrow> string \<Rightarrow> content_type \<Rightarrow> content_permissions \<Rightarrow> section_order \<Rightarrow> string \<Rightarrow> string \<Rightarrow>
    lsection \<times> atom_section" where
  "createSection name out ct perms order archive member =
     (let s = new_atom_section ct perms order in
      (\<lparr>ls_kind = K_AtomSection, ls_elf = elf_section.truncate s, ls_input = name, ls_output = out, ls_archive = archive,
        ls_member = member, ls_loadable = isLoadedInMemory s, ls_hasSegment = False, ls_first = None,
        ls_segment = PT_NULL, ls_ordinal = 1\<rparr>, s))"

text \<open>\<open>getSection\<close>: the place of the section, which is made when its key comes for the first time.\<close>

definition getSection :: "add_env \<Rightarrow> string \<Rightarrow> content_type \<Rightarrow> content_permissions \<Rightarrow> file_id \<Rightarrow> added \<Rightarrow> (nat \<times> added) option" where
  "getSection env name ct perms f st =
     (let key = (name, perms, file_path env f); order = getSectionOrder name ct perms in
      case ad_map st key of
        Some i \<Rightarrow> Some (i, st)
      | None \<Rightarrow>
          do { (out, s) \<leftarrow> getOutputSectionName
                 \<lparr>archivePath = file_archive env f, memberPath = file_member env f, sectionName = name\<rparr> (ad_sema st);
               let i = length (ad_secs st);
               Some (i, st\<lparr>ad_sema := s, ad_items := ad_items st @ [Atom_item i], ad_map := (ad_map st)(key \<mapsto> i),
                 ad_secs := ad_secs st @ [createSection name out ct perms order (file_archive env f) (file_member env f)]\<rparr>) })"

text \<open>The two tables are made when they are asked for; the loop over the references of an atom.\<close>

definition addDynamic :: "atom_id \<Rightarrow> reference \<Rightarrow> added \<Rightarrow> added" where
  "addDynamic a r st =
     (case ad_dynamic st of
        Some rs \<Rightarrow> st\<lparr>ad_dynamic := Some (rs @ [(a, r)])\<rparr>
      | None \<Rightarrow> st\<lparr>ad_dynamic := Some [(a, r)], ad_items := ad_items st @ [Dynamic_table]\<rparr>)"

definition addPLT :: "atom_id \<Rightarrow> reference \<Rightarrow> added \<Rightarrow> added" where
  "addPLT a r st =
     (case ad_plt st of
        Some rs \<Rightarrow> st\<lparr>ad_plt := Some (rs @ [(a, r)])\<rparr>
      | None \<Rightarrow> st\<lparr>ad_plt := Some [(a, r)], ad_items := ad_items st @ [Plt_table]\<rparr>)"

definition add_reference :: "add_env \<Rightarrow> store \<Rightarrow> atom_id \<Rightarrow> reference \<Rightarrow> added \<Rightarrow> added" where
  "add_reference env h a r st =
     (let isLocal = \<not> isDynamicRelocation env r \<and> \<not> isPLTRelocation env r;
          st = (if isDynamicRelocation env r then addDynamic a r st
                else if isPLTRelocation env r then addPLT a r st else st) in
      if is_undefined_at h (target r) \<and> isLocal then st
      else if isCopyRelocation env r then st\<lparr>ad_copied := insert (name_of h a) (ad_copied st)\<rparr>
      else st\<lparr>ad_referenced := insert (target r) (ad_referenced st)\<rparr>)"

text \<open>\<open>addAtom\<close>: the result says whether the atom was accepted; \<open>None\<close> is a failing cast or an unreachable case.\<close>

definition addAtom :: "add_env \<Rightarrow> store \<Rightarrow> atom_id \<Rightarrow> added \<Rightarrow> (bool \<times> added) option" where
  "addAtom env h a st =
     (case atom_at h a of
        DefinedAtom nm f d \<Rightarrow>
          if contentType d = typeUnknown then Some (False, st)
          else do { (i, st) \<leftarrow> getSection env (getInputSectionName d) (contentType d) (permissions_of d) f st;
                    let st = fold (add_reference env h a) (refs d) st;
                    s \<leftarrow> appendAtom (nm, d) (snd (ad_secs st ! i));
                    Some (True, st\<lparr>ad_secs := (ad_secs st)[i := (fst (ad_secs st ! i), s)]\<rparr>) }
      | AbsoluteAtom _ _ v _ \<Rightarrow> Some (True, st\<lparr>ad_absolute := ad_absolute st @ [(a, v)]\<rparr>)
      | _ \<Rightarrow> None)"

fun addAtoms :: "add_env \<Rightarrow> store \<Rightarrow> atom_id list \<Rightarrow> added \<Rightarrow> added option" where
  "addAtoms env h [] st = Some st"
| "addAtoms env h (a # as) st = do { (ok, st) \<leftarrow> addAtom env h a st; addAtoms env h as st }"

text \<open>The object that the sorting and the segments see of a section once its atoms are there.\<close>

definition section_object :: "lsection \<times> atom_section \<Rightarrow> lsection" where
  "section_object p = (fst p)\<lparr>ls_elf := elf_section.truncate (snd p)\<rparr>"

section \<open>Sorting the sections\<close>

text \<open>The virtual \<open>getContentType\<close>; the section header is the one chunk of the list that is not a section.\<close>

definition content_of :: "lsection \<Rightarrow> chunk_content" where
  "content_of x = (if ls_kind x = K_Chunk then Header_content else getContentType (ls_elf x))"

text \<open>
  \<open>std::stable_sort\<close> with a comparison that may be undefined and works on the caches of the linker script semantics: an
  insertion sort, whose result is that of every stable sort when the comparison is a strict weak order.
\<close>

fun insert_stable :: "('a \<Rightarrow> 'a \<Rightarrow> sema \<Rightarrow> (bool \<times> sema) option) \<Rightarrow> 'a \<Rightarrow> 'a list \<Rightarrow> sema \<Rightarrow> ('a list \<times> sema) option" where
  "insert_stable lt x [] s = Some ([x], s)"
| "insert_stable lt x (y # ys) s =
     do { (before, s) \<leftarrow> lt y x s;
          if before then do { (zs, s) \<leftarrow> insert_stable lt x ys s; Some (y # zs, s) }
          else Some (x # y # ys, s) }"

fun stable_sort :: "('a \<Rightarrow> 'a \<Rightarrow> sema \<Rightarrow> (bool \<times> sema) option) \<Rightarrow> 'a list \<Rightarrow> sema \<Rightarrow> ('a list \<times> sema) option" where
  "stable_sort lt [] s = Some ([], s)"
| "stable_sort lt (x # xs) s =
     do { (ys, s) \<leftarrow> stable_sort lt xs s; insert_stable lt x ys s }"

definition script_less :: "lsection \<Rightarrow> lsection \<Rightarrow> sema \<Rightarrow> (bool \<times> sema) option" where
  "script_less a b s =
     (if ls_kind a = K_Chunk then Some (False, s)
      else if ls_kind b = K_Chunk then Some (True, s)
      else sema_less (key_of a) (key_of b) s)"

text \<open>The number of sections in front that have a rule: the first \<open>while\<close> loop.\<close>

fun mapped_prefix :: "(nat \<Rightarrow> lsection) \<Rightarrow> nat list \<Rightarrow> sema \<Rightarrow> (nat \<times> sema) option" where
  "mapped_prefix obj [] s = Some (0, s)"
| "mapped_prefix obj (i # is) s =
     (if ls_kind (obj i) \<noteq> K_AtomSection then Some (0, s)
      else do { (mapped, s) \<leftarrow> hasMapping (key_of (obj i)) s;
                if \<not> mapped then Some (0, s)
                else do { (n, s) \<leftarrow> mapped_prefix obj is s; Some (Suc n, s) } })"

text \<open>
  The loop that moves the section at \<open>p\<close> behind the last one before it with the same content, if there is one. \<open>done\<close> is
  what stands before \<open>p\<close>.
\<close>

definition move_near :: "(nat \<Rightarrow> chunk_content) \<Rightarrow> nat \<Rightarrow> nat list \<Rightarrow> nat list" where
  "move_near content i done =
     (let rest = rev (takeWhile (\<lambda>j. content j \<noteq> content i) (rev done)) in
      if length rest = length done then done @ [i]
      else take (length done - length rest) done @ [i] @ rest)"

definition sortInputSections :: "target_layout \<Rightarrow> target_layout option" where
  "sortInputSections t =
     (let obj = tl_objects t; by_order = sort_key (\<lambda>i. sec_order (ls_elf (obj i))) (tl_sections t) in
      if \<not> hasLayoutCommands (tl_sema t) then Some (t\<lparr>tl_sections := by_order\<rparr>)
      else do {
        (sorted, s) \<leftarrow> stable_sort (\<lambda>i j. script_less (obj i) (obj j)) by_order (tl_sema t);
        (p, s) \<leftarrow> mapped_prefix obj sorted s;
        Some (t\<lparr>tl_sema := s,
                 tl_sections := (if p = 0 then sorted
                   else fold (move_near (\<lambda>i. content_of (obj i))) (drop p sorted) (take p sorted))\<rparr>) })"

section \<open>Output sections\<close>

text \<open>
  \<open>checkOutputSectionSegment\<close> ends the link (\<open>None\<close>) when the linker script names a program header it does not declare.
  \<open>append_to\<close> is \<open>OutputSection::appendSection\<close> on the object \<open>i\<close>.
\<close>

definition checkOutputSectionSegment :: "string \<Rightarrow> sema \<Rightarrow> sema option" where
  "checkOutputSectionSegment name s =
     (case getPHDRsForOutputSection name s of (None, _) \<Rightarrow> None | (Some _, s) \<Rightarrow> Some s)"

definition find_output :: "string \<Rightarrow> out_section list \<Rightarrow> nat option" where
  "find_output name outs = (if \<exists>os \<in> set outs. oo_name os = name
     then Some (length (takeWhile (\<lambda>os. oo_name os \<noteq> name) outs)) else None)"

definition append_to :: "nat \<Rightarrow> nat \<Rightarrow> target_layout \<Rightarrow> target_layout option" where
  "append_to k i t =
     (let x = tl_objects t i; os = tl_outputs t ! k;
          e = (ls_elf x)\<lparr>sec_align := alignment_of t x\<rparr> in
      do { d \<leftarrow> os_appendSection e (oo_data os);
           Some (t\<lparr>tl_outputs := (tl_outputs t)[k := os\<lparr>oo_data := d, oo_ids := oo_ids os @ [i]\<rparr>],
                    tl_objects := (tl_objects t)(i := x\<lparr>ls_first := (if oo_ids os = [] then Some k else None)\<rparr>)\<rparr>) })"

definition output_step :: "nat \<Rightarrow> target_layout \<Rightarrow> target_layout option" where
  "output_step i t =
     (let x = tl_objects t i in
      if ls_kind x = K_Chunk then Some t
      else case find_output (ls_output x) (tl_outputs t) of
          Some k \<Rightarrow> append_to k i t
        | None \<Rightarrow>
            do { s \<leftarrow> checkOutputSectionSegment (ls_output x) (tl_sema t);
                 append_to (length (tl_outputs t)) i
                   (t\<lparr>tl_sema := s, tl_outputs := tl_outputs t @ [new_out (ls_output x)]\<rparr>) })"

fun createOutputs :: "nat list \<Rightarrow> target_layout \<Rightarrow> target_layout option" where
  "createOutputs [] t = Some t"
| "createOutputs (i # is) t = do { t \<leftarrow> output_step i t; createOutputs is t }"

definition createOutputSections :: "target_layout \<Rightarrow> target_layout option" where
  "createOutputSections t = createOutputs (tl_sections t) t"

text \<open>The ordinals count the output sections from one; a section has that of its output section.\<close>

definition setOrdinals :: "target_layout \<Rightarrow> target_layout" where
  "setOrdinals t =
     fold (\<lambda>k t. let os = tl_outputs t ! k in
       t\<lparr>tl_outputs := (tl_outputs t)[k := os\<lparr>oo_ordinal := k + 1\<rparr>],
          tl_objects := (\<lambda>i. if i \<in> set (oo_ids os) then (tl_objects t i)\<lparr>ls_ordinal := k + 1\<rparr> else tl_objects t i)\<rparr>)
       [0..<length (tl_outputs t)] t"

section \<open>Segments\<close>

definition SHF_MERGE :: u64 where "SHF_MERGE = 0x10"
definition SHF_STRINGS :: u64 where "SHF_STRINGS = 0x20"

text \<open>The flags of \<open>llvm::ELF\<close> are 32 bits wide, and so is the complement taken of them: masking with it clears the upper half
  of a 64-bit word as well.\<close>

definition without_flags :: "u64 \<Rightarrow> u64 \<Rightarrow> u64" where
  "without_flags flags f = flags AND take_bit 32 (NOT f)"

definition getLookupSectionFlags :: "layout_env \<Rightarrow> u64 \<Rightarrow> u64" where
  "getLookupSectionFlags env raw =
     (let flags = (if raw AND SHF_WRITE = 0 \<and> mergeRODataToTextSegment env
                   then without_flags raw SHF_EXECINSTR else raw);
          flags = without_flags flags (SHF_STRINGS OR SHF_MERGE)
      in without_flags flags SHF_TLS)"

text \<open>The segment of a key, made when it is asked for the first time, and the change of it.\<close>

definition on_segment :: "seg_key \<Rightarrow> segment_type \<Rightarrow> (chunk_ref segment \<Rightarrow> chunk_ref segment) \<Rightarrow> target_layout \<Rightarrow> target_layout" where
  "on_segment key ty f t =
     (let segs = tl_segments t;
          segs = (if \<exists>p \<in> set segs. fst p = key then segs else segs @ [(key, new_segment ty)])
      in t\<lparr>tl_segments := map (\<lambda>(k, s). (k, if k = key then f s else s)) segs\<rparr>)"

definition expression_chunk :: chunk where
  "expression_chunk =
     \<lparr>ck_kind = Expression_chunk id, ck_name = [], ck_flags = 0, ck_content = Unknown_content, ck_align = 1, ck_fsize = 0,
      ck_msize = 0, ck_tbss = False, ck_tls = False, ck_loadable = False, ck_addr = 0, ck_atoms = None, ck_offset = 0\<rparr>"

definition addExtraChunksToSegment :: "seg_key \<Rightarrow> section_key \<Rightarrow> target_layout \<Rightarrow> target_layout option" where
  "addExtraChunksToSegment key sk t =
     (if \<not> hasLayoutCommands (tl_sema t) then Some t
      else do { (exprs, s) \<leftarrow> getExprs sk (tl_sema t);
                Some (fold (\<lambda>(j, e). on_segment key PT_LOAD (segment_append (Expr j e) expression_chunk)) exprs
                  (t\<lparr>tl_sema := s\<rparr>)) })"

definition load_flags :: "layout_env \<Rightarrow> u64 \<Rightarrow> u64" where
  "load_flags env lookup =
     (if le_magic env \<in> {NMAGIC, OMAGIC} then SHF_EXECINSTR OR SHF_ALLOC OR SHF_WRITE else lookup)"

text \<open>The body of the loop over the sections \<open>i\<close> of the output section \<open>k\<close>.\<close>

definition segment_step :: "layout_env \<Rightarrow> nat \<Rightarrow> nat \<Rightarrow> target_layout \<Rightarrow> target_layout option" where
  "segment_step env k i t =
     (let x = tl_objects t i; os = tl_outputs t ! k in
      if \<not> hasOutputSegment x then Some t
      else
        let ty = getSegmentType (sec_order (ls_elf x));
            x = x\<lparr>ls_segment := ty\<rparr>;
            t = t\<lparr>tl_objects := (tl_objects t)(i := x),
                    tl_outputs := (tl_outputs t)[k := os\<lparr>oo_loadable := ls_loadable x, oo_hasSegment := True\<rparr>]\<rparr>;
            lookup = getLookupSectionFlags env (Atom_Section.os_flags (oo_data os));
            c = chunk_of t x;
            t = (if ty \<noteq> PT_LOAD then on_segment (Additional ty lookup) ty (segment_append (Sect i) c) t else t);
            key = Load (load_flags env lookup)
        in if ty = PT_NULL then Some t
           else do { t \<leftarrow> addExtraChunksToSegment key (key_of x) (on_segment key PT_LOAD id t);
                     Some (on_segment key PT_LOAD (segment_append (Sect i) c) t) })"

fun segment_steps :: "layout_env \<Rightarrow> (nat \<times> nat) list \<Rightarrow> target_layout \<Rightarrow> target_layout option" where
  "segment_steps env [] t = Some t"
| "segment_steps env ((k, i) # ps) t = do { t \<leftarrow> segment_step env k i t; segment_steps env ps t }"

text \<open>The sections of all output sections, each with the place of its output section.\<close>

definition members :: "out_section list \<Rightarrow> (nat \<times> nat) list" where
  "members outs = concat (map (\<lambda>(k, os). map (Pair k) (oo_ids os)) (enumerate 0 outs))"

definition add_header_segment :: "layout_env \<Rightarrow> target_layout \<Rightarrow> target_layout" where
  "add_header_segment env t =
     (if isDynamicExecutable env
      then t\<lparr>tl_segments := tl_segments t @
        [(Headers, \<lparr>sg_type = PT_PHDR, sg_flags = SHF_ALLOC OR SHF_EXECINSTR, sg_perms = perm_None, sg_align = 8,
           sg_chunks = [Elf_header, Program_header]\<rparr>)]\<rparr>
      else t)"

definition assignSectionsToSegments :: "layout_env \<Rightarrow> target_layout \<Rightarrow> target_layout option" where
  "assignSectionsToSegments env t =
     do { t \<leftarrow> sortInputSections t;
          t \<leftarrow> createOutputSections t;
          let t = setOrdinals t;
          t \<leftarrow> segment_steps env (members (tl_outputs t)) t;
          Some (add_header_segment env t) }"

end
