(* ===== verification/Segment_Assignment.thy ===== *)
theory Segment_Assignment
  imports Target_Layout
begin

text \<open>
  What the layout of Target_Layout does with the sections: sorting permutes them, the output sections divide them by name,
  and each goes once into a loadable segment and once into the segment of its own type.
\<close>

section \<open>Sorting permutes\<close>

lemma insert_stable_mset:
  "insert_stable lt x ys s = Some (zs, t) \<Longrightarrow> mset zs = add_mset x (mset ys)"
proof (induction ys arbitrary: s zs t)
  case (Cons y ys)
  from Cons.prems obtain b u where "lt y x s = Some (b, u)"
    and "if b then \<exists>ws. insert_stable lt x ys u = Some (ws, t) \<and> zs = y # ws else zs = x # y # ys"
    by (auto split: Option.bind_splits if_splits)
  then show ?case using Cons.IH by (cases b) auto
qed simp

lemma stable_sort_mset: "stable_sort lt xs s = Some (zs, t) \<Longrightarrow> mset zs = mset xs"
proof (induction xs arbitrary: s zs t)
  case (Cons x xs)
  from Cons.prems obtain ys u where "stable_sort lt xs s = Some (ys, u)" "insert_stable lt x ys u = Some (zs, t)"
    by (auto split: Option.bind_splits)
  then show ?case using Cons.IH insert_stable_mset [of lt x ys u zs t] by simp
qed simp

lemma move_near_mset: "mset (move_near content i ds) = add_mset i (mset ds)"
proof -
  let ?rest = "rev (takeWhile (\<lambda>j. content j \<noteq> content i) (rev ds))"
  have "\<exists>us. ds = us @ ?rest"
    by (metis rev_append rev_rev_ident takeWhile_dropWhile_id)
  then obtain us where us: "ds = us @ ?rest" by blast
  then have "take (length ds - length ?rest) ds = us"
    by (metis append_eq_conv_conj diff_add_inverse2 length_append)
  with us have "mset (take (length ds - length ?rest) ds) + mset ?rest = mset ds"
    by (metis mset_append)
  then show ?thesis by (simp add: move_near_def Let_def)
qed

lemma fold_move_near_mset: "mset (fold (move_near content) is ds) = mset is + mset ds"
  by (induction "is" arbitrary: ds) (simp_all add: move_near_mset)

lemma sortInputSections_permutes:
  assumes "sortInputSections t = Some t'"
  shows "mset (tl_sections t') = mset (tl_sections t) \<and> tl_objects t' = tl_objects t \<and> tl_outputs t' = tl_outputs t \<and>
    tl_segments t' = tl_segments t"
proof (cases "hasLayoutCommands (tl_sema t)")
  case False
  with assms show ?thesis by (auto simp: sortInputSections_def)
next
  case True
  let ?o = "sort_key (\<lambda>i. sec_order (ls_elf (tl_objects t i))) (tl_sections t)"
  from assms True obtain so s p u where
    st: "stable_sort (\<lambda>i j. script_less (tl_objects t i) (tl_objects t j)) ?o (tl_sema t) = Some (so, s)"
    and t': "t' = t\<lparr>tl_sema := u, tl_sections := (if p = 0 then so
      else fold (move_near (\<lambda>i. content_of (tl_objects t i))) (drop p so) (take p so))\<rparr>"
    by (auto simp: sortInputSections_def Let_def split: Option.bind_splits)
  have "mset so = mset (tl_sections t)"
    using stable_sort_mset [OF st] by simp
  moreover have "mset (drop p so) + mset (take p so) = mset so"
    by (metis add.commute append_take_drop_id mset_append)
  ultimately show ?thesis using t' by (simp add: fold_move_near_mset)
qed

section \<open>Output sections\<close>

text \<open>What making output sections leaves of an object.\<close>

definition same_object :: "lsection \<Rightarrow> lsection \<Rightarrow> bool" where
  "same_object x y \<longleftrightarrow> ls_kind y = ls_kind x \<and> ls_elf y = ls_elf x \<and> ls_output y = ls_output x \<and>
    ls_hasSegment y = ls_hasSegment x \<and> key_of y = key_of x"

definition same_objects :: "target_layout \<Rightarrow> target_layout \<Rightarrow> bool" where
  "same_objects t u \<longleftrightarrow> (\<forall>i. same_object (tl_objects t i) (tl_objects u i)) \<and> tl_sections u = tl_sections t"

lemma same_objects_refl [simp]: "same_objects t t"
  by (simp add: same_objects_def same_object_def)

lemma same_objects_trans: "same_objects t u \<Longrightarrow> same_objects u v \<Longrightarrow> same_objects t v"
  by (simp add: same_objects_def same_object_def)

definition in_output :: "target_layout \<Rightarrow> nat \<Rightarrow> bool" where
  "in_output t i \<longleftrightarrow> ls_kind (tl_objects t i) \<noteq> K_Chunk"

definition outputs_hold :: "target_layout \<Rightarrow> nat list \<Rightarrow> out_section list \<Rightarrow> bool" where
  "outputs_hold t is outs \<longleftrightarrow>
    distinct (map oo_name outs) \<and>
    set (map oo_name outs) = (\<lambda>i. ls_output (tl_objects t i)) ` set (filter (in_output t) is) \<and>
    (\<forall>os \<in> set outs. oo_ids os = filter (\<lambda>i. in_output t i \<and> ls_output (tl_objects t i) = oo_name os) is)"

lemma find_output_Some:
  assumes "find_output name outs = Some k"
  shows "k < length outs \<and> oo_name (outs ! k) = name"
proof -
  have "\<exists>os \<in> set outs. oo_name os = name" and k: "k = length (takeWhile (\<lambda>os. oo_name os \<noteq> name) outs)"
    using assms by (auto simp: find_output_def split: if_splits)
  then have "k < length outs" unfolding k by (induction outs) auto
  with k show ?thesis using nth_length_takeWhile [of "\<lambda>os. oo_name os \<noteq> name" outs] by auto
qed

lemma find_output_None: "find_output name outs = None \<longleftrightarrow> name \<notin> oo_name ` set outs"
  by (auto simp: find_output_def)

lemma append_to_same:
  assumes "append_to k i t = Some u"
  shows "same_objects t u \<and> tl_segments u = tl_segments t \<and> tl_sema u = tl_sema t \<and>
    (\<exists>d. tl_outputs u = (tl_outputs t)[k := (tl_outputs t ! k)\<lparr>oo_data := d, oo_ids := oo_ids (tl_outputs t ! k) @ [i]\<rparr>])"
  using assms
  by (auto simp: append_to_def Let_def same_objects_def same_object_def key_of_def split: Option.bind_splits if_splits)

text \<open>What appending a section means for the lists of the output sections.\<close>

abbreviation of_name :: "target_layout \<Rightarrow> string \<Rightarrow> nat list \<Rightarrow> nat list" where
  "of_name t name is \<equiv> filter (\<lambda>j. in_output t j \<and> ls_output (tl_objects t j) = name) is"

lemma outputs_holdI:
  assumes "distinct (map oo_name outs)"
    and "set (map oo_name outs) = (\<lambda>i. ls_output (tl_objects t i)) ` set (filter (in_output t) is)"
    and "\<And>m. m < length outs \<Longrightarrow> oo_ids (outs ! m) = of_name t (oo_name (outs ! m)) is"
  shows "outputs_hold t is outs"
  using assms by (auto simp: outputs_hold_def in_set_conv_nth)

lemma outputs_holdD:
  assumes "outputs_hold t is outs"
  shows "distinct (map oo_name outs)"
    and "set (map oo_name outs) = (\<lambda>i. ls_output (tl_objects t i)) ` set (filter (in_output t) is)"
    and "m < length outs \<Longrightarrow> oo_ids (outs ! m) = of_name t (oo_name (outs ! m)) is"
  using assms by (auto simp: outputs_hold_def)

lemma output_step_holds:
  assumes "output_step i t = Some u" "outputs_hold t is (tl_outputs t)"
  shows "same_objects t u \<and> tl_segments u = tl_segments t \<and> outputs_hold t (is @ [i]) (tl_outputs u)"
proof (cases "ls_kind (tl_objects t i) = K_Chunk")
  case True
  with assms show ?thesis by (simp add: output_step_def outputs_hold_def in_output_def)
next
  case False
  let ?n = "ls_output (tl_objects t i)" and ?os = "tl_outputs t"
  have i: "in_output t i" using False by (simp add: in_output_def)
  note h = outputs_holdD [OF assms(2)]
  show ?thesis
  proof (cases "find_output ?n ?os")
    case (Some k)
    with assms(1) False have a: "append_to k i t = Some u" by (simp add: output_step_def)
    note k = find_output_Some [OF Some]
    obtain d where o: "tl_outputs u = ?os[k := (?os ! k)\<lparr>oo_data := d, oo_ids := oo_ids (?os ! k) @ [i]\<rparr>]"
      and s: "same_objects t u" "tl_segments u = tl_segments t"
      using append_to_same [OF a] by blast
    have names: "map oo_name (tl_outputs u) = map oo_name ?os"
      using k unfolding o by (intro nth_equalityI) (simp_all add: nth_list_update)
    have "outputs_hold t (is @ [i]) (tl_outputs u)"
    proof (rule outputs_holdI)
      show "distinct (map oo_name (tl_outputs u))" using h(1) names by simp
      have "?n \<in> set (map oo_name ?os)" using k nth_mem [of k ?os] by (metis image_eqI list.set_map)
      then show "set (map oo_name (tl_outputs u)) = (\<lambda>i. ls_output (tl_objects t i)) ` set (filter (in_output t) (is @ [i]))"
        using h(2) i unfolding names by auto
      fix m assume "m < length (tl_outputs u)"
      then have m: "m < length ?os" by (simp add: o)
      have "m \<noteq> k \<Longrightarrow> oo_name (?os ! m) \<noteq> ?n"
        using h(1) k m nth_eq_iff_index_eq [of "map oo_name ?os" m k] by auto
      with m k i h(3) [OF m] show "oo_ids (tl_outputs u ! m) = of_name t (oo_name (tl_outputs u ! m)) (is @ [i])"
        unfolding o by (cases "m = k") simp_all
    qed
    with s show ?thesis by simp
  next
    case None
    let ?t = "\<lambda>s. t\<lparr>tl_sema := s, tl_outputs := ?os @ [new_out ?n]\<rparr>"
    from None assms(1) False obtain s where a: "append_to (length ?os) i (?t s) = Some u"
      by (auto simp: output_step_def Let_def split: Option.bind_splits)
    obtain d where o: "tl_outputs u = ?os @ [(new_out ?n)\<lparr>oo_data := d, oo_ids := [i]\<rparr>]"
      and s: "same_objects (?t s) u" "tl_segments u = tl_segments t"
      using append_to_same [OF a] by (auto simp: new_out_def)
    have fresh: "?n \<notin> set (map oo_name ?os)" using None by (simp add: find_output_None)
    then have "?n \<notin> (\<lambda>i. ls_output (tl_objects t i)) ` set (filter (in_output t) is)" using h(2) by simp
    then have none: "of_name t ?n is = []" by (auto simp: filter_empty_conv image_iff)
    have "outputs_hold t (is @ [i]) (tl_outputs u)"
    proof (rule outputs_holdI)
      show "distinct (map oo_name (tl_outputs u))" using h(1) fresh by (simp add: o new_out_def)
      show "set (map oo_name (tl_outputs u)) = (\<lambda>i. ls_output (tl_objects t i)) ` set (filter (in_output t) (is @ [i]))"
        using h(2) i by (simp add: o new_out_def)
      fix m assume m: "m < length (tl_outputs u)"
      show "oo_ids (tl_outputs u ! m) = of_name t (oo_name (tl_outputs u ! m)) (is @ [i])"
      proof (cases "m < length ?os")
        case True
        then have "oo_name (?os ! m) \<noteq> ?n" using fresh by (metis image_eqI list.set_map nth_mem)
        with True h(3) show ?thesis by (simp add: o nth_append)
      next
        case False
        with m have "m = length ?os" by (simp add: o)
        with none i show ?thesis by (simp add: o nth_append new_out_def)
      qed
    qed
    with s show ?thesis by (simp add: same_objects_def)
  qed
qed

lemma outputs_hold_cong: "same_objects t u \<Longrightarrow> outputs_hold u is outs = outputs_hold t is outs"
  by (simp add: outputs_hold_def in_output_def same_objects_def same_object_def)

lemma createOutputs_hold:
  assumes "createOutputs js t = Some u" "outputs_hold t is (tl_outputs t)"
  shows "same_objects t u \<and> tl_segments u = tl_segments t \<and> outputs_hold t (is @ js) (tl_outputs u)"
  using assms
proof (induction js t arbitrary: "is" rule: createOutputs.induct)
  case (2 j js t)
  then obtain v where v: "output_step j t = Some v" "createOutputs js v = Some u"
    by (auto split: Option.bind_splits)
  note s = output_step_holds [OF v(1) 2(3)]
  then have c: "outputs_hold v js' outs = outputs_hold t js' outs" for js' outs by (simp add: outputs_hold_cong)
  with s have "outputs_hold v (is @ [j]) (tl_outputs v)" by blast
  from 2(1) [OF v(1) v(2) this] s c show ?case
    by (auto intro: same_objects_trans)
qed simp


text \<open>C15: The output sections divide the sections by name. Their names differ, none is empty, each holds the
  sections of its name in the order of the layout, and every section is in one.\<close>

theorem output_sections_partition:
  assumes "createOutputSections t = Some u" "tl_outputs t = []"
  shows "distinct (map oo_name (tl_outputs u)) \<and>
    (\<forall>os \<in> set (tl_outputs u). oo_ids os \<noteq> [] \<and> oo_ids os =
      filter (\<lambda>i. ls_kind (tl_objects t i) \<noteq> K_Chunk \<and> ls_output (tl_objects t i) = oo_name os) (tl_sections t)) \<and>
    (\<forall>i \<in> set (tl_sections t). ls_kind (tl_objects t i) \<noteq> K_Chunk \<longrightarrow> (\<exists>os \<in> set (tl_outputs u). i \<in> set (oo_ids os)))"
proof -
  have "outputs_hold t [] (tl_outputs t)" using assms(2) by (simp add: outputs_hold_def)
  with assms(1) have h: "outputs_hold t (tl_sections t) (tl_outputs u)"
    using createOutputs_hold [of "tl_sections t" t u "[]"] by (simp add: createOutputSections_def)
  then have ids: "oo_ids os = of_name t (oo_name os) (tl_sections t)" if "os \<in> set (tl_outputs u)" for os
    using that by (simp add: outputs_hold_def)
  moreover have names: "oo_name ` set (tl_outputs u) = (\<lambda>i. ls_output (tl_objects t i)) ` set (filter (in_output t) (tl_sections t))"
    using outputs_holdD(2) [OF h] by simp
  moreover have "of_name t (oo_name os) (tl_sections t) \<noteq> []" if "os \<in> set (tl_outputs u)" for os
  proof -
    from that have "oo_name os \<in> (\<lambda>i. ls_output (tl_objects t i)) ` set (filter (in_output t) (tl_sections t))"
      unfolding names [symmetric] by simp
    then obtain i where "i \<in> set (tl_sections t)" "in_output t i" "ls_output (tl_objects t i) = oo_name os"
      by auto
    then show ?thesis by (auto simp: filter_empty_conv)
  qed
  moreover have "\<exists>os \<in> set (tl_outputs u). i \<in> set (oo_ids os)" if "i \<in> set (tl_sections t)" "in_output t i" for i
  proof -
    from that have "ls_output (tl_objects t i) \<in> oo_name ` set (tl_outputs u)" unfolding names by simp
    with ids that show ?thesis by auto
  qed
  ultimately show ?thesis using outputs_holdD(1) [OF h] by (auto simp: in_output_def)
qed

section \<open>Segments\<close>

definition key_type :: "seg_key \<Rightarrow> segment_type" where
  "key_type k = (case k of Additional ty _ \<Rightarrow> ty | Load _ \<Rightarrow> PT_LOAD | Headers \<Rightarrow> PT_PHDR)"

definition segs_ok :: "(seg_key \<times> 'c segment) list \<Rightarrow> bool" where
  "segs_ok segs \<longleftrightarrow> distinct (map fst segs) \<and> (\<forall>(k, s) \<in> set segs. sg_type s = key_type k)"

definition in_segments :: "target_layout \<Rightarrow> segment_type \<Rightarrow> chunk_ref multiset" where
  "in_segments t ty = (\<Sum>p \<leftarrow> tl_segments t. if sg_type (snd p) = ty then mset (sg_chunks (snd p)) else {#})"

lemma segment_append_simps [simp]:
  "sg_type (segment_append h c s) = sg_type s" "sg_chunks (segment_append h c s) = sg_chunks s @ [h]"
  by (simp_all add: segment_append_def Let_def)

lemma on_segment_simps [simp]:
  "tl_objects (on_segment key ty f t) = tl_objects t" "tl_outputs (on_segment key ty f t) = tl_outputs t"
  "tl_sections (on_segment key ty f t) = tl_sections t" "tl_sema (on_segment key ty f t) = tl_sema t"
  by (simp_all add: on_segment_def Let_def)

lemma update_sum:
  assumes "distinct (map fst segs)" "key \<in> fst ` set segs"
    and "\<And>s. (key, s) \<in> set segs \<Longrightarrow> g (f s) = g s + (M :: 'a multiset)"
  shows "(\<Sum>p \<leftarrow> map (\<lambda>(k, s). (k, if k = key then f s else s)) segs. g (snd p)) = (\<Sum>p \<leftarrow> segs. g (snd p)) + M"
  using assms
proof (induction segs)
  case (Cons p segs)
  obtain k s where p: "p = (k, s)" by (cases p)
  show ?case
  proof (cases "k = key")
    case True
    with Cons.prems(1) p have "map (\<lambda>(k, s). (k, if k = key then f s else s)) segs = segs"
      by (intro map_idI) force
    with True p Cons.prems(3) show ?thesis by (simp add: ac_simps)
  next
    case False
    with Cons p show ?thesis by (simp add: ac_simps)
  qed
qed simp

lemma on_segment_ok:
  assumes "segs_ok (tl_segments t)" "key_type key = ty" "\<And>s. sg_type (f s) = sg_type s"
  shows "segs_ok (tl_segments (on_segment key ty f t))"
  using assms by (force simp: on_segment_def segs_ok_def new_segment_def Let_def comp_def split_beta)

lemma on_segment_chunks:
  assumes "segs_ok (tl_segments t)" "key_type key = ty" "\<And>s. sg_type (f s) = sg_type s"
    and "\<And>s. mset (sg_chunks (f s)) = mset (sg_chunks s) + M"
  shows "in_segments (on_segment key ty f t) ty' = in_segments t ty' + (if ty' = ty then M else {#})"
proof -
  let ?g = "\<lambda>s. if sg_type s = ty' then mset (sg_chunks s) else {#}"
  let ?segs = "if \<exists>p \<in> set (tl_segments t). fst p = key then tl_segments t else tl_segments t @ [(key, new_segment ty)]"
  have ok: "segs_ok ?segs" using assms(1,2) by (force simp: segs_ok_def new_segment_def)
  have "(\<Sum>p \<leftarrow> map (\<lambda>(k, s). (k, if k = key then f s else s)) ?segs. ?g (snd p)) =
      (\<Sum>p \<leftarrow> ?segs. ?g (snd p)) + (if ty' = ty then M else {#})"
  proof (rule update_sum)
    show "distinct (map fst ?segs)" using ok by (simp add: segs_ok_def)
    show "key \<in> fst ` set ?segs" by auto
    fix s assume "(key, s) \<in> set ?segs"
    then have "sg_type s = ty" using ok assms(2) by (force simp: segs_ok_def)
    then show "?g (f s) = ?g s + (if ty' = ty then M else {#})" using assms(3,4) by simp
  qed
  moreover have "(\<Sum>p \<leftarrow> ?segs. ?g (snd p)) = in_segments t ty'"
    by (simp add: in_segments_def new_segment_def)
  ultimately show ?thesis by (simp add: in_segments_def on_segment_def Let_def)
qed

text \<open>Whether a section goes into a segment of a type.\<close>

definition belongs :: "lsection \<Rightarrow> segment_type \<Rightarrow> bool" where
  "belongs x ty \<longleftrightarrow> hasOutputSegment x \<and>
     (let own = getSegmentType (sec_order (ls_elf x)) in if ty = PT_LOAD then own \<noteq> PT_NULL else own = ty)"

lemma belongs_cong: "same_object x y \<Longrightarrow> belongs y ty = belongs x ty"
  by (simp add: belongs_def same_object_def hasOutputSegment_def)

definition sections_of :: "target_layout \<Rightarrow> nat multiset" where
  "sections_of t = (\<Sum>os \<leftarrow> tl_outputs t. mset (oo_ids os))"

lemma sum_add_at: "k < length ms \<Longrightarrow> sum_list (ms[k := add_mset i (ms ! k)]) = add_mset i (sum_list ms)"
  by (induction ms arbitrary: k) (auto split: nat.split)

lemma append_to_sections:
  assumes "append_to k i t = Some u" "k < length (tl_outputs t)"
  shows "sections_of u = add_mset i (sections_of t)"
proof -
  obtain d where o: "tl_outputs u = (tl_outputs t)[k := (tl_outputs t ! k)\<lparr>oo_data := d, oo_ids := oo_ids (tl_outputs t ! k) @ [i]\<rparr>]"
    using append_to_same [OF assms(1)] by blast
  show ?thesis
    using assms(2) sum_add_at [of k "map (\<lambda>os. mset (oo_ids os)) (tl_outputs t)" i] by (simp add: sections_of_def o map_update)
qed

lemma output_step_sections:
  assumes "output_step i t = Some u"
  shows "same_objects t u \<and> tl_segments u = tl_segments t \<and> sections_of u = sections_of t + (if in_output t i then {#i#} else {#})"
proof (cases "find_output (ls_output (tl_objects t i)) (tl_outputs t)")
  case (Some k)
  then show ?thesis
    using assms find_output_Some [OF Some] append_to_same [of k i t u] append_to_sections [of k i t u]
    by (auto simp: output_step_def in_output_def Let_def split: if_splits)
next
  case None
  show ?thesis
  proof (cases "in_output t i")
    case True
    let ?t = "\<lambda>s. t\<lparr>tl_sema := s, tl_outputs := tl_outputs t @ [new_out (ls_output (tl_objects t i))]\<rparr>"
    from None True assms obtain s where a: "append_to (length (tl_outputs t)) i (?t s) = Some u"
      by (auto simp: output_step_def in_output_def Let_def split: Option.bind_splits)
    have "sections_of (?t s) = sections_of t" by (simp add: sections_of_def new_out_def)
    with append_to_same [OF a] append_to_sections [OF a] True show ?thesis
      by (simp add: same_objects_def)
  next
    case False
    with assms show ?thesis by (simp add: output_step_def in_output_def)
  qed
qed

lemma createOutputs_sections:
  "createOutputs js t = Some u \<Longrightarrow> same_objects t u \<and> tl_segments u = tl_segments t \<and>
    sections_of u = sections_of t + filter_mset (in_output t) (mset js)"
proof (induction js arbitrary: t)
  case (Cons j js)
  then obtain v where v: "output_step j t = Some v" "createOutputs js v = Some u"
    by (auto split: Option.bind_splits)
  note s = output_step_sections [OF v(1)]
  then have "in_output v = in_output t"
    by (simp add: in_output_def [abs_def] same_objects_def same_object_def)
  with Cons.IH [OF v(2)] s show ?case by (auto intro: same_objects_trans)
qed simp

lemma setOrdinals_same:
  "same_objects t (setOrdinals t) \<and> tl_segments (setOrdinals t) = tl_segments t \<and> sections_of (setOrdinals t) = sections_of t"
proof -
  let ?step = "\<lambda>k t. let os = tl_outputs t ! k in
       t\<lparr>tl_outputs := (tl_outputs t)[k := os\<lparr>oo_ordinal := k + 1\<rparr>],
          tl_objects := (\<lambda>i. if i \<in> set (oo_ids os) then (tl_objects t i)\<lparr>ls_ordinal := k + 1\<rparr> else tl_objects t i)\<rparr>"
  have "same_objects t (fold ?step ks t) \<and> tl_segments (fold ?step ks t) = tl_segments t \<and>
      map oo_ids (tl_outputs (fold ?step ks t)) = map oo_ids (tl_outputs t)" for ks
  proof (induction ks arbitrary: t)
    case (Cons k ks)
    have "same_objects t (?step k t)"
      by (simp add: Let_def same_objects_def same_object_def key_of_def)
    moreover have "map oo_ids (tl_outputs (?step k t)) = map oo_ids (tl_outputs t)"
      by (cases "k < length (tl_outputs t)") (simp_all add: Let_def map_update list_update_same_conv list_update_beyond not_less)
    moreover have "tl_segments (?step k t) = tl_segments t" by (simp add: Let_def)
    ultimately show ?case using Cons.IH [of "?step k t"] by (auto simp del: Let_def intro: same_objects_trans)
  qed simp
  moreover have "sections_of v = sum_list (map mset (map oo_ids (tl_outputs v)))" for v
    by (simp add: sections_of_def comp_def)
  ultimately show ?thesis by (simp only: setOrdinals_def)
qed

lemma members_sections: "mset (map snd (members outs)) = (\<Sum>os \<leftarrow> outs. mset (oo_ids os))"
proof -
  have "mset (map snd (concat (map (\<lambda>(k, os). map (Pair k) (oo_ids os)) (enumerate n outs)))) = (\<Sum>os \<leftarrow> outs. mset (oo_ids os))" for n
    by (induction outs arbitrary: n) (simp_all add: comp_def)
  then show ?thesis by (simp add: members_def)
qed

section \<open>Every section is in its segments\<close>

lemma add_expressions:
  assumes "segs_ok (tl_segments t)"
  shows "segs_ok (tl_segments (fold (\<lambda>(j, e). on_segment (Load f) PT_LOAD (segment_append (Expr j e) c)) es t)) \<and>
    tl_objects (fold (\<lambda>(j, e). on_segment (Load f) PT_LOAD (segment_append (Expr j e) c)) es t) = tl_objects t \<and>
    count (in_segments (fold (\<lambda>(j, e). on_segment (Load f) PT_LOAD (segment_append (Expr j e) c)) es t) ty) (Sect i) =
      count (in_segments t ty) (Sect i)"
  using assms
proof (induction es arbitrary: t)
  case (Cons e es)
  obtain j a where e: "e = (j, a)" by (cases e)
  let ?t = "on_segment (Load f) PT_LOAD (segment_append (Expr j a) c) t"
  have k: "key_type (Load f) = PT_LOAD" by (simp add: key_type_def)
  have "segs_ok (tl_segments ?t)" using Cons.prems k by (rule on_segment_ok) simp
  moreover have "in_segments ?t ty = in_segments t ty + (if ty = PT_LOAD then {#Expr j a#} else {#})"
    using Cons.prems k by (rule on_segment_chunks) simp_all
  ultimately show ?case using Cons.IH [of ?t] e by simp
qed simp

lemma segment_step_counts:
  assumes "segment_step env k i t = Some u" "segs_ok (tl_segments t)"
  shows "segs_ok (tl_segments u) \<and> (\<forall>j. same_object (tl_objects t j) (tl_objects u j)) \<and>
    count (in_segments u ty) (Sect j) =
      count (in_segments t ty) (Sect j) + (if j = i \<and> belongs (tl_objects t i) ty then 1 else 0)"
proof (cases "hasOutputSegment (tl_objects t i)")
  case False
  with assms show ?thesis by (simp add: segment_step_def Let_def belongs_def same_object_def)
next
  case True
  define x where "x = tl_objects t i"
  define own where "own = getSegmentType (sec_order (ls_elf x))"
  define y where "y = x\<lparr>ls_segment := own\<rparr>"
  define t1 where "t1 = t\<lparr>tl_objects := (tl_objects t)(i := y),
      tl_outputs := (tl_outputs t)[k := (tl_outputs t ! k)\<lparr>oo_loadable := ls_loadable y, oo_hasSegment := True\<rparr>]\<rparr>"
  define lookup where "lookup = getLookupSectionFlags env (Atom_Section.os_flags (oo_data (tl_outputs t ! k)))"
  define c where "c = chunk_of t1 y"
  define t2 where "t2 = (if own \<noteq> PT_LOAD then on_segment (Additional own lookup) own (segment_append (Sect i) c) t1 else t1)"
  define key where "key = Load (load_flags env lookup)"
  define t3 where "t3 = on_segment key PT_LOAD id t2"
  have u: "if own = PT_NULL then u = t2
      else \<exists>v. addExtraChunksToSegment key (key_of y) t3 = Some v \<and> u = on_segment key PT_LOAD (segment_append (Sect i) c) v"
    using assms(1) True
    unfolding segment_step_def Let_def key_def t3_def t2_def c_def lookup_def t1_def y_def own_def x_def
    by (auto split: Option.bind_splits if_splits)
  have objs: "\<forall>j. same_object (tl_objects t j) (tl_objects t1 j)"
    by (simp add: t1_def y_def x_def same_object_def key_of_def)
  have s1: "segs_ok (tl_segments t1)" "in_segments t1 ty = in_segments t ty"
    using assms(2) by (simp_all add: t1_def in_segments_def)
  have ka: "key_type (Additional own lookup) = own" and kl: "key_type key = PT_LOAD"
    by (simp_all add: key_type_def key_def)
  have s2: "segs_ok (tl_segments t2)"
    using s1(1) on_segment_ok [OF s1(1) ka] by (simp add: t2_def)
  have i2: "in_segments t2 ty = in_segments t ty + (if ty = own \<and> own \<noteq> PT_LOAD then {#Sect i#} else {#})"
    using s1 on_segment_chunks [OF s1(1) ka, of "segment_append (Sect i) c" "{#Sect i#}" ty] by (auto simp: t2_def)
  have o2: "tl_objects t2 = tl_objects t1" by (simp add: t2_def)
  have b: "belongs x ty \<longleftrightarrow> (if ty = PT_LOAD then own \<noteq> PT_NULL else own = ty)"
    using True by (simp add: belongs_def own_def x_def Let_def)
  show ?thesis
  proof (cases "own = PT_NULL")
    case True
    then have "u = t2" using u by simp
    moreover have "PT_NULL \<noteq> PT_LOAD" by (simp add: segment_numbers)
    ultimately show ?thesis using s2 i2 o2 objs b True by (auto simp: x_def)
  next
    case False
    then obtain v where v: "addExtraChunksToSegment key (key_of y) t3 = Some v"
      and u: "u = on_segment key PT_LOAD (segment_append (Sect i) c) v" using u by auto
    have s3: "segs_ok (tl_segments t3)" unfolding t3_def using s2 kl by (rule on_segment_ok) simp
    have i3: "in_segments t3 ty = in_segments t2 ty"
      using on_segment_chunks [OF s2 kl, of id "{#}" ty] by (simp add: t3_def)
    have v3: "segs_ok (tl_segments v) \<and> tl_objects v = tl_objects t3 \<and>
        count (in_segments v ty) (Sect j) = count (in_segments t3 ty) (Sect j)"
    proof (cases "hasLayoutCommands (tl_sema t3)")
      case True
      with v obtain es s where "v = fold (\<lambda>(j, e). on_segment key PT_LOAD (segment_append (Expr j e) expression_chunk)) es
          (t3\<lparr>tl_sema := s\<rparr>)"
        by (auto simp: addExtraChunksToSegment_def split: Option.bind_splits)
      with s3 show ?thesis
        using add_expressions [of "t3\<lparr>tl_sema := s\<rparr>" "load_flags env lookup" expression_chunk es ty j]
        by (simp add: key_def in_segments_def)
    qed (use v s3 in \<open>simp add: addExtraChunksToSegment_def\<close>)
    have "segs_ok (tl_segments u)" unfolding u using v3 kl by (intro on_segment_ok) simp_all
    moreover have "in_segments u ty = in_segments v ty + (if ty = PT_LOAD then {#Sect i#} else {#})"
      unfolding u using v3 kl by (intro on_segment_chunks) simp_all
    moreover have "tl_objects u = tl_objects t1" using v3 o2 by (simp add: u t3_def)
    ultimately show ?thesis using v3 i2 i3 objs b False by (auto simp: x_def)
  qed
qed

lemma segment_steps_counts:
  assumes "segment_steps env ps t = Some u" "segs_ok (tl_segments t)"
  shows "segs_ok (tl_segments u) \<and> count (in_segments u ty) (Sect j) =
    count (in_segments t ty) (Sect j) + (if belongs (tl_objects t j) ty then count (mset (map snd ps)) j else 0)"
  using assms
proof (induction ps arbitrary: t)
  case (Cons p ps)
  obtain k i where p: "p = (k, i)" by (cases p)
  from Cons.prems p obtain v where v: "segment_step env k i t = Some v" "segment_steps env ps v = Some u"
    by (auto split: Option.bind_splits)
  note s = segment_step_counts [OF v(1) Cons.prems(2), of ty j]
  have "belongs (tl_objects v j) ty = belongs (tl_objects t j) ty" using s belongs_cong by blast
  with Cons.IH [OF v(2)] s p show ?case by auto
qed simp

text \<open>C14: Every section ends up where it belongs. After sorting, joining and distributing, a section with an
  output segment is in a loadable segment exactly once, unless its type is PT_NULL, and in a segment of its own type
  exactly once; a section without one is in none.\<close>

theorem sections_in_segments:
  assumes "assignSectionsToSegments env t = Some u" "tl_outputs t = []" "tl_segments t = []"
    and "distinct (tl_sections t)" "i \<in> set (tl_sections t)" "ls_kind (tl_objects t i) \<noteq> K_Chunk"
  shows "count (in_segments u PT_LOAD) (Sect i) =
      (if hasOutputSegment (tl_objects t i) \<and> getSegmentType (sec_order (ls_elf (tl_objects t i))) \<noteq> PT_NULL then 1 else 0) \<and>
    (\<forall>ty. ty \<noteq> PT_LOAD \<longrightarrow> count (in_segments u ty) (Sect i) =
      (if hasOutputSegment (tl_objects t i) \<and> getSegmentType (sec_order (ls_elf (tl_objects t i))) = ty then 1 else 0))"
proof -
  from assms(1) obtain v w z where v: "sortInputSections t = Some v" and w: "createOutputSections v = Some w"
    and z: "segment_steps env (members (tl_outputs (setOrdinals w))) (setOrdinals w) = Some z"
    and u: "u = add_header_segment env z"
    by (auto simp: assignSectionsToSegments_def Let_def split: Option.bind_splits)
  note sv = sortInputSections_permutes [OF v]
  have sw: "same_objects v w \<and> tl_segments w = tl_segments v \<and>
      sections_of w = sections_of v + filter_mset (in_output v) (mset (tl_sections v))"
    using createOutputs_sections w by (simp add: createOutputSections_def)
  note so = setOrdinals_same [of w]
  have tv: "same_object (tl_objects t i) (tl_objects v i)" using sv by (simp add: same_object_def)
  have vo: "same_object (tl_objects v i) (tl_objects (setOrdinals w) i)"
    using sw so same_objects_trans by (meson same_objects_def)
  have b: "belongs (tl_objects (setOrdinals w) i) ty = belongs (tl_objects t i) ty" for ty
    using belongs_cong [OF tv] belongs_cong [OF vo] by simp
  have "count (mset (tl_sections t)) i = 1"
    using assms(4,5) by (simp add: distinct_count_atmost_1)
  then have c: "count (sections_of (setOrdinals w)) i = 1"
    using so sw sv assms(2,6) by (simp add: sections_of_def in_output_def)
  have z0: "segs_ok (tl_segments (setOrdinals w))" "in_segments (setOrdinals w) ty = {#}" for ty
    using so sw sv assms(3) by (simp_all add: segs_ok_def in_segments_def)
  have "count (in_segments z ty) (Sect i) = (if belongs (tl_objects t i) ty then 1 else 0)" for ty
    using segment_steps_counts [OF z z0(1), of ty i] z0(2) c b members_sections by (simp add: sections_of_def)
  moreover have "count (in_segments u ty) (Sect i) = count (in_segments z ty) (Sect i)" for ty
    by (simp add: u add_header_segment_def in_segments_def)
  ultimately show ?thesis by (simp add: belongs_def Let_def)
qed

section \<open>A small layout\<close>

definition plain_section :: "string \<Rightarrow> section_order \<Rightarrow> u64 \<Rightarrow> lsection" where
  "plain_section name order flags =
     \<lparr>ls_kind = K_AtomSection, ls_elf = new_section\<lparr>sec_order := order, sec_flags := flags\<rparr>, ls_input = name,
      ls_output = name, ls_archive = [], ls_member = [], ls_loadable = True, ls_hasSegment = False, ls_first = None,
      ls_segment = PT_NULL, ls_ordinal = 1\<rparr>"

definition small_target :: target_layout where
  "small_target =
     \<lparr>tl_objects = (\<lambda>i. if i = 0 then plain_section ''N'' ORDER_RO_NOTE SHF_ALLOC
        else plain_section ''T'' ORDER_TEXT (SHF_ALLOC OR SHF_EXECINSTR)),
      tl_sections = [1, 0, 2], tl_outputs = [], tl_segments = [], tl_sema = new_sema\<rparr>"

definition small_env :: layout_env where
  "small_env = \<lparr>le_magic = DEFAULT_magic, mergeRODataToTextSegment = False, isDynamicExecutable = False\<rparr>"

lemma small_sorted: "sortInputSections small_target = Some (small_target\<lparr>tl_sections := [0, 1, 2]\<rparr>)"
  by (simp add: sortInputSections_def small_target_def hasLayoutCommands_def new_sema_def plain_section_def order_numbers)

lemmas output_defs = small_target_def output_step_def find_output_def plain_section_def append_to_def alignment_of_def
  checkOutputSectionSegment_def getPHDRsForOutputSection_def buildSectionToPHDR_def new_sema_def os_appendSection_def
  new_out_def new_output_section_def new_section_def Let_def

lemma small_outputs:
  "\<exists>u. createOutputSections (small_target\<lparr>tl_sections := [0, 1, 2]\<rparr>) = Some u \<and> \<not> hasLayoutCommands (tl_sema u)"
  by (simp add: createOutputSections_def hasLayoutCommands_def output_defs)

text \<open>Without scripts every section finds its segments.\<close>

lemma segment_step_total:
  "\<not> hasLayoutCommands (tl_sema t) \<Longrightarrow> \<exists>u. segment_step env k i t = Some u \<and> tl_sema u = tl_sema t"
  by (simp add: segment_step_def Let_def addExtraChunksToSegment_def)

lemma segment_steps_total: "\<not> hasLayoutCommands (tl_sema t) \<Longrightarrow> \<exists>u. segment_steps env ps t = Some u"
proof (induction ps arbitrary: t)
  case (Cons p ps)
  obtain k i where "p = (k, i)" by (cases p)
  with Cons segment_step_total [of t env k i] show ?case by auto
qed simp

lemma setOrdinals_sema: "tl_sema (setOrdinals t) = tl_sema t"
proof -
  have "tl_sema (fold (\<lambda>k t. let os = tl_outputs t ! k in
       t\<lparr>tl_outputs := (tl_outputs t)[k := os\<lparr>oo_ordinal := k + 1\<rparr>],
          tl_objects := (\<lambda>i. if i \<in> set (oo_ids os) then (tl_objects t i)\<lparr>ls_ordinal := k + 1\<rparr> else tl_objects t i)\<rparr>) ks t) =
      tl_sema t" for ks
    by (induction ks arbitrary: t) (simp_all add: Let_def)
  then show ?thesis by (simp add: setOrdinals_def)
qed

theorem output_sections_partition_witness:
  "\<exists>u. createOutputSections small_target = Some u \<and> (\<exists>os \<in> set (tl_outputs u). oo_ids os = [1, 2])"
proof -
  obtain u where u: "createOutputSections small_target = Some u"
    by (simp add: createOutputSections_def output_defs)
  have o: "tl_outputs small_target = []" by (simp add: small_target_def)
  have s: "tl_sections small_target = [1, 0, 2]" "ls_kind (tl_objects small_target i) = K_AtomSection"
    "ls_output (tl_objects small_target i) = (if i = 0 then ''N'' else ''T'')" for i
    by (simp_all add: small_target_def plain_section_def)
  from output_sections_partition [OF u o] obtain os where os: "os \<in> set (tl_outputs u)" "1 \<in> set (oo_ids os)"
    "oo_ids os = filter (\<lambda>i. (if i = 0 then ''N'' else ''T'') = oo_name os) [1, 0, 2]"
    unfolding s by auto
  then have "oo_name os = ''T''" by (auto split: if_splits)
  with os(3) have "oo_ids os = [1, 2]" by simp
  with u os show ?thesis by blast
qed

theorem sections_in_segments_witness:
  "\<exists>u. assignSectionsToSegments small_env small_target = Some u \<and> count (in_segments u PT_LOAD) (Sect 0) = 1 \<and>
    count (in_segments u PT_NOTE) (Sect 0) = 1 \<and> count (in_segments u PT_NOTE) (Sect 1) = 0"
proof -
  obtain w where w: "createOutputSections (small_target\<lparr>tl_sections := [0, 1, 2]\<rparr>) = Some w" "\<not> hasLayoutCommands (tl_sema w)"
    using small_outputs by blast
  obtain z where "segment_steps small_env (members (tl_outputs (setOrdinals w))) (setOrdinals w) = Some z"
    using segment_steps_total [of "setOrdinals w"] w(2) setOrdinals_sema by metis
  with w(1) obtain u where u: "assignSectionsToSegments small_env small_target = Some u"
    by (simp add: assignSectionsToSegments_def small_sorted Let_def)
  have d: "tl_outputs small_target = []" "tl_segments small_target = []" "distinct (tl_sections small_target)"
    "0 \<in> set (tl_sections small_target)" "1 \<in> set (tl_sections small_target)"
    "ls_kind (tl_objects small_target i) \<noteq> K_Chunk" for i
    by (simp_all add: small_target_def plain_section_def)
  have "hasOutputSegment (tl_objects small_target i)" for i
    by (simp add: small_target_def plain_section_def hasOutputSegment_def with_segment_def)
  moreover have "getSegmentType (sec_order (ls_elf (tl_objects small_target i))) = (if i = 0 then PT_NOTE else PT_LOAD)" for i
    by (simp add: small_target_def plain_section_def getSegmentType_def order_numbers)
  moreover have "PT_NOTE \<noteq> PT_LOAD" "PT_NOTE \<noteq> PT_NULL" by (simp_all add: segment_numbers)
  ultimately show ?thesis
    using u sections_in_segments [OF u d(1,2,3) d(4) d(6)] sections_in_segments [OF u d(1,2,3) d(5) d(6)] by simp
qed

section \<open>Well-formed segments\<close>

text \<open>All segments have chunks, but perhaps those of the keys \<open>K\<close>.\<close>

definition filled_but :: "seg_key set \<Rightarrow> target_layout \<Rightarrow> bool" where
  "filled_but K t \<longleftrightarrow> (\<forall>(k, s) \<in> set (tl_segments t). k \<noteq> Headers \<and> (k \<notin> K \<longrightarrow> sg_chunks s \<noteq> []))"

lemma on_segment_member:
  assumes "(k, s) \<in> set (tl_segments (on_segment key ty f t))"
  shows "if k = key then \<exists>s'. s = f s' else (k, s) \<in> set (tl_segments t)"
  using assms by (auto simp: on_segment_def Let_def split: if_splits)

lemma on_segment_filled:
  assumes "filled_but K t" "key \<noteq> Headers"
  shows "filled_but (K - {key}) (on_segment key ty (segment_append h c) t)" and "filled_but (insert key K) (on_segment key ty id t)"
proof -
  have a: "k \<noteq> Headers \<and> (k \<notin> K - {key} \<longrightarrow> sg_chunks s \<noteq> [])"
    if "(k, s) \<in> set (tl_segments (on_segment key ty (segment_append h c) t))" for k s
    using on_segment_member [OF that] assms by (auto simp: filled_but_def split: if_splits)
  have b: "k \<noteq> Headers \<and> (k \<notin> insert key K \<longrightarrow> sg_chunks s \<noteq> [])"
    if "(k, s) \<in> set (tl_segments (on_segment key ty id t))" for k s
    using on_segment_member [OF that] assms by (auto simp: filled_but_def split: if_splits)
  show "filled_but (K - {key}) (on_segment key ty (segment_append h c) t)" unfolding filled_but_def using a by blast
  show "filled_but (insert key K) (on_segment key ty id t)" unfolding filled_but_def using b by blast
qed

lemma filled_mono: "filled_but K t \<Longrightarrow> K \<subseteq> L \<Longrightarrow> filled_but L t"
  by (fastforce simp: filled_but_def)

lemma expressions_filled:
  assumes "filled_but K t" "key \<noteq> Headers"
  shows "filled_but K (fold (\<lambda>(j, e). on_segment key PT_LOAD (segment_append (Expr j e) c)) es t)"
  using assms(1)
proof (induction es arbitrary: t)
  case (Cons p es)
  obtain j e where p: "p = (j, e)" by (cases p)
  have "filled_but K (on_segment key PT_LOAD (segment_append (Expr j e) c) t)"
    using on_segment_filled(1) [OF Cons.prems assms(2)] by (rule filled_mono) auto
  with Cons.IH p show ?case by simp
qed simp

lemma segment_step_filled:
  assumes "segment_step env k i t = Some u" "filled_but {} t"
  shows "filled_but {} u"
proof (cases "hasOutputSegment (tl_objects t i)")
  case False
  with assms show ?thesis by (simp add: segment_step_def Let_def)
next
  case True
  define own where "own = getSegmentType (sec_order (ls_elf (tl_objects t i)))"
  define y where "y = (tl_objects t i)\<lparr>ls_segment := own\<rparr>"
  define t1 where "t1 = t\<lparr>tl_objects := (tl_objects t)(i := y),
      tl_outputs := (tl_outputs t)[k := (tl_outputs t ! k)\<lparr>oo_loadable := ls_loadable y, oo_hasSegment := True\<rparr>]\<rparr>"
  define lookup where "lookup = getLookupSectionFlags env (Atom_Section.os_flags (oo_data (tl_outputs t ! k)))"
  define c where "c = chunk_of t1 y"
  define t2 where "t2 = (if own \<noteq> PT_LOAD then on_segment (Additional own lookup) own (segment_append (Sect i) c) t1 else t1)"
  define key where "key = Load (load_flags env lookup)"
  define t3 where "t3 = on_segment key PT_LOAD id t2"
  have u: "if own = PT_NULL then u = t2
      else \<exists>v. addExtraChunksToSegment key (key_of y) t3 = Some v \<and> u = on_segment key PT_LOAD (segment_append (Sect i) c) v"
    using assms(1) True
    unfolding segment_step_def Let_def key_def t3_def t2_def c_def lookup_def t1_def y_def own_def
    by (auto split: Option.bind_splits if_splits)
  have "filled_but {} t1" using assms(2) by (simp add: t1_def filled_but_def)
  then have f2: "filled_but {} t2" using on_segment_filled(1) [of "{}" t1 "Additional own lookup" own "Sect i" c]
    by (simp add: t2_def)
  have kh: "key \<noteq> Headers" by (simp add: key_def)
  have f3: "filled_but {key} t3" unfolding t3_def using on_segment_filled(2) [OF f2 kh] .
  have "filled_but {key} v" if "addExtraChunksToSegment key sk t3 = Some v" for sk v
  proof -
    have "filled_but {key} (t3\<lparr>tl_sema := s\<rparr>)" for s using f3 by (simp add: filled_but_def)
    note e = expressions_filled [OF this kh]
    show ?thesis
      using that f3 e unfolding addExtraChunksToSegment_def by (auto split: if_splits Option.bind_splits)
  qed
  with u f2 on_segment_filled(1) [OF _ kh, of "{key}"] show ?thesis by (auto split: if_splits)
qed

lemma segment_steps_filled: "segment_steps env ps t = Some u \<Longrightarrow> filled_but {} t \<Longrightarrow> filled_but {} u"
proof (induction ps arbitrary: t)
  case (Cons p ps)
  obtain k i where p: "p = (k, i)" by (cases p)
  from Cons.prems p obtain v where "segment_step env k i t = Some v" "segment_steps env ps v = Some u"
    by (auto split: Option.bind_splits)
  with Cons segment_step_filled show ?case by blast
qed simp

text \<open>C17: The segments of a layout are well typed. Each has a key of its own, the type of its key and at least one
  chunk; so the table of the program headers never describes an empty or a mistyped segment.\<close>

theorem segments_well_typed:
  assumes "assignSectionsToSegments env t = Some u" "tl_segments t = []"
  shows "distinct (map fst (tl_segments u)) \<and>
    (\<forall>(k, s) \<in> set (tl_segments u). sg_type s = key_type k \<and> sg_chunks s \<noteq> [])"
proof -
  from assms(1) obtain v w z where v: "sortInputSections t = Some v" and w: "createOutputSections v = Some w"
    and z: "segment_steps env (members (tl_outputs (setOrdinals w))) (setOrdinals w) = Some z"
    and u: "u = add_header_segment env z"
    by (auto simp: assignSectionsToSegments_def Let_def split: Option.bind_splits)
  have "tl_segments w = []"
    using sortInputSections_permutes [OF v] createOutputs_sections [of "tl_sections v" v w] w assms(2)
    by (simp add: createOutputSections_def)
  then have e: "tl_segments (setOrdinals w) = []" using setOrdinals_same [of w] by simp
  then have "segs_ok (tl_segments z)" using segment_steps_counts [OF z] by (simp add: segs_ok_def)
  moreover have "filled_but {} z" using segment_steps_filled [OF z] e by (simp add: filled_but_def)
  ultimately show ?thesis
    by (force simp: u add_header_segment_def segs_ok_def filled_but_def key_type_def)
qed

theorem segments_well_typed_witness:
  "\<exists>u. assignSectionsToSegments (small_env\<lparr>isDynamicExecutable := True\<rparr>) small_target = Some u \<and>
    distinct (map fst (tl_segments u)) \<and> (\<forall>(k, s) \<in> set (tl_segments u). sg_type s = key_type k \<and> sg_chunks s \<noteq> [])"
proof -
  let ?env = "small_env\<lparr>isDynamicExecutable := True\<rparr>"
  obtain w where w: "createOutputSections (small_target\<lparr>tl_sections := [0, 1, 2]\<rparr>) = Some w" "\<not> hasLayoutCommands (tl_sema w)"
    using small_outputs by blast
  obtain z where "segment_steps ?env (members (tl_outputs (setOrdinals w))) (setOrdinals w) = Some z"
    using segment_steps_total [of "setOrdinals w"] w(2) setOrdinals_sema by metis
  with w(1) obtain u where u: "assignSectionsToSegments ?env small_target = Some u"
    by (simp add: assignSectionsToSegments_def small_sorted Let_def)
  have "tl_segments small_target = []" by (simp add: small_target_def)
  from u segments_well_typed [OF u this] show ?thesis by blast
qed

end
