(* ===== verification/Address_Layout.thy ===== *)
theory Address_Layout
  imports Target_Layout
begin

text \<open>
  The program headers (class ProgramHeader in lib/ReaderWriter/ELF/HeaderChunks.h and HeaderChunks.cpp) and the loop that assigns
  addresses and file offsets until there is a header for every slice (assignVirtualAddress in TargetLayout.cpp).
\<close>

section \<open>Program headers\<close>

text \<open>\<open>Elf_Phdr\<close>; the fields of a 32-bit header keep the low 32 bits. The sizes are those of the ELF specification.\<close>

record elf_phdr =
  p_type :: segment_type
  p_offset :: u64
  p_vaddr :: u64
  p_paddr :: u64
  p_filesz :: u64
  p_memsz :: u64
  p_flags :: u64
  p_align :: u64

record address_env =
  ae_seg :: seg_env
  is64Bits :: bool
  baseAddress :: u64

definition sizeof_Phdr :: "address_env \<Rightarrow> u64" where
  "sizeof_Phdr env = (if is64Bits env then 56 else 32)"

definition field :: "address_env \<Rightarrow> u64 \<Rightarrow> u64" where
  "field env v = (if is64Bits env then v else take_bit 32 v)"

text \<open>\<open>_ph\<close>, and \<open>_phi\<close> as the index it points to.\<close>

record header_table =
  ph_entries :: "elf_phdr list"
  ph_next :: nat

text \<open>A segment with what the layout finds for it, and the objects of all chunks.\<close>

record placed_segment =
  ps_seg :: "chunk_ref segment"
  ps_slices :: "slice list"
  ps_addr :: u64
  ps_offset :: u64
  ps_fsize :: u64
  ps_msize :: u64

record addresses =
  la_chunk :: "chunk_ref \<Rightarrow> chunk"
  la_segments :: "placed_segment list"
  la_ph :: header_table

text \<open>\<open>allocateProgramHeader\<close> and the assignments to the header it gives: whether it is a new one.\<close>

definition put_header :: "elf_phdr \<Rightarrow> header_table \<Rightarrow> bool \<times> header_table" where
  "put_header e ph =
     (if ph_next ph = length (ph_entries ph)
      then (True, \<lparr>ph_entries = ph_entries ph @ [e], ph_next = Suc (length (ph_entries ph))\<rparr>)
      else (False, ph\<lparr>ph_entries := (ph_entries ph)[ph_next ph := e], ph_next := Suc (ph_next ph)\<rparr>))"

fun put_headers :: "elf_phdr list \<Rightarrow> header_table \<Rightarrow> bool \<times> header_table" where
  "put_headers [] ph = (False, ph)"
| "put_headers (e # es) ph =
     (let (new1, ph) = put_header e ph; (new2, ph) = put_headers es ph in (new1 \<or> new2, ph))"

definition slice_header :: "address_env \<Rightarrow> placed_segment \<Rightarrow> slice \<Rightarrow> elf_phdr" where
  "slice_header env sg sl =
     \<lparr>p_type = sg_type (ps_seg sg), p_offset = field env (sl_offset sl), p_vaddr = field env (sl_addr sl),
      p_paddr = field env (sl_addr sl), p_filesz = field env (sl_fsize sl), p_memsz = field env (sl_memsz sl),
      p_flags = segment_flags (ps_seg sg),
      p_align = field env (if outputMagic (ae_seg env) = DEFAULT_magic
        then (if pageSize (ae_seg env) < sl_align sl then sl_align sl else pageSize (ae_seg env)) else sl_align sl)\<rparr>"

definition segment_header :: "address_env \<Rightarrow> placed_segment \<Rightarrow> elf_phdr" where
  "segment_header env sg =
     \<lparr>p_type = sg_type (ps_seg sg), p_offset = field env (ps_offset sg), p_vaddr = field env (ps_addr sg),
      p_paddr = field env (ps_addr sg), p_filesz = field env (ps_fsize sg), p_memsz = field env (ps_msize sg),
      p_flags = segment_flags (ps_seg sg), p_align = field env (sg_align (ps_seg sg))\<rparr>"

definition headers_of :: "address_env \<Rightarrow> placed_segment \<Rightarrow> elf_phdr list" where
  "headers_of env sg =
     (if sg_type (ps_seg sg) \<noteq> PT_LOAD then [segment_header env sg] else map (slice_header env sg) (ps_slices sg))"

text \<open>The size of the chunk follows the number of headers.\<close>

definition addSegment :: "address_env \<Rightarrow> placed_segment \<Rightarrow> addresses \<Rightarrow> bool \<times> addresses" where
  "addSegment env sg st =
     (let (new, ph) = put_headers (headers_of env sg) (la_ph st);
          size = sizeof_Phdr env * of_nat (length (ph_entries ph)) in
      (new, st\<lparr>la_ph := ph,
               la_chunk := (la_chunk st)(Program_header := (la_chunk st Program_header)\<lparr>ck_fsize := size, ck_msize := size\<rparr>)\<rparr>))"

definition resetProgramHeaders :: "addresses \<Rightarrow> addresses" where
  "resetProgramHeaders st = st\<lparr>la_ph := (la_ph st)\<lparr>ph_next := 0\<rparr>\<rparr>"

section \<open>The loop\<close>

text \<open>The virtual \<open>finalize\<close>; \<open>None\<close> is \<open>front\<close> or \<open>back\<close> of a segment without chunks.\<close>

definition finalize_segment :: "(chunk_ref \<Rightarrow> chunk) \<Rightarrow> placed_segment \<Rightarrow> placed_segment option" where
  "finalize_segment chunk sg =
     (let cs = map chunk (sg_chunks (ps_seg sg)) in
      if sg_type (ps_seg sg) = PT_LOAD then Some sg
      else map_option (\<lambda>(off, addr, fsz, msz). sg\<lparr>ps_offset := off, ps_addr := addr, ps_fsize := fsz, ps_msize := msz\<rparr>)
        (if sg_type (ps_seg sg) = PT_PHDR then phdr_finalize cs else segment_finalize cs))"

text \<open>
  The first loop over the segments, with \<open>newSegmentHeaderAdded\<close>, which each segment but a \<open>PT_NULL\<close> one overwrites. The
  chunk of the headers grows on the way.
\<close>

fun add_segments :: "address_env \<Rightarrow> placed_segment list \<Rightarrow> bool \<Rightarrow> addresses \<Rightarrow> (placed_segment list \<times> bool \<times> addresses) option" where
  "add_segments env [] new st = Some ([], new, st)"
| "add_segments env (sg # sgs) new st =
     do { sg \<leftarrow> finalize_segment (la_chunk st) sg;
          let (new, st) = (if sg_type (ps_seg sg) \<noteq> PT_NULL then addSegment env sg st else (new, st));
          (sgs, new, st) \<leftarrow> add_segments env sgs new st;
          Some (sg # sgs, new, st) }"

text \<open>Writing the chunks of a segment back.\<close>

definition store_chunks :: "chunk_ref list \<Rightarrow> chunk list \<Rightarrow> (chunk_ref \<Rightarrow> chunk) \<Rightarrow> (chunk_ref \<Rightarrow> chunk)" where
  "store_chunks hs cs chunk = fold (\<lambda>(h, c) f. f(h := c)) (zip hs cs) chunk"

definition seg_addresses :: "address_env \<Rightarrow> u64 \<Rightarrow> placed_segment \<Rightarrow> (chunk_ref \<Rightarrow> chunk) \<Rightarrow> placed_segment \<times> (chunk_ref \<Rightarrow> chunk)" where
  "seg_addresses env addr sg chunk =
     (let hs = sg_chunks (ps_seg sg); r = seg_assignVirtualAddress (ae_seg env) addr (ps_slices sg) (map chunk hs) in
      (sg\<lparr>ps_slices := vr_slices r, ps_addr := vr_addr r, ps_msize := vr_msize r\<rparr>, store_chunks hs (vr_chunks r) chunk))"

text \<open>The loops stop at the first segment that is where it was before.\<close>

fun va_segments ::
  "address_env \<Rightarrow> bool \<Rightarrow> u64 \<Rightarrow> placed_segment list \<Rightarrow> (chunk_ref \<Rightarrow> chunk) \<Rightarrow> placed_segment list \<times> (chunk_ref \<Rightarrow> chunk)" where
  "va_segments env assigned address [] chunk = ([], chunk)"
| "va_segments env assigned address (sg # sgs) chunk =
     (let ty = sg_type (ps_seg sg) in
      if ty \<noteq> PT_LOAD \<and> ty \<noteq> PT_NULL then
        (let (sgs, chunk) = va_segments env assigned address sgs chunk in (sg # sgs, chunk))
      else if ty = PT_LOAD \<and> assigned \<and> address \<noteq> baseAddress env \<and> address = ps_addr sg then (sg # sgs, chunk)
      else
        (let (sg, chunk) = seg_addresses env (if ty = PT_NULL then 0 else address) sg chunk;
             (sgs, chunk) = va_segments env assigned (ps_addr sg + ps_msize sg) sgs chunk in (sg # sgs, chunk)))"

definition seg_offsets :: "address_env \<Rightarrow> u64 \<Rightarrow> placed_segment \<Rightarrow> (chunk_ref \<Rightarrow> chunk) \<Rightarrow> placed_segment \<times> (chunk_ref \<Rightarrow> chunk)" where
  "seg_offsets env off sg chunk =
     (let hs = sg_chunks (ps_seg sg); (cs, sls, size) = seg_assignFileOffsets (ae_seg env) off (ps_slices sg) (map chunk hs) in
      (sg\<lparr>ps_slices := sls, ps_offset := off, ps_fsize := size\<rparr>, store_chunks hs cs chunk))"

fun fo_segments ::
  "address_env \<Rightarrow> bool \<Rightarrow> u64 \<Rightarrow> placed_segment list \<Rightarrow> (chunk_ref \<Rightarrow> chunk) \<Rightarrow> placed_segment list \<times> (chunk_ref \<Rightarrow> chunk)" where
  "fo_segments env assigned fileoffset [] chunk = ([], chunk)"
| "fo_segments env assigned fileoffset (sg # sgs) chunk =
     (let ty = sg_type (ps_seg sg) in
      if ty \<noteq> PT_LOAD \<and> ty \<noteq> PT_NULL then
        (let (sgs, chunk) = fo_segments env assigned fileoffset sgs chunk in (sg # sgs, chunk))
      else if assigned \<and> fileoffset \<noteq> 0 \<and> fileoffset = ps_offset sg then (sg # sgs, chunk)
      else
        (let (sg, chunk) = seg_offsets env fileoffset sg chunk;
             (sgs, chunk) = fo_segments env assigned (ps_offset sg + ps_fsize sg) sgs chunk in (sg # sgs, chunk)))"

definition assign_round :: "address_env \<Rightarrow> bool \<Rightarrow> addresses \<Rightarrow> addresses" where
  "assign_round env assigned st =
     (let (sgs, chunk) = va_segments env assigned (baseAddress env) (la_segments st) (la_chunk st);
          (sgs, chunk) = fo_segments env assigned 0 sgs chunk
      in resetProgramHeaders (st\<lparr>la_segments := sgs, la_chunk := chunk\<rparr>))"

partial_function (option) layout_loop :: "address_env \<Rightarrow> bool \<Rightarrow> bool \<Rightarrow> addresses \<Rightarrow> addresses option" where
  "layout_loop env new assigned st =
     do { (sgs, new, st) \<leftarrow> add_segments env (la_segments st) new st;
          let st = st\<lparr>la_segments := sgs\<rparr>;
          if \<not> new \<and> assigned then Some st
          else layout_loop env new True (assign_round env assigned st) }"

section \<open>Before and after the loop\<close>

text \<open>
  \<open>setAlign\<close> of the first chunk of the first loadable segment. It sets a member that \<open>alignment\<close> does not look at when the
  chunk is the first section of its output section: \<open>overridden\<close>. The file and program headers go in front.
\<close>

definition prepend_headers :: "(chunk_ref \<Rightarrow> bool) \<Rightarrow> addresses \<Rightarrow> addresses option" where
  "prepend_headers overridden st =
     (case dropWhile (\<lambda>sg. sg_type (ps_seg sg) \<noteq> PT_LOAD) (la_segments st) of
        [] \<Rightarrow> None
      | sg # sgs \<Rightarrow>
          (case sg_chunks (ps_seg sg) of
             [] \<Rightarrow> None
           | h # _ \<Rightarrow>
               Some (st\<lparr>la_chunk := (if overridden h then la_chunk st
                   else (la_chunk st)(h := (la_chunk st h)\<lparr>ck_align := sg_align (ps_seg sg)\<rparr>)),
                 la_segments := takeWhile (\<lambda>sg. sg_type (ps_seg sg) \<noteq> PT_LOAD) (la_segments st) @
                   sg\<lparr>ps_seg := segment_prepend Elf_header (segment_prepend Program_header (ps_seg sg))\<rparr> # sgs\<rparr>)))"

definition place_segment :: "chunk_ref segment \<Rightarrow> placed_segment" where
  "place_segment s = \<lparr>ps_seg = s, ps_slices = [], ps_addr = 0, ps_offset = 0, ps_fsize = 0, ps_msize = 0\<rparr>"

definition header_chunk :: "string \<Rightarrow> u64 \<Rightarrow> u64 \<Rightarrow> chunk" where
  "header_chunk name align bytes =
     \<lparr>ck_kind = Header_chunk, ck_name = name, ck_flags = 0, ck_content = Header_content, ck_align = align, ck_fsize = bytes,
      ck_msize = bytes, ck_tbss = False, ck_tls = False, ck_loadable = False, ck_addr = 0, ck_atoms = None, ck_offset = 0\<rparr>"

text \<open>The chunks of a layout; \<open>effect\<close> is what an assignment of a linker script does to the position.\<close>

definition chunks_of :: "address_env \<Rightarrow> (symbol_assignment \<Rightarrow> u64 \<Rightarrow> u64) \<Rightarrow> target_layout \<Rightarrow> chunk_ref \<Rightarrow> chunk" where
  "chunks_of env effect t h =
     (case h of
        Sect i \<Rightarrow> chunk_of t (tl_objects t i)
      | Expr _ a \<Rightarrow> expression_chunk\<lparr>ck_kind := Expression_chunk (effect a)\<rparr>
      | Elf_header \<Rightarrow> (if is64Bits env then header_chunk ''elfhdr'' 8 64 else header_chunk ''elfhdr'' 4 52)
      | Program_header \<Rightarrow> header_chunk ''elfphdr'' (if is64Bits env then 8 else 4) 0)"

definition uses_output_alignment :: "target_layout \<Rightarrow> chunk_ref \<Rightarrow> bool" where
  "uses_output_alignment t h = (case h of Sect i \<Rightarrow> ls_first (tl_objects t i) \<noteq> None | _ \<Rightarrow> False)"

text \<open>
  \<open>assignVirtualAddress\<close> up to the end of its loop. \<open>std::sort\<close> leaves the order of segments that compare equal open: \<open>sorter\<close>
  is its result.
\<close>

definition assignVirtualAddress ::
  "(placed_segment list \<Rightarrow> placed_segment list) \<Rightarrow> address_env \<Rightarrow> (symbol_assignment \<Rightarrow> u64 \<Rightarrow> u64) \<Rightarrow> target_layout \<Rightarrow> addresses option" where
  "assignVirtualAddress sorter env effect t =
     (let st = \<lparr>la_chunk = chunks_of env effect t,
                la_segments = sorter (map (place_segment \<circ> snd) (tl_segments t)),
                la_ph = \<lparr>ph_entries = [], ph_next = 0\<rparr>\<rparr> in
      if tl_segments t = [] then Some st
      else do { st \<leftarrow> prepend_headers (uses_output_alignment t) st; layout_loop env True False st })"

text \<open>Where an output section begins in the file or in memory and how long it is, from the positions and sizes of its sections.\<close>

definition merged_extent :: "(u64 \<times> u64) list \<Rightarrow> u64 \<times> u64" where
  "merged_extent xs = (if xs = [] then (0, 0) else (fst (hd xs), fst (last xs) - fst (hd xs) + snd (last xs)))"

definition output_extent :: "addresses \<Rightarrow> out_section \<Rightarrow> (u64 \<times> u64) \<times> (u64 \<times> u64)" where
  "output_extent st os =
     (let cs = map (\<lambda>i. la_chunk st (Sect i)) (oo_ids os) in
      (merged_extent (map (\<lambda>c. (ck_offset c, ck_fsize c)) cs), merged_extent (map (\<lambda>c. (ck_addr c, ck_msize c)) cs)))"

text \<open>The sections that are in no segment follow the last segment in the file.\<close>

fun misc_offsets :: "u64 \<Rightarrow> chunk list \<Rightarrow> chunk list" where
  "misc_offsets off [] = []"
| "misc_offsets off (c # cs) =
     (let off = RoundUpToAlignment off (ck_align c) in
      c\<lparr>ck_offset := off, ck_addr := 0\<rparr> # misc_offsets (off + ck_fsize c) cs)"

definition end_of_segments :: "placed_segment list \<Rightarrow> u64" where
  "end_of_segments sgs =
     (let ls = filter (\<lambda>sg. sg_type (ps_seg sg) \<in> {PT_LOAD, PT_NULL}) sgs in
      if ls = [] then 0 else ps_offset (last ls) + ps_fsize (last ls))"

definition assignFileOffsetsForMiscSections :: "target_layout \<Rightarrow> addresses \<Rightarrow> addresses" where
  "assignFileOffsetsForMiscSections t st =
     (let hs = map Sect (filter (\<lambda>i. ls_kind (tl_objects t i) = K_Chunk \<or> \<not> hasOutputSegment (tl_objects t i)) (tl_sections t))
      in st\<lparr>la_chunk := store_chunks hs (misc_offsets (end_of_segments (la_segments st)) (map (la_chunk st) hs)) (la_chunk st)\<rparr>)"

text \<open>The size of the segment of thread-local storage.\<close>

definition getTLSSize :: "addresses \<Rightarrow> u64" where
  "getTLSSize st =
     (case filter (\<lambda>e. p_type e = PT_TLS) (ph_entries (la_ph st)) of [] \<Rightarrow> 0 | e # _ \<Rightarrow> p_memsz e)"

end
