(* ===== verification/Address_Settles.thy ===== *)
theory Address_Settles
  imports Address_Layout
begin

text \<open>
  The loop of \<open>assignVirtualAddress\<close> in TargetLayout.cpp ends: a round keeps the sizes of the chunks and the slices of the
  segments, there are at most as many slices as chunks, and a round that adds a program header brings their number nearer to
  that bound.
\<close>

section \<open>Slices are kept\<close>

definition starts_ok :: "nat \<Rightarrow> slice list \<Rightarrow> bool" where
  "starts_ok n sls \<longleftrightarrow> distinct (map sl_start sls) \<and> (\<forall>s \<in> set sls. sl_start s < max 1 n)"

lemma starts_ok_length: "starts_ok n sls \<Longrightarrow> length sls \<le> max 1 n"
proof -
  assume a: "starts_ok n sls"
  then have "card (sl_start ` set sls) = length sls"
    by (metis distinct_card length_map list.set_map starts_ok_def)
  moreover have "sl_start ` set sls \<subseteq> {..<max 1 n}" using a by (auto simp: starts_ok_def)
  ultimately show ?thesis by (metis card_lessThan card_mono finite_lessThan)
qed

lemma put_slice_starts:
  "map sl_start (put_slice start stop a m al sls) = (if start \<in> sl_start ` set sls then map sl_start sls else map sl_start sls @ [start])"
  by (auto simp: put_slice_def image_iff)

lemma put_slice_ok:
  assumes "starts_ok n sls" "start < max 1 n"
  shows "starts_ok n (put_slice start stop a m al sls)" and "length sls \<le> length (put_slice start stop a m al sls)"
    and "put_slice start stop a m al sls \<noteq> []"
proof -
  let ?p = "put_slice start stop a m al sls"
  have s: "sl_start ` set ?p = insert start (sl_start ` set sls)"
    using arg_cong [OF put_slice_starts [of start stop a m al sls], of set] by auto
  have "distinct (map sl_start ?p)"
    using assms(1) by (simp add: put_slice_starts starts_ok_def)
  moreover have "\<forall>x \<in> sl_start ` set ?p. x < max 1 n"
    unfolding s using assms by (auto simp: starts_ok_def)
  ultimately show "starts_ok n ?p" by (simp add: starts_ok_def)
  show "length sls \<le> length ?p" using arg_cong [OF put_slice_starts [of start stop a m al sls], of length]
    by (simp split: if_splits)
  show "?p \<noteq> []" using s by auto
qed

definition va_ok :: "nat \<Rightarrow> nat \<Rightarrow> va_state \<Rightarrow> bool" where
  "va_ok n l st \<longleftrightarrow> starts_ok n (va_slices st) \<and> l \<le> length (va_slices st) \<and> startSection st < currSection st \<and>
    currSection st = length (va_done st)"

lemma va_next_fields:
  "currSection (va_next env c st) = currSection st + 1" "map ck_fsize (va_done (va_next env c st)) = map ck_fsize (va_done st) @ [ck_fsize c]"
  "map ck_msize (va_done (va_next env c st)) = map ck_msize (va_done st) @ [ck_msize c]"
  by (simp_all add: va_next_def Let_def)

lemma va_next_ok:
  assumes "va_ok n l st" "currSection st < n"
  shows "va_ok n l (va_next env c st)"
proof -
  have "startSection st < max 1 n" using assms by (simp add: va_ok_def)
  moreover have "length (va_done (va_next env c st)) = Suc (length (va_done st))"
    using arg_cong [OF va_next_fields(2), of length env c st] by simp
  moreover have "startSection (va_next env c st) \<in> {startSection st, currSection st}"
    by (simp add: va_next_def Let_def)
  moreover have "va_slices (va_next env c st) = va_slices st \<or> va_slices (va_next env c st) =
      put_slice (startSection st) (currSection st) (sliceAddress st) (sliceSize st) (sliceAlign st) (va_slices st)"
    by (simp add: va_next_def Let_def)
  ultimately show ?thesis
    using assms(1) put_slice_ok [of n "va_slices st" "startSection st"] va_next_fields(1) [of env c st]
    unfolding va_ok_def by (metis add.commute insertE le_trans less_Suc_eq plus_1_eq_Suc singletonD)
qed

lemma fold_va_next_ok:
  "va_ok n l st \<Longrightarrow> currSection st + length cs \<le> n \<Longrightarrow> va_ok n l (fold (va_next env) cs st) \<and>
    currSection (fold (va_next env) cs st) = currSection st + length cs \<and>
    map ck_fsize (va_done (fold (va_next env) cs st)) = map ck_fsize (va_done st) @ map ck_fsize cs \<and>
    map ck_msize (va_done (fold (va_next env) cs st)) = map ck_msize (va_done st) @ map ck_msize cs"
proof (induction cs arbitrary: st)
  case (Cons c cs)
  then have "va_ok n l (va_next env c st)" by (intro va_next_ok) simp_all
  with Cons.IH [of "va_next env c st"] Cons.prems(2) show ?case by (simp add: va_next_fields)
qed simp

lemma starts_ok_sort: "starts_ok n (sort_key f sls) = starts_ok n sls"
  unfolding starts_ok_def by (metis distinct_map mset_map mset_sort set_sort distinct_count_atmost_1)

lemma sort_key_Nil: "sort_key f xs = [] \<longleftrightarrow> xs = []"
  by (metis length_0_conv length_sort)

lemma addresses_keep:
  fixes env addr sls cs
  assumes "starts_ok (length cs) sls"
  defines "r \<equiv> seg_assignVirtualAddress env addr sls cs"
  shows "starts_ok (length cs) (vr_slices r) \<and> length sls \<le> length (vr_slices r) \<and> vr_slices r \<noteq> [] \<and>
    map ck_fsize (vr_chunks r) = map ck_fsize cs \<and> map ck_msize (vr_chunks r) = map ck_msize cs"
proof (cases cs)
  case Nil
  with assms(1) put_slice_ok [of 0 sls 0 0 0 0 0] show ?thesis
    by (simp add: r_def seg_assignVirtualAddress_def starts_ok_sort sort_key_Nil)
next
  case (Cons c cs')
  obtain sa st where f: "va_first env addr sls c = (sa, st)" by (cases "va_first env addr sls c")
  have s: "va_slices st = sls" "startSection st = 0" "currSection st = 1" "map ck_fsize (va_done st) = [ck_fsize c]"
    "map ck_msize (va_done st) = [ck_msize c]"
    using f by (auto simp: va_first_def Let_def)
  then have "length (va_done st) = 1" by (metis length_map length_Cons list.size(3) One_nat_def)
  with s assms(1) have "va_ok (length cs) (length sls) st" by (simp add: va_ok_def)
  from fold_va_next_ok [OF this, of cs' env] s Cons
  have v: "va_ok (length cs) (length sls) (fold (va_next env) cs' st)"
    "currSection (fold (va_next env) cs' st) = length cs"
    "map ck_fsize (va_done (fold (va_next env) cs' st)) = map ck_fsize cs"
    "map ck_msize (va_done (fold (va_next env) cs' st)) = map ck_msize cs" by simp_all
  let ?st = "fold (va_next env) cs' st"
  have r: "vr_chunks r = va_done ?st" "vr_slices r = sort_key sl_start
      (put_slice (startSection ?st) (length cs) (sliceAddress ?st) (sliceSize ?st) (sliceAlign ?st) (va_slices ?st))"
    by (simp_all add: r_def seg_assignVirtualAddress_def Cons f)
  have "startSection ?st < max 1 (length cs)" using v by (simp add: va_ok_def)
  note p = put_slice_ok [of "length cs" "va_slices ?st", OF _ this]
  have "vr_slices r \<noteq> []" using p(3) v(1) unfolding r va_ok_def by (metis length_0_conv length_sort)
  with p v show ?thesis unfolding r va_ok_def by (auto simp: starts_ok_sort intro: le_trans)
qed

lemma fo_chunks_keep:
  "fo_chunks env a cs st = (cs', st') \<Longrightarrow> map ck_fsize cs' = map ck_fsize cs \<and> map ck_msize cs' = map ck_msize cs"
proof (induction cs arbitrary: st cs' st')
  case (Cons c cs)
  obtain c1 s1 where c1: "fo_chunk env a c st = (c1, s1)" by (cases "fo_chunk env a c st")
  obtain cs2 s2 where cs2: "fo_chunks env a cs s1 = (cs2, s2)" by (cases "fo_chunks env a cs s1")
  have "ck_fsize c1 = ck_fsize c \<and> ck_msize c1 = ck_msize c" using c1 by (auto simp: fo_chunk_def Let_def)
  with Cons.IH [OF cs2] Cons.prems c1 cs2 show ?case by auto
qed simp

lemma fo_slice_step_keep:
  assumes "fo_slice_step env sl (cs, sls, st) = (cs', sls', st')"
  shows "map ck_fsize cs' = map ck_fsize cs \<and> map ck_msize cs' = map ck_msize cs \<and> map sl_start sls' = map sl_start sls @ [sl_start sl]"
proof -
  let ?m = "slice_chunks cs sl"
  obtain m' s where m: "fo_chunks env (sl_addr sl) ?m (st\<lparr>fo_first := True\<rparr>) = (m', s)"
    by (cases "fo_chunks env (sl_addr sl) ?m (st\<lparr>fo_first := True\<rparr>)")
  have c: "cs = take (sl_start sl) cs @ ?m @ drop (sl_start sl + length ?m) cs"
    unfolding slice_chunks_def by (metis append_take_drop_id drop_drop add.commute append_eq_conv_conj)
  have "cs' = take (sl_start sl) cs @ m' @ drop (sl_start sl + length ?m) cs" "map sl_start sls' = map sl_start sls @ [sl_start sl]"
    using assms m by (auto simp: fo_slice_step_def Let_def)
  with fo_chunks_keep [OF m] c show ?thesis by (metis map_append)
qed

lemma fold_fo_slice_keep:
  "fold (fo_slice_step env) sls (cs, done, st) = (cs', sls', st') \<Longrightarrow>
    map ck_fsize cs' = map ck_fsize cs \<and> map ck_msize cs' = map ck_msize cs \<and> map sl_start sls' = map sl_start done @ map sl_start sls"
proof (induction sls arbitrary: cs "done" st)
  case (Cons sl sls)
  obtain cs1 d1 s1 where 1: "fo_slice_step env sl (cs, done, st) = (cs1, d1, s1)"
    by (metis prod_cases3)
  with Cons.prems Cons.IH [of cs1 d1 s1] fo_slice_step_keep [OF 1] show ?case by simp
qed simp

lemma offsets_keep:
  assumes "seg_assignFileOffsets env off sls cs = (cs', sls', n)"
  shows "map ck_fsize cs' = map ck_fsize cs \<and> map ck_msize cs' = map ck_msize cs \<and> map sl_start sls' = map sl_start sls"
proof -
  obtain st' where "fold (fo_slice_step env) sls
        (cs, [], \<lparr>fo_offset = off, fo_slice = off, fo_first = True, fo_paged = False, fo_last = 0\<rparr>) = (cs', sls', st')"
    using assms by (auto simp: seg_assignFileOffsets_def split: prod.splits)
  from fold_fo_slice_keep [OF this] show ?thesis by simp
qed

section \<open>The chunks keep their sizes\<close>

definition sizes :: "(chunk_ref \<Rightarrow> chunk) \<Rightarrow> chunk_ref \<Rightarrow> u64 \<times> u64" where
  "sizes chunk h = (ck_fsize (chunk h), ck_msize (chunk h))"

lemma store_chunks_sizes:
  assumes "map ck_fsize cs = map (ck_fsize \<circ> chunk) hs" "map ck_msize cs = map (ck_msize \<circ> chunk) hs"
  shows "sizes (store_chunks hs cs chunk) = sizes chunk"
proof -
  have "sizes (fold (\<lambda>(h, c) f. f(h := c)) ps f) = sizes f"
    if "\<forall>(h, c) \<in> set ps. (ck_fsize c, ck_msize c) = sizes f h" for ps f
    using that
  proof (induction ps arbitrary: f)
    case (Cons p ps)
    obtain h c where p: "p = (h, c)" by (cases p)
    have "sizes (f(h := c)) = sizes f" using Cons.prems p by (auto simp: sizes_def)
    with Cons.IH [of "f(h := c)"] Cons.prems p show ?case by (simp del: fun_upd_apply)
  qed simp
  moreover have "(ck_fsize c, ck_msize c) = sizes chunk h" if hc: "(h, c) \<in> set (zip hs cs)" for h c
  proof -
    from hc obtain n where n: "n < length hs" "n < length cs" "h = hs ! n" "c = cs ! n"
      by (auto simp: in_set_zip)
    then have "map ck_fsize cs ! n = ck_fsize (chunk h)" "map ck_msize cs ! n = ck_msize (chunk h)"
      unfolding assms by simp_all
    with n show ?thesis by (simp add: sizes_def)
  qed
  then have "\<forall>(h, c) \<in> set (zip hs cs). (ck_fsize c, ck_msize c) = sizes chunk h" by auto
  ultimately show ?thesis by (simp add: store_chunks_def)
qed

section \<open>The headers of a round\<close>

text \<open>The headers a segment needs; \<open>seg_ready\<close> segments can be finalised, and their slices start at different chunks.\<close>

definition need :: "placed_segment \<Rightarrow> nat" where
  "need sg = (if sg_type (ps_seg sg) = PT_NULL then 0 else if sg_type (ps_seg sg) = PT_LOAD then length (ps_slices sg) else 1)"

definition room :: "chunk_ref segment \<Rightarrow> nat" where
  "room s = (if sg_type s = PT_LOAD then max 1 (length (sg_chunks s)) else 1)"

definition seg_ready :: "placed_segment \<Rightarrow> bool" where
  "seg_ready sg \<longleftrightarrow> starts_ok (length (sg_chunks (ps_seg sg))) (ps_slices sg) \<and>
    (sg_type (ps_seg sg) \<noteq> PT_LOAD \<longrightarrow> sg_chunks (ps_seg sg) \<noteq> [])"

definition needed :: "placed_segment list \<Rightarrow> nat" where
  "needed sgs = sum_list (map need sgs)"

definition all_headers :: "address_env \<Rightarrow> placed_segment list \<Rightarrow> elf_phdr list" where
  "all_headers env sgs = concat (map (headers_of env) (filter (\<lambda>sg. sg_type (ps_seg sg) \<noteq> PT_NULL) sgs))"

lemma load_not_null: "PT_LOAD \<noteq> PT_NULL" "PT_LOAD \<noteq> PT_PHDR"
  by (simp_all add: segment_numbers)

lemma need_room: "seg_ready sg \<Longrightarrow> need sg \<le> room (ps_seg sg)"
  using starts_ok_length [of "length (sg_chunks (ps_seg sg))" "ps_slices sg"]
  by (simp add: need_def room_def seg_ready_def)

lemma needed_room: "\<forall>sg \<in> set sgs. seg_ready sg \<Longrightarrow> needed sgs \<le> (\<Sum>sg \<leftarrow> sgs. room (ps_seg sg))"
  unfolding needed_def by (intro sum_list_mono need_room) simp

lemma length_headers_of: "sg_type (ps_seg sg) \<noteq> PT_NULL \<Longrightarrow> length (headers_of env sg) = need sg"
  by (simp add: headers_of_def need_def)

lemma length_all_headers: "length (all_headers env sgs) = needed sgs"
proof (induction sgs)
  case (Cons sg sgs)
  have "sg_type (ps_seg sg) = PT_NULL \<Longrightarrow> need sg = 0" by (simp add: need_def)
  with Cons length_headers_of [of sg env] show ?case by (simp add: all_headers_def needed_def)
qed (simp add: all_headers_def needed_def)

lemma put_headers_result:
  assumes "ph_next ph \<le> length (ph_entries ph)"
  shows "put_headers es ph = (ph_next ph + length es > length (ph_entries ph),
    \<lparr>ph_entries = take (ph_next ph) (ph_entries ph) @ es @ drop (ph_next ph + length es) (ph_entries ph),
     ph_next = ph_next ph + length es\<rparr>)"
  using assms
proof (induction es arbitrary: ph)
  case (Cons e es)
  obtain xs k where ph: "ph = \<lparr>ph_entries = xs, ph_next = k\<rparr>" by (cases ph)
  show ?case
  proof (cases "k = length xs")
    case True
    then show ?thesis using Cons.IH [of "\<lparr>ph_entries = xs @ [e], ph_next = Suc k\<rparr>"] ph by (simp add: put_header_def)
  next
    case False
    with Cons.prems ph have k: "k < length xs" by simp
    then have "take (Suc k) (xs[k := e]) = take k xs @ [e]"
      by (simp add: take_Suc_conv_app_nth)
    with k show ?thesis using Cons.IH [of "\<lparr>ph_entries = xs[k := e], ph_next = Suc k\<rparr>"] ph
      by (simp add: put_header_def)
  qed
qed simp

text \<open>The chunk of the program headers has room for them.\<close>

definition header_room :: "address_env \<Rightarrow> addresses \<Rightarrow> bool" where
  "header_room env st \<longleftrightarrow> sizes (la_chunk st) Program_header =
    (let n = sizeof_Phdr env * of_nat (length (ph_entries (la_ph st))) in (n, n))"

lemma addSegment_result:
  fixes env sg
  assumes "ph_next (la_ph st) \<le> length (ph_entries (la_ph st))"
  defines "ph \<equiv> la_ph st" and "es \<equiv> headers_of env sg"
  shows "\<exists>chunk. addSegment env sg st = (ph_next ph + length es > length (ph_entries ph),
      st\<lparr>la_ph := \<lparr>ph_entries = take (ph_next ph) (ph_entries ph) @ es @ drop (ph_next ph + length es) (ph_entries ph),
         ph_next = ph_next ph + length es\<rparr>, la_chunk := chunk\<rparr>) \<and>
      (\<forall>h. h \<noteq> Program_header \<longrightarrow> chunk h = la_chunk st h) \<and> header_room env (snd (addSegment env sg st)) \<and>
      (length (take (ph_next ph) (ph_entries ph) @ es @ drop (ph_next ph + length es) (ph_entries ph)) = length (ph_entries ph) \<and>
        header_room env st \<longrightarrow> chunk = la_chunk st)"
proof -
  define ys where "ys = take (ph_next ph) (ph_entries ph) @ es @ drop (ph_next ph + length es) (ph_entries ph)"
  let ?n = "sizeof_Phdr env * of_nat (length ys)" and ?c = "la_chunk st Program_header"
  let ?chunk = "(la_chunk st)(Program_header := ?c\<lparr>ck_fsize := ?n, ck_msize := ?n\<rparr>)"
  have a: "addSegment env sg st = (ph_next ph + length es > length (ph_entries ph),
      st\<lparr>la_ph := \<lparr>ph_entries = ys, ph_next = ph_next ph + length es\<rparr>, la_chunk := ?chunk\<rparr>)"
    using put_headers_result [OF assms(1), of es]
    unfolding addSegment_def ph_def [symmetric] es_def [symmetric] ys_def by (simp add: Let_def)
  have "header_room env (snd (addSegment env sg st))"
    by (simp add: a header_room_def sizes_def Let_def)
  moreover have "?chunk = la_chunk st" if "length ys = length (ph_entries ph)" "header_room env st"
  proof -
    from that have "ck_fsize ?c = ?n" "ck_msize ?c = ?n"
      by (simp_all add: header_room_def sizes_def ph_def Let_def)
    then have "?c\<lparr>ck_fsize := ?n, ck_msize := ?n\<rparr> = ?c" by (cases ?c) simp
    then show ?thesis by (metis fun_upd_triv)
  qed
  ultimately show ?thesis
    unfolding ys_def [symmetric] using a by (intro exI [of _ ?chunk]) simp
qed

lemma finalize_fields:
  assumes "finalize_segment chunk sg = Some sg'"
  shows "ps_seg sg' = ps_seg sg \<and> ps_slices sg' = ps_slices sg \<and> (sg_type (ps_seg sg) = PT_LOAD \<longrightarrow> sg' = sg)"
  using assms by (auto simp: finalize_segment_def Let_def split: if_splits)

lemma finalize_ready: "seg_ready sg \<Longrightarrow> \<exists>sg'. finalize_segment chunk sg = Some sg'"
  by (auto simp: finalize_segment_def seg_ready_def segment_finalize_def phdr_finalize_def Let_def)

lemma need_cong: "ps_seg sg' = ps_seg sg \<Longrightarrow> ps_slices sg' = ps_slices sg \<Longrightarrow> need sg' = need sg"
  by (simp add: need_def)

lemma add_segments_result:
  assumes "\<forall>sg \<in> set sgs. seg_ready sg" "ph_next (la_ph st) \<le> length (ph_entries (la_ph st))" "header_room env st"
  defines "ph \<equiv> la_ph st"
  shows "\<exists>sgs' new' st'. add_segments env sgs new st = Some (sgs', new', st') \<and>
    map ps_seg sgs' = map ps_seg sgs \<and> map ps_slices sgs' = map ps_slices sgs \<and> la_segments st' = la_segments st \<and>
    la_ph st' = \<lparr>ph_entries = take (ph_next ph) (ph_entries ph) @ all_headers env sgs' @ drop (ph_next ph + needed sgs) (ph_entries ph),
       ph_next = ph_next ph + needed sgs\<rparr> \<and>
    header_room env st' \<and> (\<forall>h. h \<noteq> Program_header \<longrightarrow> la_chunk st' h = la_chunk st h) \<and>
    (ph_next ph + needed sgs \<le> length (ph_entries ph) \<longrightarrow> la_chunk st' = la_chunk st) \<and>
    ((\<exists>sg \<in> set sgs. sg_type (ps_seg sg) \<noteq> PT_NULL) \<and> (\<forall>sg \<in> set sgs. sg_type (ps_seg sg) \<noteq> PT_NULL \<longrightarrow> need sg > 0) \<longrightarrow>
      new' = (ph_next ph + needed sgs > length (ph_entries ph))) \<and>
    ((\<forall>sg \<in> set sgs. sg_type (ps_seg sg) = PT_NULL) \<longrightarrow> new' = new)"
  using assms(1-3) unfolding ph_def
proof (induction sgs arbitrary: st new)
  case Nil
  then show ?case by (simp add: all_headers_def needed_def)
next
  case (Cons sg sgs)
  obtain sg' where f: "finalize_segment (la_chunk st) sg = Some sg'" using Cons.prems(1) finalize_ready [of sg "la_chunk st"] by auto
  note ff = finalize_fields [OF f]
  then have n: "need sg' = need sg" by (intro need_cong) simp_all
  let ?xs = "ph_entries (la_ph st)" and ?k = "ph_next (la_ph st)"
  show ?case
  proof (cases "sg_type (ps_seg sg) = PT_NULL")
    case True
    then have z: "need sg = 0" by (simp add: need_def)
    from Cons.IH [of st new] Cons.prems obtain sgs' new' st' where
      "add_segments env sgs new st = Some (sgs', new', st')" by auto
    with Cons.IH [of st new] Cons.prems f ff True z show ?thesis
      by (auto simp: Let_def all_headers_def needed_def)
  next
    case False
    let ?es = "headers_of env sg'"
    have le: "length ?es = need sg" using False ff n length_headers_of [of sg' env] by simp
    obtain chunk where a: "addSegment env sg' st = (?k + need sg > length ?xs,
        st\<lparr>la_ph := \<lparr>ph_entries = take ?k ?xs @ ?es @ drop (?k + need sg) ?xs, ph_next = ?k + need sg\<rparr>, la_chunk := chunk\<rparr>)"
      "\<forall>h. h \<noteq> Program_header \<longrightarrow> chunk h = la_chunk st h" "header_room env (snd (addSegment env sg' st))"
      "length (take ?k ?xs @ ?es @ drop (?k + need sg) ?xs) = length ?xs \<and> header_room env st \<longrightarrow> chunk = la_chunk st"
      using addSegment_result [OF Cons.prems(2), of env sg'] unfolding le by blast
    define u where "u = snd (addSegment env sg' st)"
    have u: "la_segments u = la_segments st" "la_ph u = \<lparr>ph_entries = take ?k ?xs @ ?es @ drop (?k + need sg) ?xs, ph_next = ?k + need sg\<rparr>"
      "la_chunk u = chunk" "header_room env u"
      using a(1,3) by (simp_all add: u_def)
    have lu: "length (ph_entries (la_ph u)) = max (length ?xs) (?k + need sg)"
      using Cons.prems(2) le by (simp add: u)
    from Cons.IH [of u "?k + need sg > length ?xs"] Cons.prems(1) lu u obtain sgs' new' st' where
      r: "add_segments env sgs (?k + need sg > length ?xs) u = Some (sgs', new', st')"
      and i: "map ps_seg sgs' = map ps_seg sgs" "map ps_slices sgs' = map ps_slices sgs" "la_segments st' = la_segments u"
      "la_ph st' = \<lparr>ph_entries = take (?k + need sg) (ph_entries (la_ph u)) @ all_headers env sgs' @
         drop (?k + need sg + needed sgs) (ph_entries (la_ph u)), ph_next = ?k + need sg + needed sgs\<rparr>"
      "header_room env st'" "\<forall>h. h \<noteq> Program_header \<longrightarrow> la_chunk st' h = la_chunk u h"
      "?k + need sg + needed sgs \<le> length (ph_entries (la_ph u)) \<longrightarrow> la_chunk st' = la_chunk u"
      "(\<exists>sg \<in> set sgs. sg_type (ps_seg sg) \<noteq> PT_NULL) \<and> (\<forall>sg \<in> set sgs. sg_type (ps_seg sg) \<noteq> PT_NULL \<longrightarrow> need sg > 0) \<longrightarrow>
        new' = (?k + need sg + needed sgs > length (ph_entries (la_ph u)))"
      "(\<forall>sg \<in> set sgs. sg_type (ps_seg sg) = PT_NULL) \<longrightarrow> new' = (?k + need sg > length ?xs)"
      by (simp, blast)
    have e: "add_segments env (sg # sgs) new st = Some (sg' # sgs', new', st')"
      using f ff False r a(1) u_def by (simp add: Let_def)
    have es: "take (?k + need sg) (ph_entries (la_ph u)) @ all_headers env sgs' @ drop (?k + need sg + needed sgs) (ph_entries (la_ph u)) =
        take ?k ?xs @ all_headers env (sg' # sgs') @ drop (?k + needed (sg # sgs)) ?xs"
      using Cons.prems(2) le ff False by (simp add: u all_headers_def needed_def ac_simps)
    have all_null: "(\<forall>sg \<in> set sgs. sg_type (ps_seg sg) = PT_NULL) \<Longrightarrow> needed sgs = 0"
      by (simp add: needed_def need_def sum_list_eq_0_iff)
    have new': "new' = (?k + needed (sg # sgs) > length ?xs)"
      if pos: "\<forall>sg \<in> set (sg # sgs). sg_type (ps_seg sg) \<noteq> PT_NULL \<longrightarrow> need sg > 0"
    proof (cases "\<forall>sg \<in> set sgs. sg_type (ps_seg sg) = PT_NULL")
      case True
      have "needed (sg # sgs) = need sg + needed sgs" by (simp add: needed_def)
      with i(9) True all_null [OF True] show ?thesis by simp
    next
      case nn: False
      then obtain s where "s \<in> set sgs" "need s > 0" using pos by auto
      then have "needed sgs > 0" by (auto simp: needed_def sum_list_eq_0_iff intro: gr0I)
      with i(8) nn pos lu show ?thesis by (auto simp: needed_def)
    qed
    have c: "?k + needed (sg # sgs) \<le> length ?xs \<longrightarrow> la_chunk st' = la_chunk st"
      using i(7) a(4) lu Cons.prems(2,3) le by (auto simp: u needed_def)
    have ph: "la_ph st' = \<lparr>ph_entries = take ?k ?xs @ all_headers env (sg' # sgs') @ drop (?k + needed (sg # sgs)) ?xs,
        ph_next = ?k + needed (sg # sgs)\<rparr>"
      unfolding i(4) es by (simp add: needed_def)
    show ?thesis
    proof (intro exI conjI impI)
      show "add_segments env (sg # sgs) new st = Some (sg' # sgs', new', st')" by (rule e)
      show "map ps_seg (sg' # sgs') = map ps_seg (sg # sgs)" "map ps_slices (sg' # sgs') = map ps_slices (sg # sgs)"
        using i(1,2) ff by simp_all
      show "la_segments st' = la_segments st" using i(3) u(1) by simp
      show "\<forall>h. h \<noteq> Program_header \<longrightarrow> la_chunk st' h = la_chunk st h" using i(6) a(2) u(3) by simp
      show "new' = (?k + needed (sg # sgs) > length ?xs)"
        if "(\<exists>sg \<in> set (sg # sgs). sg_type (ps_seg sg) \<noteq> PT_NULL) \<and> (\<forall>sg \<in> set (sg # sgs). sg_type (ps_seg sg) \<noteq> PT_NULL \<longrightarrow> need sg > 0)"
        using that new' by blast
      show "new' = new" if "\<forall>sg \<in> set (sg # sgs). sg_type (ps_seg sg) = PT_NULL" using that False by simp
      show "la_chunk st' = la_chunk st" if "?k + needed (sg # sgs) \<le> length ?xs" using that c by blast
    qed (rule ph i(5))+
  qed
qed

section \<open>Assigning addresses keeps the segments\<close>

text \<open>What a round leaves of a segment: its chunks, and at least the slices it had.\<close>

definition grown :: "placed_segment \<Rightarrow> placed_segment \<Rightarrow> bool" where
  "grown a b \<longleftrightarrow> ps_seg b = ps_seg a \<and> length (ps_slices a) \<le> length (ps_slices b) \<and> (seg_ready a \<longrightarrow> seg_ready b)"

lemma grown_refl [simp]: "grown a a"
  by (simp add: grown_def)

lemma grown_trans: "grown a b \<Longrightarrow> grown b c \<Longrightarrow> grown a c"
  by (auto simp: grown_def)

lemma grown_need: "grown a b \<Longrightarrow> need a \<le> need b"
  by (auto simp: grown_def need_def)

lemma starts_ok_alt: "starts_ok n sls \<longleftrightarrow> distinct (map sl_start sls) \<and> (\<forall>x \<in> set (map sl_start sls). x < max 1 n)"
  by (simp add: starts_ok_def)

lemma seg_addresses_grown:
  assumes "seg_addresses env addr a chunk = (b, chunk')" "seg_ready a"
  shows "grown a b \<and> ps_slices b \<noteq> [] \<and> sizes chunk' = sizes chunk"
proof -
  let ?hs = "sg_chunks (ps_seg a)"
  let ?r = "seg_assignVirtualAddress (ae_seg env) addr (ps_slices a) (map chunk ?hs)"
  have k: "starts_ok (length (map chunk ?hs)) (vr_slices ?r) \<and> length (ps_slices a) \<le> length (vr_slices ?r) \<and> vr_slices ?r \<noteq> [] \<and>
    map ck_fsize (vr_chunks ?r) = map ck_fsize (map chunk ?hs) \<and> map ck_msize (vr_chunks ?r) = map ck_msize (map chunk ?hs)"
    using assms(2) by (intro addresses_keep) (simp add: seg_ready_def)
  then have "sizes (store_chunks ?hs (vr_chunks ?r) chunk) = sizes chunk"
    by (intro store_chunks_sizes) simp_all
  with k assms show ?thesis by (auto simp: seg_addresses_def Let_def grown_def seg_ready_def)
qed

lemma seg_offsets_grown:
  assumes "seg_offsets env off a chunk = (b, chunk')"
  shows "grown a b \<and> length (ps_slices b) = length (ps_slices a) \<and> sizes chunk' = sizes chunk"
proof -
  let ?hs = "sg_chunks (ps_seg a)"
  obtain cs sls n where r: "seg_assignFileOffsets (ae_seg env) off (ps_slices a) (map chunk ?hs) = (cs, sls, n)"
    by (metis prod_cases3)
  note k = offsets_keep [OF r]
  then have "sizes (store_chunks ?hs cs chunk) = sizes chunk" by (intro store_chunks_sizes) simp_all
  moreover have "starts_ok m sls = starts_ok m (ps_slices a)" for m
    unfolding starts_ok_alt using k by simp
  moreover have "length sls = length (ps_slices a)" using k by (metis length_map)
  ultimately show ?thesis using assms r by (auto simp: seg_offsets_def grown_def seg_ready_def Let_def)
qed

lemma va_segments_grown:
  assumes "va_segments env assigned addr sgs chunk = (sgs', chunk')" "\<forall>sg \<in> set sgs. seg_ready sg"
  shows "list_all2 grown sgs sgs' \<and> sizes chunk' = sizes chunk \<and>
    (\<not> assigned \<longrightarrow> (\<forall>sg \<in> set sgs'. sg_type (ps_seg sg) = PT_LOAD \<longrightarrow> ps_slices sg \<noteq> []))"
  using assms
proof (induction sgs arbitrary: addr chunk sgs' chunk')
  case (Cons a sgs)
  let ?ty = "sg_type (ps_seg a)"
  consider (skip) "?ty \<noteq> PT_LOAD \<and> ?ty \<noteq> PT_NULL"
    | (stop) "?ty = PT_LOAD \<and> assigned \<and> addr \<noteq> baseAddress env \<and> addr = ps_addr a"
    | (go) "\<not> (?ty \<noteq> PT_LOAD \<and> ?ty \<noteq> PT_NULL)" "\<not> (?ty = PT_LOAD \<and> assigned \<and> addr \<noteq> baseAddress env \<and> addr = ps_addr a)"
    by blast
  then show ?case
  proof cases
    case skip
    obtain ts c where r: "va_segments env assigned addr sgs chunk = (ts, c)" by (cases "va_segments env assigned addr sgs chunk")
    with skip Cons.prems(1) have "sgs' = a # ts" "chunk' = c" by (auto simp: Let_def)
    with Cons.IH [OF r] Cons.prems(2) skip show ?thesis by simp
  next
    case stop
    with Cons.prems(1) have "sgs' = a # sgs" "chunk' = chunk" by (auto simp: Let_def)
    with stop show ?thesis by (simp add: list.rel_refl)
  next
    case go
    let ?at = "if ?ty = PT_NULL then 0 else addr"
    obtain b c where b: "seg_addresses env ?at a chunk = (b, c)" by (cases "seg_addresses env ?at a chunk")
    obtain ts d where r: "va_segments env assigned (ps_addr b + ps_msize b) sgs c = (ts, d)"
      by (cases "va_segments env assigned (ps_addr b + ps_msize b) sgs c")
    have "va_segments env assigned addr (a # sgs) chunk = (b # ts, d)"
      by (simp only: va_segments.simps Let_def if_not_P [OF go(1)] if_not_P [OF go(2)] b r split_conv)
    with Cons.prems(1) have "sgs' = b # ts" "chunk' = d" by simp_all
    with Cons.IH [OF r] Cons.prems(2) seg_addresses_grown [OF b] show ?thesis by (auto simp: grown_def)
  qed
qed simp

lemma fo_segments_grown:
  assumes "fo_segments env assigned off sgs chunk = (sgs', chunk')"
  shows "list_all2 grown sgs sgs' \<and> sizes chunk' = sizes chunk"
  using assms
proof (induction sgs arbitrary: off chunk sgs' chunk')
  case (Cons a sgs)
  let ?ty = "sg_type (ps_seg a)"
  consider (skip) "?ty \<noteq> PT_LOAD \<and> ?ty \<noteq> PT_NULL"
    | (stop) "\<not> (?ty \<noteq> PT_LOAD \<and> ?ty \<noteq> PT_NULL)" "assigned \<and> off \<noteq> 0 \<and> off = ps_offset a"
    | (go) "\<not> (?ty \<noteq> PT_LOAD \<and> ?ty \<noteq> PT_NULL)" "\<not> (assigned \<and> off \<noteq> 0 \<and> off = ps_offset a)"
    by blast
  then show ?case
  proof cases
    case skip
    obtain ts c where r: "fo_segments env assigned off sgs chunk = (ts, c)" by (cases "fo_segments env assigned off sgs chunk")
    with skip Cons.prems(1) have "sgs' = a # ts" "chunk' = c" by (auto simp: Let_def)
    with Cons.IH [OF r] skip show ?thesis by simp
  next
    case stop
    with Cons.prems(1) have "sgs' = a # sgs" "chunk' = chunk" by (auto simp: Let_def)
    then show ?thesis by (simp add: list.rel_refl)
  next
    case go
    obtain b c where b: "seg_offsets env off a chunk = (b, c)" by (cases "seg_offsets env off a chunk")
    obtain ts d where r: "fo_segments env assigned (ps_offset b + ps_fsize b) sgs c = (ts, d)"
      by (cases "fo_segments env assigned (ps_offset b + ps_fsize b) sgs c")
    have "fo_segments env assigned off (a # sgs) chunk = (b # ts, d)"
      by (simp only: fo_segments.simps Let_def if_not_P [OF go(1)] if_not_P [OF go(2)] b r split_conv)
    with Cons.prems(1) have "sgs' = b # ts" "chunk' = d" by simp_all
    with Cons.IH [OF r] seg_offsets_grown [OF b] show ?thesis by simp
  qed
qed simp

lemma list_all2_grown:
  assumes "list_all2 grown xs ys"
  shows "map ps_seg ys = map ps_seg xs" and "needed xs \<le> needed ys" and "\<forall>x \<in> set xs. seg_ready x \<Longrightarrow> \<forall>y \<in> set ys. seg_ready y"
    and "\<forall>x \<in> set xs. sg_type (ps_seg x) = PT_LOAD \<longrightarrow> ps_slices x \<noteq> [] \<Longrightarrow>
      \<forall>y \<in> set ys. sg_type (ps_seg y) = PT_LOAD \<longrightarrow> ps_slices y \<noteq> []"
  using assms
proof (induction rule: list_all2_induct)
  case (Cons x xs y ys)
  { case 1 then show ?case using Cons by (simp add: grown_def) }
  { case 2 then show ?case using Cons grown_need [of x y] by (simp add: needed_def) }
  { case 3 then show ?case using Cons by (auto simp: grown_def) }
  { case 4 then show ?case using Cons by (auto simp: grown_def) }
qed simp_all

text \<open>The invariant of the loop: every segment can be finalised, and the headers written so far are no more than are needed.\<close>

definition loop_inv :: "address_env \<Rightarrow> addresses \<Rightarrow> bool" where
  "loop_inv env st \<longleftrightarrow> (\<forall>sg \<in> set (la_segments st). seg_ready sg) \<and> ph_next (la_ph st) = 0 \<and> header_room env st \<and>
    length (ph_entries (la_ph st)) \<le> needed (la_segments st)"

definition has_slices :: "addresses \<Rightarrow> bool" where
  "has_slices st \<longleftrightarrow> (\<forall>sg \<in> set (la_segments st). sg_type (ps_seg sg) = PT_LOAD \<longrightarrow> ps_slices sg \<noteq> [])"

lemma assign_round_inv:
  assumes "\<forall>sg \<in> set (la_segments st). seg_ready sg" "header_room env st"
    "length (ph_entries (la_ph st)) \<le> needed (la_segments st)" "\<not> assigned \<or> has_slices st"
  defines "u \<equiv> assign_round env assigned st"
  shows "loop_inv env u \<and> has_slices u \<and> map ps_seg (la_segments u) = map ps_seg (la_segments st) \<and>
    ph_entries (la_ph u) = ph_entries (la_ph st) \<and> sizes (la_chunk u) = sizes (la_chunk st)"
proof -
  obtain as c where a: "va_segments env assigned (baseAddress env) (la_segments st) (la_chunk st) = (as, c)"
    by (cases "va_segments env assigned (baseAddress env) (la_segments st) (la_chunk st)")
  obtain bs d where b: "fo_segments env assigned 0 as c = (bs, d)" by (cases "fo_segments env assigned 0 as c")
  note va = va_segments_grown [OF a assms(1)] and fo = fo_segments_grown [OF b]
  have u: "u = resetProgramHeaders (st\<lparr>la_segments := bs, la_chunk := d\<rparr>)"
    by (simp add: u_def assign_round_def a b)
  have "\<forall>sg \<in> set as. sg_type (ps_seg sg) = PT_LOAD \<longrightarrow> ps_slices sg \<noteq> []"
    using va assms(4) list_all2_grown(4) [of "la_segments st" as] unfolding has_slices_def by blast
  then have "has_slices u"
    using fo list_all2_grown(4) [of as bs] by (simp add: has_slices_def u resetProgramHeaders_def)
  moreover have "\<forall>sg \<in> set bs. seg_ready sg"
    using va fo assms(1) list_all2_grown(3) [of "la_segments st" as] list_all2_grown(3) [of as bs] by blast
  moreover have "needed (la_segments st) \<le> needed bs"
    using va fo list_all2_grown(2) [of "la_segments st" as] list_all2_grown(2) [of as bs] by simp
  moreover have "map ps_seg bs = map ps_seg (la_segments st)"
    using va fo list_all2_grown(1) [of "la_segments st" as] list_all2_grown(1) [of as bs] by simp
  ultimately show ?thesis
    using va fo assms(2,3) by (simp add: u resetProgramHeaders_def loop_inv_def header_room_def)
qed

lemma needed_cong: "map ps_seg xs = map ps_seg ys \<Longrightarrow> map ps_slices xs = map ps_slices ys \<Longrightarrow> needed xs = needed ys"
proof (induction xs arbitrary: ys)
  case (Cons x xs)
  then obtain y ys' where "ys = y # ys'" by (cases ys) auto
  with Cons need_cong [of x y] show ?case by (simp add: needed_def)
qed simp

lemma all_transfer:
  assumes "map f xs = map f ys" "map g xs = map g ys" "\<And>x y. f x = f y \<Longrightarrow> g x = g y \<Longrightarrow> P y \<Longrightarrow> P x" "\<forall>y \<in> set ys. P y"
  shows "\<forall>x \<in> set xs. P x"
proof
  fix x
  assume "x \<in> set xs"
  then obtain i where i: "i < length xs" "x = xs ! i" by (auto simp: in_set_conv_nth)
  have l: "length ys = length xs" using assms(1) by (metis length_map)
  have "f (xs ! i) = f (ys ! i)" "g (xs ! i) = g (ys ! i)" using assms(1,2) i l by (metis nth_map)+
  with assms(3,4) i l show "P x" by (metis nth_mem)
qed

lemma ready_cong:
  fixes xs ys :: "placed_segment list"
  shows "map ps_seg xs = map ps_seg ys \<Longrightarrow> map ps_slices xs = map ps_slices ys \<Longrightarrow>
    \<forall>y \<in> set ys. seg_ready y \<Longrightarrow> \<forall>x \<in> set xs. seg_ready x"
  by (rule all_transfer [of ps_seg xs ys ps_slices]) (simp_all add: seg_ready_def)

lemma slices_cong:
  fixes xs ys :: "placed_segment list"
  shows "map ps_seg xs = map ps_seg ys \<Longrightarrow> map ps_slices xs = map ps_slices ys \<Longrightarrow>
    \<forall>y \<in> set ys. sg_type (ps_seg y) = PT_LOAD \<longrightarrow> ps_slices y \<noteq> [] \<Longrightarrow>
    \<forall>x \<in> set xs. sg_type (ps_seg x) = PT_LOAD \<longrightarrow> ps_slices x \<noteq> []"
  by (rule all_transfer [of ps_seg xs ys ps_slices]) simp_all

text \<open>How the loop ends: with a header for each slice and each other segment, in a table that has the size it had when the
  addresses were assigned.\<close>

definition settled :: "address_env \<Rightarrow> addresses \<Rightarrow> bool" where
  "settled env st \<longleftrightarrow> ph_entries (la_ph st) = all_headers env (la_segments st) \<and> header_room env st \<and>
    (\<exists>assigned s. la_chunk st = la_chunk (assign_round env assigned s) \<and>
      sizes (la_chunk s) Program_header = sizes (la_chunk st) Program_header)"

definition total_room :: "addresses \<Rightarrow> nat" where
  "total_room st = (\<Sum>s \<leftarrow> map ps_seg (la_segments st). room s)"

lemma loop_settles:
  assumes "loop_inv env st" "has_slices st" "\<exists>sg \<in> set (la_segments st). sg_type (ps_seg sg) \<noteq> PT_NULL"
    and "st = assign_round env assigned s" "sizes (la_chunk s) = sizes (la_chunk st)"
  shows "\<exists>u. layout_loop env new True st = Some u \<and> settled env u \<and> map ps_seg (la_segments u) = map ps_seg (la_segments st)"
  using assms
proof (induction "total_room st - length (ph_entries (la_ph st))" arbitrary: st new assigned s rule: less_induct)
  case less
  let ?xs = "ph_entries (la_ph st)"
  note inv = less.prems(1) [unfolded loop_inv_def]
  have pos: "\<forall>sg \<in> set (la_segments st). sg_type (ps_seg sg) \<noteq> PT_NULL \<longrightarrow> need sg > 0"
    using less.prems(2) by (auto simp: need_def has_slices_def)
  have "ph_next (la_ph st) \<le> length ?xs" using inv by simp
  from add_segments_result [OF _ this, of "la_segments st" env new] inv less.prems(3) pos
  obtain sgs new' u where r: "add_segments env (la_segments st) new st = Some (sgs, new', u)"
    and same: "map ps_seg sgs = map ps_seg (la_segments st)" "map ps_slices sgs = map ps_slices (la_segments st)"
    and ph: "la_ph u = \<lparr>ph_entries = all_headers env sgs @ drop (needed (la_segments st)) ?xs, ph_next = needed (la_segments st)\<rparr>"
    and hu: "header_room env u" and cu: "needed (la_segments st) \<le> length ?xs \<longrightarrow> la_chunk u = la_chunk st"
    and new': "new' \<longleftrightarrow> needed (la_segments st) > length ?xs"
    by auto
  have n: "needed sgs = needed (la_segments st)" using same by (rule needed_cong)
  have drop: "drop (needed (la_segments st)) ?xs = []" using inv by simp
  let ?u = "u\<lparr>la_segments := sgs\<rparr>"
  show ?case
  proof (cases new')
    case False
    then have c: "la_chunk ?u = la_chunk (assign_round env assigned s)" using cu new' less.prems(4) by simp
    have e: "ph_entries (la_ph ?u) = all_headers env (la_segments ?u)" using ph drop by simp
    have h: "header_room env ?u" using hu by (simp add: header_room_def)
    have "sizes (la_chunk s) Program_header = sizes (la_chunk ?u) Program_header"
      unfolding c less.prems(4) [symmetric] less.prems(5) ..
    with c e h have "settled env ?u" unfolding settled_def by blast
    moreover have "layout_loop env new True st = Some ?u"
      using r False by (subst layout_loop.simps) simp
    ultimately show ?thesis using same by auto
  next
    case True
    let ?v = "assign_round env True ?u"
    have ready: "\<forall>sg \<in> set sgs. seg_ready sg" using ready_cong [OF same] inv by blast
    have "has_slices ?u" unfolding has_slices_def
      using same less.prems(2) slices_cong [of sgs "la_segments st"] by (simp add: has_slices_def)
    moreover have l: "length (ph_entries (la_ph u)) = needed sgs" using ph drop n by (simp add: length_all_headers)
    moreover have "header_room env ?u" using hu by (simp add: header_room_def)
    ultimately have v: "loop_inv env ?v" "has_slices ?v" "map ps_seg (la_segments ?v) = map ps_seg sgs"
      "ph_entries (la_ph ?v) = ph_entries (la_ph u)" "sizes (la_chunk ?v) = sizes (la_chunk u)"
      using assign_round_inv [of ?u env True] ready by simp_all
    have "total_room ?v = total_room st" using v(3) same by (simp add: total_room_def)
    moreover have "length ?xs < needed sgs" using True new' n by simp
    moreover have "needed sgs \<le> total_room st"
      using needed_room [OF ready] unfolding total_room_def same(1) [symmetric] by (simp add: comp_def)
    ultimately have "total_room ?v - length (ph_entries (la_ph ?v)) < total_room st - length ?xs"
      using v(4) l by simp
    moreover have "\<exists>sg \<in> set (la_segments ?v). sg_type (ps_seg sg) \<noteq> PT_NULL"
      using less.prems(3) v(3) same by (metis (no_types, lifting) image_iff list.set_map)
    ultimately obtain w where "layout_loop env True True ?v = Some w" "settled env w" "map ps_seg (la_segments w) = map ps_seg (la_segments ?v)"
      using less.hyps [of ?v True ?u True] v(1,2,5) by auto
    moreover have "layout_loop env new True st = layout_loop env True True ?v"
      using r True by (subst layout_loop.simps) simp
    ultimately show ?thesis using v(3) same by auto
  qed
qed

section \<open>The loop ends\<close>

lemma chunks_header [simp]:
  "sizes (chunks_of env effect t) Program_header = (0, 0)"
  by (simp add: sizes_def chunks_of_def header_chunk_def)

lemma prepend_headers_result:
  assumes "\<exists>sg \<in> set (la_segments st). sg_type (ps_seg sg) = PT_LOAD" "\<forall>sg \<in> set (la_segments st). sg_chunks (ps_seg sg) \<noteq> []"
    and "\<forall>sg \<in> set (la_segments st). ps_slices sg = []"
  shows "\<exists>u. prepend_headers overridden st = Some u \<and> la_ph u = la_ph st \<and> sizes (la_chunk u) = sizes (la_chunk st) \<and>
    (\<exists>before sg after. la_segments st = before @ sg # after \<and> sg_type (ps_seg sg) = PT_LOAD \<and>
      (\<forall>b \<in> set before. sg_type (ps_seg b) \<noteq> PT_LOAD) \<and>
      la_segments u = before @ sg\<lparr>ps_seg := segment_prepend Elf_header (segment_prepend Program_header (ps_seg sg))\<rparr> # after)"
proof -
  let ?P = "\<lambda>sg. sg_type (ps_seg sg) \<noteq> PT_LOAD"
  let ?before = "takeWhile ?P (la_segments st)"
  obtain sg after where d: "dropWhile ?P (la_segments st) = sg # after" "sg_type (ps_seg sg) = PT_LOAD"
    using assms(1) by (metis (mono_tags, lifting) dropWhile_eq_Nil_conv list.exhaust list.sel(1) hd_dropWhile)
  have split: "la_segments st = ?before @ sg # after" by (metis d(1) takeWhile_dropWhile_id)
  then have "sg \<in> set (la_segments st)" by (metis in_set_conv_decomp)
  then obtain h hs where h: "sg_chunks (ps_seg sg) = h # hs" using assms(2) by (cases "sg_chunks (ps_seg sg)") auto
  have b: "\<forall>b \<in> set ?before. ?P b" by (metis set_takeWhileD)
  let ?chunk = "if overridden h then la_chunk st else (la_chunk st)(h := (la_chunk st h)\<lparr>ck_align := sg_align (ps_seg sg)\<rparr>)"
  have "sizes ?chunk = sizes (la_chunk st)" by (auto simp: sizes_def)
  moreover define u where "u = st\<lparr>la_chunk := ?chunk, la_segments := ?before @
      sg\<lparr>ps_seg := segment_prepend Elf_header (segment_prepend Program_header (ps_seg sg))\<rparr> # after\<rparr>"
  moreover have "prepend_headers overridden st = Some u"
    unfolding prepend_headers_def d(1) u_def by (simp add: h)
  moreover have "la_ph u = la_ph st" "la_chunk u = ?chunk" "la_segments u = ?before @
      sg\<lparr>ps_seg := segment_prepend Elf_header (segment_prepend Program_header (ps_seg sg))\<rparr> # after"
    by (simp_all add: u_def)
  ultimately show ?thesis using d(2) b split by (intro exI [of _ u] conjI) (simp_all, blast)
qed

text \<open>C16: Assigning addresses ends. When every segment has chunks and one is loadable, the loop over the program headers
  comes to an end whatever the sizes of the chunks are. Then there is one header for every slice of a loadable
  segment and one for every other segment but those of type PT_NULL, in the order of the segments, the chunk of the
  headers is as large as they are, and the addresses come from a round in which it had that size already.\<close>

theorem program_headers_settle:
  fixes sorter env effect
  assumes "\<And>sgs. mset (sorter sgs) = mset sgs"
    and "\<forall>p \<in> set (tl_segments t). sg_chunks (snd p) \<noteq> []" "\<exists>p \<in> set (tl_segments t). sg_type (snd p) = PT_LOAD"
  shows "\<exists>st assigned s. assignVirtualAddress sorter env effect t = Some st \<and>
    ph_entries (la_ph st) = concat (map (headers_of env) (filter (\<lambda>sg. sg_type (ps_seg sg) \<noteq> PT_NULL) (la_segments st))) \<and>
    ck_fsize (la_chunk st Program_header) = sizeof_Phdr env * of_nat (length (ph_entries (la_ph st))) \<and>
    la_chunk st = la_chunk (assign_round env assigned s) \<and>
    ck_fsize (la_chunk s Program_header) = ck_fsize (la_chunk st Program_header) \<and>
    (\<exists>before sg after. mset (before @ sg # after) = mset (map snd (tl_segments t)) \<and> sg_type sg = PT_LOAD \<and>
      map ps_seg (la_segments st) = before @ segment_prepend Elf_header (segment_prepend Program_header sg) # after)"
proof -
  let ?sgs = "sorter (map (place_segment \<circ> snd) (tl_segments t))"
  define st0 where "st0 = \<lparr>la_chunk = chunks_of env effect t, la_segments = ?sgs, la_ph = \<lparr>ph_entries = [], ph_next = 0\<rparr>\<rparr>"
  have m: "mset ?sgs = mset (map (place_segment \<circ> snd) (tl_segments t))" by (rule assms(1))
  then have set0: "set (la_segments st0) = (place_segment \<circ> snd) ` set (tl_segments t)"
    by (metis (no_types, lifting) addresses.select_convs(2) list.set_map set_mset_mset st0_def)
  have segs: "mset (map ps_seg (la_segments st0)) = mset (map snd (tl_segments t))"
    using arg_cong [OF m, of "image_mset ps_seg"] by (simp add: st0_def place_segment_def comp_def image_mset.compositionality)
  have "\<exists>sg \<in> set (la_segments st0). sg_type (ps_seg sg) = PT_LOAD" "\<forall>sg \<in> set (la_segments st0). sg_chunks (ps_seg sg) \<noteq> []"
    "\<forall>sg \<in> set (la_segments st0). ps_slices sg = []"
    using assms(2,3) by (auto simp: set0 place_segment_def)
  from prepend_headers_result [OF this, of "uses_output_alignment t"] obtain st1 before sg after where
    1: "prepend_headers (uses_output_alignment t) st0 = Some st1" "la_ph st1 = la_ph st0" "sizes (la_chunk st1) = sizes (la_chunk st0)"
    and split: "la_segments st0 = before @ sg # after" "sg_type (ps_seg sg) = PT_LOAD"
    and segs1: "la_segments st1 = before @ sg\<lparr>ps_seg := segment_prepend Elf_header (segment_prepend Program_header (ps_seg sg))\<rparr> # after"
    by blast
  have plain: "sg_chunks (ps_seg x) \<noteq> [] \<and> ps_slices x = []" if "x \<in> set (la_segments st0)" for x
    using that assms(2) by (auto simp: set0 place_segment_def)
  have ready: "\<forall>sg \<in> set (la_segments st1). seg_ready sg"
    using plain unfolding split segs1 by (auto simp: seg_ready_def starts_ok_def segment_prepend_def)
  have room: "header_room env st1"
    using 1 by (simp add: header_room_def st0_def Let_def)
  have loadable: "\<exists>sg \<in> set (la_segments st1). sg_type (ps_seg sg) \<noteq> PT_NULL"
    using split(2) load_not_null by (auto simp: segs1 segment_prepend_def)
  have ph1: "la_ph st1 = \<lparr>ph_entries = [], ph_next = 0\<rparr>" using 1(2) by (simp add: st0_def)
  obtain sgs2 new2 u where r: "add_segments env (la_segments st1) True st1 = Some (sgs2, new2, u)"
    and same: "map ps_seg sgs2 = map ps_seg (la_segments st1)" "map ps_slices sgs2 = map ps_slices (la_segments st1)"
    and ph: "la_ph u = \<lparr>ph_entries = all_headers env sgs2, ph_next = needed (la_segments st1)\<rparr>" and hu: "header_room env u"
    using add_segments_result [OF ready _ room, of True] by (auto simp: ph1)
  let ?u = "u\<lparr>la_segments := sgs2\<rparr>" and ?v = "assign_round env False (u\<lparr>la_segments := sgs2\<rparr>)"
  have "\<forall>sg \<in> set sgs2. seg_ready sg" using ready_cong [OF same] ready by blast
  moreover have "length (ph_entries (la_ph u)) \<le> needed sgs2" by (simp add: ph length_all_headers)
  ultimately have v: "loop_inv env ?v \<and> has_slices ?v \<and> map ps_seg (la_segments ?v) = map ps_seg sgs2 \<and>
      sizes (la_chunk ?v) = sizes (la_chunk ?u)"
    using assign_round_inv [of ?u env False] hu by (simp add: header_room_def)
  have "\<exists>sg \<in> set (la_segments ?v). sg_type (ps_seg sg) \<noteq> PT_NULL"
    using loadable v same(1) by (metis (no_types, lifting) image_iff list.set_map)
  then obtain w where w: "layout_loop env new2 True ?v = Some w" "settled env w" "map ps_seg (la_segments w) = map ps_seg (la_segments ?v)"
    using loop_settles [of env ?v False ?u new2] v by auto
  have "layout_loop env True False st1 = Some w"
    using r w(1) by (subst layout_loop.simps) simp
  moreover have "tl_segments t \<noteq> []" using assms(3) by auto
  ultimately have result: "assignVirtualAddress sorter env effect t = Some w"
    using 1(1) by (simp add: assignVirtualAddress_def st0_def [symmetric] Let_def)
  have e: "ph_entries (la_ph w) = concat (map (headers_of env) (filter (\<lambda>sg. sg_type (ps_seg sg) \<noteq> PT_NULL) (la_segments w)))"
    and h: "ck_fsize (la_chunk w Program_header) = sizeof_Phdr env * of_nat (length (ph_entries (la_ph w)))"
    using w(2) by (simp_all add: settled_def all_headers_def header_room_def sizes_def Let_def)
  obtain assigned s where c: "la_chunk w = la_chunk (assign_round env assigned s)"
    "ck_fsize (la_chunk s Program_header) = ck_fsize (la_chunk w Program_header)"
    using w(2) by (auto simp: settled_def sizes_def)
  have "map ps_seg (la_segments w) = map ps_seg before @ segment_prepend Elf_header (segment_prepend Program_header (ps_seg sg)) # map ps_seg after"
    using w(3) v same(1) by (simp add: segs1)
  moreover have "mset (map ps_seg before @ ps_seg sg # map ps_seg after) = mset (map snd (tl_segments t))"
    using segs by (simp add: split(1))
  ultimately show ?thesis using result e h c split(2) by blast
qed

definition two_segments :: target_layout where
  "two_segments =
     \<lparr>tl_objects = (\<lambda>i. \<lparr>ls_kind = K_AtomSection, ls_elf = new_section\<lparr>sec_order := ORDER_TEXT, sec_flags := SHF_ALLOC\<rparr>,
        ls_input = ''T'', ls_output = ''T'', ls_archive = [], ls_member = [], ls_loadable = True, ls_hasSegment = True,
        ls_first = Some 0, ls_segment = PT_LOAD, ls_ordinal = 1\<rparr>),
      tl_sections = [0], tl_outputs = [],
      tl_segments = [(Load SHF_ALLOC, (new_segment PT_LOAD)\<lparr>sg_chunks := [Sect 0]\<rparr>),
        (Headers, (new_segment PT_PHDR)\<lparr>sg_chunks := [Elf_header, Program_header]\<rparr>)], tl_sema = new_sema\<rparr>"

definition small_seg_env :: seg_env where
  "small_seg_env = \<lparr>pageSize = 0x1000, alignSegments = True, outputMagic = DEFAULT_magic\<rparr>"

theorem program_headers_settle_witness:
  "\<exists>st. assignVirtualAddress rev \<lparr>ae_seg = small_seg_env, is64Bits = True, baseAddress = 0x400000\<rparr> (\<lambda>_ p. p) two_segments = Some st \<and>
    ck_fsize (la_chunk st Program_header) = 56 * of_nat (length (ph_entries (la_ph st))) \<and>
    (\<exists>sg \<in> set (la_segments st). sg_chunks (ps_seg sg) = [Elf_header, Program_header, Sect 0])"
proof -
  let ?env = "\<lparr>ae_seg = small_seg_env, is64Bits = True, baseAddress = 0x400000\<rparr>"
  have t: "tl_segments two_segments = [(Load SHF_ALLOC, (new_segment PT_LOAD)\<lparr>sg_chunks := [Sect 0]\<rparr>),
        (Headers, (new_segment PT_PHDR)\<lparr>sg_chunks := [Elf_header, Program_header]\<rparr>)]"
    by (simp add: two_segments_def)
  have "mset (rev sgs) = mset sgs" for sgs :: "placed_segment list" by simp
  moreover have "\<forall>p \<in> set (tl_segments two_segments). sg_chunks (snd p) \<noteq> []"
    "\<exists>p \<in> set (tl_segments two_segments). sg_type (snd p) = PT_LOAD"
    unfolding t by (simp_all add: new_segment_def)
  ultimately obtain st before sg after where st: "assignVirtualAddress rev ?env (\<lambda>_ p. p) two_segments = Some st"
    and h: "ck_fsize (la_chunk st Program_header) = sizeof_Phdr ?env * of_nat (length (ph_entries (la_ph st)))"
    and m: "mset (before @ sg # after) = mset (map snd (tl_segments two_segments))" "sg_type sg = PT_LOAD"
    and s: "map ps_seg (la_segments st) = before @ segment_prepend Elf_header (segment_prepend Program_header sg) # after"
    using program_headers_settle [of rev two_segments ?env "\<lambda>_ p. p"] by blast
  have "sg \<in> set (map snd (tl_segments two_segments))" using arg_cong [OF m(1), of set_mset] by auto
  with m(2) load_not_null have "sg_chunks sg = [Sect 0]" by (auto simp: t new_segment_def)
  then have "\<exists>p \<in> set (map ps_seg (la_segments st)). sg_chunks p = [Elf_header, Program_header, Sect 0]"
    unfolding s by (simp add: segment_prepend_def)
  with st h show ?thesis by (auto simp: sizeof_Phdr_def)
qed

end
