(* ===== verification/Spec2Isabelle.thy ===== *)
theory Spec2Isabelle
  imports Dead_Strip Resolution Reloc_X86_64 Reloc_AArch64 Reloc_ARM Reloc_Mips
    X86_64_Redirects Elf_Dynamic Script_Grammar Script_Layout Segment_Assignment Address_Settles
begin

text \<open>
  A verification development for lld, the LLVM linker: the core linker (symbol resolution, coalescing, dead
  stripping), linker scripts, and of its ELF port the relocation pass of x86-64, the relocation handlers and the
  layout of the output.

  The program. A reader turns each input file into atoms (include/lld/Core): defined, undefined, shared
  library and absolute atoms, joined by references. The resolver (lib/Core/Resolver.cpp) walks the input
  list, enters the atoms in the symbol table (lib/Core/SymbolTable.cpp), which decides by name and content
  which atom stands for which, redirects the references, removes what is coalesced away or not live and hands
  the rest to the passes of the target, which add the entries of the GOT and the PLT that references need, and to
  the writer. The ELF writer lays the atoms out, copies their contents into the output buffer and
  has the target's relocation handler patch it (lib/ReaderWriter/ELF).

  Theories.
  \<^item> Lld_Prelude: machine integers (\<open>u8\<close> to \<open>u64\<close> are words; signed types are the same words, read by
    \<open>sint\<close>), the range tests and sign extension of llvm/Support/MathExtras.h, results that may fail, the
    output buffer as bytes with the little-endian loads and stores of llvm/Support/Endian.h, and the contract
    \<open>le_cell\<close> of such a pair of accesses.
  \<^item> Atoms: atoms, references, files and the options of the linking context. C++ objects with identity are
    numbers; \<open>store\<close> maps them to what they hold.
  \<^item> Symbol_Table: every operation of SymbolTable.cpp. Its lemmas keep an invariant (\<open>symtab_inv\<close>: each entered
    atom's chain of replacements ends at the atom the name table holds) and compare outcomes by strength.
  \<^item> Resolver: every operation of Resolver.cpp, with FileArchive::find. A result is an option of a sum: \<open>None\<close> is
    a run that does not end, \<open>Inl\<close> a fatal error. Loops the C++ leaves open-ended are \<open>partial_function\<close>s, so
    that they end is proved, not assumed.
  \<^item> Resolution: the resolution loop ends; the locale \<open>undef_handler\<close> states what the loop relies on when it asks
    a library for undefined symbols, and is interpreted for archives and for shared libraries. The redirection of
    references ends exactly when no replacements form a cycle, and the atoms of a successful link are characterised.
  \<^item> Dead_Strip: marking ends, and what is kept is what is reachable. Resolver_Frame: the loop over the inputs changes no
    object and marks none (by fixpoint induction, without assumptions on the inputs).
  \<^item> Reloc_Pass, Got_Plt, X86_64_Pass, X86_64_Redirects: the atoms a relocation pass makes (Atoms.h, Simple.h), its tables, the
    static and the dynamic pass of x86-64 (X86_64RelocationPass.cpp), and that every reference ends at what stands
    for its target. The locale \<open>reloc_pass\<close> states what the loop over the references relies on and is interpreted for both
    passes. Types and sizes of shared library symbols and the numbers of the relocations are the parameter \<open>pass_env\<close>.
  \<^item> Relocation: the section writer and the contract \<open>reloc_handler\<close> of a target's handler (it touches only the
    bytes of its relocation and depends on no others), from which independence of the order of writing
    follows; interpreted for each of the four handlers.
  \<^item> Reloc_X86_64, Reloc_AArch64, Reloc_ARM, Reloc_Mips: every relocation of the handlers. How the numbers of
    relocations name kinds is the table of llvm/Support/ELF.h, which is not in the repository: it is the
    parameter \<open>kindOf\<close>. The properties decode the patched instruction the way the processor reads it and
    compare with the address the reference stands for.

  \<^item> Atom_Section: sections of atoms and output sections (SectionChunks.cpp); the atoms of a section do not overlap and
    are aligned.
  \<^item> Elf_Tables, Elf_Hash, Elf_Dynamic: the tables lld makes itself (SectionChunks.cpp): string and symbol tables, the hash
    section, dynamic relocations and the dynamic section. Each is compared with what its reader finds: names read back
    up to the zero byte, the search of the dynamic linker, the list of tags and values. \<open>elf_hash\<close> and the
    bytes of the ELF structures are parameters, for they are LLVM's.
  \<^item> Rounding, Segment_Layout: segments, their slices, addresses and file offsets (SegmentChunks.cpp). Addresses and offsets
    are \<open>u64\<close>; that the offsets follow the addresses is proved with wrap-around, that chunks do not overlap without. An
    expression of a linker script is a function on the position.

  \<^item> Script_Lexer, Script_Parser, Script_Expr, Script_Commands, Script_Sema: linker scripts (LinkerScript.cpp), from characters
    to the order of sections. A parser returns a value, a null pointer, undefined behaviour or the end of its
    fuel; \<open>fuel\<close>, the number of characters and tokens left, is always enough, since every loop is an \<open>eating_loop\<close>:
    its body takes a token. What the values of llvm::ELF's PT constants are is the parameter \<open>elf\<close>.
  \<^item> Script_Grammar, Script_Layout: the expression parser is compared with a grammar and with the printer, evaluation
    with arithmetic on integers, wildcards with patterns of a shell (a star that finds no continuation makes the code leave
    the name: \<open>None\<close>), the order of sections with the order
    in the script.

  \<^item> Target_Layout, Address_Layout: how the writer arranges the output (TargetLayout.cpp, HeaderChunks.cpp): which section an atom
    goes to, the order of the sections, output sections, segments, and the loop that assigns addresses and offsets
    until the table of the program headers has its size. An object of the layout is a number, as in the code a pointer;
    the sections found by hash tables are found by key. The result of \<open>std::sort\<close> on segments is a parameter, for the order of
    equal ones is open, and \<open>std::stable_sort\<close> is an insertion sort, because the comparison of a script writes to caches.
  \<^item> Segment_Assignment, Address_Settles: sections are neither lost nor doubled, segments have the type of their key, and
    the loop over the program headers ends. The loop is a \<open>partial_function\<close>, so its end is proved.

  Hash tables of the code are association lists in insertion order, so an order that C++ leaves open is
  one particular order here; the iteration over pointer sets is in the order of the numbers. Assertions are
  error values. Debug output is left out.

  Not modelled: readers and writers that rest on llvm::object and llvm::yaml, the relocation passes of
  the other targets, the overrides of the layout by the MIPS, ARM and Hexagon targets, the bytes of the ELF header and of the section headers, the text
  that linker script commands are printed as, the Mach-O and PE/COFF ports and the drivers.
\<close>

end
